(* ===== verification/Go_Prelude.thy ===== *)
theory Go_Prelude
  imports Main "HOL-Library.Word" "HOL-Library.Signed_Division" "HOL-Library.Monad_Syntax"
begin

text \<open>
  Shared ground of the development: names for Go's machine types, panics as \<open>None\<close>, slices that
  share a backing array, the byte orders of the standard library's \<^verbatim>\<open>encoding/binary\<close>,
  \<^verbatim>\<open>sort.Search\<close>, and two interfaces used by several components: fixed-width codecs and
  invariants of event-driven state machines.
\<close>

unbundle bit_operations_syntax

type_synonym byte = "8 word"
type_synonym bytes = "byte list"
type_synonym u16 = "16 word"
type_synonym u32 = "32 word"
type_synonym u64 = "64 word"

text \<open>
  A computation that may panic (nil dereference, index out of range, an explicit
  \<^verbatim>\<open>panic\<close> or \<^verbatim>\<open>log.Fatal\<close>): \<open>None\<close> is the panic. A pointer that may be nil is an option too, so
  dereferencing it is a monadic step.
\<close>

type_synonym 'a go = "'a option"

text \<open>
  Go's integer division truncates towards zero, as \<open>sdiv\<close> and \<open>smod\<close> do; on non-negative operands
  they are HOL's.
\<close>

lemma sdiv_nonneg [simp]: "0 \<le> a \<Longrightarrow> 0 \<le> b \<Longrightarrow> a sdiv b = a div b" for a b :: int
  by (cases "a = 0"; cases "b = 0") (simp_all add: signed_divide_int_def)

lemma smod_nonneg [simp]: "0 \<le> a \<Longrightarrow> 0 \<le> b \<Longrightarrow> a smod b = a mod b" for a b :: int
  by (rule smod_mod_positive)

named_theorems bit_count \<comment> \<open>facts that move a bit index through the byte encodings\<close>
named_theorems slice_simps \<comment> \<open>contents, length and well-formedness of slices\<close>

subsection \<open>Slices\<close>

text \<open>
  A slice is the part of its backing array from its first element up to its capacity, and its
  length. Two slices of one array are modelled by passing the changed array back to the caller.
\<close>

record 'a slice =
  backing :: "'a list"
  slen :: nat

definition slice_ok :: "'a slice \<Rightarrow> bool" where
  "slice_ok s \<longleftrightarrow> slen s \<le> length (backing s)"

definition contents :: "'a slice \<Rightarrow> 'a list" where
  "contents s = take (slen s) (backing s)"

definition of_list :: "'a list \<Rightarrow> 'a slice" where
  "of_list xs = \<lparr>backing = xs, slen = length xs\<rparr>"

text \<open>
  \<^verbatim>\<open>append(s, ys...)\<close>: within the capacity the backing array is overwritten in place, so the
  caller's own slice sees the new array; otherwise a new array is allocated. The first component
  is the result, the second the caller's slice after the call.
\<close>

definition go_append :: "'a slice \<Rightarrow> 'a list \<Rightarrow> 'a slice \<times> 'a slice" where
  "go_append s ys =
     (if slen s + length ys \<le> length (backing s)
      then let arr = take (slen s) (backing s) @ ys @ drop (slen s + length ys) (backing s)
           in (\<lparr>backing = arr, slen = slen s + length ys\<rparr>, s\<lparr>backing := arr\<rparr>)
      else (of_list (contents s @ ys), s))"

lemma contents_of_list [simp, slice_simps]: "contents (of_list xs) = xs"
  by (simp add: contents_def of_list_def)

lemma slice_ok_of_list [simp, slice_simps]: "slice_ok (of_list xs)"
  by (simp add: slice_ok_def of_list_def)

lemma length_contents [slice_simps]: "slice_ok s \<Longrightarrow> length (contents s) = slen s"
  by (simp add: contents_def slice_ok_def)

lemma contents_go_append [slice_simps]:
  "slice_ok s \<Longrightarrow> contents (fst (go_append s ys)) = contents s @ ys"
  by (auto simp: go_append_def Let_def contents_def slice_ok_def of_list_def)

lemma slice_ok_go_append [slice_simps]: "slice_ok s \<Longrightarrow> slice_ok (fst (go_append s ys))"
  by (auto simp: go_append_def Let_def slice_ok_def of_list_def)

subsection \<open>Byte orders\<close>

definition le_bytes :: "nat \<Rightarrow> 'a::len word \<Rightarrow> bytes" where
  "le_bytes n w = map (\<lambda>i. ucast (drop_bit (8 * i) w)) [0..<n]"

primrec le_word :: "bytes \<Rightarrow> 'a::len word" where
  "le_word [] = 0"
| "le_word (b # bs) = ucast b OR push_bit 8 (le_word bs)"

definition be_bytes :: "nat \<Rightarrow> 'a::len word \<Rightarrow> bytes" where
  "be_bytes n w = rev (le_bytes n w)"

definition be_word :: "bytes \<Rightarrow> 'a::len word" where
  "be_word bs = le_word (rev bs)"

lemma length_le_bytes [simp]: "length (le_bytes n w) = n"
  by (simp add: le_bytes_def)

lemma length_be_bytes [simp]: "length (be_bytes n w) = n"
  by (simp add: be_bytes_def)

lemma nth_le_bytes [simp]: "i < n \<Longrightarrow> le_bytes n w ! i = ucast (drop_bit (8 * i) w)"
  by (simp add: le_bytes_def)

lemma bit_le_bytes [bit_count]:
  "i < n \<Longrightarrow> k < 8 \<Longrightarrow> bit (le_bytes n w ! i) k \<longleftrightarrow> bit w (8 * i + k)"
  by (simp add: bit_ucast_iff bit_drop_bit_eq)

lemma bit_le_word [bit_count]:
  "bit (le_word bs :: 'a::len word) n \<longleftrightarrow>
     n < LENGTH('a) \<and> n div 8 < length bs \<and> bit (bs ! (n div 8)) (n mod 8)"
proof (induction bs arbitrary: n)
  case Nil
  then show ?case by simp
next
  case (Cons b bs)
  show ?case
  proof (cases "n < 8")
    case True
    then show ?thesis
      by (auto simp: bit_or_iff bit_ucast_iff bit_push_bit_iff)
  next
    case False
    then obtain m where m: "n = m + 8" by (metis add.commute le_add_diff_inverse not_le)
    have "\<not> bit b n" using False by (auto dest: bit_imp_le_length)
    moreover have "(m + 8) div 8 = Suc (m div 8)" by simp
    ultimately show ?thesis
      using Cons.IH [of m] by (auto simp: m bit_or_iff bit_ucast_iff bit_push_bit_iff)
  qed
qed

lemma le_word_le_bytes: "LENGTH('a) \<le> 8 * n \<Longrightarrow> le_word (le_bytes n w) = (w :: 'a::len word)"
proof (rule bit_eqI)
  fix k
  assume n: "LENGTH('a) \<le> 8 * n" and "possible_bit TYPE('a word) k"
  then have k: "k < LENGTH('a)" by simp
  then have "k div 8 < n" using n by (simp add: less_mult_imp_div_less mult.commute)
  then show "bit (le_word (le_bytes n w) :: 'a word) k = bit w k"
    using k by (simp add: bit_le_word bit_le_bytes del: nth_le_bytes)
qed

lemma le_bytes_le_word:
  assumes "length bs = n" and "LENGTH('a) = 8 * n"
  shows "le_bytes n (le_word bs :: 'a::len word) = bs"
proof (rule nth_equalityI)
  fix i
  assume "i < length (le_bytes n (le_word bs :: 'a word))"
  then have i: "i < n" by simp
  show "le_bytes n (le_word bs :: 'a word) ! i = bs ! i"
  proof (rule bit_eqI)
    fix k
    assume "possible_bit TYPE(8 word) k"
    then have k: "k < 8" by simp
    then have "8 * i + k < LENGTH('a)" using i assms by simp
    then show "bit (le_bytes n (le_word bs :: 'a word) ! i) k = bit (bs ! i) k"
      using i k assms(1) by (simp add: bit_le_bytes bit_le_word del: nth_le_bytes)
  qed
qed (use assms in simp)

lemma be_word_be_bytes: "LENGTH('a) \<le> 8 * n \<Longrightarrow> be_word (be_bytes n w) = (w :: 'a::len word)"
  by (simp add: be_word_def be_bytes_def le_word_le_bytes)

lemma be_bytes_be_word:
  assumes "length bs = n" and "LENGTH('a) = 8 * n"
  shows "be_bytes n (be_word bs :: 'a::len word) = bs"
  using assms by (simp add: be_word_def be_bytes_def le_bytes_le_word)

subsection \<open>The length of a number in bits\<close>

text \<open>\<^verbatim>\<open>bits.Len\<close> and \<^verbatim>\<open>bits.Len8\<close>: the number of bits needed to write a number.\<close>

fun bit_length :: "nat \<Rightarrow> nat" where
  "bit_length n = (if n = 0 then 0 else Suc (bit_length (n div 2)))"

declare bit_length.simps [simp del]

definition Len8 :: "byte \<Rightarrow> nat" where
  "Len8 b = bit_length (unat b)"

lemma bit_length_gt: "k < bit_length n \<longleftrightarrow> 2 ^ k \<le> n"
proof (induction n arbitrary: k rule: bit_length.induct)
  case (1 n)
  show ?case
  proof (cases "n = 0")
    case True
    then show ?thesis by (simp add: bit_length.simps)
  next
    case False
    have "2 ^ k \<le> n \<longleftrightarrow> k = 0 \<or> 2 ^ (k - 1) \<le> n div 2"
      using False by (cases k) (auto simp: )
    moreover have "k < bit_length n \<longleftrightarrow> k = 0 \<or> k - 1 < bit_length (n div 2)"
      using False by (cases k) (simp_all add: bit_length.simps [of n])
    ultimately show ?thesis using "1"[OF False, of "k-1"] by simp
  qed
qed

lemma bit_length_pos: "0 < n \<Longrightarrow> bit_length n = Suc (bit_length (n div 2))"
  by (simp add: bit_length.simps [of n])

lemma unat_less_exp: "unat w < 2 ^ LENGTH('a)" for w :: "'a::len word"
  by (rule unsigned_less)

lemma bit_length_eqI: "2 ^ m \<le> n \<Longrightarrow> n < 2 ^ Suc m \<Longrightarrow> bit_length n = Suc m"
  using bit_length_gt [of m n] bit_length_gt [of "Suc m" n] by simp

lemma bit_length_0 [simp]: "bit_length 0 = 0" 
  by (simp add: bit_length.simps)

subsection \<open>Fixed-width codecs\<close>

locale fixed_codec =
  fixes enc :: "'a \<Rightarrow> bytes"
    and dec :: "bytes \<Rightarrow> 'a"
    and width :: nat
  assumes enc_length: "length (enc x) = width"
    and dec_enc: "dec (enc x) = x"
    and enc_dec: "length bs = width \<Longrightarrow> enc (dec bs) = bs"
begin

lemma enc_inject: "enc x = enc y \<longleftrightarrow> x = y"
  by (metis dec_enc)

lemma dec_prefix: "dec (take width (enc x @ rest)) = x"
  by (simp add: enc_length dec_enc)

lemma drop_field: "drop width (enc x @ rest) = rest"
  by (simp add: enc_length)

lemma dec_inj_on: "inj_on dec {bs. length bs = width}"
  by (rule inj_onI) (metis enc_dec mem_Collect_eq)

end

interpretation le64: fixed_codec "le_bytes 8 :: u64 \<Rightarrow> bytes" le_word 8
  by unfold_locales (simp_all add: le_word_le_bytes le_bytes_le_word)

interpretation be64: fixed_codec "be_bytes 8 :: u64 \<Rightarrow> bytes" be_word 8
  by unfold_locales (simp_all add: be_word_be_bytes be_bytes_be_word)

interpretation be32: fixed_codec "be_bytes 4 :: u32 \<Rightarrow> bytes" be_word 4
  by unfold_locales (simp_all add: be_word_be_bytes be_bytes_be_word)

interpretation be16: fixed_codec "be_bytes 2 :: u16 \<Rightarrow> bytes" be_word 2
  by unfold_locales (simp_all add: be_word_be_bytes be_bytes_be_word)

subsection \<open>Event-driven state machines\<close>

text \<open>
  A component whose operations run one after the other (under its mutex, or in its dispatch
  goroutine) is a step function over events. \<open>admissible\<close> says which events the environment may
  issue in a state.
\<close>

primrec run_ok :: "('s \<Rightarrow> 'e \<Rightarrow> 's) \<Rightarrow> ('s \<Rightarrow> 'e \<Rightarrow> bool) \<Rightarrow> 's \<Rightarrow> 'e list \<Rightarrow> bool" where
  "run_ok step admissible s [] = True"
| "run_ok step admissible s (e # es) =
     (admissible s e \<and> run_ok step admissible (step s e) es)"

lemma run_ok_append:
  "run_ok step admissible s (es @ fs) \<longleftrightarrow> run_ok step admissible s es \<and> run_ok step admissible (foldl step s es) fs"
  by (induction es arbitrary: s) simp_all

lemma run_ok_const: "run_ok step (\<lambda>s e. Q) s es \<longleftrightarrow> es = [] \<or> Q"
  by (induction es arbitrary: s) auto

lemma foldl_bind_None [simp]: "foldl (\<lambda>s i. Option.bind s (f i)) None is = None"
  by (induction "is") simp_all

locale event_machine =
  fixes step :: "'s \<Rightarrow> 'e \<Rightarrow> 's"
    and admissible :: "'s \<Rightarrow> 'e \<Rightarrow> bool"
    and inv :: "'s \<Rightarrow> bool"
  assumes inv_step: "inv s \<Longrightarrow> admissible s e \<Longrightarrow> inv (step s e)"
begin

lemma inv_run: "inv s \<Longrightarrow> run_ok step admissible s es \<Longrightarrow> inv (foldl step s es)"
  by (induction es arbitrary: s) (auto intro: inv_step)

lemma inv_run_prefix:
  "inv s \<Longrightarrow> run_ok step admissible s (es @ fs) \<Longrightarrow> inv (foldl step s es)"
  by (induction es arbitrary: s) (auto intro: inv_step)

end

subsection \<open>Binary search\<close>

text \<open>
  \<^verbatim>\<open>sort.Search(n, f)\<close> of the standard library, as its loop
  \<^verbatim>\<open>i, j := 0, n; for i < j { h := (i+j)/2; if !f(h) { i = h+1 } else { j = h } }; return i\<close>.
\<close>

function search_loop :: "(nat \<Rightarrow> bool) \<Rightarrow> nat \<Rightarrow> nat \<Rightarrow> nat" where
  "search_loop f i j =
     (if i < j
      then let h = (i + j) div 2
           in if \<not> f h then search_loop f (h + 1) j else search_loop f i h
      else i)"
  by pat_completeness auto
termination
  by (relation "measure (\<lambda>(f, i, j). j - i)") auto

declare search_loop.simps [simp del]

definition go_search :: "nat \<Rightarrow> (nat \<Rightarrow> bool) \<Rightarrow> nat" where
  "go_search n f = search_loop f 0 n"

lemma search_loop_spec:
  assumes "i \<le> j" and "\<forall>a b. a \<le> b \<longrightarrow> b < n \<longrightarrow> f a \<longrightarrow> f b" and "j \<le> n"
    and "\<forall>k < i. \<not> f k" and "\<forall>k. j \<le> k \<longrightarrow> k < n \<longrightarrow> f k"
  shows "search_loop f i j \<le> n \<and> (\<forall>k < search_loop f i j. \<not> f k) \<and>
         (\<forall>k. search_loop f i j \<le> k \<and> k < n \<longrightarrow> f k)"
  using assms
proof (induction f i j rule: search_loop.induct)
  case (1 f i j)
  show ?case
  proof (cases "i < j")
    case False
    with "1.prems" have "i = j" by simp
    then show ?thesis using "1.prems" by (simp add: search_loop.simps)
  next
    case True
    define h where "h = (i + j) div 2"
    have h: "i \<le> h" "h < j" using True by (auto simp: h_def)
    show ?thesis
    proof (cases "f h")
      case False
      have "h < n" using h "1.prems"(3) by simp
      then have low: "\<forall>k < h + 1. \<not> f k"
        using False "1.prems"(2) by (metis Suc_eq_plus1 less_Suc_eq_le)
      have eq: "search_loop f i j = search_loop f (h + 1) j"
        using True False by (simp add: search_loop.simps [of f i j] Let_def h_def)
      have "h + 1 \<le> j" using h by simp
      then show ?thesis
        unfolding eq
        by (rule "1.IH"(1) [OF True h_def False _ "1.prems"(2) "1.prems"(3) low "1.prems"(5)])
    next
      case fh: True
      have high: "\<forall>k. h \<le> k \<longrightarrow> k < n \<longrightarrow> f k"
        using fh "1.prems"(2) by blast
      have eq: "search_loop f i j = search_loop f i h"
        using True fh by (simp add: search_loop.simps [of f i j] Let_def h_def)
      have "\<not> \<not> f h" and "h \<le> n" using h "1.prems"(3) fh by simp_all
      then show ?thesis
        unfolding eq
        by (rule "1.IH"(2) [OF True h_def _ h(1) "1.prems"(2) _ "1.prems"(4) high])
    qed
  qed
qed

lemma go_search_spec:
  assumes "\<And>a b. a \<le> b \<Longrightarrow> b < n \<Longrightarrow> f a \<Longrightarrow> f b"
  shows "go_search n f \<le> n" and "k < go_search n f \<Longrightarrow> \<not> f k"
    and "go_search n f \<le> k \<Longrightarrow> k < n \<Longrightarrow> f k"
proof -
  have "search_loop f 0 n \<le> n \<and> (\<forall>k < search_loop f 0 n. \<not> f k) \<and>
        (\<forall>k. search_loop f 0 n \<le> k \<and> k < n \<longrightarrow> f k)"
    by (rule search_loop_spec) (use assms in auto)
  then show "go_search n f \<le> n" and "k < go_search n f \<Longrightarrow> \<not> f k"
    and "go_search n f \<le> k \<Longrightarrow> k < n \<Longrightarrow> f k"
    by (auto simp: go_search_def)
qed

end
