(* ===== verification/Go_Net.thy ===== *)
theory Go_Net
  imports Go_Prelude
begin

text \<open>
  What the discovery protocols use of the standard library and of \<^verbatim>\<open>math.ReadBits\<close>: decimal and hexadecimal text, big integers as
  bytes, and network addresses (\<^verbatim>\<open>net.IP\<close>, \<^verbatim>\<open>net.UDPAddr\<close>).
\<close>

subsection \<open>Text\<close>

fun show_nat :: "nat \<Rightarrow> string" where
  "show_nat n = (if n < 10 then [char_of (48 + n)] else show_nat (n div 10) @ [char_of (48 + n mod 10)])"

declare show_nat.simps [simp del]

definition show_int :: "int \<Rightarrow> string" where
  "show_int k = (if k < 0 then ''-'' @ show_nat (nat (- k)) else show_nat (nat k))"

definition hex_digit :: "nat \<Rightarrow> char" where
  "hex_digit n = ''0123456789abcdef'' ! n"

definition hex_EncodeToString :: "bytes \<Rightarrow> string" where
  "hex_EncodeToString bs = concat (map (\<lambda>b. [hex_digit (unat b div 16), hex_digit (unat b mod 16)]) bs)"

subsection \<open>Numbers as bytes\<close>

text \<open>\<^verbatim>\<open>math.ReadBits\<close>: the low bytes of a number, big-endian.\<close>

definition nat_bytes :: "nat \<Rightarrow> nat \<Rightarrow> bytes" where
  "nat_bytes k x = rev (map (\<lambda>i. of_nat (x div 256 ^ i)) [0..<k])"

text \<open>\<^verbatim>\<open>big.Int.SetBytes\<close>.\<close>

definition bytes_nat :: "bytes \<Rightarrow> nat" where
  "bytes_nat bs = foldl (\<lambda>x b. 256 * x + unat b) 0 bs"

lemma length_nat_bytes [simp]: "length (nat_bytes k x) = k"
  by (simp add: nat_bytes_def)

lemma bytes_nat_nat_bytes: "bytes_nat (nat_bytes k x) = x mod 256 ^ k"
proof -
  have "foldl (\<lambda>x b. 256 * x + unat b) a (rev (map (\<lambda>i. of_nat (x div 256 ^ i)) [0..<k]) :: bytes) = 256 ^ k * a + x mod 256 ^ k" for a
  proof (induction k arbitrary: a)
    case (Suc k)
    have "unat (of_nat (x div 256 ^ k) :: byte) = x div 256 ^ k mod 256" by (simp add: unat_of_nat)
    moreover have "x mod 256 ^ Suc k = 256 ^ k * (x div 256 ^ k mod 256) + x mod 256 ^ k"
      by (metis mod_mult2_eq power_Suc2)
    ultimately show ?case using Suc.IH [of "256 * a + unat (of_nat (x div 256 ^ k) :: byte)"] by (simp add: algebra_simps)
  qed simp
  from this [of 0] show ?thesis by (simp add: bytes_nat_def nat_bytes_def)
qed

subsection \<open>Addresses\<close>

text \<open>\<^verbatim>\<open>net.IP\<close> and \<^verbatim>\<open>net.UDPAddr\<close> of the standard library.\<close>

type_synonym UDPAddr = "bytes \<times> int"

definition v4InV6Prefix :: bytes where "v4InV6Prefix = replicate 10 0 @ [255, 255]"

definition To4 :: "bytes \<Rightarrow> bytes option" where
  "To4 ip = (if length ip = 4 then Some ip
             else if length ip = 16 \<and> take 12 ip = v4InV6Prefix then Some (drop 12 ip)
             else None)"

definition IP_Equal :: "bytes \<Rightarrow> bytes \<Rightarrow> bool" where
  "IP_Equal ip x =
     (if length ip = length x then ip = x
      else if length ip = 4 \<and> length x = 16 then take 12 x = v4InV6Prefix \<and> ip = drop 12 x
      else if length ip = 16 \<and> length x = 4 then take 12 ip = v4InV6Prefix \<and> drop 12 ip = x
      else False)"

fun show_hex :: "nat \<Rightarrow> string" where
  "show_hex k = (if k < 16 then [hex_digit k] else show_hex (k div 16) @ [hex_digit (k mod 16)])"

fun join :: "string \<Rightarrow> string list \<Rightarrow> string" where
  "join sep [] = []"
| "join sep [x] = x"
| "join sep (x # xs) = x @ sep @ join sep xs"

definition zero_run :: "nat list \<Rightarrow> nat \<times> nat" where
  "zero_run gs = foldl (\<lambda>(e, l) i. let n = length (takeWhile (\<lambda>g. g = 0) (drop i gs)) in if n > l then (i, n) else (e, l))
                   (0, 0) [0..<8]"

definition IP_String :: "bytes \<Rightarrow> string" where
  "IP_String ip =
     (case To4 ip of
        Some v4 \<Rightarrow> join ''.'' (map (\<lambda>b. show_nat (unat b)) v4)
      | None \<Rightarrow>
          if length ip \<noteq> 16 then ''?'' @ hex_EncodeToString ip
          else let gs = map (\<lambda>i. unat (ip ! (2 * i)) * 256 + unat (ip ! (2 * i + 1))) [0..<8]
               in case zero_run gs of (e, l) \<Rightarrow>
                    if l \<le> 1 then join '':'' (map show_hex gs)
                    else join '':'' (map show_hex (take e gs)) @ ''::'' @ join '':'' (map show_hex (drop (e + l) gs)))"

definition UDPAddr_String :: "UDPAddr \<Rightarrow> string" where
  "UDPAddr_String addr =
     (let host = (if fst addr = [] then [] else IP_String (fst addr)); port = show_int (snd addr)
      in if CHR '':'' \<in> set host then ''['' @ host @ '']:'' @ port else host @ '':'' @ port)"

end
