(* ===== verification/Bytesutil.thy ===== *)
theory Bytesutil
  imports Go_Prelude
begin

text \<open>
  Package \<^verbatim>\<open>pkg/encoding/bytesutil\<close> (\<^verbatim>\<open>bytes.go\<close>): integers and booleans to and from byte
  slices, copies and padding, and bit lists. Functions that write through their argument or
  \<^verbatim>\<open>append\<close> to it work on slices and also return the caller's slice as they leave it; a nil-able
  slice is an option. Lemmas: round trips, in-place reversal, bit-list reads after writes, and the
  position of the highest bit.
\<close>

datatype bytes_error =
    InputEmptyOrNil
  | IndexNegative int
  | IndexOutOfRange u64

subsection \<open>Standard library calls\<close>

definition PutUint64LE :: "bytes \<Rightarrow> u64 \<Rightarrow> bytes" where
  "PutUint64LE buf x = le_bytes 8 x @ drop 8 buf"

definition PutUint64BE :: "bytes \<Rightarrow> u64 \<Rightarrow> bytes" where
  "PutUint64BE buf x = be_bytes 8 x @ drop 8 buf"

definition Uint64LE :: "bytes \<Rightarrow> u64" where
  "Uint64LE b = le_word (take 8 b)"

definition Uint64BE :: "bytes \<Rightarrow> u64" where
  "Uint64BE b = be_word (take 8 b)"

text \<open>\<^verbatim>\<open>var y [n]byte; copy(y[:], x)\<close>\<close>

definition copy_array :: "nat \<Rightarrow> bytes \<Rightarrow> bytes" where
  "copy_array n x = take n x @ replicate (n - length x) 0"

subsection \<open>Integers to bytes\<close>

definition ToBytes :: "u64 \<Rightarrow> int \<Rightarrow> bytes" where
  "ToBytes x length0 =
     (let len = if length0 < 0 then 0 else length0;
          makeLength = if len < 8 then 8 else len
      in take (nat len) (PutUint64LE (replicate (nat makeLength) 0) x))"

definition Bytes1 :: "u64 \<Rightarrow> bytes" where
  "Bytes1 x = take 1 (PutUint64LE (replicate 8 0) x)"

definition Bytes2 :: "u64 \<Rightarrow> bytes" where
  "Bytes2 x = take 2 (PutUint64LE (replicate 8 0) x)"

definition Bytes3 :: "u64 \<Rightarrow> bytes" where
  "Bytes3 x = take 3 (PutUint64LE (replicate 8 0) x)"

definition Bytes4 :: "u64 \<Rightarrow> bytes" where
  "Bytes4 x = take 4 (PutUint64LE (replicate 8 0) x)"

definition Bytes8 :: "u64 \<Rightarrow> bytes" where
  "Bytes8 x = PutUint64LE (replicate 8 0) x"

definition Bytes32 :: "u64 \<Rightarrow> bytes" where
  "Bytes32 x = PutUint64LE (replicate 32 0) x"

subsection \<open>Bytes to integers and arrays\<close>

text \<open>
  \<open>FromBytes4\<close> appends four zero bytes to \<^verbatim>\<open>x[:4]\<close>: the second component is the caller's slice
  afterwards.
\<close>

definition FromBytes4 :: "byte slice \<Rightarrow> u64 \<times> byte slice" where
  "FromBytes4 x =
     (if slen x < 4 then (0, x)
      else let (r, x4) = go_append (x\<lparr>slen := 4\<rparr>) (replicate 4 0)
           in (Uint64LE (contents r), x\<lparr>backing := backing x4\<rparr>))"

definition FromBytes8 :: "bytes \<Rightarrow> u64" where
  "FromBytes8 x = (if length x < 8 then 0 else Uint64LE x)"

definition ToBytes4 :: "bytes \<Rightarrow> bytes" where
  "ToBytes4 x = copy_array 4 x"

definition ToBytes32 :: "bytes \<Rightarrow> bytes" where
  "ToBytes32 x = copy_array 32 x"

definition ToBytes48 :: "bytes \<Rightarrow> bytes" where
  "ToBytes48 x = copy_array 48 x"

definition ToBytes64 :: "bytes \<Rightarrow> bytes" where
  "ToBytes64 x = copy_array 64 x"

definition ToBytes96 :: "bytes \<Rightarrow> bytes" where
  "ToBytes96 x = copy_array 96 x"

definition ToBool :: "byte \<Rightarrow> bool" where
  "ToBool x \<longleftrightarrow> x AND 1 = 1"

definition FromBytes2 :: "bytes \<Rightarrow> u16" where
  "FromBytes2 x = (if length x < 2 then 0 else le_word (take 2 x))"

definition FromBool :: "bool \<Rightarrow> byte" where
  "FromBool x = (if x then 1 else 0)"

definition FromBytes48 :: "bytes \<Rightarrow> bytes" where
  "FromBytes48 x = x"

definition FromBytes48Array :: "bytes list \<Rightarrow> bytes list" where
  "FromBytes48Array x = map FromBytes48 x"

definition Trunc :: "bytes \<Rightarrow> bytes" where
  "Trunc x = (if length x > 6 then take 6 x else x)"

definition ToLowInt64 :: "bytes \<Rightarrow> int" where
  "ToLowInt64 x = (if length x < 8 then 0 else sint (Uint64LE (take 8 x)))"

subsection \<open>Copies, reversal and padding\<close>

definition SafeCopyRootAtIndex ::
    "bytes list option \<Rightarrow> u64 \<Rightarrow> bytes_error + bytes option" where
  "SafeCopyRootAtIndex input idx =
     (case input of
        None \<Rightarrow> Inr None
      | Some roots \<Rightarrow>
          if of_nat (length roots) \<le> idx then Inl (IndexOutOfRange idx)
          else Inr (Some (copy_array 32 (roots ! unat idx))))"

definition SafeCopyBytes :: "bytes option \<Rightarrow> bytes option" where
  "SafeCopyBytes cp = (case cp of None \<Rightarrow> None | Some c \<Rightarrow> Some (copy_array (length c) c))"

definition SafeCopy2dBytes :: "bytes option list option \<Rightarrow> bytes option list option" where
  "SafeCopy2dBytes ary = (case ary of None \<Rightarrow> None | Some as \<Rightarrow> Some (map SafeCopyBytes as))"

text \<open>The loop of \<open>ReverseBytes32Slice\<close>, swapping in place while \<^verbatim>\<open>i < j\<close>.\<close>

function reverse_loop :: "'a list \<Rightarrow> nat \<Rightarrow> nat \<Rightarrow> 'a list" where
  "reverse_loop arr i j =
     (if i < j then reverse_loop (arr[i := arr ! j, j := arr ! i]) (i + 1) (j - 1) else arr)"
  by pat_completeness auto
termination
  by (relation "measure (\<lambda>(arr, i, j). j - i)") auto

declare reverse_loop.simps [simp del]

definition ReverseBytes32Slice :: "bytes list \<Rightarrow> bytes list" where
  "ReverseBytes32Slice arr = reverse_loop arr 0 (length arr - 1)"

definition PadTo :: "byte slice \<Rightarrow> int \<Rightarrow> byte slice \<times> byte slice" where
  "PadTo b sz =
     (if int (slen b) > sz then (b, b)
      else go_append b (replicate (nat (sz - int (slen b))) 0))"

subsection \<open>Bit lists\<close>

text \<open>
  \<open>SetBit\<close> on a negative index panics: the shift count or the slice index is negative. The
  result and the caller's slice share their array unless \<^verbatim>\<open>append\<close> allocated a new one.
\<close>

definition SetBit :: "byte slice \<Rightarrow> int \<Rightarrow> (byte slice \<times> byte slice) go" where
  "SetBit b i =
     (if i < 0 then None
      else
        let (r, b') =
              (if i \<ge> int (slen b) * 8
               then let h = (i + (8 - i smod 8)) sdiv 8
                    in go_append b (replicate (nat (h - int (slen b))) 0)
               else (b, b));
            grown = (i \<ge> int (slen b) * 8 \<and>
                     slen r > length (backing b));
            k = nat (i sdiv 8);
            arr = (backing r)[k := (backing r ! k) OR push_bit (nat (i smod 8)) 1]
        in Some (r\<lparr>backing := arr\<rparr>, if grown then b' else b'\<lparr>backing := arr\<rparr>))"

definition ClearBit :: "byte slice \<Rightarrow> int \<Rightarrow> byte slice" where
  "ClearBit b i =
     (if i \<ge> int (slen b) * 8 \<or> i < 0 then b
      else let k = nat (i sdiv 8)
           in b\<lparr>backing := (backing b)[k := (backing b ! k) AND NOT (push_bit (nat (i smod 8)) 1)]\<rparr>)"

definition MakeEmptyBitlists :: "int \<Rightarrow> bytes go" where
  "MakeEmptyBitlists i =
     (let n = (i + (8 - i smod 8)) sdiv 8
      in if n < 0 then None else Some (replicate (nat n) 0))"

text \<open>The loops run the index down to 0; the counter here is the index plus one.\<close>

fun highest_loop :: "bytes \<Rightarrow> nat \<Rightarrow> nat" where
  "highest_loop b 0 = 0"
| "highest_loop b (Suc i) =
     (if b ! i = 0 then highest_loop b i else Len8 (b ! i) + i * 8)"

definition HighestBitIndex :: "bytes \<Rightarrow> bytes_error + nat" where
  "HighestBitIndex b =
     (if length b = 0 then Inl InputEmptyOrNil else Inr (highest_loop b (length b)))"

fun highest_at_loop :: "bytes \<Rightarrow> nat \<Rightarrow> byte \<Rightarrow> nat \<Rightarrow> nat" where
  "highest_at_loop b index msk 0 = 0"
| "highest_at_loop b index msk (Suc i) =
     (let msk' = (if index div 8 > i then 0xff else msk);
          masked = (b ! i) AND msk';
          minBitsMasked = Len8 masked
      in if b ! i = 0 \<or> (minBitsMasked = 0 \<and> index div 8 \<le> i)
         then highest_at_loop b index msk' i
         else minBitsMasked + i * 8)"

definition HighestBitIndexAt :: "bytes \<Rightarrow> int \<Rightarrow> bytes_error + nat" where
  "HighestBitIndexAt b index =
     (if length b = 0 then Inl InputEmptyOrNil
      else if index < 0 then Inl (IndexNegative index)
      else
        let idx = nat index;
            start = (if idx div 8 \<ge> length b then length b - 1 else idx div 8);
            msk = push_bit (idx mod 8) 1 - 1
        in Inr (highest_at_loop b idx msk (Suc start)))"

subsection \<open>Big-endian conversions and hexadecimal text\<close>

definition Uint64ToBytesLittleEndian :: "u64 \<Rightarrow> bytes" where
  "Uint64ToBytesLittleEndian i = PutUint64LE (replicate 8 0) i"

definition Uint64ToBytesBigEndian :: "u64 \<Rightarrow> bytes" where
  "Uint64ToBytesBigEndian i = PutUint64BE (replicate 8 0) i"

definition BytesToUint64BigEndian :: "bytes \<Rightarrow> u64" where
  "BytesToUint64BigEndian b = (if length b < 8 then 0 else Uint64BE b)"

definition EpochToBytesLittleEndian :: "u64 \<Rightarrow> bytes" where
  "EpochToBytesLittleEndian i = Uint64ToBytesLittleEndian i"

definition EpochToBytesBigEndian :: "u64 \<Rightarrow> bytes" where
  "EpochToBytesBigEndian i = Uint64ToBytesBigEndian i"

definition BytesToEpochBigEndian :: "bytes \<Rightarrow> u64" where
  "BytesToEpochBigEndian b = BytesToUint64BigEndian b"

definition SlotToBytesBigEndian :: "u64 \<Rightarrow> bytes" where
  "SlotToBytesBigEndian i = Uint64ToBytesBigEndian i"

definition BytesToSlotBigEndian :: "bytes \<Rightarrow> u64" where
  "BytesToSlotBigEndian b = BytesToUint64BigEndian b"

text \<open>The regular expression \<^verbatim>\<open>^0x[0-9a-fA-F]+$\<close>, over bytes.\<close>

definition is_hex_digit :: "byte \<Rightarrow> bool" where
  "is_hex_digit c \<longleftrightarrow>
     (48 \<le> c \<and> c \<le> 57) \<or> (97 \<le> c \<and> c \<le> 102) \<or> (65 \<le> c \<and> c \<le> 70)"

definition IsHex :: "bytes option \<Rightarrow> bool" where
  "IsHex b \<longleftrightarrow>
     (case b of
        Some (z # x # d # ds) \<Rightarrow> z = 48 \<and> x = 120 \<and> list_all is_hex_digit (d # ds)
      | _ \<Rightarrow> False)"

subsection \<open>Reference definitions for bit lists\<close>

text \<open>Bit \<open>k\<close> of a bit list, and a bit-by-bit search for the highest one below \<open>n\<close>.\<close>

definition bit_at :: "bytes \<Rightarrow> nat \<Rightarrow> bool" where
  "bit_at b k \<longleftrightarrow> k div 8 < length b \<and> bit (b ! (k div 8)) (k mod 8)"

fun highest_ref :: "bytes \<Rightarrow> nat \<Rightarrow> nat" where
  "highest_ref b 0 = 0"
| "highest_ref b (Suc n) = (if bit_at b n then Suc n else highest_ref b n)"

subsection \<open>The highest bit\<close>

lemma Len8_0 [simp]: "Len8 0 = 0"
  by (simp add: Len8_def)

lemma Len8_eq_0 [simp]: "Len8 b = 0 \<longleftrightarrow> b = 0"
  using bit_length_gt [of 0 "unat b"] by (auto simp: Len8_def unsigned_eq_0_iff Suc_le_eq)

lemma Len8_take_bit_Suc:
  assumes "m < 8" and "bit (w :: byte) m"
  shows "Len8 (take_bit (Suc m) w) = Suc m"
proof -
  have "unat (take_bit (Suc m) w) < 2 ^ Suc m"
    using take_bit_nat_less_exp [of "Suc m" "unat w"] by (simp add: unsigned_take_bit_eq)
  moreover have "2 ^ m \<le> unat (take_bit (Suc m) w)"
  proof -
    have "bit (unat (take_bit (Suc m) w)) m"
      using assms by (simp add: unsigned_take_bit_eq bit_take_bit_iff bit_unsigned_iff)
    then show ?thesis
      by (metis bit_iff_odd div_less even_zero not_le)
  qed
  ultimately show ?thesis
    unfolding Len8_def by (rule bit_length_eqI [rotated])
qed

lemma take_bit_Suc_clear: "\<not> bit (w :: byte) m \<Longrightarrow> take_bit (Suc m) w = take_bit m w"
  by (rule bit_eqI) (auto simp: bit_take_bit_iff less_Suc_eq)

lemma highest_ref_block:
  assumes "i < length b" and "m \<le> 8"
  shows "highest_ref b (8 * i + m) =
    (if take_bit m (b ! i) = 0 then highest_ref b (8 * i) else Len8 (take_bit m (b ! i)) + i * 8)"
  using assms(2)
proof (induction m)
  case 0
  then show ?case by simp
next
  case (Suc m)
  have "bit_at b (8 * i + m) \<longleftrightarrow> bit (b ! i) m"
    using assms(1) Suc.prems by (simp add: bit_at_def)
  then show ?case
    using Suc Len8_take_bit_Suc [of m "b ! i"] take_bit_Suc_clear [of "b ! i" m]
    by (auto simp: Suc_le_eq simp flip: Len8_eq_0)
qed

lemma take_bit_byte [simp]: "take_bit 8 (w :: byte) = w"
  by (rule take_bit_word_eq_self) simp

lemma byte_and_ff [simp]: "(w :: byte) AND 0xff = w"
proof -
  have "(0xff :: byte) = - 1" by simp
  then show ?thesis by (simp only: and.right_neutral)
qed

lemma highest_loop_ref: "n \<le> length b \<Longrightarrow> highest_loop b n = highest_ref b (8 * n)"
proof (induction n)
  case (Suc n)
  then show ?case using highest_ref_block [of n b 8] by (simp add: add.commute)
qed simp

lemma highest_at_loop_below:
  "n \<le> length b \<Longrightarrow> n \<le> idx div 8 \<Longrightarrow> highest_at_loop b idx msk n = highest_ref b (8 * n)"
proof (induction n arbitrary: msk)
  case (Suc n)
  then show ?case using highest_ref_block [of n b 8] by (simp add: add.commute)
qed simp

lemma highest_ref_beyond: "8 * length b \<le> n \<Longrightarrow> highest_ref b n = highest_ref b (8 * length b)"
proof (induction n)
  case (Suc n)
  show ?case
  proof (cases "8 * length b = Suc n")
    case False
    with Suc.prems have "8 * length b \<le> n" by simp
    moreover from this have "\<not> n div 8 < length b" by linarith
    ultimately show ?thesis using Suc.IH by (simp add: bit_at_def)
  qed simp
qed simp

lemma HighestBitIndex_ref:
  "b \<noteq> [] \<Longrightarrow> HighestBitIndex b = Inr (highest_ref b (8 * length b))"
  by (simp add: HighestBitIndex_def highest_loop_ref)

lemma and_low_mask: "(w :: byte) AND (2 ^ m - 1) = take_bit m w"
  by (simp add: take_bit_eq_mask mask_eq_exp_minus_1)

lemma highest_at_loop_start:
  assumes "idx div 8 < length b"
  shows "highest_at_loop b idx (push_bit (idx mod 8) 1 - 1) (Suc (idx div 8)) = highest_ref b idx"
  using assms highest_ref_block [of "idx div 8" b "idx mod 8"]
  by (auto simp add: highest_at_loop_below and_low_mask Let_def)

lemma reverse_loop_length [simp]: "length (reverse_loop arr i j) = length arr"
  by (induction arr i j rule: reverse_loop.induct) (subst reverse_loop.simps, simp)

lemma reverse_loop_nth:
  assumes "i + j + 1 = length arr" and "k < length arr"
  shows "reverse_loop arr i j ! k = (if i \<le> k \<and> k \<le> j then arr ! (i + j - k) else arr ! k)"
  using assms
proof (induction arr i j rule: reverse_loop.induct)
  case (1 arr i j)
  show ?case
  proof (cases "i < j")
    case False
    then have "i \<le> k \<Longrightarrow> k \<le> j \<Longrightarrow> i + j - k = k" by linarith
    with False show ?thesis by (subst reverse_loop.simps) auto
  next
    case True
    then have "i + 1 + (j - 1) + 1 = length (arr[i := arr ! j, j := arr ! i])"
      using "1.prems" by simp
    from "1.IH" [OF True this] "1.prems" True show ?thesis
      by (subst reverse_loop.simps) (auto simp: nth_list_update)
  qed
qed

subsection \<open>Encodings, copies and bit writes\<close>

lemma le_word_ToBytes: "le_word (ToBytes x n) = take_bit (8 * nat n) x"
proof (rule bit_eqI)
  fix k
  assume "possible_bit TYPE(64 word) k"
  then have k: "k < 64" by simp
  have len: "length (ToBytes x n) = nat n"
    by (auto simp: ToBytes_def PutUint64LE_def Let_def)
  have kd: "k div 8 < 8" using k by linarith
  have *: "ToBytes x n ! i = le_bytes 8 x ! i" if "i < nat n" "i < 8" for i
    using that by (auto simp: ToBytes_def PutUint64LE_def Let_def nth_append simp del: nth_le_bytes)
  have "k div 8 < nat n \<longleftrightarrow> k < 8 * nat n" by linarith
  moreover have "bit (le_bytes 8 x ! (k div 8)) (k mod 8) \<longleftrightarrow> bit x k"
    using kd by (simp add: bit_le_bytes del: nth_le_bytes)
  ultimately show "bit (le_word (ToBytes x n) :: u64) k = bit (take_bit (8 * nat n) x) k"
    using k kd * [of "k div 8"] by (auto simp: bit_le_word bit_take_bit_iff len)
qed

lemma length_ToBytes: "length (ToBytes x n) = nat n"
  by (auto simp: ToBytes_def PutUint64LE_def Let_def)

lemma Bytes_eq_ToBytes:
  "Bytes1 x = ToBytes x 1" "Bytes2 x = ToBytes x 2" "Bytes3 x = ToBytes x 3"
  "Bytes4 x = ToBytes x 4" "Bytes8 x = ToBytes x 8" "Bytes32 x = ToBytes x 32"
  by (simp_all add: Bytes1_def Bytes2_def Bytes3_def Bytes4_def Bytes8_def Bytes32_def
        ToBytes_def PutUint64LE_def)

lemma le_word_zeros [simp]: "le_word (xs @ replicate n 0) = le_word xs"
proof -
  have "le_word (replicate n 0) = (0 :: 'a::len word)" by (induction n) auto
  then show ?thesis by (induction xs) auto
qed

lemma FromBytes4_value:
  assumes "slice_ok s" and "4 \<le> slen s"
  shows "fst (FromBytes4 s) = le_word (take 4 (contents s))"
proof -
  have s4: "slice_ok (s\<lparr>slen := 4\<rparr>)" using assms by (simp add: slice_ok_def)
  have "contents (s\<lparr>slen := 4\<rparr>) = take 4 (contents s)"
    using assms by (simp add: contents_def min_def)
  then have "contents (fst (go_append (s\<lparr>slen := 4\<rparr>) (replicate 4 0))) = take 4 (contents s) @ replicate 4 0"
    using contents_go_append [OF s4, of "replicate 4 0"] by simp
  moreover have "length (take 4 (contents s)) = 4" using assms by (simp add: length_contents)
  ultimately show ?thesis
    using assms by (simp add: FromBytes4_def Uint64LE_def case_prod_beta)
qed

lemma FromBytes4_Bytes4: "fst (FromBytes4 (of_list (Bytes4 x))) = take_bit 32 x"
proof -
  have "length (Bytes4 x) = 4" by (simp add: Bytes_eq_ToBytes length_ToBytes)
  then show ?thesis
    using FromBytes4_value [of "of_list (Bytes4 x)"] le_word_ToBytes [of x 4]
    by (simp add: of_list_def slice_ok_def contents_def Bytes_eq_ToBytes)
qed

lemma bit_at_update_or:
  assumes "k < length xs"
  shows "bit_at (xs[k := xs ! k OR 2 ^ m]) j \<longleftrightarrow>
           bit_at xs j \<or> (j div 8 = k \<and> j mod 8 = m)"
  using assms by (auto simp: bit_at_def nth_list_update bit_or_iff bit_exp_iff)

lemma bit_at_update_and_not:
  assumes "k < length xs"
  shows "bit_at (xs[k := xs ! k AND NOT (2 ^ m)]) j \<longleftrightarrow>
           bit_at xs j \<and> \<not> (j div 8 = k \<and> j mod 8 = m)"
  using assms by (auto simp: bit_at_def nth_list_update bit_and_iff bit_not_iff bit_exp_iff)

lemma bit_at_append_zeros: "bit_at (xs @ replicate n 0) j \<longleftrightarrow> bit_at xs j"
  by (auto simp: bit_at_def nth_append)

lemma contents_backing_update:
  "k < slen s \<Longrightarrow> contents (s\<lparr>backing := (backing s)[k := v]\<rparr>) = (contents s)[k := v]"
  by (simp add: contents_def take_update_swap)

lemma nth_backing: "slice_ok s \<Longrightarrow> k < slen s \<Longrightarrow> backing s ! k = contents s ! k"
  by (simp add: contents_def)

lemma eq_iff_div_mod8: "j = i \<longleftrightarrow> j div 8 = i div 8 \<and> j mod 8 = i mod 8" for i j :: nat
  by (metis div_mult_mod_eq)

lemma contents_SetBit:
  assumes s: "slice_ok s" and i: "0 \<le> i"
  shows "\<exists>r c. SetBit s i = Some (r, c) \<and> slice_ok r \<and>
           (let xs = contents s @ replicate (nat i div 8 + 1 - slen s) 0; k = nat i div 8
            in contents r = xs[k := xs ! k OR push_bit (nat i mod 8) 1])"
proof -
  define k where "k = nat i div 8"
  define n where "n = k + 1 - slen s"
  define r where "r = (if i \<ge> int (slen s) * 8 then fst (go_append s (replicate n 0)) else s)"
  have k: "nat (i sdiv 8) = k" "nat (i smod 8) = nat i mod 8"
    using i by (simp_all add: k_def nat_div_distrib nat_mod_distrib)
  have ge: "i \<ge> int (slen s) * 8 \<longleftrightarrow> slen s \<le> k"
    using i unfolding k_def by linarith
  have h: "nat ((i + (8 - i smod 8)) sdiv 8 - int (slen s)) = n"
  proof -
    have "i + (8 - i smod 8) = 8 * (int k + 1)"
      using i by (simp add: k_def zdiv_int zmod_int minus_mod_eq_mult_div [symmetric])
    then show ?thesis by (simp add: n_def)
  qed
  have r: "contents r = contents s @ replicate n 0" "slice_ok r"
    using s ge by (auto simp: r_def n_def slice_simps)
  then have len: "k < slen r" "length (contents s) = slen s"
    using length_contents [OF r(2)] length_contents [OF s] by (simp_all add: n_def)
  define r' where "r' = r\<lparr>backing := (backing r)[k := backing r ! k OR push_bit (nat i mod 8) 1]\<rparr>"
  have "\<exists>c. SetBit s i = Some (r', c)"
    using i by (simp add: SetBit_def k h r_def r'_def case_prod_beta Let_def
                    del: sdiv_nonneg smod_nonneg)
  moreover have "slice_ok r'" using r(2) by (simp add: r'_def slice_ok_def)
  moreover have "contents r' = (contents r)[k := contents r ! k OR push_bit (nat i mod 8) 1]"
    using r(2) len(1) by (simp add: r'_def contents_backing_update nth_backing)
  ultimately show ?thesis
    using r(1) by (auto simp: k_def n_def Let_def)
qed

lemma BytesToUint64BigEndian_inverse: "BytesToUint64BigEndian (Uint64ToBytesBigEndian i) = i"
  by (simp add: BytesToUint64BigEndian_def Uint64ToBytesBigEndian_def PutUint64BE_def Uint64BE_def
        be64.dec_enc)

lemma copy_array_length [simp]: "length (copy_array n x) = n"
  by (simp add: copy_array_def)

lemma copy_array_same: "length x = n \<Longrightarrow> copy_array n x = x"
  by (simp add: copy_array_def)

lemma SafeCopyBytes_id: "SafeCopyBytes cp = cp"
  by (simp add: SafeCopyBytes_def copy_array_same split: option.split)

lemma SafeCopy2dBytes_id: "SafeCopy2dBytes ary = ary"
  by (simp add: SafeCopy2dBytes_def SafeCopyBytes_id map_idI split: option.split)

lemma contents_PadTo:
  "slice_ok b \<Longrightarrow> contents (fst (PadTo b sz)) = contents b @ replicate (nat (sz - int (slen b))) 0"
  by (auto simp: PadTo_def slice_simps)

lemma ToBool_FromBool [simp]: "ToBool (FromBool x) = x"
  by (simp add: ToBool_def FromBool_def)

lemma ClearBit_spec:
  assumes s: "slice_ok s"
  shows "slen (ClearBit s i) = slen s \<and>
         (\<forall>j. bit_at (contents (ClearBit s i)) j \<longleftrightarrow> bit_at (contents s) j \<and> int j \<noteq> i)"
proof (cases "i \<ge> int (slen s) * 8 \<or> i < 0")
  case True
  then have "\<not> (bit_at (contents s) j \<and> int j = i)" for j
    using length_contents [OF s] by (auto simp: bit_at_def)
  with True show ?thesis by (auto simp: ClearBit_def)
next
  case False
  define k where "k = nat i div 8"
  have k: "nat (i sdiv 8) = k" "nat (i smod 8) = nat i mod 8" "k < slen s"
    using False by (simp_all add: k_def nat_div_distrib nat_mod_distrib) linarith
  have "contents (ClearBit s i) = (contents s)[k := contents s ! k AND NOT (push_bit (nat i mod 8) 1)]"
    using False k s by (simp add: ClearBit_def contents_backing_update nth_backing Let_def
                    del: sdiv_nonneg smod_nonneg)
  moreover have "int j \<noteq> i \<longleftrightarrow> \<not> (j div 8 = k \<and> j mod 8 = nat i mod 8)" for j
  proof -
    have "int j = i \<longleftrightarrow> j = nat i" using False by auto
    also have "\<dots> \<longleftrightarrow> j div 8 = nat i div 8 \<and> j mod 8 = nat i mod 8" by (rule eq_iff_div_mod8)
    finally show ?thesis by (simp add: k_def)
  qed
  ultimately show ?thesis
    using k(3) length_contents [OF s] False by (auto simp: bit_at_update_and_not ClearBit_def Let_def)
qed

subsection \<open>Properties\<close>

text \<open>
  \<open>HighestBitIndexAt\<close>, which scans whole bytes under a mask, returns on every non-empty list and
  every non-negative index what a search bit by bit below the index returns.
\<close>

theorem HighestBitIndexAt_ref:
  "b \<noteq> [] \<Longrightarrow> HighestBitIndexAt b (int idx) = Inr (highest_ref b idx)"
proof (cases "idx div 8 < length b")
  case True
  assume "b \<noteq> []"
  with True show ?thesis
    using highest_at_loop_start [OF True]
    by (simp add: HighestBitIndexAt_def Let_def del: highest_at_loop.simps)
next
  case False
  assume b: "b \<noteq> []"
  then have "highest_at_loop b idx m (Suc (length b - 1)) = highest_ref b (8 * length b)" for m
    using False highest_at_loop_below [of "length b" b idx m] by simp
  moreover have "8 * length b \<le> idx" using False by linarith
  ultimately show ?thesis
    using b False highest_ref_beyond [of b idx]
    by (simp add: HighestBitIndexAt_def Let_def del: highest_at_loop.simps)
qed

theorem HighestBitIndexAt_ref_witness:
  "HighestBitIndexAt [0x0a, 0x80] (int 12) = Inr (highest_ref [0x0a, 0x80] 12) \<and>
   highest_ref [0x0a, 0x80] 12 = 4"
proof
  show "HighestBitIndexAt [0x0a, 0x80] (int 12) = Inr (highest_ref [0x0a, 0x80] 12)"
    by (rule HighestBitIndexAt_ref) simp
  show "highest_ref [0x0a, 0x80] 12 = 4" by code_simp
qed

text \<open>
  \<open>SetBit\<close> never panics on a non-negative index: it sets exactly the bit asked for, keeps every
  other bit, and grows the list to just the byte that holds the bit.
\<close>

theorem SetBit_spec:
  assumes s: "slice_ok s" and i: "0 \<le> i"
  shows "\<exists>r c. SetBit s i = Some (r, c) \<and> slice_ok r \<and>
           slen r = max (slen s) (nat i div 8 + 1) \<and>
           (\<forall>j. bit_at (contents r) j \<longleftrightarrow> j = nat i \<or> bit_at (contents s) j)"
proof -
  define xs where "xs = contents s @ replicate (nat i div 8 + 1 - slen s) 0"
  obtain r c where r: "SetBit s i = Some (r, c)" "slice_ok r"
    "contents r = xs[nat i div 8 := xs ! (nat i div 8) OR push_bit (nat i mod 8) 1]"
    using contents_SetBit [OF s i] by (auto simp: Let_def xs_def)
  have len: "length xs = max (slen s) (nat i div 8 + 1)"
    using length_contents [OF s] by (simp add: xs_def)
  then have "slen r = max (slen s) (nat i div 8 + 1)"
    using length_contents [OF r(2)] r(3) by simp
  moreover have "bit_at (contents r) j \<longleftrightarrow> j = nat i \<or> bit_at (contents s) j" for j
  proof -
    have "bit_at xs j \<longleftrightarrow> bit_at (contents s) j" by (simp add: xs_def bit_at_append_zeros)
    then show ?thesis
      using len by (auto simp: r(3) bit_at_update_or eq_iff_div_mod8 [of j])
  qed
  ultimately show ?thesis using r by blast
qed

theorem SetBit_spec_witness:
  "\<exists>r c. SetBit (of_list [1]) 10 = Some (r, c) \<and> slice_ok r \<and>
     slen r = max (slen (of_list [1 :: byte])) (nat 10 div 8 + 1) \<and>
     (\<forall>j. bit_at (contents r) j \<longleftrightarrow> j = nat 10 \<or> bit_at (contents (of_list [1])) j)"
  by (rule SetBit_spec) simp_all

text \<open>The in-place swapping loop of \<open>ReverseBytes32Slice\<close> reverses its argument.\<close>

theorem ReverseBytes32Slice_rev: "ReverseBytes32Slice arr = rev arr"
proof (cases "arr = []")
  case True
  then show ?thesis by (simp add: ReverseBytes32Slice_def reverse_loop.simps)
next
  case False
  then show ?thesis
    by (auto intro!: nth_equalityI simp: ReverseBytes32Slice_def reverse_loop_nth rev_nth)
qed

text \<open>
  \<open>ToBytes\<close> to eight or more bytes is undone by \<open>FromBytes8\<close>; to fewer bytes it keeps the value
  modulo the bytes kept, and the result always has the length asked for (negative means none).
\<close>

theorem ToBytes_roundtrip:
  "(8 \<le> n \<longrightarrow> FromBytes8 (ToBytes x n) = x) \<and> le_word (ToBytes x n) = take_bit (8 * nat n) x \<and>
   length (ToBytes x n) = nat n"
proof -
  have "8 \<le> n \<Longrightarrow> FromBytes8 (ToBytes x n) = x"
    by (auto simp: FromBytes8_def Uint64LE_def length_ToBytes)
       (simp add: ToBytes_def PutUint64LE_def Let_def le64.dec_enc)
  then show ?thesis by (simp add: le_word_ToBytes length_ToBytes)
qed

theorem ToBytes_roundtrip_witness:
  "FromBytes8 (ToBytes 258 8) = 258 \<and> le_word (ToBytes 258 8) = take_bit (8 * nat 8) (258 :: u64)"
  using ToBytes_roundtrip [of 8 258] by simp

text \<open>
  \<open>FromBytes4\<close> writes to its argument: on a slice of at least eight bytes it leaves the caller's
  bytes four to seven zeroed, because \<^verbatim>\<open>append\<close> reuses the caller's array.
\<close>

theorem FromBytes4_caller:
  assumes "slice_ok s" and "8 \<le> slen s"
  shows "contents (snd (FromBytes4 s)) = take 4 (contents s) @ replicate 4 0 @ drop 8 (contents s)"
  using assms
  by (simp add: FromBytes4_def go_append_def slice_ok_def contents_def Let_def min_def drop_take)
     arith

theorem FromBytes4_caller_witness:
  "contents (snd (FromBytes4 (of_list [1, 2, 3, 4, 5, 6, 7, 8]))) = [1, 2, 3, 4, 0, 0, 0, 0]"
  using FromBytes4_caller [of "of_list [1, 2, 3, 4, 5, 6, 7, 8]"]
  by (simp add: of_list_def slice_ok_def contents_def numeral_eq_Suc)

end
