(* ===== verification/Gindex.thy ===== *)
theory Gindex
  imports Bytesutil
begin

text \<open>
  Generalized indices (\<^verbatim>\<open>pkg/encoding/ssz/ztype/gindex.go\<close>): 64-bit arithmetic that wraps, as
  the code's \<^verbatim>\<open>tree.Gindex64\<close> does. The abstract view of an index is the path of left and right
  turns from the root; the lemmas show that the arithmetic is concatenation of paths.
\<close>

lemma unat_ge_3: "\<not> x \<le> 1 \<Longrightarrow> x \<noteq> 2 \<Longrightarrow> 3 \<le> unat x" for x :: u64
proof -
  assume "\<not> x \<le> 1" and "x \<noteq> 2"
  then have "unat x \<noteq> 0" "unat x \<noteq> 1" "unat x \<noteq> 2"
    by (auto simp: word_unat_eq_iff word_le_nat_alt)
  then show "3 \<le> unat x" by linarith
qed

function GetPowerOfTwoCeil :: "u64 \<Rightarrow> u64" where
  "GetPowerOfTwoCeil x =
     (if x \<le> 1 then 1
      else if x = 2 then 2
      else 2 * GetPowerOfTwoCeil ((x + 1) div 2))"
  by pat_completeness auto
termination
proof (relation "measure unat")
  fix x :: u64
  assume "\<not> x \<le> 1" and "x \<noteq> 2"
  then have "3 \<le> unat x" by (rule unat_ge_3)
  moreover have "unat (x + 1) \<le> unat x + 1" by (simp add: unat_word_ariths)
  ultimately show "((x + 1) div 2, x) \<in> measure unat" by (simp add: unat_div)
qed simp

declare GetPowerOfTwoCeil.simps [simp del]

function GetPowerOfTwoFloor :: "u64 \<Rightarrow> u64" where
  "GetPowerOfTwoFloor x =
     (if x \<le> 1 then 1
      else if x = 2 then 2
      else 2 * GetPowerOfTwoFloor (x div 2))"
  by pat_completeness auto
termination
  by (relation "measure unat") (auto simp: unat_div word_le_nat_alt)

declare GetPowerOfTwoFloor.simps [simp del]

definition ConcatGeneralizedIndices :: "u64 list \<Rightarrow> u64" where
  "ConcatGeneralizedIndices indices =
     foldl (\<lambda>o' i. o' * GetPowerOfTwoFloor i + (i - GetPowerOfTwoFloor i)) 1 indices"

subsection \<open>Powers of two\<close>

lemma GetPowerOfTwoFloor_unat:
  "x \<noteq> 0 \<Longrightarrow> unat (GetPowerOfTwoFloor x) = 2 ^ (bit_length (unat x) - 1)"
proof (induction x rule: GetPowerOfTwoFloor.induct)
  case (1 x)
  consider "x = 1" | "x = 2" | "3 \<le> unat x"
    using "1.prems" unat_ge_3 [of x] by (metis word_le_less_eq word_less_1)
  then show ?case
  proof cases
    case 3
    then have x: "\<not> x \<le> 1" "x \<noteq> 2" "x div 2 \<noteq> 0"
      by (auto simp: word_le_nat_alt word_unat_eq_iff unat_div)
    define k where "k = bit_length (unat x div 2) - 1"
    have bl: "bit_length (unat x) = Suc (bit_length (unat x div 2))"
      using 3 by (intro bit_length_pos) simp
    have "0 < bit_length (unat x div 2)" using 3 by (simp add: bit_length_gt)
    then have "2 ^ Suc k \<le> unat x"
      using bit_length_gt [of "Suc k" "unat x"] bl by (simp add: k_def)
    then have "(2 :: nat) ^ Suc k < 2 ^ 64"
      by (rule le_less_trans) (use unat_less_exp [of x] in simp)
    moreover have "unat (GetPowerOfTwoFloor (x div 2)) = 2 ^ k"
      using "1.IH" x by (simp add: k_def unat_div)
    ultimately show ?thesis
      using x bl \<open>0 < bit_length (unat x div 2)\<close>
      by (simp add: GetPowerOfTwoFloor.simps [of x] unat_word_ariths k_def
          flip: power_Suc)
  qed (simp_all add: GetPowerOfTwoFloor.simps bit_length.simps word_le_nat_alt)
qed


lemma GetPowerOfTwoCeil_unat:
  "x \<noteq> 0 \<Longrightarrow> unat x \<le> 2 ^ 63 \<Longrightarrow> unat (GetPowerOfTwoCeil x) = 2 ^ bit_length (unat x - 1)"
proof (induction x rule: GetPowerOfTwoCeil.induct)
  case (1 x)
  consider "x = 1" | "x = 2" | "3 \<le> unat x"
    using "1.prems" unat_ge_3 [of x] by (metis word_le_less_eq word_less_1)
  then show ?case
  proof cases
    case 3
    then have x: "\<not> x \<le> 1" "x \<noteq> 2"
      by (auto simp: word_le_nat_alt word_unat_eq_iff)
    have h: "unat ((x + 1) div 2) = (unat x + 1) div 2"
      using "1.prems"(2) by (simp add: unat_div unat_word_ariths)
    define k where "k = bit_length ((unat x - 1) div 2)"
    have k: "bit_length (unat x - 1) = Suc k"
      using 3 bit_length_pos [of "unat x - 1"] by (simp add: k_def)
    have half: "(unat x + 1) div 2 - 1 = (unat x - 1) div 2" using 3 by linarith
    have "\<not> 2 ^ 62 \<le> (unat x - 1) div 2" using "1.prems"(2) 3 by simp
    then have "k \<le> 62" using bit_length_gt [of 62 "(unat x - 1) div 2"] by (simp add: k_def)
    then have "(2 :: nat) ^ Suc k < 2 ^ 64" by (intro power_strict_increasing) simp_all
    moreover have "unat (GetPowerOfTwoCeil ((x + 1) div 2)) = 2 ^ k"
      using "1.IH" x h half 3 "1.prems"(2) by (simp add: k_def word_unat_eq_iff)
    ultimately show ?thesis
      using x by (simp add: GetPowerOfTwoCeil.simps [of x] unat_word_ariths k [simplified] flip: power_Suc)
  qed (simp_all add: GetPowerOfTwoCeil.simps bit_length.simps word_le_nat_alt)
qed

subsection \<open>Paths\<close>

text \<open>
  The index of the node reached from the root by a path (\<open>True\<close> turns right), and the value of
  the path's bits.
\<close>

definition path_bits :: "bool list \<Rightarrow> nat" where
  "path_bits p = foldl (\<lambda>g b. 2 * g + of_bool b) 0 p"

definition path_gindex :: "bool list \<Rightarrow> nat" where
  "path_gindex p = foldl (\<lambda>g b. 2 * g + of_bool b) 1 p"

lemma foldl_path: "foldl (\<lambda>g b. 2 * g + of_bool b) a p = a * 2 ^ length p + path_bits p"
proof (induction p rule: rev_induct)
  case (snoc b p)
  then show ?case by (simp add: path_bits_def algebra_simps)
qed (simp add: path_bits_def)

lemma path_gindex_eq: "path_gindex p = 2 ^ length p + path_bits p"
  by (simp add: path_gindex_def foldl_path)

lemma path_gindex_append: "path_gindex (p @ q) = path_gindex p * 2 ^ length q + path_bits q"
  by (simp only: path_gindex_def foldl_append foldl_path [of _ q])

lemma path_bits_less: "path_bits p < 2 ^ length p"
proof (induction p rule: rev_induct)
  case (snoc b p)
  then show ?case by (cases b) (simp_all add: path_bits_def)
qed (simp add: path_bits_def)

lemma path_gindex_bounds: "2 ^ length p \<le> path_gindex p" "path_gindex p < 2 ^ Suc (length p)"
  using path_bits_less [of p] by (simp_all add: path_gindex_eq)

lemma bit_length_path: "bit_length (path_gindex p) = Suc (length p)"
  by (rule bit_length_eqI) (rule path_gindex_bounds)+

abbreviation gindex :: "bool list \<Rightarrow> u64" where
  "gindex p \<equiv> of_nat (path_gindex p)"

lemma unat_gindex: "length p \<le> 63 \<Longrightarrow> unat (gindex p) = path_gindex p"
proof -
  assume "length p \<le> 63"
  then have "(2 :: nat) ^ Suc (length p) \<le> 2 ^ 64" by (intro power_increasing) simp_all
  with path_gindex_bounds(2) [of p] show ?thesis
    by (simp add: unat_of_nat)
qed

lemma GetPowerOfTwoFloor_gindex:
  assumes "length p \<le> 63"
  shows "GetPowerOfTwoFloor (gindex p) = 2 ^ length p"
proof -
  have "gindex p \<noteq> 0"
    using unat_gindex [OF assms] by (auto simp: word_unat_eq_iff path_gindex_eq)
  then have "unat (GetPowerOfTwoFloor (gindex p)) = 2 ^ length p"
    using unat_gindex [OF assms] by (simp add: GetPowerOfTwoFloor_unat bit_length_path)
  then have "of_nat (unat (GetPowerOfTwoFloor (gindex p))) = (of_nat (2 ^ length p) :: u64)"
    by simp
  then show ?thesis by simp
qed

lemma concat_step:
  assumes "length p + length q \<le> 63"
  shows "gindex p * GetPowerOfTwoFloor (gindex q) + (gindex q - GetPowerOfTwoFloor (gindex q))
         = gindex (p @ q)"
proof -
  have "GetPowerOfTwoFloor (gindex q) = 2 ^ length q"
    using assms by (intro GetPowerOfTwoFloor_gindex) simp
  moreover have "gindex q = 2 ^ length q + (of_nat (path_bits q) :: u64)"
    by (simp add: path_gindex_eq)
  moreover have "gindex (p @ q) = gindex p * 2 ^ length q + (of_nat (path_bits q) :: u64)"
    by (simp add: path_gindex_append)
  ultimately show ?thesis by simp
qed

lemma foldl_concat_gindex:
  "length p + length (concat ps) \<le> 63 \<Longrightarrow>
   foldl (\<lambda>o' i. o' * GetPowerOfTwoFloor i + (i - GetPowerOfTwoFloor i)) (gindex p) (map gindex ps)
   = gindex (p @ concat ps)"
proof (induction ps arbitrary: p)
  case (Cons q ps)
  then show ?case using concat_step [of p q] Cons.IH [of "p @ q"] by simp
qed simp

lemma power_ge_iff_bit_length: "0 < x \<Longrightarrow> x \<le> 2 ^ k \<longleftrightarrow> bit_length (x - 1) \<le> k" for x :: nat
  using bit_length_gt [of k "x - 1"] by linarith

lemma bit_length_mono_floor: "0 < x \<Longrightarrow> 2 ^ k \<le> x \<longleftrightarrow> k \<le> bit_length x - 1" for x :: nat
  using bit_length_gt [of k x] bit_length_pos [of x] by auto

lemma GetPowerOfTwoCeil_wrap:
  assumes "2 ^ 63 < unat x"
  shows "GetPowerOfTwoCeil x = (if x = - 1 then 2 else 0)"
proof -
  have x: "\<not> x \<le> 1" "x \<noteq> 2"
    using assms by (auto simp: word_le_nat_alt)
  show ?thesis
  proof (cases "x = - 1")
    case True
    moreover have "GetPowerOfTwoCeil 0 = 1" by (simp add: GetPowerOfTwoCeil.simps)
    ultimately show ?thesis using x by (simp add: GetPowerOfTwoCeil.simps [of "- 1"])
  next
    case False
    then have "unat x + 1 < 2 ^ 64"
      using unat_less_exp [of x] by (simp add: word_unat_eq_iff unsigned_minus_1_eq_mask mask_eq_exp_minus_1)
    then have h: "unat ((x + 1) div 2) = (unat x + 1) div 2"
      by (simp add: unat_div unat_word_ariths)
    define y where "y = (x + 1) div 2"
    have y: "2 ^ 62 < unat y" "unat y \<le> 2 ^ 63"
      using h assms \<open>unat x + 1 < 2 ^ 64\<close> by (simp_all add: y_def)
    then have "bit_length (unat y - 1) = 63" using bit_length_eqI [of 62 "unat y - 1"] by simp
    moreover have "y \<noteq> 0" using y(1) by auto
    ultimately have "unat (GetPowerOfTwoCeil y) = 2 ^ 63"
      using y(2) GetPowerOfTwoCeil_unat [of y] by simp
    then have "unat (2 * GetPowerOfTwoCeil y) = 0" by (simp add: unat_word_ariths)
    then show ?thesis
      using x False by (simp add: GetPowerOfTwoCeil.simps [of x] y_def unsigned_eq_0_iff)
  qed
qed

subsection \<open>Properties\<close>

text \<open>
  C40. Concatenating generalized indices is concatenating the paths they stand for, as long as the
  whole path fits a 64-bit index.
\<close>

theorem ConcatGeneralizedIndices_path:
  assumes "length (concat ps) \<le> 63"
  shows "ConcatGeneralizedIndices (map gindex ps) = gindex (concat ps)"
proof -
  have "gindex [] = 1" by (simp add: path_gindex_def)
  then show ?thesis
    using foldl_concat_gindex [of "[]" ps] assms by (simp add: ConcatGeneralizedIndices_def)
qed

theorem ConcatGeneralizedIndices_path_witness:
  "ConcatGeneralizedIndices [13, 3] = 27"
  using ConcatGeneralizedIndices_path [of "[[True, False, True], [True]]"]
  by (simp add: path_gindex_def)

text \<open>
  \<open>GetPowerOfTwoFloor\<close> returns the largest power of two that is not above a positive argument;
  \<open>GetPowerOfTwoCeil\<close> the smallest that is not below it, as long as that power fits 64 bits. Above
  \<open>2 ^ 63\<close> the ceiling wraps around to 0, and on the largest index of all to 2.
\<close>

theorem GetPowerOfTwo_spec:
  assumes "x \<noteq> 0"
  shows "(\<exists>k. unat (GetPowerOfTwoFloor x) = 2 ^ k \<and> (\<forall>j. 2 ^ j \<le> unat x \<longleftrightarrow> j \<le> k)) \<and>
         (if unat x \<le> 2 ^ 63
          then \<exists>k. unat (GetPowerOfTwoCeil x) = 2 ^ k \<and> (\<forall>j. unat x \<le> 2 ^ j \<longleftrightarrow> k \<le> j)
          else GetPowerOfTwoCeil x = (if x = - 1 then 2 else 0))"
proof -
  have pos: "0 < unat x" using assms by (simp add: unsigned_eq_0_iff flip: neq0_conv)
  have "\<exists>k. unat (GetPowerOfTwoFloor x) = 2 ^ k \<and> (\<forall>j. 2 ^ j \<le> unat x \<longleftrightarrow> j \<le> k)"
    using GetPowerOfTwoFloor_unat [OF assms] bit_length_mono_floor [OF pos] by blast
  moreover have "unat x \<le> 2 ^ 63 \<Longrightarrow>
         \<exists>k. unat (GetPowerOfTwoCeil x) = 2 ^ k \<and> (\<forall>j. unat x \<le> 2 ^ j \<longleftrightarrow> k \<le> j)"
    using GetPowerOfTwoCeil_unat [OF assms] power_ge_iff_bit_length [OF pos] by blast
  moreover have "2 ^ 63 < unat x \<Longrightarrow> GetPowerOfTwoCeil x = (if x = - 1 then 2 else 0)"
    by (rule GetPowerOfTwoCeil_wrap)
  ultimately show ?thesis by (auto simp: not_le)
qed

theorem GetPowerOfTwo_spec_witness:
  "(\<exists>k. unat (GetPowerOfTwoFloor 5) = 2 ^ k \<and> (\<forall>j. 2 ^ j \<le> unat (5 :: u64) \<longleftrightarrow> j \<le> k)) \<and>
   (\<exists>k. unat (GetPowerOfTwoCeil 5) = 2 ^ k \<and> (\<forall>j. unat (5 :: u64) \<le> 2 ^ j \<longleftrightarrow> k \<le> j)) \<and>
   GetPowerOfTwoCeil (- 1) = 2"
  using GetPowerOfTwo_spec [of 5] GetPowerOfTwo_spec [of "- 1"]
  by (simp add: unsigned_minus_1_eq_mask mask_eq_exp_minus_1)

end
