(* ===== verification/Ssz_State.thy ===== *)
theory Ssz_State
  imports Gindex
begin

text \<open>
  The SSZ view of the beacon state (\<^verbatim>\<open>pkg/encoding/ssz/ztype/types.go\<close>): the type tables, the
  generalized index of a field, Merkle branches and their verification. The library
  \<^verbatim>\<open>protolambda/ztyp\<close>, prysm's state and prysm's \<^verbatim>\<open>bytesutil\<close> are parameters (\<open>ztyp_lib\<close>); the
  predicates \<open>index_ok\<close> and \<open>tree_ok\<close> state what their documentation promises.
\<close>

subsection \<open>Type tables\<close>

datatype ssz_type =
    ByteType | BoolType | Uint64Type | Bytes4Type | RootType
  | BitVectorType u64
  | BasicVectorType ssz_type u64
  | VectorType ssz_type u64
  | BasicListType ssz_type u64
  | ListType ssz_type u64
  | ComplexListType ssz_type u64
  | ContainerType "string \<times> (string \<times> ssz_type) list"

type_synonym container_def = "string \<times> (string \<times> ssz_type) list"

definition BLSPubkeyType :: ssz_type where
  "BLSPubkeyType = BasicVectorType ByteType 48"

definition ValidatorType :: container_def where
  "ValidatorType = (''Validator'', [
     (''pubkey'', BLSPubkeyType),
     (''withdrawal_credentials'', RootType),
     (''effective_balance'', Uint64Type),
     (''slashed'', BoolType),
     (''activation_eligibility_epoch'', Uint64Type),
     (''activation_epoch'', Uint64Type),
     (''exit_epoch'', Uint64Type),
     (''withdrawable_epoch'', Uint64Type)])"

definition ForkType :: container_def where
  "ForkType = (''Fork'', [
     (''previous_version'', Bytes4Type),
     (''current_version'', Bytes4Type),
     (''epoch'', Uint64Type)])"

definition BeaconBlockHeaderType :: container_def where
  "BeaconBlockHeaderType = (''BeaconBlockHeader'', [
     (''slot'', Uint64Type),
     (''proposer_index'', Uint64Type),
     (''parent_root'', RootType),
     (''state_root'', RootType),
     (''body_root'', RootType)])"

definition BlockRootsType :: ssz_type where
  "BlockRootsType = VectorType RootType 8192"

definition StateRootsType :: ssz_type where
  "StateRootsType = VectorType RootType 8192"

definition HistoricalRootsType :: ssz_type where
  "HistoricalRootsType = ListType RootType 16777216"

definition Eth1DataType :: container_def where
  "Eth1DataType = (''Eth1Data'', [
     (''deposit_root'', RootType),
     (''deposit_count'', Uint64Type),
     (''block_hash'', RootType)])"

definition Eth1DataVotesType :: ssz_type where
  "Eth1DataVotesType = ComplexListType (ContainerType Eth1DataType) 2048"

definition ValidatorsType :: ssz_type where
  "ValidatorsType = ComplexListType (ContainerType ValidatorType) 1099511627776"

definition BalancesType :: ssz_type where
  "BalancesType = BasicListType Uint64Type 1099511627776"

definition RandaoMixesType :: ssz_type where
  "RandaoMixesType = VectorType RootType 65536"

definition SlashingsType :: ssz_type where
  "SlashingsType = BasicVectorType Uint64Type 8192"

definition ParticipationType :: ssz_type where
  "ParticipationType = BasicListType ByteType 1099511627776"

definition JustificationBitsType :: ssz_type where
  "JustificationBitsType = BitVectorType 4"

definition CheckpointType :: container_def where
  "CheckpointType = (''Checkpoint'', [
     (''epoch'', Uint64Type),
     (''root'', RootType)])"

definition InactivityScoresType :: ssz_type where
  "InactivityScoresType = BasicListType Uint64Type 1099511627776"

definition SyncCommitteeKeysType :: ssz_type where
  "SyncCommitteeKeysType = VectorType BLSPubkeyType 512"

definition SyncCommitteeType :: container_def where
  "SyncCommitteeType = (''SyncCommittee'', [
     (''pubkeys'', SyncCommitteeKeysType),
     (''aggregate_pubkey'', BLSPubkeyType)])"

definition BeaconStateAltairType :: container_def where
  "BeaconStateAltairType = (''BeaconStateAltair'', [
     (''genesis_time'', Uint64Type),
     (''genesis_validators_root'', RootType),
     (''slot'', Uint64Type),
     (''fork'', ContainerType ForkType),
     (''latest_block_header'', ContainerType BeaconBlockHeaderType),
     (''block_roots'', BlockRootsType),
     (''state_roots'', StateRootsType),
     (''historical_roots'', HistoricalRootsType),
     (''eth1_data'', ContainerType Eth1DataType),
     (''eth1_data_votes'', Eth1DataVotesType),
     (''eth1_deposit_index'', Uint64Type),
     (''validators'', ValidatorsType),
     (''balances'', BalancesType),
     (''randao_mixes'', RandaoMixesType),
     (''slashings'', SlashingsType),
     (''previous_epoch_participation'', ParticipationType),
     (''current_epoch_participation'', ParticipationType),
     (''justification_bits'', JustificationBitsType),
     (''previous_justified_checkpoint'', ContainerType CheckpointType),
     (''current_justified_checkpoint'', ContainerType CheckpointType),
     (''finalized_checkpoint'', ContainerType CheckpointType),
     (''inactivity_scores'', InactivityScoresType),
     (''current_sync_committee'', ContainerType SyncCommitteeType),
     (''next_sync_committee'', ContainerType SyncCommitteeType)])"

subsection \<open>The libraries the code calls\<close>

text \<open>
  A container view carries its type and the root node of its tree. \<open>'n\<close> is ztyp's node type, \<open>'v\<close>
  a view, \<open>'s\<close> prysm's state and \<open>'p\<close> its protobuf. \<open>BitIter g\<close> is the sequence of answers of the
  iterator's \<^verbatim>\<open>Next\<close> until it reports the end.
\<close>

record 'n container_view =
  ContainerTypeDef :: container_def
  BackingNode :: 'n

record ('n, 'v, 's, 'p) ztyp_lib =
  FieldCount :: "container_def \<Rightarrow> u64"
  CoverDepth :: "u64 \<Rightarrow> byte"
  ToGindex64 :: "u64 \<Rightarrow> byte \<Rightarrow> u64 \<times> string option"
  BitIter :: "u64 \<Rightarrow> bool list"
  hashFn :: "bytes \<Rightarrow> bytes \<Rightarrow> bytes"
  Getter :: "'n \<Rightarrow> u64 \<Rightarrow> string + 'n"
  MerkleRoot :: "'n \<Rightarrow> bytes"
  Backing :: "'v \<Rightarrow> 'n"
  viewHashTreeRoot :: "'v \<Rightarrow> bytes"
  viewSerialize :: "'v \<Rightarrow> string + bytes"
  asContainer :: "'v \<Rightarrow> 'n container_view option"
  ofContainer :: "'n container_view \<Rightarrow> 'v"
  Deserialize :: "container_def \<Rightarrow> bytes \<Rightarrow> string option \<times> 'v option"
  UnmarshalSSZ :: "bytes \<Rightarrow> string + 'p"
  InitializeFromProto :: "'p \<Rightarrow> string + 's"
  MarshalSSZ :: "'s \<Rightarrow> string + bytes"
  emptyState :: 's
  prysmToBytes32 :: "bytes \<Rightarrow> bytes"

subsection \<open>Operations\<close>

text \<open>\<^verbatim>\<open>PanicErr\<close> as a step: an error panics, a value passes.\<close>

definition PanicErr :: "'e + 'a \<Rightarrow> 'a go" where
  "PanicErr r = (case r of Inl _ \<Rightarrow> None | Inr a \<Rightarrow> Some a)"

definition pairErr :: "'a \<times> 'e option \<Rightarrow> 'e + 'a" where
  "pairErr r = (case snd r of None \<Rightarrow> Inr (fst r) | Some err \<Rightarrow> Inl err)"

fun gindices_loop :: "('n, 'v, 's, 'p) ztyp_lib \<Rightarrow> container_def \<Rightarrow> u64 list \<Rightarrow> u64 list go" where
  "gindices_loop Z def [] = Some []"
| "gindices_loop Z def (fieldIndex # rest) =
     do {
       gIndex \<leftarrow> PanicErr (pairErr (ToGindex64 Z fieldIndex (CoverDepth Z (FieldCount Z def))));
       field \<leftarrow> (if unat fieldIndex < length (snd def) then Some (snd def ! unat fieldIndex) else None);
       if rest = [] then Some [gIndex]
       else (case snd field of
               ContainerType v \<Rightarrow> do { gs \<leftarrow> gindices_loop Z v rest; Some (gIndex # gs) }
             | _ \<Rightarrow> None)
     }"

definition CalculateGIndex :: "('n, 'v, 's, 'p) ztyp_lib \<Rightarrow> container_def \<Rightarrow> u64 list \<Rightarrow> u64 go" where
  "CalculateGIndex Z def fieldIndices = map_option ConcatGeneralizedIndices (gindices_loop Z def fieldIndices)"

record ('n, 's) ZtypBeaconStateAltair =
  View :: "'n container_view"
  State :: 's

definition FromSszBytes ::
  "('n, 'v, 's, 'p) ztyp_lib \<Rightarrow> bytes \<Rightarrow> ('n, 's) ZtypBeaconStateAltair go" where
  "FromSszBytes Z sszBytes =
     (case Deserialize Z BeaconStateAltairType sszBytes of
        (Some err, _) \<Rightarrow> None
      | (None, stateView) \<Rightarrow>
          do {
            ethpbState \<leftarrow> PanicErr (UnmarshalSSZ Z sszBytes);
            state \<leftarrow> PanicErr (InitializeFromProto Z ethpbState);
            v \<leftarrow> stateView;
            cv \<leftarrow> asContainer Z v;
            Some \<lparr>View = cv, State = state\<rparr>
          })"

text \<open>The error of \<open>Deserialize\<close> is assigned and never read; a nil view fails the type assertion.\<close>

definition FromBeaconState ::
  "('n, 'v, 's, 'p) ztyp_lib \<Rightarrow> 's \<Rightarrow> ('n, 's) ZtypBeaconStateAltair go" where
  "FromBeaconState Z state =
     do {
       ser \<leftarrow> PanicErr (MarshalSSZ Z state);
       v \<leftarrow> snd (Deserialize Z BeaconStateAltairType ser);
       cv \<leftarrow> asContainer Z v;
       Some \<lparr>View = cv, State = state\<rparr>
     }"

definition NewEmptyBeaconState :: "('n, 'v, 's, 'p) ztyp_lib \<Rightarrow> ('n, 's) ZtypBeaconStateAltair go" where
  "NewEmptyBeaconState Z = FromBeaconState Z (emptyState Z)"

definition GetGIndex ::
  "('n, 'v, 's, 'p) ztyp_lib \<Rightarrow> ('n, 's) ZtypBeaconStateAltair \<Rightarrow> u64 list \<Rightarrow> u64 go" where
  "GetGIndex Z s fieldIndices = CalculateGIndex Z (ContainerTypeDef (View s)) fieldIndices"

definition HashTreeRoot :: "('n, 'v, 's, 'p) ztyp_lib \<Rightarrow> ('n, 's) ZtypBeaconStateAltair \<Rightarrow> bytes" where
  "HashTreeRoot Z s = viewHashTreeRoot Z (ofContainer Z (View s))"

definition SszSerialize :: "('n, 'v, 's, 'p) ztyp_lib \<Rightarrow> ('n, 's) ZtypBeaconStateAltair \<Rightarrow> bytes go" where
  "SszSerialize Z s = PanicErr (viewSerialize Z (ofContainer Z (View s)))"

primrec verify_loop :: "('n, 'v, 's, 'p) ztyp_lib \<Rightarrow> bytes \<Rightarrow> u64 \<Rightarrow> bytes list \<Rightarrow> bytes" where
  "verify_loop Z h idx [] = h"
| "verify_loop Z h idx (elem # branch) =
     verify_loop Z
       (if idx mod 2 = 0 then hashFn Z h (prysmToBytes32 Z elem) else hashFn Z (prysmToBytes32 Z elem) h)
       (idx div 2) branch"

definition Verify :: "('n, 'v, 's, 'p) ztyp_lib \<Rightarrow> bytes \<Rightarrow> u64 \<Rightarrow> bytes \<Rightarrow> bytes list \<Rightarrow> bool" where
  "Verify Z root gIndex leaf branch \<longleftrightarrow> verify_loop Z leaf gIndex branch = root"

definition GetLeaf ::
  "('n, 'v, 's, 'p) ztyp_lib \<Rightarrow> ('n, 's) ZtypBeaconStateAltair \<Rightarrow> u64 \<Rightarrow> bytes go" where
  "GetLeaf Z s gIndex =
     map_option (MerkleRoot Z) (PanicErr (Getter Z (Backing Z (ofContainer Z (View s))) gIndex))"

text \<open>The indices on the way from the root to a leaf, as the iterator's turns produce them.\<close>

primrec interest_walk :: "u64 \<Rightarrow> bool list \<Rightarrow> u64 set" where
  "interest_walk n [] = {}"
| "interest_walk n (right # rest) =
     (let n' = (if right then n * 2 + 1 else n * 2) in insert n' (interest_walk n' rest))"

text \<open>
  The indices of the branch in the order they are emitted, which \<open>GetBranch\<close> and \<open>Proof\<close> of the
  package \<open>tree\<close> compute with the same statements: mark the nodes from the root to the leaves, keep
  the siblings that are not marked, sort, and walk the sorted list backwards.
\<close>

definition branch_indices :: "('n, 'v, 's, 'p) ztyp_lib \<Rightarrow> u64 \<Rightarrow> u64 list" where
  "branch_indices Z index =
     (let leavesSorted = sorted_list_of_set {index};
          interest = (\<Union>g \<in> set leavesSorted. interest_walk 1 (BitIter Z g));
          witness = (\<lambda>g. g XOR 1) ` Set.filter (\<lambda>g. g XOR 1 \<notin> interest) interest;
          witnessSorted = sorted_list_of_set witness
      in rev witnessSorted)"

primrec branch_loop :: "('n, 'v, 's, 'p) ztyp_lib \<Rightarrow> 'n \<Rightarrow> u64 list \<Rightarrow> bytes list go" where
  "branch_loop Z node [] = Some []"
| "branch_loop Z node (g # gs) =
     do {
       n \<leftarrow> PanicErr (Getter Z node g);
       branch \<leftarrow> branch_loop Z node gs;
       Some (MerkleRoot Z n # branch)
     }"

definition GetBranch ::
  "('n, 'v, 's, 'p) ztyp_lib \<Rightarrow> ('n, 's) ZtypBeaconStateAltair \<Rightarrow> u64 \<Rightarrow> bytes list go" where
  "GetBranch Z s index = branch_loop Z (BackingNode (View s)) (branch_indices Z index)"

subsection \<open>What the libraries promise\<close>

text \<open>
  \<^verbatim>\<open>CoverDepth(n)\<close> is the least depth with \<open>n\<close> leaves or more, \<^verbatim>\<open>ToGindex64\<close> puts the index below a
  leading one and fails when it does not fit, the iterator returns the bits below the leading one.
\<close>

definition index_ok :: "('n, 'v, 's, 'p) ztyp_lib \<Rightarrow> bool" where
  "index_ok Z \<longleftrightarrow>
     (\<forall>def. FieldCount Z def = of_nat (length (snd def))) \<and>
     (\<forall>n. unat (CoverDepth Z n) = bit_length (unat n - 1)) \<and>
     (\<forall>i d. if unat d < 64 \<and> unat i < 2 ^ unat d
             then ToGindex64 Z i d = (2 ^ unat d + i, None) else snd (ToGindex64 Z i d) \<noteq> None) \<and>
     (\<forall>p. length p \<le> 63 \<longrightarrow> BitIter Z (gindex p) = p)"

text \<open>
  A tree answers index 1 with itself; where it has a child it has both, and its root is the hash of
  theirs. Roots are 32 bytes, and \<^verbatim>\<open>ToBytes32\<close> keeps 32 bytes.
\<close>

definition tree_ok :: "('n, 'v, 's, 'p) ztyp_lib \<Rightarrow> bool" where
  "tree_ok Z \<longleftrightarrow>
     (\<forall>n. Getter Z n 1 = Inr n) \<and>
     (\<forall>n g. 0 < unat g \<longrightarrow> unat g < 2 ^ 63 \<longrightarrow> \<not> (isl (Getter Z n (2 * g)) \<and> isl (Getter Z n (2 * g + 1))) \<longrightarrow>
        (\<exists>l r m. Getter Z n (2 * g) = Inr l \<and> Getter Z n (2 * g + 1) = Inr r \<and> Getter Z n g = Inr m \<and>
                 MerkleRoot Z m = hashFn Z (MerkleRoot Z l) (MerkleRoot Z r))) \<and>
     (\<forall>n. length (MerkleRoot Z n) = 32) \<and>
     (\<forall>b. length b = 32 \<longrightarrow> prysmToBytes32 Z b = b) \<and>
     (\<forall>v. Backing Z (ofContainer Z v) = BackingNode v) \<and>
     (\<forall>v. viewHashTreeRoot Z v = MerkleRoot Z (Backing Z v))"

subsection \<open>The nodes of a branch\<close>

lemma path_gindex_snoc: "path_gindex (p @ [b]) = 2 * path_gindex p + of_bool b"
  by (simp add: path_gindex_def)

lemma gindex_snoc: "gindex (p @ [b]) = 2 * gindex p + of_bool b"
  by (simp add: path_gindex_snoc)

lemma gindex_Nil [simp]: "gindex [] = 1"
  by (simp add: path_gindex_def)

lemma path_gindex_pos: "0 < path_gindex p"
  using path_gindex_bounds(1) [of p] by (rule less_le_trans [rotated]) simp

lemma path_gindex_inject: "path_gindex p = path_gindex q \<longleftrightarrow> p = q"
proof
  show "path_gindex p = path_gindex q \<Longrightarrow> p = q"
  proof (induction p arbitrary: q rule: rev_induct)
    case Nil
    then have "length q = 0" using bit_length_path [of q] bit_length_path [of "[]"] by simp
    then show ?case by simp
  next
    case (snoc b p)
    have "length q = Suc (length p)"
      using bit_length_path [of q] bit_length_path [of "p @ [b]"] snoc.prems by simp
    then obtain q' c where q: "q = q' @ [c]" by (cases q rule: rev_cases) auto
    from snoc.prems have "2 * path_gindex p + of_bool b = 2 * path_gindex q' + of_bool c"
      by (simp add: q path_gindex_snoc)
    then have "b = c" "path_gindex p = path_gindex q'"
      by (cases b; cases c; simp; presburger)+
    with snoc.IH q show ?case by simp
  qed
qed simp

lemma gindex_inject: "length p \<le> 63 \<Longrightarrow> length q \<le> 63 \<Longrightarrow> gindex p = gindex q \<longleftrightarrow> p = q"
  by (metis path_gindex_inject unat_gindex)

lemma gindex_less: "length p < length q \<Longrightarrow> length q \<le> 63 \<Longrightarrow> gindex p < gindex q"
proof -
  assume l: "length p < length q" "length q \<le> 63"
  have "path_gindex p < 2 ^ Suc (length p)" by (rule path_gindex_bounds)
  also have "\<dots> \<le> 2 ^ length q" using l by (intro power_increasing) simp_all
  also have "\<dots> \<le> path_gindex q" by (rule path_gindex_bounds)
  finally show ?thesis using l by (simp add: word_less_nat_alt unat_gindex)
qed

lemma gindex_sibling: "gindex (p @ [b]) XOR 1 = gindex (p @ [\<not> b])"
  by (cases b) (simp_all add: gindex_snoc xor_one_eq)

lemma interest_walk_paths:
  "interest_walk (gindex q) p = (\<lambda>i. gindex (q @ take (Suc i) p)) ` {..<length p}"
proof (induction p arbitrary: q)
  case (Cons b p)
  have "(if b then gindex q * 2 + 1 else gindex q * 2) = gindex (q @ [b])"
    by (simp add: gindex_snoc mult.commute)
  then show ?case
    using Cons.IH [of "q @ [b]"] by (simp only: interest_walk.simps Let_def)
      (simp add: lessThan_Suc_eq_insert_0 image_image)
qed simp

definition sibling_path :: "bool list \<Rightarrow> nat \<Rightarrow> bool list" where
  "sibling_path p i = take i p @ [\<not> p ! i]"

lemma length_sibling_path [simp]: "i < length p \<Longrightarrow> length (sibling_path p i) = Suc i"
  by (simp add: sibling_path_def)

lemma sibling_not_on_path: "i < length p \<Longrightarrow> j < length p \<Longrightarrow> sibling_path p i \<noteq> take (Suc j) p"
proof
  assume ij: "i < length p" "j < length p" and eq: "sibling_path p i = take (Suc j) p"
  have "length (sibling_path p i) = Suc i" "length (take (Suc j) p) = Suc j" using ij by simp_all
  then have "i = j" by (simp add: eq)
  then show False using eq ij by (simp add: sibling_path_def take_Suc_conv_app_nth)
qed

lemma branch_indices_path:
  assumes "index_ok Z" and p: "length p \<le> 63"
  shows "branch_indices Z (gindex p) = rev (map (\<lambda>i. gindex (sibling_path p i)) [0..<length p])"
proof -
  define I where "I = interest_walk 1 (BitIter Z (gindex p))"
  have I: "I = (\<lambda>i. gindex (take (Suc i) p)) ` {..<length p}"
    using assms interest_walk_paths [of "[]" p] by (simp add: I_def index_ok_def)
  have sib: "gindex (take (Suc i) p) XOR 1 = gindex (sibling_path p i)" if "i < length p" for i
    using that gindex_sibling [of "take i p" "p ! i"] by (simp add: take_Suc_conv_app_nth sibling_path_def)
  have "gindex (sibling_path p i) \<notin> I" if i: "i < length p" for i
  proof
    assume "gindex (sibling_path p i) \<in> I"
    then obtain j where j: "j < length p" "gindex (sibling_path p i) = gindex (take (Suc j) p)"
      by (auto simp: I)
    then have "sibling_path p i = take (Suc j) p"
      using i p by (subst (asm) gindex_inject) auto
    then show False using sibling_not_on_path [OF i j(1)] by simp
  qed
  then have "(\<lambda>g. g XOR 1) ` Set.filter (\<lambda>g. g XOR 1 \<notin> I) I = set (map (\<lambda>i. gindex (sibling_path p i)) [0..<length p])"
    by (force simp: I sib)
  moreover have "sorted_wrt (<) (map (\<lambda>i. gindex (sibling_path p i)) [0..<length p])"
    using p by (auto simp: sorted_wrt_iff_nth_less intro!: gindex_less)
  then have "sorted_list_of_set (set (map (\<lambda>i. gindex (sibling_path p i)) [0..<length p]))
             = map (\<lambda>i. gindex (sibling_path p i)) [0..<length p]"
    by (intro sorted_list_of_set.idem_if_sorted_distinct) (auto simp: strict_sorted_iff)
  ultimately show ?thesis by (simp add: branch_indices_def I_def)
qed

lemma sibling_path_snoc [simp]:
  "i < length p \<Longrightarrow> sibling_path (p @ [b]) i = sibling_path p i"
  "sibling_path (p @ [b]) (length p) = p @ [\<not> b]"
  by (simp_all add: sibling_path_def nth_append)

subsection \<open>Branches verify\<close>

lemma gindex_snoc_unat: "length p \<le> 62 \<Longrightarrow> unat (gindex (p @ [b])) = 2 * unat (gindex p) + of_bool b"
proof -
  assume p: "length p \<le> 62"
  have "unat (gindex (p @ [b])) = path_gindex (p @ [b])" using p by (intro unat_gindex) simp
  also have "\<dots> = 2 * path_gindex p + of_bool b" by (rule path_gindex_snoc)
  also have "path_gindex p = unat (gindex p)" using p by (intro unat_gindex [symmetric]) simp
  finally show ?thesis .
qed

lemma gindex_snoc_parent:
  assumes "length p \<le> 62"
  shows "gindex (p @ [b]) div 2 = gindex p" and "gindex (p @ [b]) mod 2 = 0 \<longleftrightarrow> \<not> b"
proof -
  have "unat (gindex (p @ [b]) div 2) = unat (gindex p)"
    using gindex_snoc_unat [OF assms, of b] by (simp only: unat_div) (cases b, simp_all)
  then show "gindex (p @ [b]) div 2 = gindex p" by (simp only: word_unat_eq_iff)
  have "unat (gindex (p @ [b]) mod 2) = of_bool b"
    using gindex_snoc_unat [OF assms, of b] by (simp only: unat_mod) (cases b, simp_all)
  then show "gindex (p @ [b]) mod 2 = 0 \<longleftrightarrow> \<not> b"
    by (cases b) (simp_all only: word_unat_eq_iff, simp_all)
qed

lemma tree_parent:
  assumes Z: "tree_ok Z" and p: "length p \<le> 62" and m: "Getter Z n (gindex (p @ [b])) = Inr m"
  shows "\<exists>s m'. Getter Z n (gindex (p @ [\<not> b])) = Inr s \<and> Getter Z n (gindex p) = Inr m' \<and>
           MerkleRoot Z m' = (if b then hashFn Z (MerkleRoot Z s) (MerkleRoot Z m)
                              else hashFn Z (MerkleRoot Z m) (MerkleRoot Z s))"
proof -
  have "0 < unat (gindex p)" "unat (gindex p) < 2 ^ 63"
  proof -
    have "(2 :: nat) ^ Suc (length p) \<le> 2 ^ 63" using p by (intro power_increasing) simp_all
    then show "unat (gindex p) < 2 ^ 63"
      using p path_gindex_bounds(2) [of p] by (simp only: unat_gindex)
    show "0 < unat (gindex p)" using p path_gindex_pos [of p] by (simp only: unat_gindex)
  qed
  moreover have "\<not> (isl (Getter Z n (2 * gindex p)) \<and> isl (Getter Z n (2 * gindex p + 1)))"
    using m by (cases b) (simp_all add: gindex_snoc)
  ultimately obtain l r m' where "Getter Z n (2 * gindex p) = Inr l"
    "Getter Z n (2 * gindex p + 1) = Inr r" "Getter Z n (gindex p) = Inr m'"
    "MerkleRoot Z m' = hashFn Z (MerkleRoot Z l) (MerkleRoot Z r)"
    using Z unfolding tree_ok_def by blast
  then show ?thesis using m by (cases b) (auto simp: gindex_snoc)
qed

lemma branch_verifies:
  assumes Z: "tree_ok Z"
  shows "length p \<le> 63 \<Longrightarrow> Getter Z n (gindex p) = Inr m \<Longrightarrow>
         \<exists>br. branch_loop Z n (rev (map (\<lambda>i. gindex (sibling_path p i)) [0..<length p])) = Some br \<and>
              length br = length p \<and> verify_loop Z (MerkleRoot Z m) (gindex p) br = MerkleRoot Z n"
proof (induction p arbitrary: m rule: rev_induct)
  case Nil
  then show ?case using Z by (simp add: tree_ok_def)
next
  case (snoc b p)
  from snoc.prems have p: "length p \<le> 62" by simp
  obtain s m' where s: "Getter Z n (gindex (p @ [\<not> b])) = Inr s" and m': "Getter Z n (gindex p) = Inr m'"
    and h: "MerkleRoot Z m' = (if b then hashFn Z (MerkleRoot Z s) (MerkleRoot Z m)
                              else hashFn Z (MerkleRoot Z m) (MerkleRoot Z s))"
    using tree_parent [OF Z p snoc.prems(2)] by blast
  obtain br where br: "branch_loop Z n (rev (map (\<lambda>i. gindex (sibling_path p i)) [0..<length p])) = Some br"
    "length br = length p" "verify_loop Z (MerkleRoot Z m') (gindex p) br = MerkleRoot Z n"
    using snoc.IH [OF _ m'] p by auto
  have "prysmToBytes32 Z (MerkleRoot Z s) = MerkleRoot Z s" using Z by (simp add: tree_ok_def)
  moreover have eq: "rev (map (\<lambda>i. gindex (sibling_path (p @ [b]) i)) [0..<length (p @ [b])])
        = gindex (p @ [\<not> b]) # rev (map (\<lambda>i. gindex (sibling_path p i)) [0..<length p])"
    by (auto simp: upt_Suc_append intro!: map_cong)
  ultimately show ?case
    unfolding eq using s br h p by (cases b) (simp_all add: PanicErr_def gindex_snoc_parent)
qed

lemma GetBranch_verifies:
  assumes "index_ok Z" "tree_ok Z" "length p \<le> 63"
    and "Getter Z (BackingNode (View s)) (gindex p) = Inr m"
  shows "\<exists>br. GetBranch Z s (gindex p) = Some br \<and> GetLeaf Z s (gindex p) = Some (MerkleRoot Z m) \<and>
           length br = length p \<and> Verify Z (HashTreeRoot Z s) (gindex p) (MerkleRoot Z m) br"
  using branch_verifies [OF assms(2-4)] assms
  by (simp add: GetBranch_def GetLeaf_def HashTreeRoot_def Verify_def branch_indices_path PanicErr_def)
     (simp add: tree_ok_def)

subsection \<open>Two accepted branches\<close>

text \<open>The pairs that a verification hashes, from the leaf upwards.\<close>

primrec hashed_pairs :: "('n, 'v, 's, 'p) ztyp_lib \<Rightarrow> bytes \<Rightarrow> u64 \<Rightarrow> bytes list \<Rightarrow> (bytes \<times> bytes) list" where
  "hashed_pairs Z h idx [] = []"
| "hashed_pairs Z h idx (elem # branch) =
     (let pr = (if idx mod 2 = 0 then (h, prysmToBytes32 Z elem) else (prysmToBytes32 Z elem, h))
      in pr # hashed_pairs Z (case_prod (hashFn Z) pr) (idx div 2) branch)"

lemma length_hashed_pairs [simp]: "length (hashed_pairs Z h idx br) = length br"
  by (induction br arbitrary: h idx) (simp_all add: Let_def)

lemma verify_collision:
  "length br1 = length br2 \<Longrightarrow> verify_loop Z h1 idx br1 = verify_loop Z h2 idx br2 \<Longrightarrow> h1 \<noteq> h2 \<Longrightarrow>
   \<exists>i < length br1. hashed_pairs Z h1 idx br1 ! i \<noteq> hashed_pairs Z h2 idx br2 ! i \<and>
     case_prod (hashFn Z) (hashed_pairs Z h1 idx br1 ! i) = case_prod (hashFn Z) (hashed_pairs Z h2 idx br2 ! i)"
proof (induction br1 br2 arbitrary: h1 h2 idx rule: list_induct2)
  case (Cons e1 br1 e2 br2)
  define pr where "pr h e = (if idx mod 2 = 0 then (h, prysmToBytes32 Z e) else (prysmToBytes32 Z e, h))" for h e
  have ne: "pr h1 e1 \<noteq> pr h2 e2" using Cons.prems by (simp add: pr_def)
  have hp: "hashed_pairs Z h idx (e # br) = pr h e # hashed_pairs Z (case_prod (hashFn Z) (pr h e)) (idx div 2) br"
    and vl: "verify_loop Z h idx (e # br) = verify_loop Z (case_prod (hashFn Z) (pr h e)) (idx div 2) br" for h e br
    by (simp_all add: pr_def Let_def)
  show ?case
  proof (cases "case_prod (hashFn Z) (pr h1 e1) = case_prod (hashFn Z) (pr h2 e2)")
    case True
    then show ?thesis using ne by (intro exI [of _ 0]) (simp add: hp del: hashed_pairs.simps)
  next
    case False
    from Cons.IH [OF _ False, of "idx div 2"] Cons.prems(1) obtain i where "i < length br1"
      "hashed_pairs Z (case_prod (hashFn Z) (pr h1 e1)) (idx div 2) br1 ! i \<noteq>
       hashed_pairs Z (case_prod (hashFn Z) (pr h2 e2)) (idx div 2) br2 ! i"
      "case_prod (hashFn Z) (hashed_pairs Z (case_prod (hashFn Z) (pr h1 e1)) (idx div 2) br1 ! i) =
       case_prod (hashFn Z) (hashed_pairs Z (case_prod (hashFn Z) (pr h2 e2)) (idx div 2) br2 ! i)"
      unfolding vl by blast
    then show ?thesis by (intro exI [of _ "Suc i"]) (simp add: hp del: hashed_pairs.simps)
  qed
qed simp

subsection \<open>Field indices\<close>

lemma index_okD:
  assumes "index_ok Z"
  shows "FieldCount Z def = of_nat (length (snd def))"
    and "unat (CoverDepth Z n) = bit_length (unat n - 1)"
    and "unat d < 64 \<Longrightarrow> unat i < 2 ^ unat d \<Longrightarrow> ToGindex64 Z i d = (2 ^ unat d + i, None)"
    and "\<not> unat i < 2 ^ unat d \<Longrightarrow> snd (ToGindex64 Z i d) \<noteq> None"
  using assms unfolding index_ok_def by (blast, blast, metis, metis)

lemma length_BeaconStateAltairType [simp]: "length (snd BeaconStateAltairType) = 24"
  by (simp add: BeaconStateAltairType_def)

lemma length_CheckpointType [simp]: "length (snd CheckpointType) = 2"
  by (simp add: CheckpointType_def)

lemma CoverDepth_values:
  assumes "index_ok Z"
  shows "unat (CoverDepth Z 24) = 5" "unat (CoverDepth Z 2) = 1"
proof -
  have "bit_length 23 = 5" "bit_length 1 = 1" by (simp_all add: bit_length.simps)
  then show "unat (CoverDepth Z 24) = 5" "unat (CoverDepth Z 2) = 1"
    using index_okD(2) [OF assms, of 24] index_okD(2) [OF assms, of 2] by simp_all
qed

lemma ToGindex64_state:
  assumes "index_ok Z" and "unat i < 32"
  shows "ToGindex64 Z i (CoverDepth Z (FieldCount Z BeaconStateAltairType)) = (32 + i, None)"
  using index_okD(3) [OF assms(1), of "CoverDepth Z 24" i] assms
  by (simp add: index_okD(1) CoverDepth_values)

lemma ConcatGeneralizedIndices_single: "g \<noteq> 0 \<Longrightarrow> ConcatGeneralizedIndices [g] = g"
  by (simp add: ConcatGeneralizedIndices_def)

lemma CalculateGIndex_state_field:
  assumes "index_ok Z" and i: "unat i < 24"
  shows "CalculateGIndex Z BeaconStateAltairType [i] = Some (32 + i)"
proof -
  have "unat (32 + i) = 32 + unat i" using i by (simp add: unat_word_ariths)
  then have "32 + i \<noteq> 0" by auto
  then show ?thesis
    using assms ToGindex64_state [OF assms(1), of i]
    by (simp add: CalculateGIndex_def PanicErr_def pairErr_def ConcatGeneralizedIndices_single)
qed

lemma CalculateGIndex_finalized_root:
  assumes Z: "index_ok Z"
  shows "CalculateGIndex Z BeaconStateAltairType [20, 1] = Some 105"
proof -
  have field: "snd BeaconStateAltairType ! 20 = (''finalized_checkpoint'', ContainerType CheckpointType)"
    by (simp add: BeaconStateAltairType_def)
  have "ToGindex64 Z 1 (CoverDepth Z (FieldCount Z CheckpointType)) = (3, None)"
    using index_okD(3) [OF Z, of "CoverDepth Z 2" 1]
    by (simp add: index_okD(1) [OF Z] CoverDepth_values [OF Z])
  moreover have "ToGindex64 Z 20 (CoverDepth Z (FieldCount Z BeaconStateAltairType)) = (52, None)"
    using ToGindex64_state [OF Z, of 20] by simp
  ultimately have "CalculateGIndex Z BeaconStateAltairType [20, 1] = Some (ConcatGeneralizedIndices [52, 3])"
    by (simp add: CalculateGIndex_def PanicErr_def pairErr_def field)
  also have "ConcatGeneralizedIndices [52, 3] = 105" by code_simp
  finally show ?thesis .
qed

lemma CalculateGIndex_panics:
  assumes Z: "index_ok Z"
  shows "24 \<le> unat i \<Longrightarrow> CalculateGIndex Z BeaconStateAltairType (i # rest) = None"
    and "CalculateGIndex Z BeaconStateAltairType (0 # j # rest) = None"
proof -
  show "24 \<le> unat i \<Longrightarrow> CalculateGIndex Z BeaconStateAltairType (i # rest) = None"
    by (simp add: CalculateGIndex_def)
  have "snd BeaconStateAltairType ! 0 = (''genesis_time'', Uint64Type)"
    by (simp add: BeaconStateAltairType_def)
  then show "CalculateGIndex Z BeaconStateAltairType (0 # j # rest) = None"
    by (simp add: CalculateGIndex_def)
qed

subsection \<open>An instance of the libraries\<close>

text \<open>
  Binary trees with 32-byte leaves and a simple combining function in place of SHA-256: the
  assumptions on the libraries hold together, and the operations can be run.
\<close>

datatype mtree = MLeaf bytes | MPair mtree mtree

definition mix :: "bytes \<Rightarrow> bytes \<Rightarrow> bytes" where
  "mix a b = map (\<lambda>(x, y). 3 * x + y) (zip (copy_array 32 a) (copy_array 32 b))"

primrec mtree_root :: "mtree \<Rightarrow> bytes" where
  "mtree_root (MLeaf b) = copy_array 32 b"
| "mtree_root (MPair l r) = mix (mtree_root l) (mtree_root r)"

fun mtree_get :: "mtree \<Rightarrow> bool list \<Rightarrow> mtree option" where
  "mtree_get t [] = Some t"
| "mtree_get (MPair l r) (b # bs) = mtree_get (if b then r else l) bs"
| "mtree_get (MLeaf _) (b # bs) = None"

fun nat_path :: "nat \<Rightarrow> bool list" where
  "nat_path n = (if n \<le> 1 then [] else nat_path (n div 2) @ [odd n])"

declare nat_path.simps [simp del]

definition mtree_lib :: "(mtree, mtree container_view, unit, unit) ztyp_lib" where
  "mtree_lib =
     \<lparr>FieldCount = (\<lambda>def. of_nat (length (snd def))),
      CoverDepth = (\<lambda>n. of_nat (bit_length (unat n - 1))),
      ToGindex64 = (\<lambda>i d. if unat d < 64 \<and> unat i < 2 ^ unat d then (2 ^ unat d + i, None) else (0, Some ''range'')),
      BitIter = (\<lambda>g. nat_path (unat g)),
      hashFn = mix,
      Getter = (\<lambda>n g. if g = 0 then Inl ''zero'' else
                       (case mtree_get n (nat_path (unat g)) of None \<Rightarrow> Inl ''missing'' | Some m \<Rightarrow> Inr m)),
      MerkleRoot = mtree_root,
      Backing = BackingNode,
      viewHashTreeRoot = mtree_root \<circ> BackingNode,
      viewSerialize = (\<lambda>v. Inr (mtree_root (BackingNode v))),
      asContainer = Some,
      ofContainer = id,
      Deserialize = (\<lambda>def b. (None, Some \<lparr>ContainerTypeDef = def, BackingNode = MLeaf b\<rparr>)),
      UnmarshalSSZ = (\<lambda>b. Inr ()),
      InitializeFromProto = (\<lambda>p. Inr ()),
      MarshalSSZ = (\<lambda>s. Inr []),
      emptyState = (),
      prysmToBytes32 = copy_array 32\<rparr>"

lemma nat_path_gindex [simp]: "nat_path (path_gindex p) = p"
proof (induction p rule: rev_induct)
  case (snoc b p)
  then show ?case
    using path_gindex_pos [of p] by (subst nat_path.simps) (simp add: path_gindex_snoc)
qed (simp add: path_gindex_def nat_path.simps)

lemma path_gindex_nat_path: "0 < n \<Longrightarrow> path_gindex (nat_path n) = n"
proof (induction n rule: nat_path.induct)
  case (1 n)
  then show ?case
    by (cases "n \<le> 1") (subst nat_path.simps, simp_all add: path_gindex_snoc path_gindex_def [of "[]"])+
qed

lemma mtree_get_append: "mtree_get t (p @ q) = Option.bind (mtree_get t p) (\<lambda>n. mtree_get n q)"
  by (induction t p rule: mtree_get.induct) (auto split: if_splits)

lemma mtree_get_single: "mtree_get m [b] = (case m of MLeaf _ \<Rightarrow> None | MPair l r \<Rightarrow> Some (if b then r else l))"
  by (cases m) simp_all

lemma bit_length_le: "n < 2 ^ k \<Longrightarrow> bit_length n \<le> k"
  using bit_length_gt [of k n] by simp

lemma mtree_lib_Getter:
  "0 < path_gindex p \<Longrightarrow> length p \<le> 63 \<Longrightarrow> mtree_get n p = Some m \<Longrightarrow> Getter mtree_lib n (gindex p) = Inr m"
  using unat_gindex [of p] by (auto simp: mtree_lib_def)

lemma mtree_lib_index_ok: "index_ok mtree_lib"
proof -
  have "unat (of_nat (bit_length (unat n - 1)) :: byte) = bit_length (unat n - 1)" for n :: u64
  proof -
    have "bit_length (unat n - 1) \<le> 64"
      by (rule bit_length_le, rule le_less_trans [OF diff_le_self]) (use unat_less_exp [of n] in simp)
    then show ?thesis by (simp add: unat_of_nat)
  qed
  then show ?thesis by (simp add: index_ok_def mtree_lib_def unat_gindex)
qed

lemma mtree_root_length [simp]: "length (mtree_root n) = 32"
  by (cases n) (simp_all add: mix_def)

lemma mtree_lib_tree_ok: "tree_ok mtree_lib"
proof -
  have "\<exists>l r m. Getter mtree_lib n (2 * g) = Inr l \<and> Getter mtree_lib n (2 * g + 1) = Inr r \<and>
          Getter mtree_lib n g = Inr m \<and> mtree_root m = mix (mtree_root l) (mtree_root r)"
    if g: "0 < unat g" "unat g < 2 ^ 63"
      and ex: "\<not> (isl (Getter mtree_lib n (2 * g)) \<and> isl (Getter mtree_lib n (2 * g + 1)))" for n g
  proof -
    have u: "unat (2 * g) = 2 * unat g" "unat (2 * g + 1) = 2 * unat g + 1"
      using g by (simp_all add: unat_word_ariths)
    then have ne: "g \<noteq> 0" "2 * g \<noteq> 0" "2 * g + 1 \<noteq> 0" using g by (auto simp: word_unat_eq_iff)
    have np: "nat_path (2 * unat g) = nat_path (unat g) @ [False]"
      "nat_path (Suc (2 * unat g)) = nat_path (unat g) @ [True]"
      using g by (subst nat_path.simps, simp)+
    note simps = mtree_lib_def u np mtree_get_append mtree_get_single
    obtain m where m: "mtree_get n (nat_path (unat g)) = Some m"
      using ex ne by (cases "mtree_get n (nat_path (unat g))")
        (simp_all add: simps)
    then obtain l r where "m = MPair l r"
      using ex ne by (cases m) (simp_all add: simps)
    then show ?thesis
      using m ne by (simp add: simps)
  qed
  moreover have "nat_path (Suc 0) = []" by (simp add: nat_path.simps)
  ultimately show ?thesis
    by (simp add: tree_ok_def) (simp add: mtree_lib_def copy_array_same)
qed

lemma verify_loop_low_bits:
  "take_bit (length br) g = take_bit (length br) g' \<Longrightarrow> verify_loop Z h g br = verify_loop Z h g' br"
proof (induction br arbitrary: h g g')
  case (Cons e br)
  have bits: "i < Suc (length br) \<Longrightarrow> bit g i = bit g' i" for i
    using arg_cong [OF Cons.prems, of "\<lambda>w. bit w i"] by (auto simp: bit_take_bit_iff)
  have "even g = even g'" using bits [of 0] by (simp add: bit_0)
  moreover have "take_bit (length br) (g div 2) = take_bit (length br) (g' div 2)"
    using bits by (auto intro!: bit_eqI simp: bit_take_bit_iff simp flip: bit_Suc)
  ultimately show ?case
    using Cons.IH [of "g div 2" "g' div 2"] by (auto simp: even_iff_mod_2_eq_zero)
qed simp

subsection \<open>Properties\<close>

text \<open>
  C13. For every node of a state's tree, \<open>GetLeaf\<close> and \<open>GetBranch\<close> return, the branch has one
  element per level, and \<open>Verify\<close> accepts it against the state's own root.
\<close>

theorem GetBranch_Verify:
  assumes "index_ok Z" "tree_ok Z" "length p \<le> 63"
    and "Getter Z (BackingNode (View s)) (gindex p) = Inr m"
  shows "\<exists>leaf br. GetLeaf Z s (gindex p) = Some leaf \<and> GetBranch Z s (gindex p) = Some br \<and>
           length br = length p \<and> Verify Z (HashTreeRoot Z s) (gindex p) leaf br"
  using GetBranch_verifies [OF assms] by blast

theorem GetBranch_Verify_witness:
  "\<exists>leaf br. let s = \<lparr>View = \<lparr>ContainerTypeDef = CheckpointType,
                             BackingNode = MPair (MLeaf [7]) (MPair (MLeaf [1]) (MLeaf [2]))\<rparr>,
                     State = ()\<rparr>
     in GetLeaf mtree_lib s 7 = Some leaf \<and> GetBranch mtree_lib s 7 = Some br \<and>
        length br = 2 \<and> Verify mtree_lib (HashTreeRoot mtree_lib s) 7 leaf br"
proof -
  define s where "s = \<lparr>View = \<lparr>ContainerTypeDef = CheckpointType,
                             BackingNode = MPair (MLeaf [7]) (MPair (MLeaf [1]) (MLeaf [2]))\<rparr>, State = ()\<rparr>"
  have "Getter mtree_lib (BackingNode (View s)) (gindex [True, True]) = Inr (MLeaf [2])"
    by (rule mtree_lib_Getter) (simp_all add: s_def path_gindex_pos)
  then have "\<exists>leaf br. GetLeaf mtree_lib s (gindex [True, True]) = Some leaf \<and>
      GetBranch mtree_lib s (gindex [True, True]) = Some br \<and> length br = length [True, True] \<and>
      Verify mtree_lib (HashTreeRoot mtree_lib s) (gindex [True, True]) leaf br"
    by (intro GetBranch_Verify mtree_lib_index_ok mtree_lib_tree_ok) simp_all
  moreover have "gindex [True, True] = 7" by (simp add: path_gindex_def)
  ultimately show ?thesis by (simp add: s_def Let_def numeral_2_eq_2)
qed

text \<open>
  C14. A root binds the leaf: from two branches of one length that \<open>Verify\<close> accepts for different
  leaves at one index, the pairs it hashed contain a collision at a common level.
\<close>

theorem Verify_binding:
  assumes "Verify Z root g leaf1 br1" "Verify Z root g leaf2 br2" "length br1 = length br2" "leaf1 \<noteq> leaf2"
  shows "\<exists>i < length br1. hashed_pairs Z leaf1 g br1 ! i \<noteq> hashed_pairs Z leaf2 g br2 ! i \<and>
           case_prod (hashFn Z) (hashed_pairs Z leaf1 g br1 ! i) =
           case_prod (hashFn Z) (hashed_pairs Z leaf2 g br2 ! i)"
  using assms by (intro verify_collision) (simp_all add: Verify_def)

theorem Verify_binding_witness:
  "\<exists>i < 1. hashed_pairs mtree_lib (replicate 32 0) 2 [replicate 32 3] ! i \<noteq>
            hashed_pairs mtree_lib (replicate 32 1) 2 [replicate 32 0] ! i \<and>
     case_prod mix (hashed_pairs mtree_lib (replicate 32 0) 2 [replicate 32 3] ! i) =
     case_prod mix (hashed_pairs mtree_lib (replicate 32 1) 2 [replicate 32 0] ! i)"
  using Verify_binding [of mtree_lib "replicate 32 3" 2 "replicate 32 0" "[replicate 32 3]"
      "replicate 32 1" "[replicate 32 0]"]
  by (simp add: Verify_def mtree_lib_def mix_def copy_array_def)

text \<open>
  \<open>CalculateGIndex\<close> on the Altair state: the field indices the light client uses give the
  generalized indices of the consensus specification (105 for the finalized root, 54 and 55 for the
  current and the next sync committee); an index beyond the fields, or a path through a field that is
  not a container, panics.
\<close>

theorem CalculateGIndex_altair:
  assumes "index_ok Z"
  shows "CalculateGIndex Z BeaconStateAltairType [20, 1] = Some 105 \<and>
         CalculateGIndex Z BeaconStateAltairType [22] = Some 54 \<and>
         CalculateGIndex Z BeaconStateAltairType [23] = Some 55 \<and>
         (\<forall>i rest. 24 \<le> unat i \<longrightarrow> CalculateGIndex Z BeaconStateAltairType (i # rest) = None) \<and>
         (\<forall>j rest. CalculateGIndex Z BeaconStateAltairType (0 # j # rest) = None)"
  using assms CalculateGIndex_state_field [OF assms, of 22] CalculateGIndex_state_field [OF assms, of 23]
  by (simp add: CalculateGIndex_finalized_root CalculateGIndex_panics)

theorem CalculateGIndex_altair_witness:
  "CalculateGIndex mtree_lib BeaconStateAltairType [20, 1] = Some 105 \<and>
   CalculateGIndex mtree_lib BeaconStateAltairType [24, 1] = None"
  using CalculateGIndex_altair [OF mtree_lib_index_ok] by simp

text \<open>
  \<open>Verify\<close> never compares the branch with the depth of the index: it reads only as many low bits
  of the index as the branch has elements, so a branch is accepted alike for all indices that agree
  on them, and an empty branch for every index.
\<close>

theorem Verify_low_bits:
  assumes "take_bit (length br) g = take_bit (length br) g'"
  shows "Verify Z root g leaf br = Verify Z root g' leaf br"
  by (simp add: Verify_def verify_loop_low_bits [OF assms])

theorem Verify_low_bits_witness:
  "Verify mtree_lib (replicate 32 3) 55 (replicate 32 3) [] =
   Verify mtree_lib (replicate 32 3) 1 (replicate 32 3) [] \<and>
   Verify mtree_lib (replicate 32 3) 55 (replicate 32 3) []"
  using Verify_low_bits [of "[]" 55 1] by (simp add: Verify_def)

end
