(* ===== verification/Tree_State.thy ===== *)
theory Tree_State
  imports Ssz_State
begin

text \<open>
  The tree-backed state of the package \<open>tree\<close> (\<^verbatim>\<open>pkg/encoding/ssz/tree/state.go\<close>): a second copy of
  the type tables and of the Merkle branch code, with errors returned instead of panics.
\<close>

subsection \<open>Type tables\<close>

definition tb_BLSPubkeyType :: ssz_type where
  "tb_BLSPubkeyType = BasicVectorType ByteType 48"

definition tb_ValidatorType :: container_def where
  "tb_ValidatorType = (''Validator'', [
     (''pubkey'', tb_BLSPubkeyType),
     (''withdrawal_credentials'', RootType),
     (''effective_balance'', Uint64Type),
     (''slashed'', BoolType),
     (''activation_eligibility_epoch'', Uint64Type),
     (''activation_epoch'', Uint64Type),
     (''exit_epoch'', Uint64Type),
     (''withdrawable_epoch'', Uint64Type)])"

definition tb_ForkType :: container_def where
  "tb_ForkType = (''Fork'', [
     (''previous_version'', Bytes4Type),
     (''current_version'', Bytes4Type),
     (''epoch'', Uint64Type)])"

definition tb_BeaconBlockHeaderType :: container_def where
  "tb_BeaconBlockHeaderType = (''BeaconBlockHeader'', [
     (''slot'', Uint64Type),
     (''proposer_index'', Uint64Type),
     (''parent_root'', RootType),
     (''state_root'', RootType),
     (''body_root'', RootType)])"

definition tb_BlockRootsType :: ssz_type where
  "tb_BlockRootsType = VectorType RootType 8192"

definition tb_StateRootsType :: ssz_type where
  "tb_StateRootsType = VectorType RootType 8192"

definition tb_HistoricalRootsType :: ssz_type where
  "tb_HistoricalRootsType = ListType RootType 16777216"

definition tb_Eth1DataType :: container_def where
  "tb_Eth1DataType = (''Eth1Data'', [
     (''deposit_root'', RootType),
     (''deposit_count'', Uint64Type),
     (''block_hash'', RootType)])"

definition tb_Eth1DataVotesType :: ssz_type where
  "tb_Eth1DataVotesType = ComplexListType (ContainerType tb_Eth1DataType) 2048"

definition tb_ValidatorsType :: ssz_type where
  "tb_ValidatorsType = ComplexListType (ContainerType tb_ValidatorType) 1099511627776"

definition tb_BalancesType :: ssz_type where
  "tb_BalancesType = BasicListType Uint64Type 1099511627776"

definition tb_RandaoMixesType :: ssz_type where
  "tb_RandaoMixesType = VectorType RootType 65536"

definition tb_SlashingsType :: ssz_type where
  "tb_SlashingsType = BasicVectorType Uint64Type 8192"

definition tb_ParticipationType :: ssz_type where
  "tb_ParticipationType = BasicListType ByteType 1099511627776"

definition tb_JustificationBitsType :: ssz_type where
  "tb_JustificationBitsType = BitVectorType 4"

definition tb_CheckpointType :: container_def where
  "tb_CheckpointType = (''Checkpoint'', [
     (''epoch'', Uint64Type),
     (''root'', RootType)])"

definition tb_InactivityScoresType :: ssz_type where
  "tb_InactivityScoresType = BasicListType Uint64Type 1099511627776"

definition tb_SyncCommitteeKeysType :: ssz_type where
  "tb_SyncCommitteeKeysType = VectorType tb_BLSPubkeyType 512"

definition tb_SyncCommitteeType :: container_def where
  "tb_SyncCommitteeType = (''SyncCommittee'', [
     (''pubkeys'', tb_SyncCommitteeKeysType),
     (''aggregate_pubkey'', tb_BLSPubkeyType)])"

definition tb_BeaconStateAltairType :: container_def where
  "tb_BeaconStateAltairType = (''BeaconStateAltair'', [
     (''genesis_time'', Uint64Type),
     (''genesis_validators_root'', RootType),
     (''slot'', Uint64Type),
     (''fork'', ContainerType tb_ForkType),
     (''latest_block_header'', ContainerType tb_BeaconBlockHeaderType),
     (''block_roots'', tb_BlockRootsType),
     (''state_roots'', tb_StateRootsType),
     (''historical_roots'', tb_HistoricalRootsType),
     (''eth1_data'', ContainerType tb_Eth1DataType),
     (''eth1_data_votes'', tb_Eth1DataVotesType),
     (''eth1_deposit_index'', Uint64Type),
     (''validators'', tb_ValidatorsType),
     (''balances'', tb_BalancesType),
     (''randao_mixes'', tb_RandaoMixesType),
     (''slashings'', tb_SlashingsType),
     (''previous_epoch_participation'', tb_ParticipationType),
     (''current_epoch_participation'', tb_ParticipationType),
     (''justification_bits'', tb_JustificationBitsType),
     (''previous_justified_checkpoint'', ContainerType tb_CheckpointType),
     (''current_justified_checkpoint'', ContainerType tb_CheckpointType),
     (''finalized_checkpoint'', ContainerType tb_CheckpointType),
     (''inactivity_scores'', tb_InactivityScoresType),
     (''current_sync_committee'', ContainerType tb_SyncCommitteeType),
     (''next_sync_committee'', ContainerType tb_SyncCommitteeType)])"

subsection \<open>Operations\<close>

text \<open>The state is an interface value, which may be nil.\<close>

record 'v TreeBackedState =
  beaconState :: "'v option"

definition NewTreeBackedState ::
  "('n, 'v, 's, 'p) ztyp_lib \<Rightarrow> 's \<Rightarrow> string + 'v TreeBackedState" where
  "NewTreeBackedState Z st =
     (case MarshalSSZ Z st of
        Inl err \<Rightarrow> Inl err
      | Inr enc \<Rightarrow>
          (case Deserialize Z tb_BeaconStateAltairType enc of
             (Some err, _) \<Rightarrow> Inl err
           | (None, treeBacked) \<Rightarrow> Inr \<lparr>beaconState = treeBacked\<rparr>))"

definition tb_View :: "'v TreeBackedState \<Rightarrow> 'v option" where
  "tb_View tb = beaconState tb"

definition VerifyProof :: "('n, 'v, 's, 'p) ztyp_lib \<Rightarrow> bytes \<Rightarrow> bytes list \<Rightarrow> bytes \<Rightarrow> u64 \<Rightarrow> bool" where
  "VerifyProof Z root proof leaf generalizedIndex \<longleftrightarrow>
     fst (foldl (\<lambda>(h, idx) elem.
              (if idx mod 2 = 0 then hashFn Z h (prysmToBytes32 Z elem)
               else hashFn Z (prysmToBytes32 Z elem) h, idx div 2)) (leaf, generalizedIndex) proof) = root"

text \<open>The last loop of \<open>Proof\<close>: on an error the part of the proof built so far is returned with it.\<close>

fun proof_loop :: "('n, 'v, 's, 'p) ztyp_lib \<Rightarrow> 'n \<Rightarrow> bytes list \<Rightarrow> u64 list \<Rightarrow> bytes list \<times> string option" where
  "proof_loop Z node proof [] = (proof, None)"
| "proof_loop Z node proof (g # gs) =
     (case Getter Z node g of
        Inl err2 \<Rightarrow> (proof, Some err2)
      | Inr n \<Rightarrow> proof_loop Z node (proof @ [MerkleRoot Z n]) gs)"

definition Proof ::
  "('n, 'v, 's, 'p) ztyp_lib \<Rightarrow> 'v TreeBackedState \<Rightarrow> u64 \<Rightarrow> bytes list \<times> u64 \<times> string option" where
  "Proof Z tb fieldIndex =
     (case Option.bind (beaconState tb) (\<lambda>v. map_option (Pair v) (asContainer Z v)) of
        None \<Rightarrow> ([], 0, Some ''not a container'')
      | Some (v, cont) \<Rightarrow>
          (let depth = CoverDepth Z (FieldCount Z (ContainerTypeDef cont))
           in case ToGindex64 Z fieldIndex depth of
                (generalizedIdx, Some err) \<Rightarrow> ([], generalizedIdx, Some err)
              | (generalizedIdx, None) \<Rightarrow>
                  (let (proof, err) = proof_loop Z (Backing Z v) [] (branch_indices Z generalizedIdx)
                   in (proof, generalizedIdx, err))))"

subsection \<open>Agreement with the package ztype\<close>

lemma tb_types:
  "tb_BeaconStateAltairType = BeaconStateAltairType"
  by (simp add: tb_BeaconStateAltairType_def BeaconStateAltairType_def tb_ForkType_def ForkType_def
      tb_BeaconBlockHeaderType_def BeaconBlockHeaderType_def tb_BlockRootsType_def BlockRootsType_def
      tb_StateRootsType_def StateRootsType_def tb_HistoricalRootsType_def HistoricalRootsType_def
      tb_Eth1DataType_def Eth1DataType_def tb_Eth1DataVotesType_def Eth1DataVotesType_def
      tb_ValidatorsType_def ValidatorsType_def tb_ValidatorType_def ValidatorType_def
      tb_BalancesType_def BalancesType_def tb_RandaoMixesType_def RandaoMixesType_def
      tb_SlashingsType_def SlashingsType_def tb_ParticipationType_def ParticipationType_def
      tb_JustificationBitsType_def JustificationBitsType_def tb_CheckpointType_def CheckpointType_def
      tb_InactivityScoresType_def InactivityScoresType_def tb_SyncCommitteeType_def SyncCommitteeType_def
      tb_SyncCommitteeKeysType_def SyncCommitteeKeysType_def tb_BLSPubkeyType_def BLSPubkeyType_def)

lemma VerifyProof_Verify: "VerifyProof Z root pf leaf g \<longleftrightarrow> Verify Z root g leaf pf"
proof -
  have "fst (foldl (\<lambda>(h, idx) elem.
          (if idx mod 2 = 0 then hashFn Z h (prysmToBytes32 Z elem)
           else hashFn Z (prysmToBytes32 Z elem) h, idx div 2)) (leaf, g) pf) = verify_loop Z leaf g pf"
    by (induction pf arbitrary: leaf g) simp_all
  then show ?thesis by (simp add: VerifyProof_def Verify_def)
qed

lemma proof_loop_branch:
  "branch_loop Z node gs = Some br \<Longrightarrow> proof_loop Z node pf gs = (pf @ br, None)"
  by (induction gs arbitrary: pf br)
     (auto simp: PanicErr_def split: sum.splits bind_splits)

subsection \<open>Properties\<close>

text \<open>
  C32. \<open>Proof\<close> of any field of an Altair state whose tree holds that field returns no error, returns the
  field's generalized index, and \<open>VerifyProof\<close> accepts the proof with the field's root as leaf.
\<close>

theorem Proof_VerifyProof:
  assumes Z: "index_ok Z" "tree_ok Z"
    and tb: "beaconState tb = Some v" "asContainer Z v = Some cont"
      "ContainerTypeDef cont = tb_BeaconStateAltairType"
    and i: "unat i < 24" and m: "Getter Z (Backing Z v) (32 + i) = Inr m"
  shows "\<exists>pf. Proof Z tb i = (pf, 32 + i, None) \<and> length pf = 5 \<and>
           VerifyProof Z (viewHashTreeRoot Z v) pf (MerkleRoot Z m) (32 + i)"
proof -
  define p where "p = nat_path (32 + unat i)"
  have pg: "path_gindex p = 32 + unat i" by (simp add: p_def path_gindex_nat_path)
  then have g: "gindex p = 32 + i" by simp
  have "bit_length (path_gindex p) = Suc 5" unfolding pg using i by (intro bit_length_eqI) simp_all
  then have len: "length p = 5" by (simp add: bit_length_path)
  obtain br where br: "branch_loop Z (Backing Z v) (rev (map (\<lambda>i. gindex (sibling_path p i)) [0..<length p])) = Some br"
    "length br = length p" "verify_loop Z (MerkleRoot Z m) (gindex p) br = MerkleRoot Z (Backing Z v)"
    using branch_verifies [OF Z(2), of p "Backing Z v" m] m len g by auto
  have "branch_indices Z (32 + i) = rev (map (\<lambda>i. gindex (sibling_path p i)) [0..<length p])"
    using branch_indices_path [OF Z(1), of p] len g by simp
  moreover have "ToGindex64 Z i (CoverDepth Z (FieldCount Z (ContainerTypeDef cont))) = (32 + i, None)"
    using ToGindex64_state [OF Z(1), of i] i tb(3) tb_types by simp
  ultimately have "Proof Z tb i = (br, 32 + i, None)"
    using tb br(1) by (simp add: Proof_def proof_loop_branch)
  moreover have "viewHashTreeRoot Z v = MerkleRoot Z (Backing Z v)" using Z(2) by (simp add: tree_ok_def)
  ultimately show ?thesis using br g len by (simp add: VerifyProof_Verify Verify_def)
qed

text \<open>A perfect tree of the depth of the Altair state, to run the proofs on.\<close>

primrec perfect :: "nat \<Rightarrow> mtree" where
  "perfect 0 = MLeaf [1]"
| "perfect (Suc d) = MPair (perfect d) (perfect d)"

theorem Proof_VerifyProof_witness:
  "\<exists>pf. let v = \<lparr>ContainerTypeDef = tb_BeaconStateAltairType, BackingNode = perfect 5\<rparr>
     in Proof mtree_lib \<lparr>beaconState = Some v\<rparr> 23 = (pf, 55, None) \<and> length pf = 5 \<and>
        VerifyProof mtree_lib (viewHashTreeRoot mtree_lib v) pf (mtree_root (MLeaf [1])) 55"
proof -
  define v where "v = \<lparr>ContainerTypeDef = tb_BeaconStateAltairType, BackingNode = perfect 5\<rparr>"
  have lib: "asContainer mtree_lib v = Some v" "Backing mtree_lib v = perfect 5"
    "MerkleRoot mtree_lib = mtree_root"
    by (simp_all add: mtree_lib_def v_def)
  have "Getter mtree_lib (perfect 5) (gindex [True, False, True, True, True]) = Inr (MLeaf [1])"
    by (rule mtree_lib_Getter) (simp_all add: path_gindex_pos numeral_eq_Suc)
  then have "Getter mtree_lib (Backing mtree_lib v) (32 + 23) = Inr (MLeaf [1])"
    by (simp add: lib path_gindex_def)
  then have "\<exists>pf. Proof mtree_lib \<lparr>beaconState = Some v\<rparr> 23 = (pf, 32 + 23, None) \<and> length pf = 5 \<and>
      VerifyProof mtree_lib (viewHashTreeRoot mtree_lib v) pf (MerkleRoot mtree_lib (MLeaf [1])) (32 + 23)"
    by (intro Proof_VerifyProof [of mtree_lib _ v v] mtree_lib_index_ok mtree_lib_tree_ok)
       (simp_all add: lib, simp add: v_def)
  then show ?thesis by (simp add: Let_def lib v_def)
qed

end
