(* ===== verification/Light_Client.thy ===== *)
theory Light_Client
  imports Ssz_State
begin

text \<open>
  Verification and processing of light client updates (\<^verbatim>\<open>internal/consensus/sync\<close>: \<^verbatim>\<open>verify.go\<close>,
  \<^verbatim>\<open>update.go\<close>, \<^verbatim>\<open>unsorted.go\<close>, and \<^verbatim>\<open>processSlotForLightClientStore\<close> of \<^verbatim>\<open>service.go\<close>). Pointers are
  options and a nil dereference is a panic. Protobuf equality, hash tree roots, bit vectors, the
  beacon configuration, signing and BLS are prysm's, and so is the \<^verbatim>\<open>ztype\<close> package that
  \<^verbatim>\<open>verify.go\<close> imports: they are the fields of \<open>prysm_lib\<close>.
\<close>

subsection \<open>Messages and the store\<close>

record BeaconBlockHeader =
  Slot :: u64
  ProposerIndex :: u64
  ParentRoot :: bytes
  StateRoot :: bytes
  BodyRoot :: bytes

record SyncCommittee =
  Pubkeys :: "bytes list"
  AggregatePubkey :: bytes

record LightClientUpdate =
  AttestedHeader :: "BeaconBlockHeader option"
  NextSyncCommittee :: "SyncCommittee option"
  NextSyncCommitteeBranch :: "bytes list"
  FinalityHeader :: "BeaconBlockHeader option"
  FinalityBranch :: "bytes list"
  SyncCommitteeBits :: bytes
  SyncCommitteeSignature :: bytes
  ForkVersion :: bytes

record SkipSyncUpdate = LightClientUpdate +
  CurrentSyncCommittee :: "SyncCommittee option"
  CurrentSyncCommitteeBranch :: "bytes list"

record LightClientStore =
  stFinalizedHeader :: "BeaconBlockHeader option"
  stCurrentSyncCommittee :: "SyncCommittee option"
  stNextSyncCommittee :: "SyncCommittee option"
  stOptimisticHeader :: "BeaconBlockHeader option"
  stBestValidUpdate :: "LightClientUpdate option"
  stPreviousMaxActiveParticipants :: u64
  stCurrentMaxActiveParticipants :: u64

datatype sync_error =
    InvalidMerkleProof | InvalidSlot | InvalidPeriod | InsufficientParticipants | FailedToVerify
  | LibError string

text \<open>\<open>'k\<close> is a BLS public key and \<open>'g\<close> a signature.\<close>

record ('k, 'g) prysm_lib =
  protoEqual :: "BeaconBlockHeader option \<Rightarrow> BeaconBlockHeader option \<Rightarrow> bool"
  headerRoot :: "BeaconBlockHeader option \<Rightarrow> (string + bytes) go"
  committeeRoot :: "SyncCommittee option \<Rightarrow> (string + bytes) go"
  bitsCount :: "bytes \<Rightarrow> u64"
  bitsLen :: "bytes \<Rightarrow> u64"
  bitAt :: "bytes \<Rightarrow> u64 \<Rightarrow> bool"
  ToEpoch :: "u64 \<Rightarrow> u64"
  slotMul :: "u64 \<Rightarrow> u64 \<Rightarrow> u64"
  cfgSlotsPerEpoch :: u64
  cfgEpochsPerSyncCommitteePeriod :: u64
  cfgMinSyncCommitteeParticipants :: u64
  cfgDomainSyncCommittee :: bytes
  ComputeDomain :: "bytes \<Rightarrow> bytes \<Rightarrow> bytes \<Rightarrow> string + bytes"
  ComputeSigningRoot :: "BeaconBlockHeader option \<Rightarrow> bytes \<Rightarrow> (string + bytes) go"
  SignatureFromBytes :: "bytes \<Rightarrow> string + 'g"
  PublicKeyFromBytes :: "bytes \<Rightarrow> string + 'k"
  FastAggregateVerify :: "'g \<Rightarrow> 'k list \<Rightarrow> bytes \<Rightarrow> bool"
  ztypeGIndex :: "u64 list \<Rightarrow> u64 go"
  ztypeVerify :: "bytes \<Rightarrow> u64 \<Rightarrow> bytes \<Rightarrow> bytes list \<Rightarrow> bool"
  pToBytes32 :: "bytes \<Rightarrow> bytes"

subsection \<open>unsorted.go\<close>

definition emptyHeader :: BeaconBlockHeader where
  "emptyHeader = \<lparr>Slot = 0, ProposerIndex = 0, ParentRoot = [], StateRoot = [], BodyRoot = []\<rparr>"

definition IsEmptyHeader :: "('k, 'g) prysm_lib \<Rightarrow> BeaconBlockHeader option \<Rightarrow> bool" where
  "IsEmptyHeader P header = protoEqual P header (Some emptyHeader)"

definition toLightClientUpdate :: "SkipSyncUpdate \<Rightarrow> LightClientUpdate" where
  "toLightClientUpdate u =
     \<lparr>AttestedHeader = AttestedHeader u,
      NextSyncCommittee = NextSyncCommittee u,
      NextSyncCommitteeBranch = NextSyncCommitteeBranch u,
      FinalityHeader = FinalityHeader u,
      FinalityBranch = FinalityBranch u,
      SyncCommitteeBits = SyncCommitteeBits u,
      SyncCommitteeSignature = SyncCommitteeSignature u,
      ForkVersion = ForkVersion u\<rparr>"

definition getActiveHeader :: "('k, 'g) prysm_lib \<Rightarrow> LightClientUpdate \<Rightarrow> BeaconBlockHeader option" where
  "getActiveHeader P u = (if IsEmptyHeader P (FinalityHeader u) then AttestedHeader u else FinalityHeader u)"

definition getSafetyThreshold :: "LightClientStore \<Rightarrow> u64" where
  "getSafetyThreshold store =
     (let m = stPreviousMaxActiveParticipants store;
          m = (if stCurrentMaxActiveParticipants store > m then stCurrentMaxActiveParticipants store else m)
      in m div 2)"

subsection \<open>verify.go\<close>

definition verifyMerkleFinalityHeader :: "('k, 'g) prysm_lib \<Rightarrow> LightClientUpdate \<Rightarrow> bool go" where
  "verifyMerkleFinalityHeader P u =
     (if IsEmptyHeader P (FinalityHeader u) then Some True
      else do {
        gIndex \<leftarrow> ztypeGIndex P [20, 1];
        attested \<leftarrow> AttestedHeader u;
        res \<leftarrow> headerRoot P (FinalityHeader u);
        leaf \<leftarrow> PanicErr res;
        Some (ztypeVerify P (pToBytes32 P (StateRoot attested)) gIndex leaf (FinalityBranch u))
      })"

definition verifyMerkleNextSyncComm :: "('k, 'g) prysm_lib \<Rightarrow> LightClientUpdate \<Rightarrow> bool go" where
  "verifyMerkleNextSyncComm P u =
     do {
       gIndex \<leftarrow> ztypeGIndex P [23];
       res \<leftarrow> committeeRoot P (NextSyncCommittee u);
       leaf \<leftarrow> PanicErr res;
       h \<leftarrow> (if IsEmptyHeader P (FinalityHeader u) then AttestedHeader u else FinalityHeader u);
       Some (ztypeVerify P (pToBytes32 P (StateRoot h)) gIndex leaf (NextSyncCommitteeBranch u))
     }"

definition verifyMerkleCurrentSyncComm :: "('k, 'g) prysm_lib \<Rightarrow> SkipSyncUpdate \<Rightarrow> bool go" where
  "verifyMerkleCurrentSyncComm P u =
     do {
       gIndex \<leftarrow> ztypeGIndex P [22];
       res \<leftarrow> committeeRoot P (CurrentSyncCommittee u);
       leaf \<leftarrow> PanicErr res;
       h \<leftarrow> (if IsEmptyHeader P (FinalityHeader u) then AttestedHeader u else FinalityHeader u);
       Some (ztypeVerify P (pToBytes32 P (StateRoot h)) gIndex leaf (CurrentSyncCommitteeBranch u))
     }"

text \<open>\<^verbatim>\<open>verified = verified && f()\<close>: the call is made only when the checks before it passed.\<close>

definition and_then :: "bool go \<Rightarrow> bool go \<Rightarrow> bool go" where
  "and_then a b = do { x \<leftarrow> a; if x then b else Some False }"

definition validateMerkleSkipSyncUpdate :: "('k, 'g) prysm_lib \<Rightarrow> SkipSyncUpdate \<Rightarrow> (sync_error + unit) go" where
  "validateMerkleSkipSyncUpdate P u =
     do {
       verified \<leftarrow> and_then (and_then (verifyMerkleFinalityHeader P (toLightClientUpdate u))
                                       (verifyMerkleCurrentSyncComm P u))
                             (verifyMerkleNextSyncComm P (toLightClientUpdate u));
       Some (if \<not> verified then Inl InvalidMerkleProof else Inr ())
     }"

definition validateMerkleLightClientUpdate ::
  "('k, 'g) prysm_lib \<Rightarrow> LightClientUpdate \<Rightarrow> (sync_error + unit) go" where
  "validateMerkleLightClientUpdate P u =
     do {
       verified \<leftarrow> and_then (verifyMerkleFinalityHeader P u) (verifyMerkleNextSyncComm P u);
       Some (if \<not> verified then Inl InvalidMerkleProof else Inr ())
     }"

text \<open>Integer division of Go's unsigned integers: dividing by zero panics.\<close>

definition go_udiv :: "u64 \<Rightarrow> u64 \<Rightarrow> u64 go" where
  "go_udiv a b = (if b = 0 then None else Some (a div b))"

definition period_of :: "('k, 'g) prysm_lib \<Rightarrow> BeaconBlockHeader \<Rightarrow> u64 go" where
  "period_of P h = go_udiv (ToEpoch P (Slot h)) (cfgEpochsPerSyncCommitteePeriod P)"

definition participants :: "('k, 'g) prysm_lib \<Rightarrow> SyncCommittee \<Rightarrow> bytes \<Rightarrow> bytes list" where
  "participants P c bits =
     map snd (filter (\<lambda>(i, pubKey). bitAt P bits (of_nat i)) (enumerate 0 (Pubkeys c)))"

fun public_keys :: "('k, 'g) prysm_lib \<Rightarrow> bytes list \<Rightarrow> sync_error + 'k list" where
  "public_keys P [] = Inr []"
| "public_keys P (pubkey # rest) =
     (case PublicKeyFromBytes P pubkey of
        Inl err \<Rightarrow> Inl (LibError err)
      | Inr pk \<Rightarrow> (case public_keys P rest of Inl err \<Rightarrow> Inl err | Inr pks \<Rightarrow> Inr (pk # pks)))"

definition verifySign ::
  "('k, 'g) prysm_lib \<Rightarrow> SyncCommittee option \<Rightarrow> LightClientUpdate \<Rightarrow> bytes \<Rightarrow> (sync_error + unit) go" where
  "verifySign P syncCommittee u genesisValidatorsRoot =
     do {
       c \<leftarrow> syncCommittee;
       let participantPubkeys = participants P c (SyncCommitteeBits u);
       case ComputeDomain P (cfgDomainSyncCommittee P) (ForkVersion u) genesisValidatorsRoot of
         Inl err \<Rightarrow> Some (Inl (LibError err))
       | Inr domain \<Rightarrow> do {
           signing \<leftarrow> ComputeSigningRoot P (getActiveHeader P u) domain;
           case signing of
             Inl err \<Rightarrow> Some (Inl (LibError err))
           | Inr signingRoot \<Rightarrow>
               Some (case SignatureFromBytes P (SyncCommitteeSignature u) of
                  Inl err \<Rightarrow> Inl (LibError err)
                | Inr sig \<Rightarrow>
                    (case public_keys P participantPubkeys of
                       Inl err \<Rightarrow> Inl err
                     | Inr pubKeys \<Rightarrow>
                         if \<not> FastAggregateVerify P sig pubKeys signingRoot
                         then Inl FailedToVerify else Inr ()))
         }
     }"

definition validateLightClientUpdate ::
  "('k, 'g) prysm_lib \<Rightarrow> LightClientStore \<Rightarrow> LightClientUpdate \<Rightarrow> u64 \<Rightarrow> bytes \<Rightarrow> (sync_error + unit) go" where
  "validateLightClientUpdate P store u currentSlot genesisValidatorsRoot =
     do {
       merkle \<leftarrow> validateMerkleLightClientUpdate P u;
       case merkle of
         Inl err \<Rightarrow> Some (Inl err)
       | Inr _ \<Rightarrow> do {
           activeHeader \<leftarrow> getActiveHeader P u;
           invalidSlot \<leftarrow> (if currentSlot < Slot activeHeader then Some True
                            else do { f \<leftarrow> stFinalizedHeader store; Some (Slot activeHeader < Slot f) });
           if invalidSlot then Some (Inl InvalidSlot)
           else do {
             f \<leftarrow> stFinalizedHeader store;
             finalizedPeriod \<leftarrow> period_of P f;
             updatePeriod \<leftarrow> period_of P activeHeader;
             if updatePeriod \<noteq> finalizedPeriod \<and> updatePeriod \<noteq> finalizedPeriod + 1
             then Some (Inl InvalidPeriod)
             else if bitsCount P (SyncCommitteeBits u) < cfgMinSyncCommitteeParticipants P
             then Some (Inl InsufficientParticipants)
             else verifySign P
                    (if updatePeriod = finalizedPeriod + 1 then stNextSyncCommittee store
                     else stCurrentSyncCommittee store) u genesisValidatorsRoot
           }
         }
     }"

subsection \<open>update.go\<close>

definition UpdateTimeout :: "('k, 'g) prysm_lib \<Rightarrow> u64" where
  "UpdateTimeout P = slotMul P (cfgSlotsPerEpoch P) (cfgEpochsPerSyncCommitteePeriod P)"

definition SafetyThresholdPeriod :: "('k, 'g) prysm_lib \<Rightarrow> u64" where
  "SafetyThresholdPeriod P = slotMul P (cfgSlotsPerEpoch P) (cfgEpochsPerSyncCommitteePeriod P) div 2"

definition applyLightClientUpdate ::
  "('k, 'g) prysm_lib \<Rightarrow> LightClientStore \<Rightarrow> LightClientUpdate \<Rightarrow> LightClientStore go" where
  "applyLightClientUpdate P store u =
     do {
       f \<leftarrow> stFinalizedHeader store;
       finalizedPeriod \<leftarrow> period_of P f;
       activeHeader \<leftarrow> getActiveHeader P u;
       updatePeriod \<leftarrow> period_of P activeHeader;
       let store = (if updatePeriod = finalizedPeriod + 1
                    then store\<lparr>stCurrentSyncCommittee := stNextSyncCommittee store\<rparr> else store);
       Some (store\<lparr>stFinalizedHeader := Some activeHeader\<rparr>)
     }"

text \<open>The three steps of \<open>processLightClientUpdate\<close> after the call of the validation.\<close>

definition update_best :: "('k, 'g) prysm_lib \<Rightarrow> LightClientStore \<Rightarrow> LightClientUpdate \<Rightarrow> LightClientStore" where
  "update_best P store u =
     (case stBestValidUpdate store of
        None \<Rightarrow> store\<lparr>stBestValidUpdate := Some u\<rparr>
      | Some best \<Rightarrow>
          if bitsCount P (SyncCommitteeBits u) > bitsCount P (SyncCommitteeBits best)
          then store\<lparr>stBestValidUpdate := Some u\<rparr> else store)"

definition update_optimistic ::
  "('k, 'g) prysm_lib \<Rightarrow> LightClientStore \<Rightarrow> LightClientUpdate \<Rightarrow> LightClientStore go" where
  "update_optimistic P store u =
     (if bitsCount P (SyncCommitteeBits u) > getSafetyThreshold store
      then do {
        attested \<leftarrow> AttestedHeader u;
        optimistic \<leftarrow> stOptimisticHeader store;
        Some (if Slot attested > Slot optimistic
              then store\<lparr>stOptimisticHeader := Some attested\<rparr> else store)
      }
      else Some store)"

definition update_finalized ::
  "('k, 'g) prysm_lib \<Rightarrow> LightClientStore \<Rightarrow> LightClientUpdate \<Rightarrow> u64 \<Rightarrow> LightClientStore go" where
  "update_finalized P store u currentSlot =
     (if \<not> IsEmptyHeader P (FinalityHeader u) \<and>
         bitsCount P (SyncCommitteeBits u) \<ge> bitsLen P (SyncCommitteeBits u) * 3 div 2
      then applyLightClientUpdate P store u
      else do {
        f \<leftarrow> stFinalizedHeader store;
        (case stBestValidUpdate store of
           Some best \<Rightarrow>
             if currentSlot > Slot f + UpdateTimeout P
             then do {
               store \<leftarrow> applyLightClientUpdate P store best;
               Some (store\<lparr>stBestValidUpdate := None\<rparr>)
             }
             else Some store
         | None \<Rightarrow> Some store)
      })"

definition processLightClientUpdate ::
  "('k, 'g) prysm_lib \<Rightarrow> LightClientStore \<Rightarrow> LightClientUpdate \<Rightarrow> u64 \<Rightarrow> bytes \<Rightarrow> LightClientStore go" where
  "processLightClientUpdate P store u currentSlot genesisValidatorsRoot =
     do {
       _ \<leftarrow> validateLightClientUpdate P store u currentSlot genesisValidatorsRoot;
       let store = update_best P store u;
       let store = (if stCurrentMaxActiveParticipants store < bitsCount P (SyncCommitteeBits u)
                    then store\<lparr>stCurrentMaxActiveParticipants := bitsCount P (SyncCommitteeBits u)\<rparr>
                    else store);
       store \<leftarrow> update_optimistic P store u;
       update_finalized P store u currentSlot
     }"

subsection \<open>service.go: the slot handler\<close>

definition processSlotForLightClientStore ::
  "('k, 'g) prysm_lib \<Rightarrow> LightClientStore \<Rightarrow> u64 \<Rightarrow> LightClientStore go" where
  "processSlotForLightClientStore P store currentSlot =
     (if SafetyThresholdPeriod P = 0 then None
      else if currentSlot mod SafetyThresholdPeriod P = 0
      then Some (store\<lparr>stPreviousMaxActiveParticipants := stCurrentMaxActiveParticipants store,
                      stCurrentMaxActiveParticipants := 0\<rparr>)
      else Some store)"

subsection \<open>What the libraries promise\<close>

text \<open>
  A bit vector counts at most as many bits as it has; \<^verbatim>\<open>Bitvector512\<close> has 512. \<^verbatim>\<open>HashTreeRoot\<close> of a
  present message returns a root of 32 bytes when the fields have the sizes of the SSZ schema, and an error
  otherwise; the signing root of a present header is a root or an error, the indices of the three fields exist, and the
  configured period is not zero.
\<close>

definition bits_ok :: "('k, 'g) prysm_lib \<Rightarrow> bool" where
  "bits_ok P \<longleftrightarrow> (\<forall>b. bitsLen P b = 512 \<and> bitsCount P b \<le> bitsLen P b)"

definition proto_ok :: "('k, 'g) prysm_lib \<Rightarrow> bool" where
  "proto_ok P \<longleftrightarrow> (\<forall>a b. protoEqual P a b \<longleftrightarrow> a = b)"

definition header_sized :: "BeaconBlockHeader \<Rightarrow> bool" where
  "header_sized h \<longleftrightarrow> length (ParentRoot h) = 32 \<and> length (StateRoot h) = 32 \<and> length (BodyRoot h) = 32"

definition committee_sized :: "SyncCommittee \<Rightarrow> bool" where
  "committee_sized c \<longleftrightarrow>
     length (Pubkeys c) = 512 \<and> list_all (\<lambda>k. length k = 48) (Pubkeys c) \<and> length (AggregatePubkey c) = 48"

definition lib_total :: "('k, 'g) prysm_lib \<Rightarrow> bool" where
  "lib_total P \<longleftrightarrow>
     (\<forall>h. if header_sized h then \<exists>r. headerRoot P (Some h) = Some (Inr r) \<and> length r = 32
          else \<exists>err. headerRoot P (Some h) = Some (Inl err)) \<and>
     (\<forall>c. if committee_sized c then \<exists>r. committeeRoot P (Some c) = Some (Inr r) \<and> length r = 32
          else \<exists>err. committeeRoot P (Some c) = Some (Inl err)) \<and>
     (\<forall>h d. ComputeSigningRoot P (Some h) d \<noteq> None) \<and>
     (\<forall>i \<in> {[20, 1], [22], [23]}. ztypeGIndex P i \<noteq> None) \<and>
     cfgEpochsPerSyncCommitteePeriod P \<noteq> 0 \<and> SafetyThresholdPeriod P \<noteq> 0"

text \<open>The \<^verbatim>\<open>ztype\<close> package of prysm is the one this repository has a copy of.\<close>

definition same_ztype :: "('k, 'g) prysm_lib \<Rightarrow> ('n, 'v, 's, 'p) ztyp_lib \<Rightarrow> bool" where
  "same_ztype P Z \<longleftrightarrow>
     ztypeGIndex P = CalculateGIndex Z BeaconStateAltairType \<and> ztypeVerify P = Verify Z \<and>
     pToBytes32 P = prysmToBytes32 Z"

definition update_present :: "LightClientUpdate \<Rightarrow> bool" where
  "update_present u \<longleftrightarrow> AttestedHeader u \<noteq> None \<and> NextSyncCommittee u \<noteq> None \<and> FinalityHeader u \<noteq> None"

definition store_present :: "LightClientStore \<Rightarrow> bool" where
  "store_present s \<longleftrightarrow>
     stFinalizedHeader s \<noteq> None \<and> stOptimisticHeader s \<noteq> None \<and> stCurrentSyncCommittee s \<noteq> None \<and>
     stNextSyncCommittee s \<noteq> None \<and> (\<forall>b. stBestValidUpdate s = Some b \<longrightarrow> update_present b)"

subsection \<open>Validation\<close>

lemma PanicErr_Some: "PanicErr r = Some a \<longleftrightarrow> r = Inr a"
  by (simp add: PanicErr_def split: sum.split)

lemma and_then_True [simp]: "and_then a b = Some True \<longleftrightarrow> a = Some True \<and> b = Some True"
  by (auto simp: and_then_def bind_eq_Some_conv split: if_splits)

lemma validateMerkle_accepts:
  "validateMerkleLightClientUpdate P u = Some (Inr ()) \<longleftrightarrow>
     verifyMerkleFinalityHeader P u = Some True \<and> verifyMerkleNextSyncComm P u = Some True"
proof -
  have "validateMerkleLightClientUpdate P u = Some (Inr ()) \<longleftrightarrow>
          and_then (verifyMerkleFinalityHeader P u) (verifyMerkleNextSyncComm P u) = Some True"
    by (auto simp: validateMerkleLightClientUpdate_def bind_eq_Some_conv split: if_splits)
  then show ?thesis by simp
qed

lemma validateMerkleSkipSync_accepts:
  "validateMerkleSkipSyncUpdate P u = Some (Inr ()) \<longleftrightarrow>
     verifyMerkleFinalityHeader P (toLightClientUpdate u) = Some True \<and>
     verifyMerkleCurrentSyncComm P u = Some True \<and>
     verifyMerkleNextSyncComm P (toLightClientUpdate u) = Some True"
proof -
  have "validateMerkleSkipSyncUpdate P u = Some (Inr ()) \<longleftrightarrow>
          and_then (and_then (verifyMerkleFinalityHeader P (toLightClientUpdate u))
             (verifyMerkleCurrentSyncComm P u)) (verifyMerkleNextSyncComm P (toLightClientUpdate u)) = Some True"
    by (auto simp: validateMerkleSkipSyncUpdate_def bind_eq_Some_conv split: if_splits)
  then show ?thesis by simp
qed

lemma verifySign_accepts:
  "verifySign P c u gvr = Some (Inr ()) \<longleftrightarrow>
     (\<exists>committee domain root sig pks. c = Some committee \<and>
        ComputeDomain P (cfgDomainSyncCommittee P) (ForkVersion u) gvr = Inr domain \<and>
        ComputeSigningRoot P (getActiveHeader P u) domain = Some (Inr root) \<and>
        SignatureFromBytes P (SyncCommitteeSignature u) = Inr sig \<and>
        public_keys P (participants P committee (SyncCommitteeBits u)) = Inr pks \<and>
        FastAggregateVerify P sig pks root)"
proof (cases "c = None \<or> (\<exists>e. ComputeDomain P (cfgDomainSyncCommittee P) (ForkVersion u) gvr = Inl e)")
  case True
  then show ?thesis by (auto simp: verifySign_def bind_eq_Some_conv)
next
  case False
  then obtain committee d where c: "c = Some committee"
    and d: "ComputeDomain P (cfgDomainSyncCommittee P) (ForkVersion u) gvr = Inr d"
    by (metis not_None_eq sum.exhaust)
  show ?thesis
  proof (cases "ComputeSigningRoot P (getActiveHeader P u) d")
    case (Some r)
    then show ?thesis
      using c d by (cases r) (auto simp: verifySign_def split: sum.splits)
  qed (use c d in \<open>simp add: verifySign_def\<close>)
qed

definition committee_for :: "LightClientStore \<Rightarrow> u64 \<Rightarrow> u64 \<Rightarrow> SyncCommittee option" where
  "committee_for store finalizedPeriod updatePeriod =
     (if updatePeriod = finalizedPeriod + 1 then stNextSyncCommittee store else stCurrentSyncCommittee store)"

lemma validate_accepts:
  "validateLightClientUpdate P store u slot gvr = Some (Inr ()) \<longleftrightarrow>
     validateMerkleLightClientUpdate P u = Some (Inr ()) \<and>
     (\<exists>a f pa pf. getActiveHeader P u = Some a \<and> stFinalizedHeader store = Some f \<and>
        Slot f \<le> Slot a \<and> Slot a \<le> slot \<and> period_of P f = Some pf \<and> period_of P a = Some pa \<and>
        (pa = pf \<or> pa = pf + 1) \<and>
        cfgMinSyncCommitteeParticipants P \<le> bitsCount P (SyncCommitteeBits u) \<and>
        verifySign P (committee_for store pf pa) u gvr = Some (Inr ()))"
proof (cases "validateMerkleLightClientUpdate P u = Some (Inr ())")
  case False
  then show ?thesis by (auto simp: validateLightClientUpdate_def bind_eq_Some_conv split: sum.splits)
next
  case True
  note simps = validateLightClientUpdate_def committee_for_def True not_less
  show ?thesis
  proof (cases "getActiveHeader P u = None \<or> stFinalizedHeader store = None")
    case None: True
    then show ?thesis by (cases "getActiveHeader P u") (auto simp: simps)
  next
    case False
    then obtain a f where af: "getActiveHeader P u = Some a" "stFinalizedHeader store = Some f" by auto
    show ?thesis
    proof (cases "period_of P f = None \<or> period_of P a = None")
      case None: True
      then show ?thesis using af by (cases "period_of P f") (auto simp: simps)
    next
      case False
      then obtain pf pa where "period_of P f = Some pf" "period_of P a = Some pa" by auto
      then show ?thesis using af by (auto simp: simps)
    qed
  qed
qed

lemma participants_bits:
  "participants P c bits =
     map (\<lambda>i. Pubkeys c ! i) (filter (\<lambda>i. bitAt P bits (of_nat i)) [0..<length (Pubkeys c)])"
proof -
  have "enumerate 0 (Pubkeys c) = map (\<lambda>i. (i, Pubkeys c ! i)) [0..<length (Pubkeys c)]"
    by (rule nth_equalityI) (simp_all add: nth_enumerate_eq)
  then show ?thesis by (simp add: participants_def filter_map o_def)
qed

subsection \<open>Totality and presence\<close>

lemma period_of_total: "lib_total P \<Longrightarrow> \<exists>p. period_of P h = Some p"
  by (simp add: lib_total_def period_of_def go_udiv_def)

lemma getActiveHeader_present: "update_present u \<Longrightarrow> \<exists>h. getActiveHeader P u = Some h"
  by (auto simp: update_present_def getActiveHeader_def)

text \<open>
  The updates on which the validation panics: the finality header is not empty and not well sized, or the finality
  header is empty or proved and the next committee is not well sized.
\<close>

definition malformed :: "('k, 'g) prysm_lib \<Rightarrow> LightClientUpdate \<Rightarrow> bool" where
  "malformed P u \<longleftrightarrow>
     (\<exists>h. FinalityHeader u = Some h \<and> \<not> IsEmptyHeader P (Some h) \<and> \<not> header_sized h) \<or>
     (\<exists>c. NextSyncCommittee u = Some c \<and> \<not> committee_sized c) \<and>
     (IsEmptyHeader P (FinalityHeader u) \<or>
      (\<exists>a leaf g. AttestedHeader u = Some a \<and> headerRoot P (FinalityHeader u) = Some (Inr leaf) \<and>
         ztypeGIndex P [20, 1] = Some g \<and> ztypeVerify P (pToBytes32 P (StateRoot a)) g leaf (FinalityBranch u)))"

lemma roots_total:
  assumes "lib_total P"
  shows "(\<exists>r. headerRoot P (Some h) = Some (Inr r) \<and> length r = 32) \<and> header_sized h \<or>
      (\<exists>err. headerRoot P (Some h) = Some (Inl err)) \<and> \<not> header_sized h"
    and "(\<exists>r. committeeRoot P (Some c) = Some (Inr r) \<and> length r = 32) \<and> committee_sized c \<or>
      (\<exists>err. committeeRoot P (Some c) = Some (Inl err)) \<and> \<not> committee_sized c"
  using assms unfolding lib_total_def by metis+

lemma verifyMerkle_panics:
  assumes "lib_total P" "update_present u"
  shows "validateMerkleLightClientUpdate P u = None \<longleftrightarrow> malformed P u"
proof -
  obtain a n f where p: "AttestedHeader u = Some a" "NextSyncCommittee u = Some n" "FinalityHeader u = Some f"
    using assms(2) by (auto simp: update_present_def)
  obtain g1 g2 where g: "ztypeGIndex P [20, 1] = Some g1" "ztypeGIndex P [23] = Some g2"
    using assms(1) by (auto simp: lib_total_def)
  have n: "(verifyMerkleNextSyncComm P u = None) = (\<not> committee_sized n)"
    using p g roots_total(2) [OF assms(1), of n]
    by (cases "IsEmptyHeader P (Some f)") (auto simp: verifyMerkleNextSyncComm_def PanicErr_def)
  show ?thesis
  proof (cases "IsEmptyHeader P (Some f)")
    case True
    then show ?thesis using n p
      by (auto simp: validateMerkleLightClientUpdate_def and_then_def verifyMerkleFinalityHeader_def malformed_def bind_eq_None_conv)
  next
    case False
    then show ?thesis
      using n p g roots_total(1) [OF assms(1), of f]
      by (auto simp: validateMerkleLightClientUpdate_def and_then_def verifyMerkleFinalityHeader_def malformed_def PanicErr_def
          bind_eq_None_conv)
  qed
qed

lemma verifySign_total:
  assumes "lib_total P" "update_present u" "c \<noteq> None"
  shows "\<exists>r. verifySign P c u gvr = Some r"
proof -
  obtain h where h: "getActiveHeader P u = Some h" using getActiveHeader_present [OF assms(2)] by blast
  have "\<exists>r. ComputeSigningRoot P (Some h) d = Some r" for d
    using assms(1) by (auto simp: lib_total_def)
  then obtain r where "\<And>d. ComputeSigningRoot P (Some h) d = Some (r d)" by metis
  then show ?thesis
    using assms(3) h by (auto simp: verifySign_def split: sum.split)
qed

lemma validate_panics:
  assumes P: "lib_total P" and u: "update_present u" and s: "store_present s"
  shows "validateLightClientUpdate P s u slot gvr = None \<longleftrightarrow> malformed P u"
proof -
  obtain a where a: "getActiveHeader P u = Some a" using getActiveHeader_present [OF u] by blast
  obtain f cc cn where f: "stFinalizedHeader s = Some f" "stCurrentSyncCommittee s = Some cc"
    "stNextSyncCommittee s = Some cn"
    using s by (auto simp: store_present_def)
  obtain pf pa where p: "period_of P f = Some pf" "period_of P a = Some pa"
    using period_of_total [OF P] by metis
  obtain r1 r2 where r: "verifySign P (Some cc) u gvr = Some r1" "verifySign P (Some cn) u gvr = Some r2"
    using verifySign_total [OF P u] by (metis option.distinct(1))
  have "validateLightClientUpdate P s u slot gvr = None \<longleftrightarrow> validateMerkleLightClientUpdate P u = None"
    using a f p r by (auto simp: validateLightClientUpdate_def bind_eq_None_conv split: sum.splits)
  then show ?thesis using verifyMerkle_panics [OF P u] by simp
qed

subsection \<open>Processing\<close>

lemma apply_eq:
  "applyLightClientUpdate P s u = Some s' \<longleftrightarrow>
     (\<exists>f a pf pa. stFinalizedHeader s = Some f \<and> getActiveHeader P u = Some a \<and>
        period_of P f = Some pf \<and> period_of P a = Some pa \<and>
        s' = s\<lparr>stCurrentSyncCommittee := committee_for s pf pa, stFinalizedHeader := Some a\<rparr>)"
  by (auto simp: applyLightClientUpdate_def committee_for_def bind_eq_Some_conv)

lemma apply_total:
  assumes "lib_total P" "update_present u" "stFinalizedHeader s \<noteq> None"
  shows "\<exists>s'. applyLightClientUpdate P s u = Some s'"
  using assms getActiveHeader_present [of u P] period_of_total [of P]
  by (simp add: apply_eq) (metis option.exhaust)

lemma apply_present:
  "store_present s \<Longrightarrow> applyLightClientUpdate P s u = Some s' \<Longrightarrow> store_present s'"
  by (auto simp: apply_eq store_present_def committee_for_def)

definition counted :: "('k, 'g) prysm_lib \<Rightarrow> LightClientStore \<Rightarrow> LightClientUpdate \<Rightarrow> LightClientStore" where
  "counted P s u =
     (update_best P s u)\<lparr>stCurrentMaxActiveParticipants :=
        max (stCurrentMaxActiveParticipants s) (bitsCount P (SyncCommitteeBits u))\<rparr>"

lemma getSafetyThreshold_max:
  "getSafetyThreshold s = max (stPreviousMaxActiveParticipants s) (stCurrentMaxActiveParticipants s) div 2"
  by (auto simp: getSafetyThreshold_def Let_def max_def)

lemma update_best_fields [simp]:
  "stFinalizedHeader (update_best P s u) = stFinalizedHeader s"
  "stOptimisticHeader (update_best P s u) = stOptimisticHeader s"
  "stCurrentSyncCommittee (update_best P s u) = stCurrentSyncCommittee s"
  "stNextSyncCommittee (update_best P s u) = stNextSyncCommittee s"
  "stPreviousMaxActiveParticipants (update_best P s u) = stPreviousMaxActiveParticipants s"
  "stCurrentMaxActiveParticipants (update_best P s u) = stCurrentMaxActiveParticipants s"
  by (simp_all add: update_best_def split: option.split)

lemma counted_fields [simp]:
  "stFinalizedHeader (counted P s u) = stFinalizedHeader s"
  "stOptimisticHeader (counted P s u) = stOptimisticHeader s"
  "stCurrentSyncCommittee (counted P s u) = stCurrentSyncCommittee s"
  "stNextSyncCommittee (counted P s u) = stNextSyncCommittee s"
  "stPreviousMaxActiveParticipants (counted P s u) = stPreviousMaxActiveParticipants s"
  "stCurrentMaxActiveParticipants (counted P s u) =
     max (stCurrentMaxActiveParticipants s) (bitsCount P (SyncCommitteeBits u))"
  "stBestValidUpdate (counted P s u) = stBestValidUpdate (update_best P s u)"
  by (simp_all add: counted_def)

lemma process_eq:
  "processLightClientUpdate P s u slot gvr =
     Option.bind (validateLightClientUpdate P s u slot gvr)
       (\<lambda>_. Option.bind (update_optimistic P (counted P s u) u) (\<lambda>s. update_finalized P s u slot))"
proof -
  have "(if stCurrentMaxActiveParticipants (update_best P s u) < bitsCount P (SyncCommitteeBits u)
         then (update_best P s u)\<lparr>stCurrentMaxActiveParticipants := bitsCount P (SyncCommitteeBits u)\<rparr>
         else update_best P s u) = counted P s u"
  proof (cases "stCurrentMaxActiveParticipants s < bitsCount P (SyncCommitteeBits u)")
    case False
    then have "counted P s u = (update_best P s u)\<lparr>stCurrentMaxActiveParticipants :=
                 stCurrentMaxActiveParticipants (update_best P s u)\<rparr>"
      by (simp add: counted_def max_def)
    with False show ?thesis by simp
  qed (simp add: counted_def max_def)
  then show ?thesis by (simp only: processLightClientUpdate_def Let_def)
qed

lemma update_optimistic_eq:
  "update_optimistic P s u = Some s' \<Longrightarrow>
     s' = s \<or>
     (\<exists>a o'. AttestedHeader u = Some a \<and> stOptimisticHeader s = Some o' \<and> Slot o' < Slot a \<and>
        getSafetyThreshold s < bitsCount P (SyncCommitteeBits u) \<and> s' = s\<lparr>stOptimisticHeader := Some a\<rparr>)"
  by (auto simp: update_optimistic_def bind_eq_Some_conv split: if_splits)

lemma update_best_present: "update_present u \<Longrightarrow> store_present s \<Longrightarrow> store_present (counted P s u)"
  by (auto simp: store_present_def update_best_def split: option.splits if_splits)

lemma update_optimistic_total:
  assumes "update_present u" "store_present s"
  shows "\<exists>s'. update_optimistic P s u = Some s' \<and> store_present s'"
  using assms by (auto simp: update_optimistic_def store_present_def update_present_def)

lemma update_finalized_total:
  assumes "lib_total P" "update_present u" "store_present s"
  shows "\<exists>s'. update_finalized P s u slot = Some s' \<and> store_present s'"
proof -
  have f: "stFinalizedHeader s \<noteq> None" using assms(3) by (simp add: store_present_def)
  have app: "\<exists>s'. applyLightClientUpdate P s v = Some s' \<and> store_present s'" if "update_present v" for v
    using apply_total [OF assms(1) that f] apply_present [OF assms(3)] by blast
  show ?thesis
  proof (cases "stBestValidUpdate s")
    case None
    then show ?thesis using app [OF assms(2)] assms(3) f by (auto simp: update_finalized_def)
  next
    case (Some b)
    then have "update_present b" using assms(3) by (simp add: store_present_def)
    then obtain s' where "applyLightClientUpdate P s b = Some s'" "store_present s'" using app by blast
    moreover from this have "store_present (s'\<lparr>stBestValidUpdate := None\<rparr>)" by (simp add: store_present_def)
    ultimately show ?thesis
      using Some app [OF assms(2)] assms(3) f by (auto simp: update_finalized_def)
  qed
qed

lemma process_total:
  assumes "lib_total P" "update_present u" "store_present s" and r: "validateLightClientUpdate P s u slot gvr = Some r"
  shows "\<exists>s'. processLightClientUpdate P s u slot gvr = Some s' \<and> store_present s'"
proof -
  obtain s1 where s1: "update_optimistic P (counted P s u) u = Some s1" "store_present s1"
    using update_optimistic_total [OF assms(2) update_best_present [OF assms(2,3)]] by blast
  then show ?thesis
    using update_finalized_total [OF assms(1,2) s1(2)] r by (auto simp: process_eq)
qed

lemma process_panics:
  assumes "lib_total P" "update_present u" "store_present s"
  shows "processLightClientUpdate P s u slot gvr = None \<longleftrightarrow> malformed P u"
    and "processLightClientUpdate P s u slot gvr = Some s' \<Longrightarrow> store_present s'"
proof -
  show "processLightClientUpdate P s u slot gvr = None \<longleftrightarrow> malformed P u"
    using validate_panics [OF assms, of slot gvr] process_total [OF assms, of slot gvr]
    by (cases "validateLightClientUpdate P s u slot gvr") (auto simp: process_eq)
  show "store_present s'" if "processLightClientUpdate P s u slot gvr = Some s'"
    using that process_total [OF assms, of slot gvr]
    by (cases "validateLightClientUpdate P s u slot gvr") (auto simp: process_eq)
qed

lemma counting_threshold_unreachable:
  assumes "bits_ok P"
  shows "\<not> bitsLen P b * 3 div 2 \<le> bitsCount P b"
proof -
  have "bitsLen P b = 512" "bitsCount P b \<le> bitsLen P b" using assms unfolding bits_ok_def by blast+
  then show ?thesis by (simp add: word_le_nat_alt)
qed

lemma update_finalized_cases:
  assumes "update_finalized P s u slot = Some s'"
  obtains (same) "s' = s"
  | (normal) "\<not> IsEmptyHeader P (FinalityHeader u)"
      "bitsLen P (SyncCommitteeBits u) * 3 div 2 \<le> bitsCount P (SyncCommitteeBits u)"
      "applyLightClientUpdate P s u = Some s'"
  | (timeout) f best t where "stFinalizedHeader s = Some f" "Slot f + UpdateTimeout P < slot"
      "stBestValidUpdate s = Some best" "applyLightClientUpdate P s best = Some t"
      "s' = t\<lparr>stBestValidUpdate := None\<rparr>"
  using assms by (auto simp: update_finalized_def bind_eq_Some_conv split: if_splits option.splits)

lemma update_finalized_keeps:
  assumes "update_finalized P s u slot = Some s'"
  shows "stOptimisticHeader s' = stOptimisticHeader s"
    and "stNextSyncCommittee s' = stNextSyncCommittee s"
    and "stPreviousMaxActiveParticipants s' = stPreviousMaxActiveParticipants s"
    and "stCurrentMaxActiveParticipants s' = stCurrentMaxActiveParticipants s"
    and "stCurrentSyncCommittee s' \<in> {stCurrentSyncCommittee s, stNextSyncCommittee s}"
  using assms by (cases rule: update_finalized_cases; auto simp: apply_eq committee_for_def)+

lemma process_split:
  assumes "processLightClientUpdate P s u slot gvr = Some s'"
  obtains s1 where "update_optimistic P (counted P s u) u = Some s1" "update_finalized P s1 u slot = Some s'"
  using assms by (auto simp: process_eq bind_eq_Some_conv)

lemma process_keeps:
  assumes "processLightClientUpdate P s u slot gvr = Some s'"
  shows "stNextSyncCommittee s' = stNextSyncCommittee s"
    and "stCurrentSyncCommittee s' \<in> {stCurrentSyncCommittee s, stNextSyncCommittee s}"
    and "stPreviousMaxActiveParticipants s' = stPreviousMaxActiveParticipants s"
    and "stCurrentMaxActiveParticipants s' =
           max (stCurrentMaxActiveParticipants s) (bitsCount P (SyncCommitteeBits u))"
proof -
  obtain s1 where s1: "update_optimistic P (counted P s u) u = Some s1"
    and s': "update_finalized P s1 u slot = Some s'"
    using assms by (rule process_split)
  note keeps = update_finalized_keeps [OF s'] update_optimistic_eq [OF s1]
  show "stNextSyncCommittee s' = stNextSyncCommittee s" using keeps(2,6) by auto
  show "stCurrentSyncCommittee s' \<in> {stCurrentSyncCommittee s, stNextSyncCommittee s}"
    using keeps(5,6) by auto
  show "stPreviousMaxActiveParticipants s' = stPreviousMaxActiveParticipants s" using keeps(3,6) by auto
  show "stCurrentMaxActiveParticipants s' =
           max (stCurrentMaxActiveParticipants s) (bitsCount P (SyncCommitteeBits u))"
    using keeps(4,6) by auto
qed

lemma process_optimistic:
  assumes "processLightClientUpdate P s u slot gvr = Some s'"
  shows "stOptimisticHeader s' = stOptimisticHeader s \<or>
         (\<exists>a o'. AttestedHeader u = Some a \<and> stOptimisticHeader s = Some o' \<and> Slot o' < Slot a \<and>
            getSafetyThreshold s' < bitsCount P (SyncCommitteeBits u) \<and> stOptimisticHeader s' = Some a)"
proof -
  obtain s1 where s1: "update_optimistic P (counted P s u) u = Some s1"
    and s': "update_finalized P s1 u slot = Some s'"
    using assms by (rule process_split)
  have "getSafetyThreshold s' = getSafetyThreshold (counted P s u)"
    using update_finalized_keeps(3,4) [OF s'] update_optimistic_eq [OF s1]
    by (auto simp: getSafetyThreshold_max)
  then show ?thesis
    using update_optimistic_eq [OF s1] update_finalized_keeps(1) [OF s'] by auto
qed

lemma process_finalized_timeout:
  assumes bits: "bits_ok P" and s: "processLightClientUpdate P s u slot gvr = Some s'"
    and ne: "stFinalizedHeader s' \<noteq> stFinalizedHeader s"
  shows "\<exists>f best. stFinalizedHeader s = Some f \<and> Slot f + UpdateTimeout P < slot \<and>
           stBestValidUpdate (update_best P s u) = Some best \<and>
           stFinalizedHeader s' = getActiveHeader P best \<and> stBestValidUpdate s' = None"
proof -
  obtain s1 where s1: "update_optimistic P (counted P s u) u = Some s1"
    and s': "update_finalized P s1 u slot = Some s'"
    using s by (rule process_split)
  have f: "stFinalizedHeader s1 = stFinalizedHeader s"
    "stBestValidUpdate s1 = stBestValidUpdate (update_best P s u)"
    using update_optimistic_eq [OF s1] by auto
  show ?thesis
    using s'
  proof (cases rule: update_finalized_cases)
    case same
    then show ?thesis using ne f by simp
  next
    case normal
    then show ?thesis using counting_threshold_unreachable [OF bits] by blast
  next
    case (timeout f' best t)
    then show ?thesis using f by (auto simp: apply_eq)
  qed
qed

lemma threshold_counted:
  assumes "getSafetyThreshold s < bitsCount P (SyncCommitteeBits u)"
  shows "getSafetyThreshold (counted P s u) < bitsCount P (SyncCommitteeBits u)"
proof -
  define p c n where "p = unat (stPreviousMaxActiveParticipants s)"
    and "c = unat (stCurrentMaxActiveParticipants s)" and "n = unat (bitsCount P (SyncCommitteeBits u))"
  have um: "unat (max x y) = max (unat x) (unat y)" for x y :: u64
    by (simp add: max_def word_le_nat_alt)
  have "max p c div 2 < n"
    using assms by (simp add: getSafetyThreshold_max word_less_nat_alt unat_div um p_def c_def n_def)
  then have "max p (max c n) div 2 < n" by (auto simp: max_def split: if_splits)
  then show ?thesis
    by (simp add: getSafetyThreshold_max word_less_nat_alt unat_div um p_def c_def n_def)
qed

lemma process_optimistic_set:
  assumes "processLightClientUpdate P s u slot gvr = Some s'"
    and "getSafetyThreshold s < bitsCount P (SyncCommitteeBits u)"
    and "AttestedHeader u = Some a" "stOptimisticHeader s = Some o'" "Slot o' < Slot a"
  shows "stOptimisticHeader s' = Some a"
proof -
  obtain s1 where s1: "update_optimistic P (counted P s u) u = Some s1"
    and s': "update_finalized P s1 u slot = Some s'"
    using assms(1) by (rule process_split)
  have "s1 = (counted P s u)\<lparr>stOptimisticHeader := Some a\<rparr>"
    using s1 threshold_counted [OF assms(2)] assms(3-5) by (simp add: update_optimistic_def)
  then show ?thesis using update_finalized_keeps(1) [OF s'] by simp
qed

lemma CalculateGIndex_altair_fields:
  assumes "index_ok Z"
  shows "CalculateGIndex Z BeaconStateAltairType [20, 1] = Some 105"
    "CalculateGIndex Z BeaconStateAltairType [22] = Some 54" "CalculateGIndex Z BeaconStateAltairType [23] = Some 55"
  using CalculateGIndex_finalized_root [OF assms] CalculateGIndex_state_field [OF assms, of 22]
    CalculateGIndex_state_field [OF assms, of 23] by simp_all

lemma verifyMerkle_committees:
  assumes Z: "same_ztype P Z" "index_ok Z"
  shows "verifyMerkleNextSyncComm P u = Some True \<longleftrightarrow>
           (\<exists>h leaf. getActiveHeader P u = Some h \<and> committeeRoot P (NextSyncCommittee u) = Some (Inr leaf) \<and>
              Verify Z (prysmToBytes32 Z (StateRoot h)) 55 leaf (NextSyncCommitteeBranch u))"
    and "verifyMerkleCurrentSyncComm P v = Some True \<longleftrightarrow>
           (\<exists>h leaf. getActiveHeader P (toLightClientUpdate v) = Some h \<and>
              committeeRoot P (CurrentSyncCommittee v) = Some (Inr leaf) \<and>
              Verify Z (prysmToBytes32 Z (StateRoot h)) 54 leaf (CurrentSyncCommitteeBranch v))"
  using Z CalculateGIndex_state_field [OF Z(2), of 23] CalculateGIndex_state_field [OF Z(2), of 22]
  by (auto simp: verifyMerkleNextSyncComm_def verifyMerkleCurrentSyncComm_def getActiveHeader_def
      toLightClientUpdate_def same_ztype_def PanicErr_Some bind_eq_Some_conv)

lemma verifyMerkle_finality:
  assumes Z: "same_ztype P Z" "index_ok Z"
  shows "verifyMerkleFinalityHeader P u = Some True \<longleftrightarrow>
           IsEmptyHeader P (FinalityHeader u) \<or>
           (\<exists>a leaf. AttestedHeader u = Some a \<and> headerRoot P (FinalityHeader u) = Some (Inr leaf) \<and>
              Verify Z (prysmToBytes32 Z (StateRoot a)) 105 leaf (FinalityBranch u))"
  using Z CalculateGIndex_finalized_root [OF Z(2)]
  by (auto simp: verifyMerkleFinalityHeader_def same_ztype_def PanicErr_Some bind_eq_Some_conv)

subsection \<open>An instance of the libraries\<close>

definition sample_prysm :: "(bytes, bytes) prysm_lib" where
  "sample_prysm =
     \<lparr>protoEqual = (=),
      headerRoot = map_option (\<lambda>h. if header_sized h then Inr (BodyRoot h) else Inl ''incorrect size''),
      committeeRoot = map_option (\<lambda>c. if committee_sized c then Inr (take 32 (AggregatePubkey c)) else Inl ''incorrect size''),
      bitsCount = (\<lambda>b. of_nat (min 512 (length (filter (bit_at b) [0..<8 * length b])))),
      bitsLen = (\<lambda>b. 512),
      bitAt = (\<lambda>b i. bit_at b (unat i)),
      ToEpoch = (\<lambda>slot. slot div 32),
      slotMul = (*),
      cfgSlotsPerEpoch = 32,
      cfgEpochsPerSyncCommitteePeriod = 256,
      cfgMinSyncCommitteeParticipants = 1,
      cfgDomainSyncCommittee = [7, 0, 0, 0],
      ComputeDomain = (\<lambda>d v r. Inr (d @ v @ r)),
      ComputeSigningRoot = (\<lambda>h d. map_option (\<lambda>h. Inr (copy_array 32 (BodyRoot h @ d))) h),
      SignatureFromBytes = (\<lambda>b. if b = [] then Inl ''empty'' else Inr b),
      PublicKeyFromBytes = Inr,
      FastAggregateVerify = (\<lambda>sig pks root. sig = concat pks @ root),
      ztypeGIndex = CalculateGIndex mtree_lib BeaconStateAltairType,
      ztypeVerify = Verify mtree_lib,
      pToBytes32 = copy_array 32\<rparr>"

lemma sample_bits_ok: "bits_ok sample_prysm"
  by (simp add: bits_ok_def sample_prysm_def word_le_nat_alt unat_of_nat min_def)

lemma sample_lib_total: "lib_total sample_prysm"
  using CalculateGIndex_altair_fields [OF mtree_lib_index_ok]
  by (simp add: lib_total_def sample_prysm_def SafetyThresholdPeriod_def header_sized_def committee_sized_def)

lemma sample_same_ztype: "same_ztype sample_prysm mtree_lib"
  by (simp add: same_ztype_def sample_prysm_def mtree_lib_def)

definition sample_header :: "u64 \<Rightarrow> BeaconBlockHeader" where
  "sample_header slot = \<lparr>Slot = slot, ProposerIndex = 1, ParentRoot = replicate 32 1, StateRoot = replicate 32 2, BodyRoot = replicate 32 3\<rparr>"

definition sample_committee :: "byte \<Rightarrow> SyncCommittee" where
  "sample_committee x = \<lparr>Pubkeys = replicate 512 (replicate 48 1), AggregatePubkey = replicate 48 x\<rparr>"

definition sample_update :: "u64 \<Rightarrow> LightClientUpdate" where
  "sample_update slot =
     \<lparr>AttestedHeader = Some (sample_header slot), NextSyncCommittee = Some (sample_committee 3),
      NextSyncCommitteeBranch = [], FinalityHeader = Some emptyHeader, FinalityBranch = [],
      SyncCommitteeBits = [1], SyncCommitteeSignature = [], ForkVersion = []\<rparr>"

definition sample_store :: LightClientStore where
  "sample_store =
     \<lparr>stFinalizedHeader = Some (sample_header 5), stCurrentSyncCommittee = Some (sample_committee 3),
      stNextSyncCommittee = Some (sample_committee 3), stOptimisticHeader = Some (sample_header 6),
      stBestValidUpdate = None, stPreviousMaxActiveParticipants = 0, stCurrentMaxActiveParticipants = 0\<rparr>"

lemma sample_present: "store_present sample_store" "update_present (sample_update slot)"
  by (simp_all add: store_present_def update_present_def sample_store_def sample_update_def)

lemma sample_prysm_fields [simp]:
  "pToBytes32 sample_prysm = copy_array 32" "ztypeVerify sample_prysm = Verify mtree_lib"
  "committeeRoot sample_prysm (Some (sample_committee x)) = Some (Inr (replicate 32 x))"
  "headerRoot sample_prysm (Some (sample_header slot)) = Some (Inr (replicate 32 3))"
  "IsEmptyHeader sample_prysm (Some emptyHeader)"
  by (simp_all add: sample_prysm_def IsEmptyHeader_def sample_committee_def committee_sized_def sample_header_def header_sized_def
      list_all_iff)

lemma sample_gindex [simp]:
  "ztypeGIndex sample_prysm [23] = Some 55" "ztypeGIndex sample_prysm [22] = Some 54"
  "ztypeGIndex sample_prysm [20, 1] = Some 105"
  using CalculateGIndex_altair_fields [OF mtree_lib_index_ok] by (simp_all add: sample_prysm_def)

lemma copy_array_full [simp]: "copy_array n (replicate n x) = replicate n x"
  by (simp add: copy_array_def)

lemma sample_validation:
  "validateLightClientUpdate sample_prysm sample_store (sample_update 9) 10 [] = Some (Inl InvalidMerkleProof)"
proof -
  have "validateMerkleLightClientUpdate sample_prysm (sample_update 9) = Some (Inl InvalidMerkleProof)"
    by (simp add: validateMerkleLightClientUpdate_def and_then_def verifyMerkleFinalityHeader_def
        verifyMerkleNextSyncComm_def sample_update_def sample_header_def PanicErr_def
        Verify_def)
  then show ?thesis by (simp add: validateLightClientUpdate_def)
qed

definition sample_skip :: SkipSyncUpdate where
  "sample_skip =
     \<lparr>AttestedHeader = Some (sample_header 7), NextSyncCommittee = Some (sample_committee 2),
      NextSyncCommitteeBranch = [], FinalityHeader = Some emptyHeader, FinalityBranch = [],
      SyncCommitteeBits = [1], SyncCommitteeSignature = [], ForkVersion = [],
      CurrentSyncCommittee = Some (sample_committee 2), CurrentSyncCommitteeBranch = []\<rparr>"

lemma sample_formed:
  "\<not> malformed sample_prysm (sample_update slot)" "\<not> malformed sample_prysm (toLightClientUpdate sample_skip)"
proof -
  have c: "committee_sized (sample_committee x)" for x by (simp add: sample_committee_def committee_sized_def list_all_iff)
  show "\<not> malformed sample_prysm (sample_update slot)" by (simp add: malformed_def sample_update_def c)
  show "\<not> malformed sample_prysm (toLightClientUpdate sample_skip)"
    by (simp add: malformed_def toLightClientUpdate_def sample_skip_def c)
qed

lemma sample_processed: "\<exists>s'. processLightClientUpdate sample_prysm sample_store (sample_update 9) slot [] = Some s'"
  using process_panics(1) [OF sample_lib_total sample_present(2,1), of 9 slot "[]"] sample_formed(1) by auto

lemma sample_count: "bitsCount sample_prysm [1] = 1"
proof -
  have "filter (bit_at [1]) [0..<8 * length [1 :: byte]] = [0]" by code_simp
  then show ?thesis by (simp add: sample_prysm_def)
qed

lemma sample_skip_valid: "validateMerkleSkipSyncUpdate sample_prysm sample_skip = Some (Inr ())"
  by (simp add: validateMerkleSkipSync_accepts verifyMerkleFinalityHeader_def verifyMerkleCurrentSyncComm_def
      verifyMerkleNextSyncComm_def sample_skip_def toLightClientUpdate_def sample_header_def PanicErr_def Verify_def)

subsection \<open>Properties\<close>

text \<open>
  C7. \<open>validateLightClientUpdate\<close> returns no error exactly when the finality header is empty or its root
  verifies at index 105 against the attested state root, the root of the next committee verifies at index 55 against the
  state root of the active header, the active header lies between the slot of the finalized header, which it may
  equal, and the current slot, and in the finalized period or the next, enough members took part, and the committee
  of that period signed the active header: the aggregate signature verifies under the keys of the committee
  whose bit is set.
\<close>

theorem validateLightClientUpdate_iff:
  assumes "same_ztype P Z" "index_ok Z"
  shows "validateLightClientUpdate P store u slot gvr = Some (Inr ()) \<longleftrightarrow>
     (\<exists>a f pa pf next committee domain root sig pks.
        (IsEmptyHeader P (FinalityHeader u) \<and> AttestedHeader u = Some a \<or>
         \<not> IsEmptyHeader P (FinalityHeader u) \<and> FinalityHeader u = Some a \<and>
         (\<exists>attested leaf. AttestedHeader u = Some attested \<and> headerRoot P (Some a) = Some (Inr leaf) \<and>
            Verify Z (prysmToBytes32 Z (StateRoot attested)) 105 leaf (FinalityBranch u))) \<and>
        committeeRoot P (NextSyncCommittee u) = Some (Inr next) \<and>
        Verify Z (prysmToBytes32 Z (StateRoot a)) 55 next (NextSyncCommitteeBranch u) \<and>
        stFinalizedHeader store = Some f \<and> Slot f \<le> Slot a \<and> Slot a \<le> slot \<and>
        period_of P f = Some pf \<and> period_of P a = Some pa \<and> (pa = pf \<or> pa = pf + 1) \<and>
        cfgMinSyncCommitteeParticipants P \<le> bitsCount P (SyncCommitteeBits u) \<and>
        (if pa = pf + 1 then stNextSyncCommittee store else stCurrentSyncCommittee store) = Some committee \<and>
        ComputeDomain P (cfgDomainSyncCommittee P) (ForkVersion u) gvr = Inr domain \<and>
        ComputeSigningRoot P (Some a) domain = Some (Inr root) \<and>
        SignatureFromBytes P (SyncCommitteeSignature u) = Inr sig \<and>
        public_keys P (map (\<lambda>i. Pubkeys committee ! i)
          (filter (\<lambda>i. bitAt P (SyncCommitteeBits u) (of_nat i)) [0..<length (Pubkeys committee)])) = Inr pks \<and>
        FastAggregateVerify P sig pks root)"
proof -
  define A where "A a next \<longleftrightarrow> (IsEmptyHeader P (FinalityHeader u) \<and> AttestedHeader u = Some a \<or>
         \<not> IsEmptyHeader P (FinalityHeader u) \<and> FinalityHeader u = Some a \<and>
         (\<exists>attested leaf. AttestedHeader u = Some attested \<and> headerRoot P (Some a) = Some (Inr leaf) \<and>
            Verify Z (prysmToBytes32 Z (StateRoot attested)) 105 leaf (FinalityBranch u))) \<and>
        committeeRoot P (NextSyncCommittee u) = Some (Inr next) \<and>
        Verify Z (prysmToBytes32 Z (StateRoot a)) 55 next (NextSyncCommitteeBranch u)" for a "next"
  define B where "B a f pa pf committee domain root sig pks \<longleftrightarrow>
        stFinalizedHeader store = Some f \<and> Slot f \<le> Slot a \<and> Slot a \<le> slot \<and>
        period_of P f = Some pf \<and> period_of P a = Some pa \<and> (pa = pf \<or> pa = pf + 1) \<and>
        cfgMinSyncCommitteeParticipants P \<le> bitsCount P (SyncCommitteeBits u) \<and>
        (if pa = pf + 1 then stNextSyncCommittee store else stCurrentSyncCommittee store) = Some committee \<and>
        ComputeDomain P (cfgDomainSyncCommittee P) (ForkVersion u) gvr = Inr domain \<and>
        ComputeSigningRoot P (Some a) domain = Some (Inr root) \<and>
        SignatureFromBytes P (SyncCommitteeSignature u) = Inr sig \<and>
        public_keys P (map (\<lambda>i. Pubkeys committee ! i)
          (filter (\<lambda>i. bitAt P (SyncCommitteeBits u) (of_nat i)) [0..<length (Pubkeys committee)])) = Inr pks \<and>
        FastAggregateVerify P sig pks root" for a f pa pf committee domain root sig pks
  have merkle: "validateMerkleLightClientUpdate P u = Some (Inr ()) \<longleftrightarrow> (\<exists>a next. A a next)"
    unfolding validateMerkle_accepts verifyMerkle_committees [OF assms] verifyMerkle_finality [OF assms] A_def
    by (auto simp: getActiveHeader_def)
  have active: "A a next \<Longrightarrow> getActiveHeader P u = Some a" for a "next"
    by (auto simp: A_def getActiveHeader_def)
  have "validateLightClientUpdate P store u slot gvr = Some (Inr ()) \<longleftrightarrow>
     (\<exists>a next. A a next) \<and> (\<exists>a f pa pf committee domain root sig pks. getActiveHeader P u = Some a \<and> B a f pa pf committee domain root sig pks)"
    unfolding validate_accepts merkle verifySign_accepts participants_bits committee_for_def B_def
    by (simp only: conj_assoc ex_simps cong: conj_cong)
  also have "\<dots> \<longleftrightarrow> (\<exists>a f pa pf next committee domain root sig pks. A a next \<and> B a f pa pf committee domain root sig pks)"
    using active by (metis option.inject)
  finally show ?thesis by (simp only: A_def B_def conj_assoc)
qed

definition sample_signed :: LightClientUpdate where
  "sample_signed = (sample_update 9)\<lparr>NextSyncCommittee := Some (sample_committee 2),
     SyncCommitteeSignature := replicate 48 1 @ replicate 32 3\<rparr>"

theorem validateLightClientUpdate_iff_witness:
  "validateLightClientUpdate sample_prysm sample_store sample_signed 10 [] = Some (Inr ())"
proof -
  have "bitAt sample_prysm [1] (of_nat i) \<longleftrightarrow> i = 0" if "i < 512" for i
    using that by (auto simp: sample_prysm_def bit_at_def unat_of_nat bit_1_iff)
  then have "filter (\<lambda>i. bitAt sample_prysm [1] (of_nat i)) [0..<512] = filter (\<lambda>i. i = 0) [0..<512]"
    by (intro filter_cong) auto
  also have "\<dots> = [0]" by (simp add: upt_conv_Cons [of 0 512])
  finally have bits: "map (\<lambda>i. Pubkeys (sample_committee 3) ! i)
      (filter (\<lambda>i. bitAt sample_prysm [1] (of_nat i)) [0..<length (Pubkeys (sample_committee 3))]) = [replicate 48 1]"
    by (simp add: sample_committee_def)
  have keys: "public_keys sample_prysm [replicate 48 1] = Inr [replicate 48 1]" by (simp add: sample_prysm_def)
  have lib: "ComputeDomain sample_prysm (cfgDomainSyncCommittee sample_prysm) [] [] = Inr [7, 0, 0, 0]"
    "ComputeSigningRoot sample_prysm (Some (sample_header 9)) [7, 0, 0, 0] = Some (Inr (replicate 32 3))"
    "SignatureFromBytes sample_prysm (replicate 48 1 @ replicate 32 3) = Inr (replicate 48 1 @ replicate 32 3)"
    "FastAggregateVerify sample_prysm (replicate 48 1 @ replicate 32 3) [replicate 48 1] (replicate 32 3)"
    "cfgMinSyncCommitteeParticipants sample_prysm \<le> bitsCount sample_prysm [1]"
    "period_of sample_prysm (sample_header 5) = Some 0" "period_of sample_prysm (sample_header 9) = Some 0"
    by (simp_all add: sample_count) (simp_all add: sample_prysm_def sample_header_def copy_array_def period_of_def go_udiv_def)
  have sample: "FinalityHeader sample_signed = Some emptyHeader" "AttestedHeader sample_signed = Some (sample_header 9)"
    "NextSyncCommittee sample_signed = Some (sample_committee 2)" "NextSyncCommitteeBranch sample_signed = []"
    "SyncCommitteeBits sample_signed = [1]" "ForkVersion sample_signed = []"
    "SyncCommitteeSignature sample_signed = replicate 48 1 @ replicate 32 3" "stFinalizedHeader sample_store = Some (sample_header 5)"
    "stCurrentSyncCommittee sample_store = Some (sample_committee 3)" "Slot (sample_header x) = x" "StateRoot (sample_header x) = replicate 32 2" for x
    by (simp_all add: sample_signed_def sample_update_def sample_store_def sample_header_def)
  have conv: "prysmToBytes32 mtree_lib = copy_array 32" by (simp add: mtree_lib_def)
  show ?thesis
    unfolding validateLightClientUpdate_iff [OF sample_same_ztype mtree_lib_index_ok]
    by (rule exI [of _ "sample_header 9"], rule exI [of _ "sample_header 5"], rule exI [of _ 0], rule exI [of _ 0], rule exI [of _ "replicate 32 2"],
        rule exI [of _ "sample_committee 3"], rule exI [of _ "[7, 0, 0, 0]"], rule exI [of _ "replicate 32 3"],
        rule exI [of _ "replicate 48 1 @ replicate 32 3"], rule exI [of _ "[replicate 48 1]"])
      (simp add: conv sample bits keys lib Verify_def del: public_keys.simps)
qed

text \<open>
  \<open>validateMerkleSkipSyncUpdate\<close> accepts exactly when the finality header (unless it is empty)
  verifies at index 105 of the attested state and the current and the next committee verify at
  indices 54 and 55 of the active state.
\<close>

theorem validateMerkleSkipSyncUpdate_iff:
  assumes "same_ztype P Z" "index_ok Z"
  shows "validateMerkleSkipSyncUpdate P v = Some (Inr ()) \<longleftrightarrow>
     (IsEmptyHeader P (FinalityHeader v) \<or>
      (\<exists>a leaf. AttestedHeader v = Some a \<and> headerRoot P (FinalityHeader v) = Some (Inr leaf) \<and>
         Verify Z (prysmToBytes32 Z (StateRoot a)) 105 leaf (FinalityBranch v))) \<and>
     (\<exists>h current next. getActiveHeader P (toLightClientUpdate v) = Some h \<and>
        committeeRoot P (CurrentSyncCommittee v) = Some (Inr current) \<and>
        committeeRoot P (NextSyncCommittee v) = Some (Inr next) \<and>
        Verify Z (prysmToBytes32 Z (StateRoot h)) 54 current (CurrentSyncCommitteeBranch v) \<and>
        Verify Z (prysmToBytes32 Z (StateRoot h)) 55 next (NextSyncCommitteeBranch v))"
  unfolding validateMerkleSkipSync_accepts verifyMerkle_committees [OF assms] verifyMerkle_finality [OF assms]
  by (simp add: toLightClientUpdate_def) (metis option.inject)

theorem validateMerkleSkipSyncUpdate_iff_witness:
  "validateMerkleSkipSyncUpdate sample_prysm sample_skip = Some (Inr ())"
proof -
  have "prysmToBytes32 mtree_lib = copy_array 32" by (simp add: mtree_lib_def)
  then show ?thesis
    unfolding validateMerkleSkipSyncUpdate_iff [OF sample_same_ztype mtree_lib_index_ok]
    by (simp add: sample_skip_def getActiveHeader_def toLightClientUpdate_def sample_header_def Verify_def)
qed

text \<open>
  With every message and store field present, \<open>processLightClientUpdate\<close> panics exactly on a malformed update,
  on any slot and for any signature, and otherwise leaves every field of the store present.
\<close>

theorem processLightClientUpdate_panics:
  assumes "lib_total P" "update_present u" "store_present s"
  shows "if malformed P u then processLightClientUpdate P s u slot gvr = None
     else \<exists>s'. processLightClientUpdate P s u slot gvr = Some s' \<and> store_present s'"
  using process_panics [OF assms, of slot gvr] by (simp add: not_None_eq [symmetric] del: not_None_eq) (metis option.exhaust)

theorem processLightClientUpdate_panics_witness:
  "\<exists>s'. processLightClientUpdate sample_prysm sample_store (sample_update 9) 10 [] = Some s' \<and> store_present s'"
  using processLightClientUpdate_panics [OF sample_lib_total sample_present(2,1), of 9 10 "[]"] sample_formed(1) by simp

text \<open>
  Processing an update moves the optimistic header only forward, only to the attested header of
  the update, and only when more than half of the largest recent participation signed; it raises the
  current participation maximum to the update's count.
\<close>

theorem processLightClientUpdate_optimistic:
  assumes "processLightClientUpdate P s u slot gvr = Some s'"
  shows "(stOptimisticHeader s' = stOptimisticHeader s \<or>
          (\<exists>a o'. AttestedHeader u = Some a \<and> stOptimisticHeader s = Some o' \<and> stOptimisticHeader s' = Some a \<and>
             Slot o' < Slot a \<and>
             max (stPreviousMaxActiveParticipants s') (stCurrentMaxActiveParticipants s') div 2
               < bitsCount P (SyncCommitteeBits u))) \<and>
         stCurrentMaxActiveParticipants s' =
           max (stCurrentMaxActiveParticipants s) (bitsCount P (SyncCommitteeBits u))"
  using process_optimistic [OF assms] process_keeps(4) [OF assms]
  by (auto simp: getSafetyThreshold_max)

theorem processLightClientUpdate_optimistic_witness:
  "\<exists>s'. processLightClientUpdate sample_prysm sample_store (sample_update 9) 10 [] = Some s' \<and>
     stCurrentMaxActiveParticipants s' = 1"
proof -
  obtain s' where s': "processLightClientUpdate sample_prysm sample_store (sample_update 9) 10 [] = Some s'"
    using sample_processed by blast
  from processLightClientUpdate_optimistic [OF this]
  have "stCurrentMaxActiveParticipants s' = 1"
    by (simp add: sample_store_def sample_update_def sample_count)
  with s' show ?thesis by blast
qed

text \<open>
  C38. The two-thirds rule for finality never fires: it compares the count with \<^verbatim>\<open>Len()*3.0/2.0\<close>, which is
  768 of 512 bits. The finalized header changes only after a whole period without finality, to the
  active header of the best update.
\<close>

theorem finality_only_by_timeout:
  assumes "bits_ok P" "processLightClientUpdate P s u slot gvr = Some s'"
    and "stFinalizedHeader s' \<noteq> stFinalizedHeader s"
  shows "\<exists>f best. stFinalizedHeader s = Some f \<and> Slot f + UpdateTimeout P < slot \<and>
           stBestValidUpdate (update_best P s u) = Some best \<and>
           stFinalizedHeader s' = getActiveHeader P best \<and> stBestValidUpdate s' = None"
  using assms by (rule process_finalized_timeout)

lemma sample_timeout:
  assumes s': "processLightClientUpdate sample_prysm sample_store (sample_update 9) 10000 [] = Some s'"
  shows "stFinalizedHeader s' = Some (sample_header 9)"
proof -
  obtain s1 where s1: "update_optimistic sample_prysm (counted sample_prysm sample_store (sample_update 9)) (sample_update 9) = Some s1"
    and fin: "update_finalized sample_prysm s1 (sample_update 9) 10000 = Some s'"
    using s' by (rule process_split)
  have f: "stFinalizedHeader s1 = Some (sample_header 5)" "stBestValidUpdate s1 = Some (sample_update 9)"
    using update_optimistic_eq [OF s1] by (auto simp: sample_store_def update_best_def)
  have u: "FinalityHeader (sample_update 9) = Some emptyHeader"
    "AttestedHeader (sample_update 9) = Some (sample_header 9)" by (simp_all add: sample_update_def)
  have "UpdateTimeout sample_prysm = 8192" "Slot (sample_header 5) = 5"
    by (simp_all add: UpdateTimeout_def sample_prysm_def sample_header_def)
  moreover obtain t where t: "applyLightClientUpdate sample_prysm s1 (sample_update 9) = Some t"
    using apply_total [OF sample_lib_total sample_present(2), of s1 9] f(1) by auto
  moreover have "stFinalizedHeader t = Some (sample_header 9)"
    using t u by (auto simp: apply_eq getActiveHeader_def)
  ultimately show ?thesis
    using fin f u by (simp add: update_finalized_def) (elim subst, simp)
qed

theorem finality_only_by_timeout_witness:
  "\<exists>s'. processLightClientUpdate sample_prysm sample_store (sample_update 9) 10000 [] = Some s' \<and>
     stFinalizedHeader s' \<noteq> stFinalizedHeader sample_store \<and> stBestValidUpdate s' = None"
proof -
  obtain s' where s': "processLightClientUpdate sample_prysm sample_store (sample_update 9) 10000 [] = Some s'"
    using sample_processed by blast
  have ne: "stFinalizedHeader s' \<noteq> stFinalizedHeader sample_store"
    using sample_timeout [OF s'] by (simp add: sample_store_def sample_header_def)
  from finality_only_by_timeout [OF sample_bits_ok s' ne] have "stBestValidUpdate s' = None"
    by (elim exE conjE)
  with s' ne show ?thesis by (intro exI conjI)
qed

text \<open>
  C37. \<open>processLightClientUpdate\<close> drops the verdict of the validation: an update that the validation
  rejects, for whatever reason, becomes the optimistic header when its bits claim more than half of the
  recent participation and its slot is newer.
\<close>

theorem invalid_update_accepted:
  assumes "lib_total P" "update_present u" "store_present s"
    and "validateLightClientUpdate P s u slot gvr = Some (Inl err)"
    and "getSafetyThreshold s < bitsCount P (SyncCommitteeBits u)"
    and "AttestedHeader u = Some a" "stOptimisticHeader s = Some o'" "Slot o' < Slot a"
  shows "\<exists>s'. processLightClientUpdate P s u slot gvr = Some s' \<and> stOptimisticHeader s' = Some a"
  using process_total [OF assms(1-4)] process_optimistic_set [OF _ assms(5-8)] by blast

theorem invalid_update_accepted_witness:
  "\<exists>s'. processLightClientUpdate sample_prysm sample_store (sample_update 9) 10 [] = Some s' \<and>
     stOptimisticHeader s' = Some (sample_header 9)"
proof (rule invalid_update_accepted [OF sample_lib_total sample_present(2,1) sample_validation,
      where o' = "sample_header 6"])
  show "getSafetyThreshold sample_store < bitsCount sample_prysm (SyncCommitteeBits (sample_update 9))"
    by (simp add: getSafetyThreshold_def sample_store_def sample_update_def sample_count)
qed (simp_all add: sample_update_def sample_store_def sample_header_def)

end
