(* ===== verification/Base64.thy ===== *)
theory Base64
  imports Go_Prelude
begin

text \<open>
  \<^verbatim>\<open>base64.StdEncoding\<close> of Go's standard library, which the sync service uses for trusted roots: the
  padded encoding, and the decoder that skips line breaks and reports corrupt input as an error.
\<close>

definition b64_alphabet :: string where
  "b64_alphabet = ''ABCDEFGHIJKLMNOPQRSTUVWXYZabcdefghijklmnopqrstuvwxyz0123456789+/''"

definition b64_char :: "nat \<Rightarrow> char" where
  "b64_char n = b64_alphabet ! n"

definition b64_value :: "char \<Rightarrow> nat option" where
  "b64_value c = map_of (zip b64_alphabet [0..<64]) c"

text \<open>A group of three bytes is a 24-bit number, written as four digits of six bits.\<close>

definition b64_digits :: "nat \<Rightarrow> nat list" where
  "b64_digits n = [n div 262144 mod 64, n div 4096 mod 64, n div 64 mod 64, n mod 64]"

definition b64_bytes :: "nat \<Rightarrow> bytes" where
  "b64_bytes n = [of_nat (n div 65536), of_nat (n div 256), of_nat n]"

fun EncodeToString :: "bytes \<Rightarrow> string" where
  "EncodeToString [] = []"
| "EncodeToString [a] = map b64_char (take 2 (b64_digits (unat a * 65536))) @ ''==''"
| "EncodeToString [a, b] = map b64_char (take 3 (b64_digits (unat a * 65536 + unat b * 256))) @ ''=''"
| "EncodeToString (a # b # c # rest) =
     map b64_char (b64_digits (unat a * 65536 + unat b * 256 + unat c)) @ EncodeToString rest"

definition b64_group :: "char \<Rightarrow> char \<Rightarrow> char \<Rightarrow> char \<Rightarrow> bytes option" where
  "b64_group a b c d =
     do {
       w \<leftarrow> b64_value a; x \<leftarrow> b64_value b; y \<leftarrow> b64_value c; z \<leftarrow> b64_value d;
       Some (b64_bytes (w * 262144 + x * 4096 + y * 64 + z))
     }"

fun b64_decode :: "string \<Rightarrow> bytes option" where
  "b64_decode [] = Some []"
| "b64_decode (a # b # c # d # rest) =
     (if d = CHR ''=''
      then if rest \<noteq> [] then None
           else if c = CHR ''='' then map_option (take 1) (b64_group a b (CHR ''A'') (CHR ''A''))
           else map_option (take 2) (b64_group a b c (CHR ''A''))
      else do { g \<leftarrow> b64_group a b c d; bs \<leftarrow> b64_decode rest; Some (g @ bs) })"
| "b64_decode _ = None"

definition DecodeString :: "string \<Rightarrow> bytes option" where
  "DecodeString s = b64_decode (filter (\<lambda>c. c \<noteq> CHR 0x0A \<and> c \<noteq> CHR 0x0D) s)"

subsection \<open>Round trip\<close>

lemma b64_value_char: "n < 64 \<Longrightarrow> b64_value (b64_char n) = Some n"
proof -
  have "\<forall>n \<in> set [0..<64]. b64_value (b64_char n) = Some n" by code_simp
  then show "n < 64 \<Longrightarrow> b64_value (b64_char n) = Some n" by simp
qed

lemma b64_char_plain: "n < 64 \<Longrightarrow> b64_char n \<noteq> CHR 0x0A \<and> b64_char n \<noteq> CHR 0x0D \<and> b64_char n \<noteq> CHR ''=''"
proof -
  have "\<forall>n \<in> set [0..<64]. b64_char n \<noteq> CHR 0x0A \<and> b64_char n \<noteq> CHR 0x0D \<and> b64_char n \<noteq> CHR ''=''"
    by code_simp
  then show "n < 64 \<Longrightarrow> b64_char n \<noteq> CHR 0x0A \<and> b64_char n \<noteq> CHR 0x0D \<and> b64_char n \<noteq> CHR ''=''" by simp
qed

lemma b64_char_0: "CHR ''A'' = b64_char 0"
  by (simp add: b64_char_def b64_alphabet_def)

lemma byte_bound: "unat b < 256" for b :: byte
  using unat_less_exp [of b] by simp

lemma digits_value:
  assumes "n < 16777216"
  shows "n div 262144 mod 64 * 262144 + n div 4096 mod 64 * 4096 + n div 64 mod 64 * 64 + n mod 64 = (n :: nat)"
proof -
  have "n div 262144 mod 64 = n div 262144" using assms by simp
  moreover have "n div 4096 = n div 262144 * 64 + n div 4096 mod 64"
    using div_mult_mod_eq [of "n div 4096" 64] by (simp add: div_mult2_eq [symmetric])
  moreover have "n div 64 = n div 4096 * 64 + n div 64 mod 64"
    using div_mult_mod_eq [of "n div 64" 64] by (simp add: div_mult2_eq [symmetric])
  moreover have "n = n div 64 * 64 + n mod 64" by simp
  ultimately show ?thesis by linarith
qed

lemma b64_bytes_of:
  "b64_bytes (unat a * 65536 + unat b * 256 + unat c) = [a, b, c]" for a b c :: byte
proof -
  have d: "(unat a * 65536 + unat b * 256 + unat c) div 65536 = unat a"
    "(unat a * 65536 + unat b * 256 + unat c) div 256 = unat a * 256 + unat b"
    using byte_bound [of a] byte_bound [of b] byte_bound [of c] by simp_all
  have "(of_nat (unat x * 256) :: byte) = 0" for x :: byte
    by (simp add: word_unat_eq_iff unat_word_ariths)
  moreover have "(of_nat (unat a * 65536) :: byte) = 0"
    by (simp add: word_unat_eq_iff unat_word_ariths)
  ultimately show ?thesis unfolding b64_bytes_def d by (simp only: of_nat_add of_nat_unat) simp
qed

lemma b64_group_digits:
  assumes "n < 16777216"
  shows "b64_group (b64_char (n div 262144 mod 64)) (b64_char (n div 4096 mod 64))
           (b64_char (n div 64 mod 64)) (b64_char (n mod 64)) = Some (b64_bytes n)"
proof -
  have "b64_value (b64_char (m mod 64)) = Some (m mod 64)" for m by (rule b64_value_char) simp
  then show ?thesis by (simp only: b64_group_def Option.bind.bind_lunit digits_value [OF assms])
qed

lemma byte_sum_bound: "unat a * 65536 + unat b * 256 + unat c < 16777216" for a b c :: byte
  using byte_bound [of a] byte_bound [of b] byte_bound [of c] by simp

lemma b64_decode_encode: "b64_decode (EncodeToString bs) = Some bs"
proof (induction bs rule: EncodeToString.induct)
  case (2 a)
  have "unat a * 65536 = unat a * 16 * 64 * 64" by simp
  then have "unat a * 65536 div 64 mod 64 = 0" "unat a * 65536 mod 64 = 0"
    by (simp_all only: nonzero_mult_div_cancel_right mod_mult_self2_is_0)
  then show ?case
    using b64_group_digits [of "unat a * 65536"] byte_sum_bound [of a 0 0] b64_bytes_of [of a 0 0]
    by (simp add: b64_digits_def b64_char_0)
next
  case (3 a b)
  have "unat a * 65536 + unat b * 256 = (unat a * 1024 + unat b * 4) * 64" by simp
  then have "(unat a * 65536 + unat b * 256) mod 64 = 0" by (simp only: mod_mult_self2_is_0)
  then show ?case
    using b64_group_digits [of "unat a * 65536 + unat b * 256"] byte_sum_bound [of a b 0] b64_bytes_of [of a b 0]
      b64_char_plain [of "(unat a * 65536 + unat b * 256) div 64 mod 64"]
    by (simp add: b64_digits_def b64_char_0)
next
  case (4 a b c rest)
  then show ?case
    using b64_group_digits [OF byte_sum_bound [of a b c]] b64_bytes_of [of a b c]
      b64_char_plain [of "(unat a * 65536 + unat b * 256 + unat c) mod 64"]
    by (simp add: b64_digits_def)
qed simp

lemma encode_no_breaks: "filter (\<lambda>c. c \<noteq> CHR 0x0A \<and> c \<noteq> CHR 0x0D) (EncodeToString bs) = EncodeToString bs"
  by (induction bs rule: EncodeToString.induct) (simp_all add: b64_digits_def b64_char_plain)

lemma DecodeString_EncodeToString: "DecodeString (EncodeToString bs) = Some bs"
  by (simp add: DecodeString_def encode_no_breaks b64_decode_encode)

end
