(* ===== verification/Sync_Service.thy ===== *)
theory Sync_Service
  imports Light_Client Base64
begin

text \<open>
  The sync service (\<^verbatim>\<open>internal/consensus/sync/service.go\<close>): the store's initialisation from a trusted
  committee root, skip sync, the slot loop, and the snapshot on disk. The full node's replies, the
  file system and the protobuf codec are the service's environment; the \<open>n\<close>-th remote call gets the
  \<open>n\<close>-th reply. Logging is left out, but what it evaluates is kept where it can panic.
\<close>

datatype SyncMode = ModeLatest | ModeFinality

definition SyncMode_String :: "SyncMode \<Rightarrow> string" where
  "SyncMode_String m = (case m of ModeLatest \<Rightarrow> ''latest'' | ModeFinality \<Rightarrow> ''finality'')"

record Config =
  TrustedCurrentCommitteeRoot :: string
  cfgSyncMode :: SyncMode
  DataDir :: string
  FullNodeServerEndpoint :: string
  GrpcMaxCallRecvMsgSize :: int
  GrpcRetryDelay :: int
  GrpcRetries :: int

record Service =
  cfg :: Config
  cancelled :: bool
  genesisTime :: int
  dataDir :: string
  Store :: "LightClientStore option"
  connected :: bool

text \<open>
  \<open>marshalStore\<close> and \<open>unmarshalStore\<close> are the protobuf codec, \<open>recommendedKey\<close> the debug helper of
  prysm that asks the node for a root to print (\<open>None\<close> when it panics), \<open>headerString\<close> the
  protobuf text form.
\<close>

record sync_env =
  GetSkipSyncUpdate :: "nat \<Rightarrow> bytes \<Rightarrow> string + SkipSyncUpdate"
  GetUpdates :: "nat \<Rightarrow> string + LightClientUpdate list"
  dialError :: "string option"
  recommendedKey :: "string go"
  headerString :: "BeaconBlockHeader option \<Rightarrow> string"
  marshalStore :: "LightClientStore option \<Rightarrow> string + bytes"
  unmarshalStore :: "bytes \<Rightarrow> string + LightClientStore"
  absPath :: "string \<Rightarrow> string + string"
  writeError :: "string \<Rightarrow> string option"

type_synonym files = "string \<Rightarrow> bytes option"

definition NewService :: "Config \<Rightarrow> Service" where
  "NewService c =
     \<lparr>cfg = c, cancelled = False, genesisTime = 1606824023, dataDir = [], Store = None, connected = False\<rparr>"

definition strings_Contains :: "string \<Rightarrow> string \<Rightarrow> bool" where
  "strings_Contains s sub \<longleftrightarrow> list_ex (\<lambda>i. take (length sub) (drop i s) = sub) [0..<Suc (length s)]"

definition not_found :: string where
  "not_found = ''cannot find skip sync error''"

definition errMsg :: "bytes \<Rightarrow> string" where
  "errMsg key = ''cannot find skip sync error; requesting key='' @ EncodeToString key"

definition lookupSkipSync :: "sync_env \<Rightarrow> nat \<Rightarrow> bytes \<Rightarrow> (string + SkipSyncUpdate) go" where
  "lookupSkipSync E n key =
     (case GetSkipSyncUpdate E n key of
        Inr update \<Rightarrow> Some (Inr update)
      | Inl err \<Rightarrow>
          if strings_Contains err not_found
          then do {
            recommendedKeyStr \<leftarrow> recommendedKey E;
            Some (Inl (errMsg key))
          }
          else None)"

definition committee_root :: "('k, 'g) prysm_lib \<Rightarrow> SyncCommittee option \<Rightarrow> bytes go" where
  "committee_root P c = do { res \<leftarrow> committeeRoot P c; PanicErr res }"

definition StoreToString :: "('k, 'g) prysm_lib \<Rightarrow> sync_env \<Rightarrow> LightClientStore \<Rightarrow> string go" where
  "StoreToString P E store =
     do {
       currentRoot \<leftarrow> committee_root P (stCurrentSyncCommittee store);
       nextRoot \<leftarrow> committee_root P (stNextSyncCommittee store);
       Some (''optimistic header='' @ headerString E (stOptimisticHeader store) @ '' '' @ [CHR 0x0A] @
             ''finality header='' @ headerString E (stFinalizedHeader store) @ '' '' @ [CHR 0x0A] @
             ''current-sync='' @ EncodeToString currentRoot @ '' '' @ [CHR 0x0A] @ '' '' @
             ''next-sync='' @ EncodeToString nextRoot)
     }"

definition initial_store :: "('k, 'g) prysm_lib \<Rightarrow> SkipSyncUpdate \<Rightarrow> LightClientStore" where
  "initial_store P update =
     \<lparr>stFinalizedHeader = FinalityHeader update,
      stCurrentSyncCommittee = CurrentSyncCommittee update,
      stNextSyncCommittee = NextSyncCommittee update,
      stOptimisticHeader = AttestedHeader update,
      stBestValidUpdate = Some (toLightClientUpdate update),
      stPreviousMaxActiveParticipants = bitsCount P (SyncCommitteeBits update),
      stCurrentMaxActiveParticipants = bitsCount P (SyncCommitteeBits update)\<rparr>"

text \<open>The result carries the number of remote calls made so far.\<close>

definition initStore :: "('k, 'g) prysm_lib \<Rightarrow> sync_env \<Rightarrow> Service \<Rightarrow> nat \<Rightarrow> (Service \<times> nat) go" where
  "initStore P E s n =
     do {
       key \<leftarrow> DecodeString (TrustedCurrentCommitteeRoot (cfg s));
       reply \<leftarrow> lookupSkipSync E n key;
       update \<leftarrow> PanicErr reply;
       checked \<leftarrow> validateMerkleSkipSyncUpdate P update;
       _ \<leftarrow> PanicErr checked;
       Some (s\<lparr>Store := Some (initial_store P update)\<rparr>, Suc n)
     }"

definition simpleProcessSkipSyncUpdate :: "Service \<Rightarrow> SkipSyncUpdate \<Rightarrow> Service go" where
  "simpleProcessSkipSyncUpdate s update =
     do {
       st \<leftarrow> Store s;
       Some (s\<lparr>Store := Some (st\<lparr>stFinalizedHeader := FinalityHeader update,
                                  stCurrentSyncCommittee := CurrentSyncCommittee update,
                                  stNextSyncCommittee := NextSyncCommittee update\<rparr>)\<rparr>)
     }"

text \<open>One round of the loop of \<open>skipSync\<close>, after the test that ends it.\<close>

definition skipSync_round ::
  "('k, 'g) prysm_lib \<Rightarrow> sync_env \<Rightarrow> Service \<Rightarrow> bytes \<Rightarrow> nat \<Rightarrow> (Service \<times> bytes \<times> nat) go" where
  "skipSync_round P E s storedNextSyncCommRoot n =
     do {
       st \<leftarrow> Store s;
       skipSyncKey \<leftarrow> committee_root P (stNextSyncCommittee st);
       reply \<leftarrow> lookupSkipSync E n skipSyncKey;
       case reply of
         Inl err \<Rightarrow>
           if strings_Contains err not_found then Some (s, storedNextSyncCommRoot, Suc n) else None
       | Inr skipSyncUpdate \<Rightarrow> do {
           checked \<leftarrow> validateMerkleSkipSyncUpdate P skipSyncUpdate;
           _ \<leftarrow> PanicErr checked;
           s \<leftarrow> simpleProcessSkipSyncUpdate s skipSyncUpdate;
           _ \<leftarrow> committee_root P (CurrentSyncCommittee skipSyncUpdate);
           _ \<leftarrow> committee_root P (NextSyncCommittee skipSyncUpdate);
           st \<leftarrow> Store s;
           _ \<leftarrow> committee_root P (stCurrentSyncCommittee st);
           storedNextSyncCommRoot \<leftarrow> committee_root P (stNextSyncCommittee st);
           Some (s, storedNextSyncCommRoot, Suc n)
         }
     }"

text \<open>
  The loop, with fuel for its rounds: the outer \<open>None\<close> is fuel that ran out, the inner one a panic.
\<close>

fun skipSync_loop ::
  "nat \<Rightarrow> ('k, 'g) prysm_lib \<Rightarrow> sync_env \<Rightarrow> bytes \<Rightarrow> Service \<Rightarrow> bytes \<Rightarrow> nat \<Rightarrow> (Service \<times> nat) go option" where
  "skipSync_loop 0 P E expected s stored n = None"
| "skipSync_loop (Suc fuel) P E expected s stored n =
     (if stored = expected
      then Some (do { st \<leftarrow> Store s; _ \<leftarrow> StoreToString P E st; Some (s, n) })
      else (case skipSync_round P E s stored n of
              None \<Rightarrow> Some None
            | Some (s', stored', n') \<Rightarrow> skipSync_loop fuel P E expected s' stored' n'))"

text \<open>What comes before the loop: the committee root to reach and the one in the store.\<close>

definition skipSync_begin :: "('k, 'g) prysm_lib \<Rightarrow> sync_env \<Rightarrow> Service \<Rightarrow> nat \<Rightarrow> (bytes \<times> bytes) go" where
  "skipSync_begin P E s n =
     do {
       updates \<leftarrow> PanicErr (GetUpdates E n);
       update \<leftarrow> (if updates = [] then None else Some (hd updates));
       checked \<leftarrow> validateMerkleLightClientUpdate P update;
       _ \<leftarrow> PanicErr checked;
       expected \<leftarrow> committee_root P (NextSyncCommittee update);
       st \<leftarrow> Store s;
       stored \<leftarrow> committee_root P (stNextSyncCommittee st);
       Some (expected, stored)
     }"

definition skipSync ::
  "nat \<Rightarrow> ('k, 'g) prysm_lib \<Rightarrow> sync_env \<Rightarrow> Service \<Rightarrow> nat \<Rightarrow> (Service \<times> nat) go option" where
  "skipSync fuel P E s n =
     (case skipSync_begin P E s n of
        None \<Rightarrow> Some None
      | Some (expected, stored) \<Rightarrow> skipSync_loop fuel P E expected s stored (Suc n))"

definition filepath_join :: "string \<Rightarrow> string \<Rightarrow> string" where
  "filepath_join dir name = (if dir = ''/'' then dir @ name else dir @ ''/'' @ name)"

definition getStoreFileName :: "sync_env \<Rightarrow> Service \<Rightarrow> string go" where
  "getStoreFileName E s =
     do { dir \<leftarrow> PanicErr (absPath E (DataDir (cfg s))); Some (filepath_join dir ''store.proto-byte'') }"

definition saveSnapshot :: "sync_env \<Rightarrow> Service \<Rightarrow> files \<Rightarrow> files go" where
  "saveSnapshot E s fs =
     do {
       snapshotBytes \<leftarrow> PanicErr (marshalStore E (Store s));
       filename \<leftarrow> getStoreFileName E s;
       if writeError E filename \<noteq> None then None else Some (fs(filename \<mapsto> snapshotBytes))
     }"

definition tryRecoverStore :: "('k, 'g) prysm_lib \<Rightarrow> sync_env \<Rightarrow> Service \<Rightarrow> files \<Rightarrow> Service go" where
  "tryRecoverStore P E s fs =
     do {
       filename \<leftarrow> getStoreFileName E s;
       case fs filename of
         None \<Rightarrow> Some s
       | Some data \<Rightarrow> do {
           store \<leftarrow> PanicErr (unmarshalStore E data);
           _ \<leftarrow> StoreToString P E store;
           Some (s\<lparr>Store := Some store\<rparr>)
         }
     }"

text \<open>
  What the slot loop does at a tick; the last lines are the values its log statements dereference.
\<close>

definition sync_tick ::
  "('k, 'g) prysm_lib \<Rightarrow> sync_env \<Rightarrow> bytes \<Rightarrow> Service \<times> files \<times> nat \<Rightarrow> u64 \<Rightarrow> (Service \<times> files \<times> nat) go" where
  "sync_tick P E genesisValidatorsRoot state currSlot =
     (case state of (s, fs, n) \<Rightarrow>
      do {
        st \<leftarrow> Store s;
        st \<leftarrow> processSlotForLightClientStore P st currSlot;
        updates \<leftarrow> PanicErr (GetUpdates E n);
        update \<leftarrow> (if updates = [] then None else Some (hd updates));
        st \<leftarrow> processLightClientUpdate P st update currSlot genesisValidatorsRoot;
        let s = s\<lparr>Store := Some st\<rparr>;
        fs \<leftarrow> saveSnapshot E s fs;
        _ \<leftarrow> committeeRoot P (stCurrentSyncCommittee st);
        _ \<leftarrow> committeeRoot P (stNextSyncCommittee st);
        _ \<leftarrow> committeeRoot P (NextSyncCommittee update);
        attested \<leftarrow> AttestedHeader update;
        optimistic \<leftarrow> stOptimisticHeader st;
        finalized \<leftarrow> stFinalizedHeader st;
        if cfgEpochsPerSyncCommitteePeriod P = 0 then None else Some (s, fs, Suc n)
      })"

text \<open>
  The slots are those the ticker yields. The branch of the loop for a cancelled context, which ends it between
  two ticks, belongs to the node, where the services are stopped (\<open>Light_Node\<close>).
\<close>

definition sync ::
  "('k, 'g) prysm_lib \<Rightarrow> sync_env \<Rightarrow> bytes \<Rightarrow> (Service \<times> files \<times> nat) go \<Rightarrow> u64 list \<Rightarrow> (Service \<times> files \<times> nat) go" where
  "sync P E genesisValidatorsRoot = foldl (\<lambda>state currSlot. Option.bind state (\<lambda>x. sync_tick P E genesisValidatorsRoot x currSlot))"

definition Start :: "nat \<Rightarrow> ('k, 'g) prysm_lib \<Rightarrow> sync_env \<Rightarrow> Service \<Rightarrow> (Service \<times> nat) go option" where
  "Start fuel P E s =
     (if dialError E \<noteq> None then Some None
      else case initStore P E (s\<lparr>connected := True\<rparr>) 0 of
             None \<Rightarrow> Some None
           | Some (s, n) \<Rightarrow> skipSync fuel P E s n)"

definition Stop :: "Service \<Rightarrow> Service" where
  "Stop s = s\<lparr>cancelled := True\<rparr>"

text \<open>\<^verbatim>\<open>init\<close> of \<^verbatim>\<open>verify.go\<close>: the genesis root is decoded from a constant.\<close>

definition GenesisValidatorsRootBase64Str :: string where
  "GenesisValidatorsRootBase64Str = ''SzY9uU4oYSDXbrkFNA/dTlS/6fBr8z/2z1rSf1Eb/pU=''"

definition GenesisValidatorsRoot :: "('k, 'g) prysm_lib \<Rightarrow> bytes go" where
  "GenesisValidatorsRoot P = map_option (pToBytes32 P) (DecodeString GenesisValidatorsRootBase64Str)"

subsection \<open>Skip sync\<close>

lemma committee_root_Some: "committee_root P c = Some r \<longleftrightarrow> committeeRoot P c = Some (Inr r)"
  by (auto simp: committee_root_def bind_eq_Some_conv PanicErr_Some)

lemma Contains_prefix: "strings_Contains (sub @ rest) sub"
  by (auto simp: strings_Contains_def list_ex_iff intro!: bexI [of _ 0])

lemma lookup_message_not_found: "strings_Contains (errMsg key) not_found"
  using Contains_prefix [of not_found "''; requesting key='' @ EncodeToString key"]
  by (simp add: not_found_def errMsg_def)

lemma validated_roots:
  assumes "validateMerkleSkipSyncUpdate P u = Some (Inr ())"
  shows "\<exists>r. committee_root P (CurrentSyncCommittee u) = Some r"
    and "\<exists>r. committee_root P (NextSyncCommittee u) = Some r"
  using assms
  by (auto simp: validateMerkleSkipSync_accepts verifyMerkleCurrentSyncComm_def verifyMerkleNextSyncComm_def
      bind_eq_Some_conv PanicErr_Some committee_root_Some toLightClientUpdate_def)

text \<open>
  A run of replies to skip sync requests, from the request for the committee \<open>c\<close> on: \<open>None\<close> is a
  reply that the update is not there yet, \<open>Some u\<close> a valid update for the committee asked for.
\<close>

fun serves ::
  "('k, 'g) prysm_lib \<Rightarrow> sync_env \<Rightarrow> nat \<Rightarrow> SyncCommittee option \<Rightarrow> SkipSyncUpdate option list \<Rightarrow> bool" where
  "serves P E n c [] = True"
| "serves P E n c (None # rs) =
     ((\<exists>key err. committee_root P c = Some key \<and> GetSkipSyncUpdate E n key = Inl err \<and> strings_Contains err not_found) \<and>
      serves P E (Suc n) c rs)"
| "serves P E n c (Some u # rs) =
     ((\<exists>key. committee_root P c = Some key \<and> GetSkipSyncUpdate E n key = Inr u) \<and>
      validateMerkleSkipSyncUpdate P u = Some (Inr ()) \<and> serves P E (Suc n) (NextSyncCommittee u) rs)"

primrec served_committee :: "SyncCommittee option \<Rightarrow> SkipSyncUpdate option list \<Rightarrow> SyncCommittee option" where
  "served_committee c [] = c"
| "served_committee c (r # rs) =
     served_committee (case r of None \<Rightarrow> c | Some u \<Rightarrow> NextSyncCommittee u) rs"

definition roots_known :: "('k, 'g) prysm_lib \<Rightarrow> LightClientStore \<Rightarrow> bytes \<Rightarrow> bool" where
  "roots_known P st stored \<longleftrightarrow>
     (\<exists>r. committee_root P (stCurrentSyncCommittee st) = Some r) \<and>
     committee_root P (stNextSyncCommittee st) = Some stored"

lemma round_not_found:
  assumes "Store s = Some st" "roots_known P st stored" "recommendedKey E \<noteq> None"
    and "serves P E n (stNextSyncCommittee st) (None # rs)"
  shows "skipSync_round P E s stored n = Some (s, stored, Suc n)"
  using assms by (auto simp: skipSync_round_def lookupSkipSync_def roots_known_def lookup_message_not_found)

lemma round_found:
  assumes "Store s = Some st" "serves P E n (stNextSyncCommittee st) (Some u # rs)"
  shows "\<exists>s' st' stored'. skipSync_round P E s stored n = Some (s', stored', Suc n) \<and> Store s' = Some st' \<and>
           stNextSyncCommittee st' = NextSyncCommittee u \<and> roots_known P st' stored'"
proof -
  have v: "validateMerkleSkipSyncUpdate P u = Some (Inr ())" using assms(2) by simp
  obtain r1 r2 where "committee_root P (CurrentSyncCommittee u) = Some r1"
    "committee_root P (NextSyncCommittee u) = Some r2"
    using validated_roots [OF v] by blast
  with assms v show ?thesis
    by (auto simp: skipSync_round_def lookupSkipSync_def simpleProcessSkipSyncUpdate_def PanicErr_def
        roots_known_def)
qed

lemma loop_done:
  assumes "Store s = Some st" "roots_known P st stored" "stored = expected"
  shows "skipSync_loop (Suc fuel) P E expected s stored n = Some (Some (s, n))"
  using assms by (auto simp: StoreToString_def roots_known_def)

lemma skipSync_loop_serves:
  assumes key: "recommendedKey E \<noteq> None"
  shows "Store s = Some st \<Longrightarrow> roots_known P st stored \<Longrightarrow> serves P E n (stNextSyncCommittee st) rs \<Longrightarrow>
     committee_root P (served_committee (stNextSyncCommittee st) rs) = Some expected \<Longrightarrow> length rs < fuel \<Longrightarrow>
     \<exists>s' st' n'. skipSync_loop fuel P E expected s stored n = Some (Some (s', n')) \<and> Store s' = Some st' \<and>
        committee_root P (stNextSyncCommittee st') = Some expected \<and> n' \<le> n + length rs"
proof (induction rs arbitrary: s st stored n fuel)
  case Nil
  then obtain f where f: "fuel = Suc f" by (cases fuel) auto
  have "stored = expected" using Nil.prems by (simp add: roots_known_def)
  then show ?case using loop_done [OF Nil.prems(1,2), of expected f E n] Nil.prems f
    by (auto simp: roots_known_def)
next
  case (Cons r rs)
  then obtain f where f: "fuel = Suc f" "length rs < f" by (cases fuel) auto
  show ?case
  proof (cases "stored = expected")
    case True
    then show ?thesis using loop_done [OF Cons.prems(1,2) True, of f E n] Cons.prems f
      by (auto simp: roots_known_def)
  next
    case False
    show ?thesis
    proof (cases r)
      case None
      have "skipSync_loop fuel P E expected s stored n = skipSync_loop f P E expected s stored (Suc n)"
        using False f round_not_found [OF Cons.prems(1,2) key Cons.prems(3) [unfolded None]] by simp
      then show ?thesis
        using Cons.IH [OF Cons.prems(1,2), of "Suc n" f] Cons.prems f None by auto
    next
      case (Some u)
      obtain s' st' stored' where r: "skipSync_round P E s stored n = Some (s', stored', Suc n)"
        "Store s' = Some st'" "stNextSyncCommittee st' = NextSyncCommittee u" "roots_known P st' stored'"
        using round_found [OF Cons.prems(1)] Cons.prems(3) Some by blast
      then have "skipSync_loop fuel P E expected s stored n = skipSync_loop f P E expected s' stored' (Suc n)"
        using False f by simp
      then show ?thesis
        using Cons.IH [OF r(2,4), of "Suc n" f] Cons.prems f Some r(3) by auto
    qed
  qed
qed

lemma skipSync_round_roots:
  assumes "skipSync_round P E s stored n = Some (s', stored', n')"
    and "\<exists>st. Store s = Some st \<and> committee_root P (stNextSyncCommittee st) = Some stored"
  shows "\<exists>st. Store s' = Some st \<and> committee_root P (stNextSyncCommittee st) = Some stored'"
proof -
  obtain st key reply where st: "Store s = Some st" "committee_root P (stNextSyncCommittee st) = Some stored"
    and reply: "lookupSkipSync E n key = Some reply" "key = stored"
    using assms by (auto simp: skipSync_round_def bind_eq_Some_conv)
  show ?thesis
  proof (cases reply)
    case (Inl err)
    then show ?thesis using assms(1) st reply by (auto simp: skipSync_round_def split: if_splits)
  next
    case (Inr u)
    then show ?thesis
      using assms(1) st reply
      by (auto simp: skipSync_round_def bind_eq_Some_conv simpleProcessSkipSyncUpdate_def)
  qed
qed

lemma skipSync_loop_result:
  "skipSync_loop fuel P E expected s stored n = Some (Some (s', n')) \<Longrightarrow>
   \<exists>st. Store s = Some st \<and> committee_root P (stNextSyncCommittee st) = Some stored \<Longrightarrow>
   \<exists>st. Store s' = Some st \<and> committee_root P (stNextSyncCommittee st) = Some expected"
proof (induction fuel arbitrary: s stored n)
  case (Suc fuel)
  show ?case
  proof (cases "stored = expected")
    case True
    then show ?thesis using Suc.prems by (auto simp: bind_eq_Some_conv)
  next
    case False
    then obtain s1 stored1 n1 where r: "skipSync_round P E s stored n = Some (s1, stored1, n1)"
      "skipSync_loop fuel P E expected s1 stored1 n1 = Some (Some (s', n'))"
      using Suc.prems(1) by (auto split: option.splits)
    show ?thesis by (rule Suc.IH [OF r(2) skipSync_round_roots [OF r(1) Suc.prems(2)]])
  qed
qed simp

subsection \<open>The first store\<close>

lemma initStore_iff:
  assumes Z: "same_ztype P Z" "index_ok Z"
    and key: "DecodeString (TrustedCurrentCommitteeRoot (cfg s)) = Some key"
  shows "initStore P E s n = Some (s', n') \<longleftrightarrow>
     (\<exists>u h cur nxt. GetSkipSyncUpdate E n key = Inr u \<and>
        (IsEmptyHeader P (FinalityHeader u) \<and> AttestedHeader u = Some h \<or>
         \<not> IsEmptyHeader P (FinalityHeader u) \<and> FinalityHeader u = Some h \<and>
         (\<exists>a leaf. AttestedHeader u = Some a \<and> headerRoot P (Some h) = Some (Inr leaf) \<and>
            Verify Z (prysmToBytes32 Z (StateRoot a)) 105 leaf (FinalityBranch u))) \<and>
        committeeRoot P (CurrentSyncCommittee u) = Some (Inr cur) \<and> committeeRoot P (NextSyncCommittee u) = Some (Inr nxt) \<and>
        Verify Z (prysmToBytes32 Z (StateRoot h)) 54 cur (CurrentSyncCommitteeBranch u) \<and>
        Verify Z (prysmToBytes32 Z (StateRoot h)) 55 nxt (NextSyncCommitteeBranch u) \<and>
        n' = Suc n \<and>
        s' = s\<lparr>Store := Some \<lparr>stFinalizedHeader = FinalityHeader u, stCurrentSyncCommittee = CurrentSyncCommittee u,
          stNextSyncCommittee = NextSyncCommittee u, stOptimisticHeader = AttestedHeader u,
          stBestValidUpdate = Some (toLightClientUpdate u),
          stPreviousMaxActiveParticipants = bitsCount P (SyncCommitteeBits u),
          stCurrentMaxActiveParticipants = bitsCount P (SyncCommitteeBits u)\<rparr>\<rparr>)"
proof -
  have checked: "validateMerkleSkipSyncUpdate P u = Some (Inr ()) \<longleftrightarrow>
     (\<exists>h cur nxt.
        (IsEmptyHeader P (FinalityHeader u) \<and> AttestedHeader u = Some h \<or>
         \<not> IsEmptyHeader P (FinalityHeader u) \<and> FinalityHeader u = Some h \<and>
         (\<exists>a leaf. AttestedHeader u = Some a \<and> headerRoot P (Some h) = Some (Inr leaf) \<and>
            Verify Z (prysmToBytes32 Z (StateRoot a)) 105 leaf (FinalityBranch u))) \<and>
        committeeRoot P (CurrentSyncCommittee u) = Some (Inr cur) \<and> committeeRoot P (NextSyncCommittee u) = Some (Inr nxt) \<and>
        Verify Z (prysmToBytes32 Z (StateRoot h)) 54 cur (CurrentSyncCommitteeBranch u) \<and>
        Verify Z (prysmToBytes32 Z (StateRoot h)) 55 nxt (NextSyncCommitteeBranch u))" for u
    unfolding validateMerkleSkipSync_accepts verifyMerkle_committees [OF Z] verifyMerkle_finality [OF Z]
    by (auto simp: getActiveHeader_def toLightClientUpdate_def)
  have reply: "(\<exists>reply. lookupSkipSync E n key = Some reply \<and> reply = Inr u) \<longleftrightarrow> GetSkipSyncUpdate E n key = Inr u" for u
    by (auto simp: lookupSkipSync_def bind_eq_Some_conv split: sum.splits)
  have "initStore P E s n = Some (s', n') \<longleftrightarrow>
     (\<exists>u. GetSkipSyncUpdate E n key = Inr u \<and> validateMerkleSkipSyncUpdate P u = Some (Inr ()) \<and>
        n' = Suc n \<and> s' = s\<lparr>Store := Some (initial_store P u)\<rparr>)"
    unfolding reply [symmetric] by (auto simp: initStore_def key bind_eq_Some_conv PanicErr_Some)
  then show ?thesis unfolding checked initial_store_def by blast
qed

text \<open>
  Hashes are 32 bytes, and \<^verbatim>\<open>ToBytes32\<close> keeps 32 bytes. The two committees are siblings in the state, so that
  each is the first element of the branch of the other, and any siblings further up give a root for both.
\<close>

definition hash_ok :: "('n, 'v, 's, 'p) ztyp_lib \<Rightarrow> bool" where
  "hash_ok Z \<longleftrightarrow> (\<forall>a b. length (hashFn Z a b) = 32) \<and> (\<forall>b. length b = 32 \<longrightarrow> prysmToBytes32 Z b = b)"

lemma verify_loop_length:
  "hash_ok Z \<Longrightarrow> length h = 32 \<Longrightarrow> length (verify_loop Z h idx branch) = 32"
  by (induction branch arbitrary: h idx) (simp_all add: hash_ok_def)

definition forged_header :: "('n, 'v, 's, 'p) ztyp_lib \<Rightarrow> bytes \<Rightarrow> bytes \<Rightarrow> bytes list \<Rightarrow> u64 \<Rightarrow> BeaconBlockHeader" where
  "forged_header Z cur nxt siblings slot =
     \<lparr>Slot = slot, ProposerIndex = 0, ParentRoot = replicate 32 0,
      StateRoot = verify_loop Z (hashFn Z cur nxt) 27 siblings, BodyRoot = replicate 32 0\<rparr>"

definition forged_update ::
  "('n, 'v, 's, 'p) ztyp_lib \<Rightarrow> SyncCommittee \<Rightarrow> SyncCommittee \<Rightarrow> bytes \<Rightarrow> bytes \<Rightarrow> bytes list \<Rightarrow> u64 \<Rightarrow> bytes \<Rightarrow> SkipSyncUpdate" where
  "forged_update Z current next cur nxt siblings slot bits =
     \<lparr>AttestedHeader = Some (forged_header Z cur nxt siblings slot),
      NextSyncCommittee = Some next, NextSyncCommitteeBranch = cur # siblings,
      FinalityHeader = Some emptyHeader, FinalityBranch = [], SyncCommitteeBits = bits, SyncCommitteeSignature = [], ForkVersion = [],
      CurrentSyncCommittee = Some current, CurrentSyncCommitteeBranch = nxt # siblings\<rparr>"

lemma forged_start:
  assumes lib: "same_ztype P Z" "index_ok Z" "hash_ok Z" "proto_ok P" "lib_total P"
    and key: "DecodeString (TrustedCurrentCommitteeRoot (cfg s)) = Some key"
    and sized: "committee_sized current" "committee_sized next"
  shows "\<exists>u st h. length (CurrentSyncCommitteeBranch u) = 5 \<and> length (NextSyncCommitteeBranch u) = 5 \<and>
     initStore P (E\<lparr>GetSkipSyncUpdate := \<lambda>m k. Inr u\<rparr>) s n = Some (s\<lparr>Store := Some st\<rparr>, Suc n) \<and>
     stCurrentSyncCommittee st = Some current \<and> stNextSyncCommittee st = Some next \<and>
     stOptimisticHeader st = Some h \<and> Slot h = slot \<and> stCurrentMaxActiveParticipants st = bitsCount P bits"
proof -
  obtain cur nxt where roots: "committeeRoot P (Some current) = Some (Inr cur)" "committeeRoot P (Some next) = Some (Inr nxt)"
    and len: "length cur = 32" "length nxt = 32"
    using roots_total(2) [OF lib(5)] sized by metis
  define siblings where "siblings = replicate 4 (replicate 32 (0 :: byte))"
  define u where "u = forged_update Z current next cur nxt siblings slot bits"
  define h where "h = forged_header Z cur nxt siblings slot"
  have conv: "prysmToBytes32 Z cur = cur" "prysmToBytes32 Z nxt = nxt" "prysmToBytes32 Z (StateRoot h) = StateRoot h"
    using lib(3) len verify_loop_length [OF lib(3), of "hashFn Z cur nxt" 27 siblings]
    by (simp_all add: hash_ok_def h_def forged_header_def)
  have "Verify Z (prysmToBytes32 Z (StateRoot h)) 54 cur (nxt # siblings)" "Verify Z (prysmToBytes32 Z (StateRoot h)) 55 nxt (cur # siblings)"
    unfolding Verify_def conv by (simp_all add: conv h_def forged_header_def)
  moreover have "IsEmptyHeader P (FinalityHeader u)" "AttestedHeader u = Some h" "CurrentSyncCommittee u = Some current"
    "NextSyncCommittee u = Some next" "CurrentSyncCommitteeBranch u = nxt # siblings" "NextSyncCommitteeBranch u = cur # siblings"
    "SyncCommitteeBits u = bits"
    using lib(4) by (simp_all add: u_def h_def forged_update_def IsEmptyHeader_def proto_ok_def)
  ultimately have "initStore P (E\<lparr>GetSkipSyncUpdate := \<lambda>m k. Inr u\<rparr>) s n = Some (s\<lparr>Store := Some (initial_store P u)\<rparr>, Suc n)"
    "stCurrentSyncCommittee (initial_store P u) = Some current" "stNextSyncCommittee (initial_store P u) = Some next"
    "stOptimisticHeader (initial_store P u) = Some h" "stCurrentMaxActiveParticipants (initial_store P u) = bitsCount P bits"
    "length (CurrentSyncCommitteeBranch u) = 5" "length (NextSyncCommitteeBranch u) = 5"
    unfolding initStore_iff [OF lib(1,2) key] using roots by (auto simp: initial_store_def siblings_def)
  moreover have "Slot h = slot" by (simp add: h_def forged_header_def)
  ultimately show ?thesis by blast
qed

subsection \<open>Snapshots\<close>

lemma saveSnapshot_file:
  assumes "saveSnapshot E s fs = Some fs'"
  shows "\<exists>filename data. getStoreFileName E s = Some filename \<and> marshalStore E (Store s) = Inr data \<and>
           fs' = fs(filename \<mapsto> data)"
  using assms by (auto simp: saveSnapshot_def bind_eq_Some_conv PanicErr_Some split: if_splits)

subsection \<open>The slot loop\<close>

definition committees_within ::
  "SyncCommittee option \<Rightarrow> SyncCommittee option \<Rightarrow> (Service \<times> files \<times> nat) go \<Rightarrow> bool" where
  "committees_within current next state \<longleftrightarrow>
     (case state of
        None \<Rightarrow> True
      | Some (s, fs, n) \<Rightarrow>
          (\<exists>st. Store s = Some st \<and> stNextSyncCommittee st = next \<and>
                stCurrentSyncCommittee st \<in> {current, next}))"

definition tick :: "('k, 'g) prysm_lib \<Rightarrow> sync_env \<Rightarrow> bytes \<Rightarrow> (Service \<times> files \<times> nat) go \<Rightarrow> u64 \<Rightarrow>
    (Service \<times> files \<times> nat) go" where
  "tick P E gvr state slot = Option.bind state (\<lambda>x. sync_tick P E gvr x slot)"

lemma sync_foldl: "sync P E gvr = foldl (tick P E gvr)"
  by (simp add: sync_def tick_def [abs_def])

lemma processSlot_keeps:
  assumes "processSlotForLightClientStore P st slot = Some st'"
  shows "stNextSyncCommittee st' = stNextSyncCommittee st" "stCurrentSyncCommittee st' = stCurrentSyncCommittee st"
    "store_present st' = store_present st"
  using assms by (auto simp: processSlotForLightClientStore_def store_present_def split: if_splits)

lemma sync_tick_committees:
  assumes "sync_tick P E gvr (s, fs, n) slot = Some (s', fs', n')" "Store s = Some st"
  shows "\<exists>st'. Store s' = Some st' \<and> stNextSyncCommittee st' = stNextSyncCommittee st \<and>
           stCurrentSyncCommittee st' \<in> {stCurrentSyncCommittee st, stNextSyncCommittee st}"
proof -
  obtain st1 u st2 where "processSlotForLightClientStore P st slot = Some st1"
    "processLightClientUpdate P st1 u slot gvr = Some st2" "Store s' = Some st2"
    using assms by (auto simp: sync_tick_def bind_eq_Some_conv Let_def split: if_splits)
  then show ?thesis using processSlot_keeps(1,2) [of P st slot st1] process_keeps(1,2) [of P st1 u slot gvr st2] by simp
qed

interpretation committees: event_machine "tick P E gvr" "\<lambda>state slot. True" "committees_within current next"
  for P :: "('k, 'g) prysm_lib" and E gvr current "next"
proof
  fix state :: "(Service \<times> files \<times> nat) go" and slot
  assume inv: "committees_within current next state"
  show "committees_within current next (tick P E gvr state slot)"
  proof (cases "tick P E gvr state slot")
    case (Some x)
    obtain s' fs' n' where x: "x = (s', fs', n')" by (cases x)
    from Some obtain s fs n where s: "state = Some (s, fs, n)" "sync_tick P E gvr (s, fs, n) slot = Some x"
      by (auto simp: tick_def bind_eq_Some_conv)
    obtain st where "Store s = Some st" "stNextSyncCommittee st = next"
      "stCurrentSyncCommittee st \<in> {current, next}"
      using inv s(1) by (auto simp: committees_within_def)
    with sync_tick_committees [OF s(2) [unfolded x]] Some x show ?thesis
      by (auto simp: committees_within_def)
  qed (simp add: committees_within_def)
qed

text \<open>
  What the environment does while the slot loop goes on: the \<open>n\<close>-th request is answered with a list that begins
  with the update \<open>u n\<close>, in which no message is missing, and the snapshot can be stored.
\<close>

definition env_serves :: "sync_env \<Rightarrow> (nat \<Rightarrow> LightClientUpdate) \<Rightarrow> bool" where
  "env_serves E u \<longleftrightarrow>
     (\<forall>n. \<exists>us. GetUpdates E n = Inr (u n # us) \<and> update_present (u n)) \<and>
     (\<forall>st. \<exists>data. marshalStore E st = Inr data) \<and>
     (\<forall>d. \<exists>dir. absPath E d = Inr dir) \<and> (\<forall>f. writeError E f = None)"

lemma saveSnapshot_total: "env_serves E u \<Longrightarrow> \<exists>fs'. saveSnapshot E s fs = Some fs'"
proof -
  assume E: "env_serves E u"
  obtain data where "marshalStore E (Store s) = Inr data" using E unfolding env_serves_def by blast
  moreover obtain dir where "absPath E (DataDir (cfg s)) = Inr dir" using E unfolding env_serves_def by blast
  moreover have "writeError E f = None" for f using E unfolding env_serves_def by blast
  ultimately show ?thesis by (simp add: saveSnapshot_def getStoreFileName_def PanicErr_def)
qed

lemma sync_tick_panics:
  assumes P: "lib_total P" and E: "env_serves E u" and st: "Store s = Some st" "store_present st"
  shows "malformed P (u n) \<Longrightarrow> sync_tick P E gvr (s, fs, n) slot = None"
    and "\<not> malformed P (u n) \<Longrightarrow>
      \<exists>s' fs' st'. sync_tick P E gvr (s, fs, n) slot = Some (s', fs', Suc n) \<and> Store s' = Some st' \<and> store_present st'"
proof -
  obtain st1 where st1: "processSlotForLightClientStore P st slot = Some st1"
    using P by (cases "slot mod SafetyThresholdPeriod P = 0")
      (auto simp: processSlotForLightClientStore_def lib_total_def)
  obtain us where u: "GetUpdates E n = Inr (u n # us)" "update_present (u n)"
    using E unfolding env_serves_def by blast
  have "store_present st1" using processSlot_keeps(3) [OF st1] st(2) by simp
  note process = process_panics [OF P u(2) this, where slot = slot and gvr = gvr]
  show "sync_tick P E gvr (s, fs, n) slot = None" if "malformed P (u n)"
    using that process(1) st st1 u(1) by (simp add: sync_tick_def PanicErr_def)
  assume "\<not> malformed P (u n)"
  then obtain st2 where st2: "processLightClientUpdate P st1 (u n) slot gvr = Some st2" "store_present st2"
    using process by (metis option.exhaust)
  obtain fs' where fs': "saveSnapshot E (s\<lparr>Store := Some st2\<rparr>) fs = Some fs'"
    using saveSnapshot_total [OF E] by blast
  have roots: "c \<noteq> None \<Longrightarrow> \<exists>r. committeeRoot P c = Some r" for c
    using roots_total(2) [OF P] by (cases c) (blast, metis)
  obtain r1 r2 r3 where "committeeRoot P (stCurrentSyncCommittee st2) = Some r1"
    "committeeRoot P (stNextSyncCommittee st2) = Some r2" "committeeRoot P (NextSyncCommittee (u n)) = Some r3"
    using roots st2(2) u(2) unfolding store_present_def update_present_def by metis
  moreover have "cfgEpochsPerSyncCommitteePeriod P \<noteq> 0" using P by (simp add: lib_total_def)
  moreover obtain a o' f where "AttestedHeader (u n) = Some a" "stOptimisticHeader st2 = Some o'"
    "stFinalizedHeader st2 = Some f"
    using st2(2) u(2) by (auto simp: store_present_def update_present_def)
  ultimately show "\<exists>s' fs' st'. sync_tick P E gvr (s, fs, n) slot = Some (s', fs', Suc n) \<and> Store s' = Some st' \<and> store_present st'"
    using st st1 u(1) st2 fs' by (simp add: sync_tick_def PanicErr_def)
qed



subsection \<open>An instance of the environment\<close>

definition sample_env :: sync_env where
  "sample_env =
     \<lparr>GetSkipSyncUpdate = (\<lambda>n key. if n = 0 then Inl not_found else Inr sample_skip),
      GetUpdates = (\<lambda>n. Inr [toLightClientUpdate sample_skip]),
      dialError = None, recommendedKey = Some [], headerString = (\<lambda>h. []),
      marshalStore = (\<lambda>st. Inr [1]), unmarshalStore = (\<lambda>data. Inr sample_store),
      absPath = Inr, writeError = (\<lambda>f. None)\<rparr>"

definition sample_service :: "LightClientStore \<Rightarrow> Service" where
  "sample_service st =
     (NewService \<lparr>TrustedCurrentCommitteeRoot = ''AQI='', cfgSyncMode = ModeLatest, DataDir = ''/data'',
                  FullNodeServerEndpoint = [], GrpcMaxCallRecvMsgSize = 0, GrpcRetryDelay = 0,
                  GrpcRetries = 0\<rparr>)\<lparr>Store := Some st\<rparr>"

lemma sample_service_Store [simp]: "Store (sample_service st) = Some st"
  by (simp add: sample_service_def)

lemma sample_env_fields [simp]:
  "recommendedKey sample_env = Some []" "GetUpdates sample_env n = Inr [toLightClientUpdate sample_skip]"
  "GetSkipSyncUpdate sample_env 0 key = Inl not_found" "GetSkipSyncUpdate sample_env (Suc n) key = Inr sample_skip"
  by (simp_all add: sample_env_def)

lemma sample_env_serves: "env_serves sample_env (\<lambda>n. toLightClientUpdate sample_skip)"
  by (simp add: env_serves_def update_present_def toLightClientUpdate_def sample_skip_def)
     (simp add: sample_env_def)

lemma sample_roots:
  "committee_root sample_prysm (Some (sample_committee x)) = Some (replicate 32 x)"
  by (simp add: committee_root_Some)

lemma sample_roots_known: "roots_known sample_prysm sample_store (replicate 32 3)"
  by (simp add: roots_known_def sample_store_def sample_roots)

lemma sample_light_valid:
  "validateMerkleLightClientUpdate sample_prysm (toLightClientUpdate sample_skip) = Some (Inr ())"
  using sample_skip_valid by (simp add: validateMerkle_accepts validateMerkleSkipSync_accepts)

lemma sample_hash_ok: "hash_ok mtree_lib"
  by (auto simp: hash_ok_def mtree_lib_def mix_def copy_array_def)

lemma sample_proto_ok: "proto_ok sample_prysm"
  by (simp add: proto_ok_def sample_prysm_def)

lemma sample_sync:
  "\<exists>s' fs' n'. sync sample_prysm sample_env [] (Some (sample_service sample_store, fs, n)) [slot] = Some (s', fs', n')"
  using sync_tick_panics(2) [OF sample_lib_total sample_env_serves _ sample_present(1) sample_formed(2), of "sample_service sample_store" "[]" fs n slot]
  by (auto simp: sync_def)

subsection \<open>Properties\<close>

text \<open>
  C23. Skip sync comes to its end: if the server answers each request, after any number of replies that
  the update is not there yet, with a valid update for the committee asked for, and these updates lead
  to the committee the node expects next, then the loop ends after at most one round per reply, without
  a panic, with that committee in the store.
\<close>

theorem skipSync_terminates:
  assumes "recommendedKey E \<noteq> None" "Store s = Some st" "roots_known P st stored"
    and "serves P E n (stNextSyncCommittee st) rs"
    and "committee_root P (served_committee (stNextSyncCommittee st) rs) = Some expected"
    and "length rs < fuel"
  shows "\<exists>s' st' n'. skipSync_loop fuel P E expected s stored n = Some (Some (s', n')) \<and> Store s' = Some st' \<and>
           committee_root P (stNextSyncCommittee st') = Some expected \<and> n' \<le> n + length rs"
  using skipSync_loop_serves [OF assms] .

theorem skipSync_terminates_witness:
  "\<exists>s' st' n'. skipSync_loop 3 sample_prysm sample_env (replicate 32 2) (sample_service sample_store)
       (replicate 32 3) 0 = Some (Some (s', n')) \<and> Store s' = Some st' \<and>
     committee_root sample_prysm (stNextSyncCommittee st') = Some (replicate 32 2) \<and>
     n' \<le> 0 + length [None, Some sample_skip]"
proof (rule skipSync_terminates [OF _ _ sample_roots_known])
  have "strings_Contains not_found not_found" using Contains_prefix [of not_found "[]"] by simp
  then show "serves sample_prysm sample_env 0 (stNextSyncCommittee sample_store) [None, Some sample_skip]"
    by (simp add: sample_skip_valid sample_store_def sample_roots)
qed (simp_all add: sample_skip_def sample_roots)

text \<open>
  Whenever skip sync ends, the store holds the next committee of the first update the node served,
  which passed the Merkle checks; and it starts from whatever committee the store held.
\<close>

theorem skipSync_result:
  assumes "skipSync fuel P E s n = Some (Some (s', n'))"
  shows "\<exists>u us st root. GetUpdates E n = Inr (u # us) \<and>
           validateMerkleLightClientUpdate P u = Some (Inr ()) \<and>
           committee_root P (NextSyncCommittee u) = Some root \<and>
           Store s' = Some st \<and> committee_root P (stNextSyncCommittee st) = Some root"
proof -
  obtain expected stored u us st where u: "GetUpdates E n = Inr (u # us)"
    "validateMerkleLightClientUpdate P u = Some (Inr ())" "committee_root P (NextSyncCommittee u) = Some expected"
    and st: "Store s = Some st" "committee_root P (stNextSyncCommittee st) = Some stored"
    and loop: "skipSync_loop fuel P E expected s stored (Suc n) = Some (Some (s', n'))"
    using assms
    by (auto simp: skipSync_def skipSync_begin_def bind_eq_Some_conv PanicErr_Some neq_Nil_conv split: option.splits if_splits)
  then show ?thesis using skipSync_loop_result [OF loop] by blast
qed

theorem skipSync_result_witness:
  "\<exists>s' n' st root. skipSync 1 sample_prysm sample_env (sample_service (initial_store sample_prysm sample_skip)) 0
       = Some (Some (s', n')) \<and>
     Store s' = Some st \<and> committee_root sample_prysm (stNextSyncCommittee st) = Some root"
proof -
  have "skipSync 1 sample_prysm sample_env (sample_service (initial_store sample_prysm sample_skip)) 0
        = Some (Some (sample_service (initial_store sample_prysm sample_skip), 1))"
    using sample_light_valid
    by (simp add: skipSync_def skipSync_begin_def PanicErr_def initial_store_def StoreToString_def sample_roots sample_skip_def
        toLightClientUpdate_def)
  with skipSync_result [OF this] show ?thesis by (elim exE conjE) (intro exI conjI)
qed

text \<open>
  C39. What the client starts from is what the server says. \<open>initStore\<close> succeeds exactly when the server returns an
  update for the configured key whose committees verify at indices 54 and 55 against the state root of its own active
  header, and whose finality header, unless it is empty, verifies at index 105 against its own attested state root;
  the store then holds the headers, committees and count of that update. The trusted committee root is
  only the lookup key: for any two committees and any slot and bits there is an update, with branches of the right
  length, that makes the client start with just these, whatever root it was configured to trust.
\<close>

theorem initStore_trusts_server:
  assumes lib: "same_ztype P Z" "index_ok Z" "hash_ok Z" "proto_ok P" "lib_total P"
    and key: "DecodeString (TrustedCurrentCommitteeRoot (cfg s)) = Some key"
    and sized: "committee_sized current" "committee_sized next"
  shows "(initStore P E s n = Some (s', n') \<longleftrightarrow>
       (\<exists>u h cur nxt. GetSkipSyncUpdate E n key = Inr u \<and>
          (IsEmptyHeader P (FinalityHeader u) \<and> AttestedHeader u = Some h \<or>
           \<not> IsEmptyHeader P (FinalityHeader u) \<and> FinalityHeader u = Some h \<and>
           (\<exists>a leaf. AttestedHeader u = Some a \<and> headerRoot P (Some h) = Some (Inr leaf) \<and>
              Verify Z (prysmToBytes32 Z (StateRoot a)) 105 leaf (FinalityBranch u))) \<and>
          committeeRoot P (CurrentSyncCommittee u) = Some (Inr cur) \<and> committeeRoot P (NextSyncCommittee u) = Some (Inr nxt) \<and>
          Verify Z (prysmToBytes32 Z (StateRoot h)) 54 cur (CurrentSyncCommitteeBranch u) \<and>
          Verify Z (prysmToBytes32 Z (StateRoot h)) 55 nxt (NextSyncCommitteeBranch u) \<and>
          n' = Suc n \<and>
          s' = s\<lparr>Store := Some \<lparr>stFinalizedHeader = FinalityHeader u, stCurrentSyncCommittee = CurrentSyncCommittee u,
            stNextSyncCommittee = NextSyncCommittee u, stOptimisticHeader = AttestedHeader u,
            stBestValidUpdate = Some (toLightClientUpdate u),
            stPreviousMaxActiveParticipants = bitsCount P (SyncCommitteeBits u),
            stCurrentMaxActiveParticipants = bitsCount P (SyncCommitteeBits u)\<rparr>\<rparr>)) \<and>
     (\<exists>u st h. length (CurrentSyncCommitteeBranch u) = 5 \<and> length (NextSyncCommitteeBranch u) = 5 \<and>
        initStore P (E\<lparr>GetSkipSyncUpdate := \<lambda>m k. Inr u\<rparr>) s n = Some (s\<lparr>Store := Some st\<rparr>, Suc n) \<and>
        stCurrentSyncCommittee st = Some current \<and> stNextSyncCommittee st = Some next \<and>
        stOptimisticHeader st = Some h \<and> Slot h = slot \<and> stCurrentMaxActiveParticipants st = bitsCount P bits)"
  using initStore_iff [OF lib(1,2) key] forged_start [OF lib key sized] by (rule conjI)

theorem initStore_trusts_server_witness:
  "DecodeString (TrustedCurrentCommitteeRoot (cfg (sample_service sample_store))) = Some [1, 2] \<and>
   (\<exists>u st. initStore sample_prysm (sample_env\<lparr>GetSkipSyncUpdate := \<lambda>m k. Inr u\<rparr>) (sample_service sample_store) 0 =
        Some (sample_service st, Suc 0) \<and>
      stCurrentSyncCommittee st = Some (sample_committee 7) \<and> stNextSyncCommittee st = Some (sample_committee 8) \<and>
      stCurrentMaxActiveParticipants st = 1) \<and>
   committee_root sample_prysm (Some (sample_committee 7)) \<noteq> Some [1, 2]"
proof -
  have "EncodeToString [1, 2] = ''AQI=''" by (simp add: b64_digits_def b64_char_def b64_alphabet_def)
  then have key: "DecodeString (TrustedCurrentCommitteeRoot (cfg (sample_service sample_store))) = Some [1, 2]"
    using DecodeString_EncodeToString [of "[1, 2]"] by (simp add: sample_service_def NewService_def)
  have sized: "committee_sized (sample_committee x)" for x by (simp add: sample_committee_def committee_sized_def list_all_iff)
  have "(sample_service sample_store)\<lparr>Store := Some st\<rparr> = sample_service st" for st by (simp add: sample_service_def)
  moreover have "replicate 32 (7 :: byte) \<noteq> [1, 2]"
  proof
    assume "replicate 32 (7 :: byte) = [1, 2]"
    from arg_cong [OF this, of length] show False by simp
  qed
  ultimately show ?thesis
    using initStore_trusts_server [OF sample_same_ztype mtree_lib_index_ok sample_hash_ok sample_proto_ok sample_lib_total key sized sized,
        of sample_env 0 "sample_service sample_store" 0 7 8 100 "[1]"] key
    by (auto simp: sample_count sample_roots)
qed

text \<open>
  C33. The slot loop never learns a committee: over any number of slots the next committee stays the
  one skip sync stored, and the current committee is the first one or that next one, so that two
  periods later the client has no committee to check updates with.
\<close>

theorem sync_committees_fixed:
  assumes "sync P E gvr (Some (s, fs, n)) slots = Some (s', fs', n')" "Store s = Some st"
  shows "\<exists>st'. Store s' = Some st' \<and> stNextSyncCommittee st' = stNextSyncCommittee st \<and>
           stCurrentSyncCommittee st' \<in> {stCurrentSyncCommittee st, stNextSyncCommittee st}"
proof -
  have "committees_within (stCurrentSyncCommittee st) (stNextSyncCommittee st)
          (foldl (tick P E gvr) (Some (s, fs, n)) slots)"
    using assms(2) by (intro committees.inv_run) (simp_all add: committees_within_def run_ok_const)
  then show ?thesis using assms by (simp add: sync_foldl committees_within_def)
qed

theorem sync_committees_fixed_witness:
  "\<exists>s' fs' n' st'. sync sample_prysm sample_env [] (Some (sample_service sample_store, (\<lambda>f. None), 0)) [9]
       = Some (s', fs', n') \<and> Store s' = Some st' \<and> stNextSyncCommittee st' = stNextSyncCommittee sample_store"
proof -
  obtain s' fs' n' where r: "sync sample_prysm sample_env [] (Some (sample_service sample_store, (\<lambda>f. None), 0)) [9]
       = Some (s', fs', n')"
    using sample_sync by blast
  with sync_committees_fixed [OF r, of sample_store] show ?thesis by auto
qed




text \<open>
  A saved snapshot is recovered: after \<open>saveSnapshot\<close>, \<open>tryRecoverStore\<close> on the same data directory
  brings back the store, if the protobuf codec returns what it was given and the store's committee
  roots can be computed.
\<close>

theorem snapshot_roundtrip:
  assumes "saveSnapshot E s fs = Some fs'" "Store s = Some st" "roots_known P st root"
    and "\<forall>data. marshalStore E (Some st) = Inr data \<longrightarrow> unmarshalStore E data = Inr st"
    and "DataDir (cfg t) = DataDir (cfg s)"
  shows "tryRecoverStore P E t fs' = Some (t\<lparr>Store := Some st\<rparr>)"
proof -
  obtain filename data where f: "getStoreFileName E s = Some filename" "marshalStore E (Store s) = Inr data"
    "fs' = fs(filename \<mapsto> data)"
    using saveSnapshot_file [OF assms(1)] by blast
  have "getStoreFileName E t = Some filename" using f(1) assms(5) by (simp add: getStoreFileName_def)
  moreover have "unmarshalStore E data = Inr st" using f(2) assms(2,4) by simp
  ultimately show ?thesis
    using f(3) assms(3) by (auto simp: tryRecoverStore_def PanicErr_def StoreToString_def roots_known_def)
qed

theorem snapshot_roundtrip_witness:
  "\<exists>fs'. saveSnapshot sample_env (sample_service sample_store) (\<lambda>f. None) = Some fs' \<and>
     tryRecoverStore sample_prysm sample_env (sample_service (initial_store sample_prysm sample_skip)) fs' =
     Some ((sample_service (initial_store sample_prysm sample_skip))\<lparr>Store := Some sample_store\<rparr>)"
proof -
  obtain fs' where fs': "saveSnapshot sample_env (sample_service sample_store) (\<lambda>f. None) = Some fs'"
    using saveSnapshot_total [OF sample_env_serves] by blast
  from snapshot_roundtrip [OF fs' sample_service_Store sample_roots_known,
      of "sample_service (initial_store sample_prysm sample_skip)"] fs' show ?thesis
    by (simp add: sample_service_def sample_env_def)
qed

end
