(* ===== verification/Node_Table.thy ===== *)
theory Node_Table
  imports Go_Prelude
begin

text \<open>
  The Kademlia node table (\<^verbatim>\<open>pkg/discover/table.go\<close>, and the node wrapper of \<^verbatim>\<open>node.go\<close>). A node value
  carries the immutable \<^verbatim>\<open>enode.Node\<close> and the address of its mutable part: two pointers to one node
  share \<open>livenessChecks\<close> and \<open>addedAt\<close>, which the table keeps by address. Every operation runs under
  the table's mutex, so it is one function of the table's state; random draws and the clock are
  arguments. \<^verbatim>\<open>netutil\<close>, \<^verbatim>\<open>enode.LogDist\<close> and \<^verbatim>\<open>enode.DistCmp\<close> are parameters (\<open>disc_lib\<close>).
\<close>

subsection \<open>Nodes\<close>

type_synonym ID = bytes
type_synonym IP = bytes

record enode =
  eID :: ID
  eIP :: IP
  eUDP :: nat
  eTCP :: nat
  eSeq :: u64

record node =
  Node :: enode
  ptr :: nat

abbreviation nID :: "node \<Rightarrow> ID" where "nID n \<equiv> eID (Node n)"
abbreviation nIP :: "node \<Rightarrow> IP" where "nIP n \<equiv> eIP (Node n)"

definition wrapNode :: "nat \<Rightarrow> enode \<Rightarrow> node" where
  "wrapNode p n = \<lparr>Node = n, ptr = p\<rparr>"

definition wrapNodes :: "nat \<Rightarrow> enode list \<Rightarrow> node list" where
  "wrapNodes p ns = map (\<lambda>(i, n). wrapNode (p + i) n) (enumerate 0 ns)"

definition unwrapNode :: "node \<Rightarrow> enode" where
  "unwrapNode n = Node n"

definition unwrapNodes :: "node list \<Rightarrow> enode list" where
  "unwrapNodes ns = map unwrapNode ns"

definition node_addr :: "node \<Rightarrow> IP \<times> nat" where
  "node_addr n = (nIP n, eUDP (Node n))"

text \<open>\<^verbatim>\<open>net.IP.Equal\<close>: an IPv4 address and its IPv6-mapped form are equal.\<close>

definition v4InV6Prefix :: bytes where
  "v4InV6Prefix = replicate 10 0 @ [0xff, 0xff]"

definition ip_Equal :: "IP \<Rightarrow> IP \<Rightarrow> bool" where
  "ip_Equal ip x =
     (if length ip = length x then ip = x
      else if length ip = 4 \<and> length x = 16 then take 12 x = v4InV6Prefix \<and> ip = drop 12 x
      else if length ip = 16 \<and> length x = 4 then take 12 ip = v4InV6Prefix \<and> drop 12 ip = x
      else False)"

subsection \<open>The libraries the table calls\<close>

record 's disc_lib =
  newNetSet :: "nat \<Rightarrow> nat \<Rightarrow> 's"
  netAdd :: "'s \<Rightarrow> IP \<Rightarrow> bool \<times> 's"
  netRemove :: "'s \<Rightarrow> IP \<Rightarrow> 's"
  IsLAN :: "IP \<Rightarrow> bool"
  LogDist :: "ID \<Rightarrow> ID \<Rightarrow> nat"
  DistCmp :: "ID \<Rightarrow> ID \<Rightarrow> ID \<Rightarrow> int"
  ValidateComplete :: "enode \<Rightarrow> string option"

subsection \<open>The table\<close>

definition alpha :: nat where "alpha = 3"
definition bucketSize :: nat where "bucketSize = 16"
definition maxReplacements :: nat where "maxReplacements = 10"
definition hashBits :: nat where "hashBits = 32 * 8"
definition nBuckets :: nat where "nBuckets = hashBits div 15"
definition bucketMinDistance :: nat where "bucketMinDistance = hashBits - nBuckets"
definition bucketIPLimit :: nat where "bucketIPLimit = 2"
definition bucketSubnet :: nat where "bucketSubnet = 24"
definition tableIPLimit :: nat where "tableIPLimit = 10"
definition tableSubnet :: nat where "tableSubnet = 24"
definition seedMinTableTime :: int where "seedMinTableTime = 5 * 60 * 1000000000"

record 's bucket =
  entries :: "node list"
  replacements :: "node list"
  bips :: 's

text \<open>
  \<open>checks\<close> and \<open>added\<close> are the mutable parts of the nodes by address, \<open>fresh\<close> the next unused address,
  and \<open>written\<close> the records handed to the node database. \<open>livenessChecks\<close> is an unsigned machine integer in the code, which
  counts one revalidation at a time; it is a natural number here, so that its wrap-around after that many
  revalidations of one node is left out.
\<close>

record 's Table =
  buckets :: "'s bucket list"
  nursery :: "node list"
  tips :: 's
  self :: enode
  initDone :: bool
  checks :: "nat \<Rightarrow> nat"
  added :: "nat \<Rightarrow> int"
  fresh :: nat
  written :: "enode list"

subsection \<open>Lists of nodes\<close>

fun contains :: "node list \<Rightarrow> ID \<Rightarrow> bool" where
  "contains [] key = False"
| "contains (n # ns) key = (if nID n = key then True else contains ns key)"

text \<open>\<open>pushNode\<close> grows the list by an empty slot when there is room; what falls off the end is returned.\<close>

definition pushNode :: "node list \<Rightarrow> node \<Rightarrow> nat \<Rightarrow> node list \<times> node option" where
  "pushNode ns n mx =
     (if length ns < mx then (n # ns, None)
      else (n # butlast ns, Some (last ns)))"

fun deleteNode :: "node list \<Rightarrow> node \<Rightarrow> node list" where
  "deleteNode [] n = []"
| "deleteNode (m # ns) n = (if nID m = nID n then ns else m # deleteNode ns n)"

subsection \<open>Buckets and IP limits\<close>

definition bucketAtDistance :: "nat \<Rightarrow> nat go" where
  "bucketAtDistance d =
     (if d \<le> bucketMinDistance then Some 0
      else if d - bucketMinDistance - 1 < nBuckets then Some (d - bucketMinDistance - 1) else None)"

text \<open>A bucket is given by its index, so that its pointer is shared with the table.\<close>

definition bucket_index :: "'s disc_lib \<Rightarrow> 's Table \<Rightarrow> ID \<Rightarrow> nat go" where
  "bucket_index L tab key = bucketAtDistance (LogDist L (eID (self tab)) key)"

definition upd_bucket :: "'s Table \<Rightarrow> nat \<Rightarrow> ('s bucket \<Rightarrow> 's bucket) \<Rightarrow> 's Table" where
  "upd_bucket tab bi f = tab\<lparr>buckets := (buckets tab)[bi := f (buckets tab ! bi)]\<rparr>"

definition addIP :: "'s disc_lib \<Rightarrow> 's Table \<Rightarrow> nat \<Rightarrow> IP \<Rightarrow> bool \<times> 's Table" where
  "addIP L tab bi ip =
     (if ip = [] then (False, tab)
      else if IsLAN L ip then (True, tab)
      else case netAdd L (tips tab) ip of
        (False, s) \<Rightarrow> (False, tab\<lparr>tips := s\<rparr>)
      | (True, s) \<Rightarrow>
          (case netAdd L (bips (buckets tab ! bi)) ip of
             (False, t) \<Rightarrow> (False, upd_bucket (tab\<lparr>tips := netRemove L s ip\<rparr>) bi (\<lambda>b. b\<lparr>bips := t\<rparr>))
           | (True, t) \<Rightarrow> (True, upd_bucket (tab\<lparr>tips := s\<rparr>) bi (\<lambda>b. b\<lparr>bips := t\<rparr>))))"

definition removeIP :: "'s disc_lib \<Rightarrow> 's Table \<Rightarrow> nat \<Rightarrow> IP \<Rightarrow> 's Table" where
  "removeIP L tab bi ip =
     (if IsLAN L ip then tab
      else upd_bucket (tab\<lparr>tips := netRemove L (tips tab) ip\<rparr>) bi (\<lambda>b. b\<lparr>bips := netRemove L (bips b) ip\<rparr>))"

definition addReplacement :: "'s disc_lib \<Rightarrow> 's Table \<Rightarrow> nat \<Rightarrow> node \<Rightarrow> 's Table" where
  "addReplacement L tab bi n =
     (if contains (replacements (buckets tab ! bi)) (nID n) then tab
      else case addIP L tab bi (nIP n) of
        (False, tab) \<Rightarrow> tab
      | (True, tab) \<Rightarrow>
          (let (ns, removed) = pushNode (replacements (buckets tab ! bi)) n maxReplacements;
               tab = upd_bucket tab bi (\<lambda>b. b\<lparr>replacements := ns\<rparr>)
           in case removed of None \<Rightarrow> tab | Some r \<Rightarrow> removeIP L tab bi (nIP r)))"

definition deleteInBucket :: "'s disc_lib \<Rightarrow> 's Table \<Rightarrow> nat \<Rightarrow> node \<Rightarrow> 's Table" where
  "deleteInBucket L tab bi n =
     removeIP L (upd_bucket tab bi (\<lambda>b. b\<lparr>entries := deleteNode (entries b) n\<rparr>)) bi (nIP n)"

text \<open>\<open>r\<close> is the random draw; the result is the replacement, if one was made.\<close>

definition replace :: "'s disc_lib \<Rightarrow> 's Table \<Rightarrow> nat \<Rightarrow> node \<Rightarrow> nat \<Rightarrow> node option \<times> 's Table" where
  "replace L tab bi lst r =
     (let b = buckets tab ! bi in
      if entries b = [] \<or> nID (last (entries b)) \<noteq> nID lst then (None, tab)
      else if replacements b = [] then (None, deleteInBucket L tab bi lst)
      else let rn = replacements b ! (r mod length (replacements b));
               tab = upd_bucket tab bi (\<lambda>b. b\<lparr>replacements := deleteNode (replacements b) rn,
                                               entries := (entries b)[length (entries b) - 1 := rn]\<rparr>)
           in (Some rn, removeIP L tab bi (nIP lst)))"

fun index_of :: "node list \<Rightarrow> ID \<Rightarrow> nat option" where
  "index_of [] key = None"
| "index_of (n # ns) key = (if nID n = key then Some 0 else map_option Suc (index_of ns key))"

definition bumpInBucket :: "'s disc_lib \<Rightarrow> 's Table \<Rightarrow> nat \<Rightarrow> node \<Rightarrow> bool \<times> 's Table" where
  "bumpInBucket L tab bi n =
     (case index_of (entries (buckets tab ! bi)) (nID n) of
        None \<Rightarrow> (False, tab)
      | Some i \<Rightarrow>
          (let old = nIP (entries (buckets tab ! bi) ! i);
               to_front = (\<lambda>tab. upd_bucket tab bi (\<lambda>b. b\<lparr>entries := n # take i (entries b) @ drop (Suc i) (entries b)\<rparr>))
           in if \<not> ip_Equal (nIP n) old
              then (case addIP L (removeIP L tab bi old) bi (nIP n) of
                      (False, tab) \<Rightarrow> (False, snd (addIP L tab bi old))
                    | (True, tab) \<Rightarrow> (True, to_front tab))
              else (True, to_front tab)))"

subsection \<open>Adding and removing nodes\<close>

definition addSeenNode :: "'s disc_lib \<Rightarrow> 's Table \<Rightarrow> node \<Rightarrow> int \<Rightarrow> 's Table go" where
  "addSeenNode L tab n now =
     (if nID n = eID (self tab) then Some tab
      else do {
        bi \<leftarrow> bucket_index L tab (nID n);
        let b = buckets tab ! bi;
        if contains (entries b) (nID n) then Some tab
        else if length (entries b) \<ge> bucketSize then Some (addReplacement L tab bi n)
        else case addIP L tab bi (nIP n) of
          (False, tab) \<Rightarrow> Some tab
        | (True, tab) \<Rightarrow>
            Some ((upd_bucket tab bi (\<lambda>b. b\<lparr>entries := entries b @ [n],
                                             replacements := deleteNode (replacements b) n\<rparr>))
                  \<lparr>added := (added tab)(ptr n := now)\<rparr>)
      })"

definition addVerifiedNode :: "'s disc_lib \<Rightarrow> 's Table \<Rightarrow> node \<Rightarrow> int \<Rightarrow> 's Table go" where
  "addVerifiedNode L tab n now =
     (if \<not> initDone tab then Some tab
      else if nID n = eID (self tab) then Some tab
      else do {
        bi \<leftarrow> bucket_index L tab (nID n);
        case bumpInBucket L tab bi n of
          (True, tab) \<Rightarrow> Some tab
        | (False, tab) \<Rightarrow>
            (if length (entries (buckets tab ! bi)) \<ge> bucketSize then Some (addReplacement L tab bi n)
             else case addIP L tab bi (nIP n) of
               (False, tab) \<Rightarrow> Some tab
             | (True, tab) \<Rightarrow>
                 Some ((upd_bucket tab bi (\<lambda>b. b\<lparr>entries := fst (pushNode (entries b) n bucketSize),
                                                  replacements := deleteNode (replacements b) n\<rparr>))
                       \<lparr>added := (added tab)(ptr n := now)\<rparr>))
      })"

definition delete :: "'s disc_lib \<Rightarrow> 's Table \<Rightarrow> node \<Rightarrow> 's Table go" where
  "delete L tab n = do { bi \<leftarrow> bucket_index L tab (nID n); Some (deleteInBucket L tab bi n) }"

definition setFallbackNodes :: "'s disc_lib \<Rightarrow> 's Table \<Rightarrow> enode list \<Rightarrow> string + 's Table" where
  "setFallbackNodes L tab ns =
     (case List.find (\<lambda>n. ValidateComplete L n \<noteq> None) ns of
        Some n \<Rightarrow> Inl ''bad bootstrap node''
      | None \<Rightarrow> Inr (tab\<lparr>nursery := wrapNodes (fresh tab) ns, fresh := fresh tab + length ns\<rparr>))"

fun add_seeds :: "'s disc_lib \<Rightarrow> 's Table \<Rightarrow> int \<Rightarrow> node list \<Rightarrow> 's Table go" where
  "add_seeds L tab now [] = Some tab"
| "add_seeds L tab now (seed # seeds) = do { tab \<leftarrow> addSeenNode L tab seed now; add_seeds L tab now seeds }"

text \<open>\<open>queried\<close> is what the node database returns for \<^verbatim>\<open>QuerySeeds\<close>.\<close>

definition loadSeedNodes :: "'s disc_lib \<Rightarrow> 's Table \<Rightarrow> enode list \<Rightarrow> int \<Rightarrow> 's Table go" where
  "loadSeedNodes L tab queried now =
     add_seeds L (tab\<lparr>fresh := fresh tab + length queried\<rparr>) now (wrapNodes (fresh tab) queried @ nursery tab)"

definition newTable ::
  "'s disc_lib \<Rightarrow> enode \<Rightarrow> enode list \<Rightarrow> enode list \<Rightarrow> int \<Rightarrow> (string + 's Table) go" where
  "newTable L slf bootnodes queried now =
     (let tab = \<lparr>buckets = replicate nBuckets
                   \<lparr>entries = [], replacements = [], bips = newNetSet L bucketSubnet bucketIPLimit\<rparr>,
                 nursery = [], tips = newNetSet L tableSubnet tableIPLimit, self = slf, initDone = False,
                 checks = (\<lambda>_. 0), added = (\<lambda>_. 0), fresh = 0, written = []\<rparr>
      in case setFallbackNodes L tab bootnodes of
           Inl err \<Rightarrow> Some (Inl err)
         | Inr tab \<Rightarrow> map_option Inr (loadSeedNodes L tab queried now))"

subsection \<open>Revalidation\<close>

text \<open>\<open>perm\<close> is the random permutation of the bucket indices.\<close>

fun nodeToRevalidate :: "'s Table \<Rightarrow> nat list \<Rightarrow> (node \<times> nat) option" where
  "nodeToRevalidate tab [] = None"
| "nodeToRevalidate tab (bi # perm) =
     (if entries (buckets tab ! bi) \<noteq> [] then Some (last (entries (buckets tab ! bi)), bi)
      else nodeToRevalidate tab perm)"

text \<open>
  The part of \<open>doRevalidate\<close> after the ping, which runs without the mutex: \<open>pinged\<close> is the ping's
  result (the remote record's sequence number, or an error) and \<open>enr\<close> the record the node sends when
  asked for a newer one.
\<close>

definition revalidate_fetch :: "'s Table \<Rightarrow> node \<Rightarrow> string + u64 \<Rightarrow> string + enode \<Rightarrow> 's Table \<times> node" where
  "revalidate_fetch tab lst pinged enr =
     (let remoteSeq = (case pinged of Inl _ \<Rightarrow> 0 | Inr seq \<Rightarrow> seq)
      in if eSeq (Node lst) < remoteSeq
         then (case enr of
                 Inl _ \<Rightarrow> (tab, lst)
               | Inr n \<Rightarrow> (tab\<lparr>fresh := Suc (fresh tab), added := (added tab)(fresh tab := added tab (ptr lst)),
                              checks := (checks tab)(fresh tab := checks tab (ptr lst))\<rparr>,
                           wrapNode (fresh tab) n))
         else (tab, lst))"

definition doRevalidate ::
  "'s disc_lib \<Rightarrow> 's Table \<Rightarrow> node \<Rightarrow> nat \<Rightarrow> string + u64 \<Rightarrow> string + enode \<Rightarrow> nat \<Rightarrow> 's Table" where
  "doRevalidate L tab lst bi pinged enr r =
     (let (tab, lst) = revalidate_fetch tab lst pinged enr
      in case pinged of
           Inr _ \<Rightarrow> snd (bumpInBucket L (tab\<lparr>checks := (checks tab)(ptr lst := checks tab (ptr lst) + 1)\<rparr>) bi lst)
         | Inl _ \<Rightarrow> snd (replace L tab bi lst r))"

definition copyLiveNodes :: "'s Table \<Rightarrow> int \<Rightarrow> 's Table" where
  "copyLiveNodes tab now =
     tab\<lparr>written := written tab @
           map unwrapNode (filter (\<lambda>n. checks tab (ptr n) > 0 \<and> now - added tab (ptr n) \<ge> seedMinTableTime)
             (concat (map entries (buckets tab))))\<rparr>"

subsection \<open>Queries\<close>

definition getNode :: "'s disc_lib \<Rightarrow> 's Table \<Rightarrow> ID \<Rightarrow> enode option go" where
  "getNode L tab key =
     do { bi \<leftarrow> bucket_index L tab key;
          Some (map_option unwrapNode (List.find (\<lambda>e. nID e = key) (entries (buckets tab ! bi)))) }"

definition table_len :: "'s Table \<Rightarrow> nat" where
  "table_len tab = foldl (\<lambda>n b. n + length (entries b)) 0 (buckets tab)"

definition bucketLen :: "'s disc_lib \<Rightarrow> 's Table \<Rightarrow> ID \<Rightarrow> nat go" where
  "bucketLen L tab key = do { bi \<leftarrow> bucket_index L tab key; Some (length (entries (buckets tab ! bi))) }"

text \<open>The shuffle of \<open>ReadRandomNodes\<close>: \<open>rnd i\<close> is the draw of round \<open>i\<close>.\<close>

fun shuffle :: "(nat \<Rightarrow> nat) \<Rightarrow> nat \<Rightarrow> nat \<Rightarrow> 'a list \<Rightarrow> 'a list" where
  "shuffle rnd i 0 ns = ns"
| "shuffle rnd i (Suc k) ns =
     (let j = rnd i mod length ns in shuffle rnd (Suc i) k (ns[i := ns ! j, j := ns ! i]))"

definition ReadRandomNodes :: "'s Table \<Rightarrow> (nat \<Rightarrow> nat) \<Rightarrow> nat \<Rightarrow> enode list" where
  "ReadRandomNodes tab rnd k =
     (if \<not> initDone tab then []
      else let nodes = concat (map (\<lambda>b. map unwrapNode (entries b)) (buckets tab))
           in take k (shuffle rnd 0 (length nodes) nodes))"

text \<open>
  \<open>nodesByDistance\<close> and its \<open>push\<close>: find the place by binary search, grow the list if there is room,
  then slide the tail down, which drops the farthest node when there was none.
\<close>

record nodesByDistance =
  nentries :: "node list"
  target :: ID

definition push :: "'s disc_lib \<Rightarrow> nodesByDistance \<Rightarrow> node \<Rightarrow> nat \<Rightarrow> nodesByDistance" where
  "push L h n maxElems =
     (let es = nentries h;
          ix = go_search (length es) (\<lambda>i. DistCmp L (target h) (nID (es ! i)) (nID n) > 0);
          es = (if length es < maxElems then es @ [n] else es)
      in h\<lparr>nentries := (if ix = length es then es
                        else take ix es @ n # butlast (drop ix es))\<rparr>)"

definition findnodeByID :: "'s disc_lib \<Rightarrow> 's Table \<Rightarrow> ID \<Rightarrow> nat \<Rightarrow> bool \<Rightarrow> nodesByDistance" where
  "findnodeByID L tab tgt nresults preferLive =
     (let all = concat (map entries (buckets tab));
          empty = \<lparr>nentries = [], target = tgt\<rparr>;
          (nodes, liveNodes) =
            foldl (\<lambda>(nodes, live) n.
                     (push L nodes n nresults,
                      if preferLive \<and> checks tab (ptr n) > 0 then push L live n nresults else live))
                  (empty, empty) all
      in if preferLive \<and> nentries liveNodes \<noteq> [] then liveNodes else nodes)"

subsection \<open>What the libraries promise\<close>

text \<open>
  A \<^verbatim>\<open>DistinctNetSet\<close> counts the addresses of each network range up to its limit: \<open>cnt\<close> is the count
  of the range of an address, \<open>lim\<close> the limit and \<open>rel\<close> says that two addresses are in one range.
\<close>

definition netset_ok ::
  "'s disc_lib \<Rightarrow> ('s \<Rightarrow> IP \<Rightarrow> nat) \<Rightarrow> ('s \<Rightarrow> nat) \<Rightarrow> (IP \<Rightarrow> IP \<Rightarrow> bool) \<Rightarrow> bool" where
  "netset_ok L cnt lim rel \<longleftrightarrow>
     (\<forall>sub l x. cnt (newNetSet L sub l) x = 0 \<and> lim (newNetSet L sub l) = l) \<and>
     (\<forall>s ip. fst (netAdd L s ip) = (cnt s ip < lim s) \<and> lim (snd (netAdd L s ip)) = lim s \<and>
        (\<forall>x. cnt (snd (netAdd L s ip)) x = cnt s x + of_bool (cnt s ip < lim s \<and> rel ip x))) \<and>
     (\<forall>s ip. lim (netRemove L s ip) = lim s \<and>
        (\<forall>x. cnt (netRemove L s ip) x = cnt s x - of_bool (rel ip x))) \<and>
     (\<forall>s x y. rel x y \<longrightarrow> cnt s x = cnt s y) \<and> equivp rel"

definition logdist_ok :: "'s disc_lib \<Rightarrow> bool" where
  "logdist_ok L \<longleftrightarrow> (\<forall>a b. LogDist L a b \<le> 256)"

text \<open>\<^verbatim>\<open>DistCmp\<close> compares distances to the target, and different nodes have different distances.\<close>

definition distcmp_ok :: "'s disc_lib \<Rightarrow> (ID \<Rightarrow> ID \<Rightarrow> nat) \<Rightarrow> bool" where
  "distcmp_ok L dist \<longleftrightarrow>
     (\<forall>t a b. DistCmp L t a b > 0 \<longleftrightarrow> dist t b < dist t a) \<and> (\<forall>t. inj (dist t))"

subsection \<open>Lists of nodes\<close>

named_theorems table_simps \<comment> \<open>effect of the operations on the lists of nodes\<close>

lemma contains_iff: "contains ns key \<longleftrightarrow> key \<in> nID ` set ns"
  by (induction ns) auto

lemma set_deleteNode_subset: "set (deleteNode ns n) \<subseteq> set ns"
  by (induction ns) auto

lemma length_deleteNode_le: "length (deleteNode ns n) \<le> length ns"
  by (induction ns) auto

lemma deleteNode_absent: "nID n \<notin> nID ` set ns \<Longrightarrow> deleteNode ns n = ns"
  by (induction ns) auto

lemma distinct_deleteNode: "distinct (map nID ns) \<Longrightarrow> distinct (map nID (deleteNode ns n))"
  by (induction ns) (auto dest: subsetD [OF set_deleteNode_subset])

lemma ids_deleteNode: "distinct (map nID ns) \<Longrightarrow> nID ` set (deleteNode ns n) = nID ` set ns - {nID n}"
  by (induction ns) (auto, metis image_eqI)

lemma length_pushNode: "0 < mx \<Longrightarrow> length ns \<le> mx \<Longrightarrow> length (fst (pushNode ns n mx)) \<le> mx"
  by (auto simp: pushNode_def)

lemma set_pushNode: "set (fst (pushNode ns n mx)) \<subseteq> insert n (set ns)"
  by (auto simp: pushNode_def dest: in_set_butlastD)

lemma distinct_pushNode:
  "distinct (map nID ns) \<Longrightarrow> nID n \<notin> nID ` set ns \<Longrightarrow> distinct (map nID (fst (pushNode ns n mx)))"
  by (auto simp: pushNode_def map_butlast distinct_butlast dest: in_set_butlastD)

lemma index_of_Some:
  "index_of ns key = Some i \<Longrightarrow> i < length ns \<and> nID (ns ! i) = key"
  by (induction ns arbitrary: i) (auto split: if_splits)

lemma index_of_None: "index_of ns key = None \<longleftrightarrow> key \<notin> nID ` set ns"
  by (induction ns) auto

subsection \<open>Shapes\<close>

text \<open>The nodes of the table, bucket by bucket; address accounting leaves them alone.\<close>

definition shape :: "'s Table \<Rightarrow> (node list \<times> node list) list" where
  "shape tab = map (\<lambda>b. (entries b, replacements b)) (buckets tab)"

lemma length_shape [simp]: "length (shape tab) = length (buckets tab)"
  by (simp add: shape_def)

lemma shape_upd_bucket:
  "shape (upd_bucket tab bi f) =
     (shape tab)[bi := (entries (f (buckets tab ! bi)), replacements (f (buckets tab ! bi)))]"
  by (simp add: shape_def upd_bucket_def map_update)

lemma shape_nth: "bi < length (buckets tab) \<Longrightarrow> shape tab ! bi = (entries (buckets tab ! bi), replacements (buckets tab ! bi))"
  by (simp add: shape_def)

lemma entries_shape: "bi < length (shape tab) \<Longrightarrow> entries (buckets tab ! bi) = fst (shape tab ! bi)"
  and replacements_shape: "bi < length (shape tab) \<Longrightarrow> replacements (buckets tab ! bi) = snd (shape tab ! bi)"
  by (simp_all add: shape_def)

lemma shape_same_bucket:
  assumes "\<And>b. entries (f b) = entries b" "\<And>b. replacements (f b) = replacements b"
  shows "shape (upd_bucket tab bi f) = shape tab"
  using assms by (cases "bi < length (buckets tab)") (simp_all add: shape_upd_bucket list_update_beyond flip: shape_nth)

lemma shape_more [simp]:
  "shape (tab\<lparr>tips := s\<rparr>) = shape tab" "shape (tab\<lparr>added := a\<rparr>) = shape tab"
  "shape (tab\<lparr>checks := c\<rparr>) = shape tab" "shape (tab\<lparr>fresh := k\<rparr>) = shape tab"
  "shape (tab\<lparr>written := w\<rparr>) = shape tab" "shape (tab\<lparr>initDone := d\<rparr>) = shape tab"
  "shape (tab\<lparr>nursery := ns\<rparr>) = shape tab"
  by (simp_all add: shape_def)

lemma self_upd_bucket [simp]: "self (upd_bucket tab bi f) = self tab"
  "length (buckets (upd_bucket tab bi f)) = length (buckets tab)"
  "tips (upd_bucket tab bi f) = tips tab" "initDone (upd_bucket tab bi f) = initDone tab"
  by (simp_all add: upd_bucket_def)

lemma shape_addIP [simp]: "shape (snd (addIP L tab bi ip)) = shape tab"
  by (simp add: addIP_def shape_same_bucket split: prod.split bool.split)

lemma self_addIP [simp]: "self (snd (addIP L tab bi ip)) = self tab"
  "length (buckets (snd (addIP L tab bi ip))) = length (buckets tab)"
  by (simp_all add: addIP_def split: prod.split bool.split)

lemma shape_removeIP [simp]: "shape (removeIP L tab bi ip) = shape tab"
  by (simp add: removeIP_def shape_same_bucket)

lemma self_removeIP [simp]: "self (removeIP L tab bi ip) = self tab"
  "length (buckets (removeIP L tab bi ip)) = length (buckets tab)"
  by (simp_all add: removeIP_def)

lemma addIP_eqD:
  assumes "addIP L tab bi ip = (r, tab')"
  shows "shape tab' = shape tab" "self tab' = self tab" "length (buckets tab') = length (buckets tab)"
    "r \<Longrightarrow> ip \<noteq> []"
  using arg_cong [OF assms, of snd] shape_addIP [of L tab bi ip] self_addIP [of L tab bi ip] assms
  by (auto simp: addIP_def split: if_splits)

subsection \<open>The table's invariant\<close>

text \<open>
  Every node sits in the bucket of its distance, is not the local node and has an address; no bucket
  holds an identity twice, among its entries and its replacements together; the lists respect their
  capacities.
\<close>

definition node_ok :: "'s disc_lib \<Rightarrow> ID \<Rightarrow> nat \<Rightarrow> node \<Rightarrow> bool" where
  "node_ok L slf bi n \<longleftrightarrow>
     bucketAtDistance (LogDist L slf (nID n)) = Some bi \<and> nID n \<noteq> slf \<and> nIP n \<noteq> []"

definition bucket_ok :: "'s disc_lib \<Rightarrow> ID \<Rightarrow> nat \<Rightarrow> node list \<times> node list \<Rightarrow> bool" where
  "bucket_ok L slf bi b \<longleftrightarrow>
     length (fst b) \<le> bucketSize \<and> length (snd b) \<le> maxReplacements \<and>
     distinct (map nID (fst b @ snd b)) \<and> (\<forall>n \<in> set (fst b @ snd b). node_ok L slf bi n)"

definition table_ok :: "'s disc_lib \<Rightarrow> 's Table \<Rightarrow> bool" where
  "table_ok L tab \<longleftrightarrow>
     length (buckets tab) = nBuckets \<and>
     (\<forall>bi < nBuckets. bucket_ok L (eID (self tab)) bi (shape tab ! bi))"

lemma table_okI_shape: "table_ok L tab \<Longrightarrow> shape tab' = shape tab \<Longrightarrow> self tab' = self tab \<Longrightarrow> table_ok L tab'"
  using length_shape [of tab] length_shape [of tab'] by (simp add: table_ok_def)

lemma table_ok_update:
  assumes "table_ok L tab" "shape tab' = (shape tab)[bi := b]" "self tab' = self tab"
    and "bi < nBuckets \<Longrightarrow> bucket_ok L (eID (self tab)) bi b"
  shows "table_ok L tab'"
proof -
  have "length (buckets tab') = nBuckets"
    using assms(1,2) length_shape [of tab'] by (simp add: table_ok_def)
  moreover have "bucket_ok L (eID (self tab)) i ((shape tab)[bi := b] ! i)" if "i < nBuckets" for i
    using assms(1,4) that by (cases "bi = i") (auto simp: table_ok_def)
  ultimately show ?thesis using assms by (simp add: table_ok_def)
qed

lemma table_okD:
  assumes "table_ok L tab" "bi < nBuckets"
  shows "bucket_ok L (eID (self tab)) bi (entries (buckets tab ! bi), replacements (buckets tab ! bi))"
    and "bi < length (buckets tab)"
  using assms shape_nth [of bi tab] by (auto simp: table_ok_def)

lemma bucket_okD:
  assumes "bucket_ok L slf bi (es, rs)"
  shows "length es \<le> bucketSize" "length rs \<le> maxReplacements" "distinct (map nID es)" "distinct (map nID rs)"
    "nID ` set es \<inter> nID ` set rs = {}" "\<And>n. n \<in> set es \<Longrightarrow> node_ok L slf bi n" "\<And>n. n \<in> set rs \<Longrightarrow> node_ok L slf bi n"
  using assms by (auto simp: bucket_ok_def)

lemma bucket_okI:
  assumes "length es \<le> bucketSize" "length rs \<le> maxReplacements" "distinct (map nID es)" "distinct (map nID rs)"
    "nID ` set es \<inter> nID ` set rs = {}" "\<And>n. n \<in> set es \<Longrightarrow> node_ok L slf bi n" "\<And>n. n \<in> set rs \<Longrightarrow> node_ok L slf bi n"
  shows "bucket_ok L slf bi (es, rs)"
  using assms by (auto simp: bucket_ok_def)

lemma bucket_ok_push_replacement:
  assumes ok: "bucket_ok L slf bi (es, rs)" and n: "node_ok L slf bi n"
    and "nID n \<notin> nID ` set es" "nID n \<notin> nID ` set rs"
  shows "bucket_ok L slf bi (es, fst (pushNode rs n maxReplacements))"
proof (rule bucket_okI)
  note d = bucket_okD [OF ok]
  show "length (fst (pushNode rs n maxReplacements)) \<le> maxReplacements"
    using d(2) by (intro length_pushNode) (simp_all add: maxReplacements_def)
  show "distinct (map nID (fst (pushNode rs n maxReplacements)))" using d(4) assms(4) by (rule distinct_pushNode)
  show "nID ` set es \<inter> nID ` set (fst (pushNode rs n maxReplacements)) = {}"
  proof -
    have "nID ` set (fst (pushNode rs n maxReplacements)) \<subseteq> insert (nID n) (nID ` set rs)"
      using image_mono [OF set_pushNode [of rs n maxReplacements], of nID] by simp
    then have "nID ` set es \<inter> nID ` set (fst (pushNode rs n maxReplacements)) \<subseteq>
        nID ` set es \<inter> insert (nID n) (nID ` set rs)" by (intro Int_mono order_refl)
    also have "\<dots> = {}" using d(5) assms(3) by (simp add: Int_insert_right)
    finally show ?thesis by (simp only: subset_empty)
  qed
  show "m \<in> set (fst (pushNode rs n maxReplacements)) \<Longrightarrow> node_ok L slf bi m" for m
    using d(7) n set_pushNode [of rs n maxReplacements] by blast
qed (use bucket_okD [OF ok] in auto)

lemma bucket_ok_delete_replacement:
  assumes ok: "bucket_ok L slf bi (es, rs)" and n: "node_ok L slf bi n" and "nID n \<notin> nID ` set es"
    and es': "set es' = insert n (set es)" "distinct (map nID es')" "length es' \<le> bucketSize"
  shows "bucket_ok L slf bi (es', deleteNode rs n)"
proof (rule bucket_okI)
  note d = bucket_okD [OF ok]
  show "length (deleteNode rs n) \<le> maxReplacements" using d(2) length_deleteNode_le [of rs n] by simp
  show "distinct (map nID (deleteNode rs n))" using d(4) by (rule distinct_deleteNode)
  show "nID ` set es' \<inter> nID ` set (deleteNode rs n) = {}"
    using d(5) by (auto simp: ids_deleteNode [OF d(4)] es'(1))
  show "m \<in> set (deleteNode rs n) \<Longrightarrow> node_ok L slf bi m" for m
    using d(7) subsetD [OF set_deleteNode_subset [of rs n]] by blast
qed (use bucket_okD(6) [OF ok] n es' in auto)

lemma bucket_ok_replace_last:
  assumes ok: "bucket_ok L slf bi (es, rs)" and es: "es \<noteq> []" and r: "r \<in> set rs"
  shows "bucket_ok L slf bi (es[length es - 1 := r], deleteNode rs r)"
proof (rule bucket_okI)
  note d = bucket_okD [OF ok]
  have upd: "es[length es - 1 := r] = butlast es @ [r]"
    using es by (metis append_butlast_last_id length_butlast list_update_length)
  have notin: "nID r \<notin> nID ` set es" using d(5) r by auto
  show "distinct (map nID (es[length es - 1 := r]))"
    unfolding upd using d(3) notin by (auto simp: map_butlast distinct_butlast dest: in_set_butlastD)
  show "distinct (map nID (deleteNode rs r))" using d(4) by (rule distinct_deleteNode)
  show "nID ` set (es[length es - 1 := r]) \<inter> nID ` set (deleteNode rs r) = {}"
    unfolding upd using d(5) by (auto simp: ids_deleteNode [OF d(4)] dest!: in_set_butlastD)
  show "m \<in> set (es[length es - 1 := r]) \<Longrightarrow> node_ok L slf bi m" for m
    unfolding upd using d(6,7) r by (auto dest: in_set_butlastD)
  show "m \<in> set (deleteNode rs r) \<Longrightarrow> node_ok L slf bi m" for m
    using d(7) subsetD [OF set_deleteNode_subset [of rs r]] by blast
  show "length (deleteNode rs r) \<le> maxReplacements" using d(2) length_deleteNode_le [of rs r] by simp
qed (use bucket_okD [OF ok] in simp)

lemma bucket_ok_delete:
  assumes ok: "bucket_ok L slf bi (es, rs)"
  shows "bucket_ok L slf bi (deleteNode es n, rs)"
proof (rule bucket_okI)
  note d = bucket_okD [OF ok]
  show "length (deleteNode es n) \<le> bucketSize" using d(1) length_deleteNode_le [of es n] by simp
  show "distinct (map nID (deleteNode es n))" using d(3) by (rule distinct_deleteNode)
  show "nID ` set (deleteNode es n) \<inter> nID ` set rs = {}" using d(5) by (auto simp: ids_deleteNode [OF d(3)])
  show "m \<in> set (deleteNode es n) \<Longrightarrow> node_ok L slf bi m" for m
    using d(6) subsetD [OF set_deleteNode_subset [of es n]] by blast
qed (use bucket_okD [OF ok] in auto)

lemma bucket_ok_bump:
  assumes ok: "bucket_ok L slf bi (es, rs)" and i: "i < length es" "nID (es ! i) = nID n" and ip: "nIP n \<noteq> []"
  shows "bucket_ok L slf bi (n # take i es @ drop (Suc i) es, rs)"
proof (rule bucket_okI)
  note d = bucket_okD [OF ok]
  have es: "es = take i es @ es ! i # drop (Suc i) es" using i(1) by (simp add: id_take_nth_drop [symmetric])
  have ids: "map nID es = map nID (take i es) @ nID n # map nID (drop (Suc i) es)"
    by (subst es) (simp add: i(2))
  show "distinct (map nID (n # take i es @ drop (Suc i) es))"
    using d(3) unfolding ids by auto
  have "nID ` set (n # take i es @ drop (Suc i) es) = nID ` set es"
    using arg_cong [OF ids, of set] by auto
  then show "nID ` set (n # take i es @ drop (Suc i) es) \<inter> nID ` set rs = {}" using d(5) by simp
  have "node_ok L slf bi n"
    using d(6) [of "es ! i"] i ip by (simp add: node_ok_def)
  then show "m \<in> set (n # take i es @ drop (Suc i) es) \<Longrightarrow> node_ok L slf bi m" for m
    using d(6) by (auto dest: in_set_takeD in_set_dropD)
  show "length (n # take i es @ drop (Suc i) es) \<le> bucketSize" using d(1) i(1) by simp
qed (use bucket_okD [OF ok] in auto)

subsection \<open>Each operation keeps the invariant\<close>

lemma addReplacement_ok:
  assumes ok: "table_ok L tab" and bi: "bi < nBuckets"
    and n: "nIP n \<noteq> [] \<Longrightarrow> node_ok L (eID (self tab)) bi n"
    and out: "nID n \<notin> nID ` set (entries (buckets tab ! bi)) \<or> \<not> fst (addIP L tab bi (nIP n))"
  shows "table_ok L (addReplacement L tab bi n) \<and> self (addReplacement L tab bi n) = self tab"
proof (cases "contains (replacements (buckets tab ! bi)) (nID n)")
  case True
  then show ?thesis using ok by (simp add: addReplacement_def)
next
  case False
  obtain r t where a: "addIP L tab bi (nIP n) = (r, t)" by (cases "addIP L tab bi (nIP n)")
  note t = addIP_eqD [OF a]
  show ?thesis
  proof (cases r)
    case True
    define rs where "rs = replacements (buckets tab ! bi)"
    define u where "u = upd_bucket t bi (\<lambda>b. b\<lparr>replacements := fst (pushNode (replacements (buckets t ! bi)) n maxReplacements)\<rparr>)"
    have bl: "bi < length (buckets tab)" using table_okD [OF ok bi] by simp
    have tb: "entries (buckets t ! bi) = entries (buckets tab ! bi)" "replacements (buckets t ! bi) = rs"
      using bl t(1,3) entries_shape [of bi t] entries_shape [of bi tab] replacements_shape [of bi t]
        replacements_shape [of bi tab] by (simp_all add: rs_def)
    have "shape u = (shape tab)[bi := (entries (buckets tab ! bi), fst (pushNode rs n maxReplacements))]"
      using t(1) tb by (simp add: u_def shape_upd_bucket)
    moreover have "bucket_ok L (eID (self tab)) bi (entries (buckets tab ! bi), fst (pushNode rs n maxReplacements))"
      using bucket_ok_push_replacement [OF table_okD(1) [OF ok bi] n] t(4) True out a False
      by (auto simp: contains_iff rs_def)
    moreover have "self u = self tab" using t(2) by (simp add: u_def)
    ultimately have "table_ok L u" using table_ok_update [OF ok] by blast
    moreover have "addReplacement L tab bi n =
        (case snd (pushNode (replacements (buckets t ! bi)) n maxReplacements) of
           None \<Rightarrow> u | Some r \<Rightarrow> removeIP L u bi (nIP r))"
      unfolding addReplacement_def u_def using False a True by (simp add: case_prod_beta Let_def)
    ultimately show ?thesis
      using \<open>self u = self tab\<close> table_okI_shape [of L u] by (auto split: option.split)
  next
    case r: False
    then have "addReplacement L tab bi n = t" using False a by (simp add: addReplacement_def)
    then show ?thesis using table_okI_shape [OF ok t(1,2)] t(2) by simp
  qed
qed

lemma deleteInBucket_ok:
  assumes "table_ok L tab"
  shows "table_ok L (deleteInBucket L tab bi n)" and "self (deleteInBucket L tab bi n) = self tab"
proof -
  define u where "u = upd_bucket tab bi (\<lambda>b. b\<lparr>entries := deleteNode (entries b) n\<rparr>)"
  have "table_ok L u"
  proof (rule table_ok_update [OF assms])
    show "shape u = (shape tab)[bi := (deleteNode (entries (buckets tab ! bi)) n, replacements (buckets tab ! bi))]"
      by (simp add: u_def shape_upd_bucket)
    show "bi < nBuckets \<Longrightarrow> bucket_ok L (eID (self tab)) bi
        (deleteNode (entries (buckets tab ! bi)) n, replacements (buckets tab ! bi))"
      using table_okD(1) [OF assms] by (intro bucket_ok_delete)
  qed (simp add: u_def)
  then show "table_ok L (deleteInBucket L tab bi n)"
    using table_okI_shape [of L u] by (simp add: deleteInBucket_def u_def)
  show "self (deleteInBucket L tab bi n) = self tab" by (simp add: deleteInBucket_def)
qed

lemma replace_ok:
  assumes ok: "table_ok L tab"
  shows "table_ok L (snd (replace L tab bi lst r))" and "self (snd (replace L tab bi lst r)) = self tab"
proof -
  define es where "es = entries (buckets tab ! bi)"
  define rs where "rs = replacements (buckets tab ! bi)"
  define u where "u = upd_bucket tab bi (\<lambda>b. b\<lparr>replacements := deleteNode (replacements b) (rs ! (r mod length rs)),
                                      entries := (entries b)[length (entries b) - 1 := rs ! (r mod length rs)]\<rparr>)"
  have "table_ok L u" if "es \<noteq> []" "rs \<noteq> []"
  proof (rule table_ok_update [OF ok])
    show "shape u = (shape tab)[bi := (es[length es - 1 := rs ! (r mod length rs)], deleteNode rs (rs ! (r mod length rs)))]"
      by (simp add: u_def shape_upd_bucket es_def rs_def)
    show "bi < nBuckets \<Longrightarrow> bucket_ok L (eID (self tab)) bi
       (es[length es - 1 := rs ! (r mod length rs)], deleteNode rs (rs ! (r mod length rs)))"
      using table_okD(1) [OF ok] that by (intro bucket_ok_replace_last) (simp_all add: es_def rs_def)
  qed (simp add: u_def)
  moreover have "self u = self tab" by (simp add: u_def)
  ultimately show "table_ok L (snd (replace L tab bi lst r))" "self (snd (replace L tab bi lst r)) = self tab"
    using ok deleteInBucket_ok [OF ok] table_okI_shape [of L u]
    by (auto simp: replace_def Let_def u_def es_def rs_def)
qed

lemma ip_Equal_nonempty: "ip_Equal ip x \<Longrightarrow> x \<noteq> [] \<Longrightarrow> ip \<noteq> []"
  by (auto simp: ip_Equal_def split: if_splits)

lemma bump_cases:
  assumes "bumpInBucket L tab bi n = (r, tab')"
  obtains (absent) "\<not> r" "tab' = tab" "nID n \<notin> nID ` set (entries (buckets tab ! bi))"
  | (rejected) i t where "\<not> r" "index_of (entries (buckets tab ! bi)) (nID n) = Some i"
      "\<not> ip_Equal (nIP n) (nIP (entries (buckets tab ! bi) ! i))"
      "addIP L (removeIP L tab bi (nIP (entries (buckets tab ! bi) ! i))) bi (nIP n) = (False, t)"
      "tab' = snd (addIP L t bi (nIP (entries (buckets tab ! bi) ! i)))"
  | (moved) i t where "r" "index_of (entries (buckets tab ! bi)) (nID n) = Some i"
      "addIP L (removeIP L tab bi (nIP (entries (buckets tab ! bi) ! i))) bi (nIP n) = (True, t)"
      "tab' = upd_bucket t bi (\<lambda>b. b\<lparr>entries := n # take i (entries b) @ drop (Suc i) (entries b)\<rparr>)"
  | (same) i where "r" "index_of (entries (buckets tab ! bi)) (nID n) = Some i"
      "ip_Equal (nIP n) (nIP (entries (buckets tab ! bi) ! i))"
      "tab' = upd_bucket tab bi (\<lambda>b. b\<lparr>entries := n # take i (entries b) @ drop (Suc i) (entries b)\<rparr>)"
  using assms
  by (auto simp: bumpInBucket_def Let_def index_of_None split: option.splits if_splits prod.splits bool.splits)

lemma bump_shape:
  assumes "bumpInBucket L tab bi n = (r, tab')" and bi: "bi < length (buckets tab)"
  shows "self tab' = self tab"
    and "\<not> r \<Longrightarrow> shape tab' = shape tab"
    and "r \<Longrightarrow> \<exists>i. index_of (entries (buckets tab ! bi)) (nID n) = Some i \<and>
           (nIP n \<noteq> [] \<or> ip_Equal (nIP n) (nIP (entries (buckets tab ! bi) ! i))) \<and>
           shape tab' = (shape tab)[bi := (n # take i (entries (buckets tab ! bi)) @ drop (Suc i) (entries (buckets tab ! bi)),
                                           replacements (buckets tab ! bi))]"
proof -
  have "self tab' = self tab \<and> (\<not> r \<longrightarrow> shape tab' = shape tab) \<and>
      (r \<longrightarrow> (\<exists>i. index_of (entries (buckets tab ! bi)) (nID n) = Some i \<and>
           (nIP n \<noteq> [] \<or> ip_Equal (nIP n) (nIP (entries (buckets tab ! bi) ! i))) \<and>
           shape tab' = (shape tab)[bi := (n # take i (entries (buckets tab ! bi)) @ drop (Suc i) (entries (buckets tab ! bi)),
                                           replacements (buckets tab ! bi))]))"
    using assms(1)
  proof (cases rule: bump_cases)
    case (rejected i t)
    then show ?thesis using addIP_eqD [OF rejected(4)] by simp
  next
    case (moved i t)
    note t = addIP_eqD [OF moved(3)]
    have "entries (buckets t ! bi) = entries (buckets tab ! bi)"
      "replacements (buckets t ! bi) = replacements (buckets tab ! bi)"
      using bi t(1,3) entries_shape [of bi t] entries_shape [of bi tab] replacements_shape [of bi t]
        replacements_shape [of bi tab] by simp_all
    then show ?thesis using moved t by (simp add: shape_upd_bucket)
  next
    case (same i)
    then show ?thesis by (auto simp: shape_upd_bucket)
  qed simp
  then show "self tab' = self tab" "\<not> r \<Longrightarrow> shape tab' = shape tab"
    "r \<Longrightarrow> \<exists>i. index_of (entries (buckets tab ! bi)) (nID n) = Some i \<and>
           (nIP n \<noteq> [] \<or> ip_Equal (nIP n) (nIP (entries (buckets tab ! bi) ! i))) \<and>
           shape tab' = (shape tab)[bi := (n # take i (entries (buckets tab ! bi)) @ drop (Suc i) (entries (buckets tab ! bi)),
                                           replacements (buckets tab ! bi))]"
    by blast+
qed

lemma bumpInBucket_ok:
  assumes ok: "table_ok L tab" and bi: "bi < nBuckets" and b: "bumpInBucket L tab bi n = (r, tab')"
  shows "table_ok L tab'" and "self tab' = self tab"
proof -
  note len = table_okD(2) [OF ok bi]
  note s = bump_shape [OF b len]
  show "self tab' = self tab" by (rule s)
  show "table_ok L tab'"
  proof (cases r)
    case True
    define es where "es = entries (buckets tab ! bi)"
    obtain i where i: "index_of es (nID n) = Some i"
      "nIP n \<noteq> [] \<or> ip_Equal (nIP n) (nIP (es ! i))"
      "shape tab' = (shape tab)[bi := (n # take i es @ drop (Suc i) es, replacements (buckets tab ! bi))]"
      using s(3) [OF True] unfolding es_def by blast
    note ix = index_of_Some [OF i(1)]
    have bok: "bucket_ok L (eID (self tab)) bi (es, replacements (buckets tab ! bi))"
      using table_okD(1) [OF ok bi] by (simp add: es_def)
    have "node_ok L (eID (self tab)) bi (es ! i)" using bucket_okD(6) [OF bok] ix by simp
    then have "nIP n \<noteq> []" using i(2) ip_Equal_nonempty by (auto simp: node_ok_def)
    then show ?thesis
      using table_ok_update [OF ok i(3) s(1)] bucket_ok_bump [OF bok] ix by blast
  next
    case False
    then show ?thesis using table_okI_shape [OF ok] s by blast
  qed
qed

subsection \<open>Address accounting\<close>

lemma netset_okD:
  assumes "netset_ok L cnt lim rel"
  shows "cnt (newNetSet L sub l) x = 0" "lim (newNetSet L sub l) = l"
    and "fst (netAdd L s ip) = (cnt s ip < lim s)" "lim (snd (netAdd L s ip)) = lim s"
    and "cnt (snd (netAdd L s ip)) x = cnt s x + of_bool (cnt s ip < lim s \<and> rel ip x)"
    and "lim (netRemove L s ip) = lim s" "cnt (netRemove L s ip) x = cnt s x - of_bool (rel ip x)"
    and "rel x y \<Longrightarrow> cnt s x = cnt s y" "equivp rel"
  using assms unfolding netset_ok_def by blast+

lemma buckets_upd_bucket:
  "bi < length (buckets tab) \<Longrightarrow> buckets (upd_bucket tab bi f) ! bi = f (buckets tab ! bi)"
  "j \<noteq> bi \<Longrightarrow> buckets (upd_bucket tab bi f) ! j = buckets tab ! j"
  by (simp_all add: upd_bucket_def)

lemma addIP_result:
  assumes N: "netset_ok L cnt lim rel"
  shows "fst (addIP L tab bi ip) \<longleftrightarrow>
     ip \<noteq> [] \<and> (IsLAN L ip \<or> cnt (tips tab) ip < lim (tips tab) \<and>
                  cnt (bips (buckets tab ! bi)) ip < lim (bips (buckets tab ! bi)))"
  using netset_okD(3) [OF N, of "tips tab" ip] netset_okD(3) [OF N, of "bips (buckets tab ! bi)" ip]
  by (auto simp: addIP_def split: prod.splits bool.splits)

lemma addIP_counts:
  assumes N: "netset_ok L cnt lim rel" and bi: "bi < length (buckets tab)" and a: "addIP L tab bi ip = (r, tab')"
  shows "cnt (tips tab') x = cnt (tips tab) x + of_bool (r \<and> \<not> IsLAN L ip \<and> rel ip x)"
    and "cnt (bips (buckets tab' ! bi)) x = cnt (bips (buckets tab ! bi)) x + of_bool (r \<and> \<not> IsLAN L ip \<and> rel ip x)"
    and "lim (tips tab') = lim (tips tab)" "lim (bips (buckets tab' ! bi)) = lim (bips (buckets tab ! bi))"
    and "j \<noteq> bi \<Longrightarrow> buckets tab' ! j = buckets tab ! j"
proof -
  obtain b1 s where s: "netAdd L (tips tab) ip = (b1, s)" by (cases "netAdd L (tips tab) ip")
  obtain b2 t where t: "netAdd L (bips (buckets tab ! bi)) ip = (b2, t)"
    by (cases "netAdd L (bips (buckets tab ! bi)) ip")
  note sa = netset_okD(3,4) [OF N, of "tips tab" ip] netset_okD(5) [OF N, of "tips tab" ip]
  note ta = netset_okD(3,4) [OF N, of "bips (buckets tab ! bi)" ip] netset_okD(5) [OF N, of "bips (buckets tab ! bi)" ip]
  note rm = netset_okD(6,7) [OF N]
  note facts = sa [unfolded s fst_conv snd_conv] ta [unfolded t fst_conv snd_conv] rm
  have *: "tab' = (if ip = [] \<or> IsLAN L ip then tab
             else if \<not> b1 then tab\<lparr>tips := s\<rparr>
             else if \<not> b2 then upd_bucket (tab\<lparr>tips := netRemove L s ip\<rparr>) bi (\<lambda>b. b\<lparr>bips := t\<rparr>)
             else upd_bucket (tab\<lparr>tips := s\<rparr>) bi (\<lambda>b. b\<lparr>bips := t\<rparr>))"
    and **: "r = (ip \<noteq> [] \<and> (IsLAN L ip \<or> b1 \<and> b2))"
    using a s t by (auto simp: addIP_def split: if_splits bool.splits)
  have bb: "buckets (upd_bucket u bi f) ! bi = f (buckets tab ! bi)"
    if "buckets u = buckets tab" for u and f :: "'a bucket \<Rightarrow> 'a bucket"
    using that bi by (simp add: upd_bucket_def)
  show "cnt (tips tab') x = cnt (tips tab) x + of_bool (r \<and> \<not> IsLAN L ip \<and> rel ip x)"
    unfolding * ** using facts by auto
  show "cnt (bips (buckets tab' ! bi)) x = cnt (bips (buckets tab ! bi)) x + of_bool (r \<and> \<not> IsLAN L ip \<and> rel ip x)"
    unfolding * ** using facts by (auto simp: bb)
  show "lim (tips tab') = lim (tips tab)" unfolding * using facts by auto
  show "lim (bips (buckets tab' ! bi)) = lim (bips (buckets tab ! bi))" unfolding * using facts by (auto simp: bb)
  show "j \<noteq> bi \<Longrightarrow> buckets tab' ! j = buckets tab ! j" unfolding * by (auto simp: buckets_upd_bucket)
qed

lemma removeIP_counts:
  assumes N: "netset_ok L cnt lim rel" and bi: "bi < length (buckets tab)"
  shows "cnt (tips (removeIP L tab bi ip)) x = cnt (tips tab) x - of_bool (\<not> IsLAN L ip \<and> rel ip x)"
    and "cnt (bips (buckets (removeIP L tab bi ip) ! bi)) x =
           cnt (bips (buckets tab ! bi)) x - of_bool (\<not> IsLAN L ip \<and> rel ip x)"
    and "lim (tips (removeIP L tab bi ip)) = lim (tips tab)"
    and "lim (bips (buckets (removeIP L tab bi ip) ! bi)) = lim (bips (buckets tab ! bi))"
    and "j \<noteq> bi \<Longrightarrow> buckets (removeIP L tab bi ip) ! j = buckets tab ! j"
  using netset_okD(6,7) [OF N] bi by (simp_all add: removeIP_def upd_bucket_def)

text \<open>A node refused for its new address is refused again once the old address is back.\<close>

lemma bump_rejects_again:
  assumes N: "netset_ok L cnt lim rel" and bi: "bi < length (buckets tab)"
    and b: "bumpInBucket L tab bi n = (False, tab')" and in_: "nID n \<in> nID ` set (entries (buckets tab ! bi))"
  shows "\<not> fst (addIP L tab' bi (nIP n))"
  using b
proof (cases rule: bump_cases)
  case (rejected i t)
  define u where "u = removeIP L tab bi (nIP (entries (buckets tab ! bi) ! i))"
  have bu: "bi < length (buckets u)" "bi < length (buckets t)"
    using bi addIP_eqD(3) [OF rejected(4)] by (simp_all add: u_def)
  obtain r where r: "addIP L t bi (nIP (entries (buckets tab ! bi) ! i)) = (r, tab')"
    using rejected(5) by (metis prod.collapse)
  note c1 = addIP_counts [OF N bu(1) rejected(4) [folded u_def]]
  note c2 = addIP_counts [OF N bu(2) r]
  have "\<not> fst (addIP L u bi (nIP n))" using rejected(4) by (simp add: u_def)
  then show ?thesis
    unfolding addIP_result [OF N] using c1(1-4) c2(1-4) by auto
qed (use in_ in auto)

subsection \<open>Adding nodes\<close>

lemma bucketAtDistance_less: "bucketAtDistance d = Some bi \<Longrightarrow> bi < nBuckets"
  by (auto simp: bucketAtDistance_def nBuckets_def hashBits_def split: if_splits)

lemma bucketAtDistance_total: "d \<le> 256 \<Longrightarrow> \<exists>bi. bucketAtDistance d = Some bi"
  by (auto simp: bucketAtDistance_def nBuckets_def hashBits_def bucketMinDistance_def)

lemma bucket_index_total: "logdist_ok L \<Longrightarrow> \<exists>bi. bucket_index L tab key = Some bi \<and> bi < nBuckets"
  using bucketAtDistance_total bucketAtDistance_less unfolding bucket_index_def logdist_ok_def by metis

lemma node_ok_index:
  "bucket_index L tab (nID n) = Some bi \<Longrightarrow> nID n \<noteq> eID (self tab) \<Longrightarrow> nIP n \<noteq> [] \<Longrightarrow>
   node_ok L (eID (self tab)) bi n"
  by (simp add: node_ok_def bucket_index_def)

lemma insert_entry_ok:
  assumes ok: "table_ok L tab" and bi: "bi < nBuckets" and a: "addIP L tab bi (nIP n) = (True, t)"
    and n: "bucket_index L tab (nID n) = Some bi" "nID n \<noteq> eID (self tab)"
      "nID n \<notin> nID ` set (entries (buckets tab ! bi))" "length (entries (buckets tab ! bi)) < bucketSize"
    and f: "\<And>es. set (f es) = insert n (set es)" "\<And>es. length (f es) = Suc (length es)"
      "\<And>es. distinct (map nID es) \<Longrightarrow> nID n \<notin> nID ` set es \<Longrightarrow> distinct (map nID (f es))"
  shows "table_ok L ((upd_bucket t bi (\<lambda>b. b\<lparr>entries := f (entries b), replacements := deleteNode (replacements b) n\<rparr>))
                     \<lparr>added := d\<rparr>)"
proof (rule table_ok_update [OF ok])
  note t = addIP_eqD [OF a]
  note bok = table_okD(1) [OF ok bi]
  define es where "es = entries (buckets tab ! bi)"
  define rs where "rs = replacements (buckets tab ! bi)"
  have tb: "entries (buckets t ! bi) = es" "replacements (buckets t ! bi) = rs"
    using table_okD(2) [OF ok bi] t(1,3) entries_shape [of bi t] entries_shape [of bi tab]
      replacements_shape [of bi t] replacements_shape [of bi tab] by (simp_all add: es_def rs_def)
  show "shape ((upd_bucket t bi (\<lambda>b. b\<lparr>entries := f (entries b), replacements := deleteNode (replacements b) n\<rparr>))\<lparr>added := d\<rparr>)
        = (shape tab)[bi := (f es, deleteNode rs n)]"
    using t(1) by (simp add: shape_upd_bucket tb)
  show "bucket_ok L (eID (self tab)) bi (f es, deleteNode rs n)"
    using bok node_ok_index [OF n(1,2)] t(4) n(3,4) f bucket_okD(3) [OF bok]
    by (intro bucket_ok_delete_replacement [of L _ bi es]) (simp_all add: es_def rs_def)
  show "self ((upd_bucket t bi (\<lambda>b. b\<lparr>entries := f (entries b), replacements := deleteNode (replacements b) n\<rparr>))\<lparr>added := d\<rparr>)
        = self tab"
    using t(2) by simp
qed

lemma addSeenNode_ok:
  assumes ok: "table_ok L tab" and L: "logdist_ok L"
  shows "\<exists>tab'. addSeenNode L tab n now = Some tab' \<and> table_ok L tab' \<and> self tab' = self tab"
proof (cases "nID n = eID (self tab)")
  case True
  then show ?thesis using ok by (simp add: addSeenNode_def)
next
  case False
  obtain bi where bi: "bucket_index L tab (nID n) = Some bi" "bi < nBuckets"
    using bucket_index_total [OF L] by blast
  obtain r t where a: "addIP L tab bi (nIP n) = (r, t)" by (cases "addIP L tab bi (nIP n)")
  note t = addIP_eqD [OF a]
  consider "contains (entries (buckets tab ! bi)) (nID n)"
    | "\<not> contains (entries (buckets tab ! bi)) (nID n)" "bucketSize \<le> length (entries (buckets tab ! bi))"
    | "\<not> contains (entries (buckets tab ! bi)) (nID n)" "length (entries (buckets tab ! bi)) < bucketSize" "\<not> r"
    | "\<not> contains (entries (buckets tab ! bi)) (nID n)" "length (entries (buckets tab ! bi)) < bucketSize" "r"
    by linarith
  then show ?thesis
  proof cases
    case 1
    then show ?thesis using False bi ok by (simp add: addSeenNode_def)
  next
    case 2
    have "table_ok L (addReplacement L tab bi n) \<and> self (addReplacement L tab bi n) = self tab"
      using ok bi(2) node_ok_index [OF bi(1) False] 2(1) by (intro addReplacement_ok) (auto simp: contains_iff)
    then show ?thesis using 2 False bi by (simp add: addSeenNode_def)
  next
    case 3
    then show ?thesis using False bi a table_okI_shape [OF ok t(1,2)] t(2) by (simp add: addSeenNode_def)
  next
    case 4
    have "table_ok L ((upd_bucket t bi (\<lambda>b. b\<lparr>entries := entries b @ [n],
            replacements := deleteNode (replacements b) n\<rparr>))\<lparr>added := (added t)(ptr n := now)\<rparr>)"
      using ok bi(2) a bi(1) False 4 by (intro insert_entry_ok) (auto simp: contains_iff)
    then show ?thesis using 4 False bi a t(2) by (simp add: addSeenNode_def)
  qed
qed

lemma addVerifiedNode_ok:
  assumes ok: "table_ok L tab" and L: "logdist_ok L" and N: "netset_ok L cnt lim rel"
  shows "\<exists>tab'. addVerifiedNode L tab n now = Some tab' \<and> table_ok L tab' \<and> self tab' = self tab"
proof (cases "\<not> initDone tab \<or> nID n = eID (self tab)")
  case True
  then show ?thesis using ok by (auto simp: addVerifiedNode_def)
next
  case False
  obtain bi where bi: "bucket_index L tab (nID n) = Some bi" "bi < nBuckets"
    using bucket_index_total [OF L] by blast
  obtain moved u where u: "bumpInBucket L tab bi n = (moved, u)" by (cases "bumpInBucket L tab bi n")
  note uok = bumpInBucket_ok [OF ok bi(2) u]
  note len = table_okD(2) [OF ok bi(2)]
  obtain r t where a: "addIP L u bi (nIP n) = (r, t)" by (cases "addIP L u bi (nIP n)")
  note t = addIP_eqD [OF a]
  have idx: "bucket_index L u (nID n) = Some bi" "nID n \<noteq> eID (self u)"
    using bi(1) False uok(2) by (simp_all add: bucket_index_def)
  have out: "nID n \<notin> nID ` set (entries (buckets u ! bi)) \<or> \<not> r" if "\<not> moved"
  proof (cases "nID n \<in> nID ` set (entries (buckets tab ! bi))")
    case True
    have "bumpInBucket L tab bi n = (False, u)" using u that by simp
    from bump_rejects_again [OF N len this True] show ?thesis using a by simp
  next
    case not_in: False
    have "entries (buckets u ! bi) = entries (buckets tab ! bi)"
      using bump_shape(2) [OF u len that] len entries_shape [of bi u] entries_shape [of bi tab] length_shape [of tab]
      by simp
    then show ?thesis using not_in by simp
  qed
  consider "moved" | "\<not> moved" "bucketSize \<le> length (entries (buckets u ! bi))"
    | "\<not> moved" "length (entries (buckets u ! bi)) < bucketSize" "\<not> r"
    | "\<not> moved" "length (entries (buckets u ! bi)) < bucketSize" "r"
    by linarith
  then show ?thesis
  proof cases
    case 1
    then show ?thesis using False bi u uok by (simp add: addVerifiedNode_def)
  next
    case 2
    have "table_ok L (addReplacement L u bi n) \<and> self (addReplacement L u bi n) = self u"
      using uok(1) bi(2) node_ok_index [OF idx] out [OF 2(1)] a by (intro addReplacement_ok) auto
    then show ?thesis using 2 False bi u uok by (simp add: addVerifiedNode_def)
  next
    case 3
    then show ?thesis using False bi u a table_okI_shape [OF uok(1) t(1,2)] t(2) uok(2) by (simp add: addVerifiedNode_def)
  next
    case 4
    have push: "fst (pushNode (entries (buckets t ! bi)) n bucketSize) = n # entries (buckets t ! bi)"
    proof -
      have "entries (buckets t ! bi) = entries (buckets u ! bi)"
        using t(1,3) table_okD(2) [OF uok(1) bi(2)] entries_shape [of bi t] entries_shape [of bi u] by simp
      then show ?thesis using 4(2) by (simp add: pushNode_def)
    qed
    have "table_ok L ((upd_bucket t bi (\<lambda>b. b\<lparr>entries := n # entries b,
            replacements := deleteNode (replacements b) n\<rparr>))\<lparr>added := (added t)(ptr n := now)\<rparr>)"
      using uok(1) bi(2) a idx 4 out by (intro insert_entry_ok) auto
    moreover have "upd_bucket t bi (\<lambda>b. b\<lparr>entries := fst (pushNode (entries b) n bucketSize),
            replacements := deleteNode (replacements b) n\<rparr>) =
          upd_bucket t bi (\<lambda>b. b\<lparr>entries := n # entries b, replacements := deleteNode (replacements b) n\<rparr>)"
      by (simp add: upd_bucket_def push)
    ultimately show ?thesis using 4 False bi u uok a t(2) by (simp add: addVerifiedNode_def)
  qed
qed

lemma add_seeds_ok:
  assumes "logdist_ok L"
  shows "table_ok L tab \<Longrightarrow> \<exists>tab'. add_seeds L tab now seeds = Some tab' \<and> table_ok L tab' \<and> self tab' = self tab"
proof (induction seeds arbitrary: tab)
  case (Cons seed seeds)
  obtain t where "addSeenNode L tab seed now = Some t" "table_ok L t" "self t = self tab"
    using addSeenNode_ok [OF Cons.prems assms] by blast
  then show ?case using Cons.IH [of t] by auto
qed simp

lemma loadSeedNodes_ok:
  assumes "logdist_ok L" "table_ok L tab"
  shows "\<exists>tab'. loadSeedNodes L tab queried now = Some tab' \<and> table_ok L tab' \<and> self tab' = self tab"
proof -
  have "table_ok L (tab\<lparr>fresh := fresh tab + length queried\<rparr>)"
    using assms(2) by (rule table_okI_shape) simp_all
  from add_seeds_ok [OF assms(1) this] show ?thesis by (simp add: loadSeedNodes_def)
qed

lemma newTable_ok:
  assumes "logdist_ok L"
  shows "\<exists>res. newTable L slf bootnodes queried now = Some res \<and>
           (\<forall>tab. res = Inr tab \<longrightarrow> table_ok L tab \<and> self tab = slf)"
proof -
  define tab0 where "tab0 = \<lparr>buckets = replicate nBuckets
       \<lparr>entries = [], replacements = [], bips = newNetSet L bucketSubnet bucketIPLimit\<rparr>,
     nursery = [], tips = newNetSet L tableSubnet tableIPLimit, self = slf, initDone = False,
     checks = (\<lambda>_. 0), added = (\<lambda>_. 0), fresh = 0, written = []\<rparr>"
  have ok0: "table_ok L tab0"
    by (simp add: table_ok_def tab0_def shape_def bucket_ok_def)
  show ?thesis
  proof (cases "setFallbackNodes L tab0 bootnodes")
    case (Inl e)
    then show ?thesis by (simp add: newTable_def tab0_def)
  next
    case (Inr t)
    then have t: "t = tab0\<lparr>nursery := wrapNodes (fresh tab0) bootnodes, fresh := fresh tab0 + length bootnodes\<rparr>"
      by (auto simp: setFallbackNodes_def split: option.splits)
    have "table_ok L t" by (rule table_okI_shape [OF ok0]) (simp_all add: t)
    from loadSeedNodes_ok [OF assms this, of queried now] obtain tab'
      where "loadSeedNodes L t queried now = Some tab'" "table_ok L tab'" "self tab' = self t" by blast
    moreover have "self t = slf" by (simp add: t tab0_def)
    ultimately show ?thesis using Inr by (simp add: newTable_def tab0_def)
  qed
qed

lemma revalidate_fetch_shape:
  assumes "revalidate_fetch tab lst pinged enr = (tab', lst')"
  shows "shape tab' = shape tab" "self tab' = self tab"
  using assms by (auto simp: revalidate_fetch_def Let_def split: if_splits sum.splits)

lemma doRevalidate_ok:
  assumes ok: "table_ok L tab" and bi: "bi < nBuckets"
  shows "table_ok L (doRevalidate L tab lst bi pinged enr r)"
    and "self (doRevalidate L tab lst bi pinged enr r) = self tab"
proof -
  obtain t l where f: "revalidate_fetch tab lst pinged enr = (t, l)"
    by (cases "revalidate_fetch tab lst pinged enr")
  note fs = revalidate_fetch_shape [OF f]
  define u where "u = t\<lparr>checks := (checks t)(ptr l := checks t (ptr l) + 1)\<rparr>"
  have t: "table_ok L t" by (rule table_okI_shape [OF ok fs])
  have u: "table_ok L u" "self u = self tab" using table_okI_shape [OF t, of u] fs by (simp_all add: u_def)
  obtain b v where b: "bumpInBucket L u bi l = (b, v)" by (cases "bumpInBucket L u bi l")
  note v = bumpInBucket_ok [OF u(1) bi b]
  show "table_ok L (doRevalidate L tab lst bi pinged enr r)"
    using f b v replace_ok [OF t, of bi l r]
    by (simp add: doRevalidate_def u_def split: sum.split)
  show "self (doRevalidate L tab lst bi pinged enr r) = self tab"
    using f b v u(2) replace_ok [OF t, of bi l r] fs(2)
    by (simp add: doRevalidate_def u_def split: sum.split)
qed

lemma delete_ok:
  assumes "table_ok L tab" "logdist_ok L"
  shows "\<exists>tab'. delete L tab n = Some tab' \<and> table_ok L tab' \<and> self tab' = self tab"
  using bucket_index_total [OF assms(2), of tab "nID n"] deleteInBucket_ok [OF assms(1)]
  by (auto simp: delete_def)

subsection \<open>The table as a state machine\<close>

text \<open>
  The operations that other goroutines call, in whatever order the mutex admits them. A revalidation
  ends with a node and a bucket index that were read some time before.
\<close>

datatype table_event =
    Seen node int
  | Verified node int
  | Deleted node
  | Revalidated node nat "string + u64" "string + enode" nat
  | InitDone
  | Refreshed "enode list" int
  | Copied int

primrec table_step :: "'s disc_lib \<Rightarrow> 's Table \<Rightarrow> table_event \<Rightarrow> 's Table go" where
  "table_step L tab (Seen n now) = addSeenNode L tab n now"
| "table_step L tab (Verified n now) = addVerifiedNode L tab n now"
| "table_step L tab (Deleted n) = delete L tab n"
| "table_step L tab (Revalidated lst bi pinged enr r) = Some (doRevalidate L tab lst bi pinged enr r)"
| "table_step L tab InitDone = Some (tab\<lparr>initDone := True\<rparr>)"
| "table_step L tab (Refreshed queried now) = loadSeedNodes L tab queried now"
| "table_step L tab (Copied now) = Some (copyLiveNodes tab now)"

primrec event_ok :: "table_event \<Rightarrow> bool" where
  "event_ok (Seen n now) = True"
| "event_ok (Verified n now) = True"
| "event_ok (Deleted n) = True"
| "event_ok (Revalidated lst bi pinged enr r) = (bi < nBuckets)"
| "event_ok InitDone = True"
| "event_ok (Refreshed queried now) = True"
| "event_ok (Copied now) = True"

lemma table_step_ok:
  assumes ok: "table_ok L tab" and L: "logdist_ok L" "netset_ok L cnt lim rel" and e: "event_ok e"
  shows "\<exists>tab'. table_step L tab e = Some tab' \<and> table_ok L tab'"
proof (cases e)
  case (Seen n now)
  then show ?thesis using addSeenNode_ok [OF ok L(1)] by fastforce
next
  case (Verified n now)
  then show ?thesis using addVerifiedNode_ok [OF ok L] by fastforce
next
  case (Deleted n)
  then show ?thesis using delete_ok [OF ok L(1)] by fastforce
next
  case (Revalidated lst bi pinged enr r)
  then show ?thesis using doRevalidate_ok [OF ok] e by simp
next
  case InitDone
  then show ?thesis using table_okI_shape [OF ok] by simp
next
  case (Refreshed queried now)
  then show ?thesis using loadSeedNodes_ok [OF L(1) ok] by fastforce
next
  case (Copied now)
  then show ?thesis using table_okI_shape [OF ok, of "copyLiveNodes tab now"] by (simp add: copyLiveNodes_def)
qed

definition table_run_step :: "'s disc_lib \<Rightarrow> 's Table go \<Rightarrow> table_event \<Rightarrow> 's Table go" where
  "table_run_step L state e = Option.bind state (\<lambda>tab. table_step L tab e)"

definition table_run_ok :: "'s disc_lib \<Rightarrow> 's Table go \<Rightarrow> bool" where
  "table_run_ok L state \<longleftrightarrow> (\<exists>tab. state = Some tab \<and> table_ok L tab)"

definition lib_ok :: "'s disc_lib \<Rightarrow> bool" where
  "lib_ok L \<longleftrightarrow> logdist_ok L \<and> (\<exists>cnt lim rel. netset_ok L cnt lim rel)"

interpretation table_runs: event_machine "table_run_step L" "\<lambda>state e. lib_ok L \<and> event_ok e" "table_run_ok L"
  for L :: "'s disc_lib"
proof
  fix state :: "'s Table go" and e
  assume "table_run_ok L state" "lib_ok L \<and> event_ok e"
  then obtain tab cnt lim rel where "state = Some tab" "table_ok L tab" "logdist_ok L" "netset_ok L cnt lim rel" "event_ok e"
    by (auto simp: table_run_ok_def lib_ok_def)
  then show "table_run_ok L (table_run_step L state e)"
    using table_step_ok [of L tab cnt lim rel e] by (auto simp: table_run_ok_def table_run_step_def)
qed

lemma run_ok_all: "run_ok step (\<lambda>s e. Q \<and> P e) s es \<longleftrightarrow> (es = [] \<or> Q) \<and> list_all P es"
  by (induction es arbitrary: s) auto

subsection \<open>An instance of the libraries\<close>

text \<open>
  Network ranges by the first three bytes, addresses of network 10 on the LAN, distances by a numbering
  of identities.
\<close>

definition to4 :: "IP \<Rightarrow> IP" where
  "to4 ip = (if length ip = 16 \<and> take 12 ip = v4InV6Prefix then drop 12 ip else ip)"

definition range_of :: "IP \<Rightarrow> IP" where
  "range_of ip = take 3 (to4 ip)"

definition sample_rel :: "IP \<Rightarrow> IP \<Rightarrow> bool" where
  "sample_rel a b \<longleftrightarrow> range_of a = range_of b"

primrec id_number :: "ID \<Rightarrow> nat" where
  "id_number [] = 0"
| "id_number (b # bs) = Suc (unat b) + 257 * id_number bs"

definition sample_disc :: "((IP \<Rightarrow> nat) \<times> nat) disc_lib" where
  "sample_disc =
     \<lparr>newNetSet = (\<lambda>subnet limit. (\<lambda>k. 0, limit)),
      netAdd = (\<lambda>s ip. if fst s (range_of ip) < snd s
                        then (True, (fst s)(range_of ip := fst s (range_of ip) + 1), snd s) else (False, s)),
      netRemove = (\<lambda>s ip. ((fst s)(range_of ip := fst s (range_of ip) - 1), snd s)),
      IsLAN = (\<lambda>ip. take 1 (to4 ip) = [10]),
      LogDist = (\<lambda>a b. if a = b then 0 else 240 + (id_number a + id_number b) mod 17),
      DistCmp = (\<lambda>t a b. int (id_number a) - int (id_number b)),
      ValidateComplete = (\<lambda>n. None)\<rparr>"

definition sample_count :: "(IP \<Rightarrow> nat) \<times> nat \<Rightarrow> IP \<Rightarrow> nat" where
  "sample_count s x = fst s (range_of x)"

definition sample_enode :: "byte \<Rightarrow> enode" where
  "sample_enode i = \<lparr>eID = [i], eIP = [192, 0, 2, i], eUDP = 30303, eTCP = 30303, eSeq = 1\<rparr>"

definition sample_node :: "byte \<Rightarrow> node" where
  "sample_node i = wrapNode (unat i) (sample_enode i)"

lemma sample_netset: "netset_ok sample_disc sample_count snd sample_rel"
proof -
  have "equivp sample_rel"
    by (rule equivpI) (auto simp: sample_rel_def reflp_def symp_def transp_def)
  then show ?thesis
    by (auto simp: netset_ok_def sample_disc_def sample_count_def sample_rel_def)
qed

lemma sample_logdist: "logdist_ok sample_disc"
proof -
  have "240 + (id_number a + id_number b) mod 17 \<le> 256" for a b
    using mod_less_divisor [of 17 "id_number a + id_number b"] by linarith
  then show ?thesis by (simp add: logdist_ok_def sample_disc_def)
qed

lemma id_number_inject: "id_number a = id_number b \<Longrightarrow> a = b"
proof (induction a arbitrary: b)
  case Nil
  then show ?case by (cases b) simp_all
next
  case (Cons x a)
  then obtain y b' where b: "b = y # b'" by (cases b) simp_all
  have "unat x < 256" "unat y < 256" using unat_less_exp [of x] unat_less_exp [of y] by simp_all
  moreover have "Suc (unat x) + 257 * id_number a = Suc (unat y) + 257 * id_number b'"
    using Cons.prems b by simp
  moreover have "(Suc k + 257 * m) mod 257 = Suc k" if "k < 256" for k m :: nat using that by simp
  ultimately have "unat x = unat y" by (metis Suc_inject)
  moreover from this have "id_number a = id_number b'" using Cons.prems b by simp
  ultimately show ?case using Cons.IH b by (simp add: word_unat_eq_iff)
qed

lemma sample_distcmp: "distcmp_ok sample_disc (\<lambda>t. id_number)"
  by (auto simp: distcmp_ok_def sample_disc_def inj_def dest: id_number_inject)

lemma sample_lib_ok: "lib_ok sample_disc"
  using sample_netset sample_logdist by (auto simp: lib_ok_def)

lemma sample_newTable: "\<exists>tab. newTable sample_disc slf [] [] now = Some (Inr tab)"
  by (simp add: newTable_def setFallbackNodes_def loadSeedNodes_def wrapNodes_def)

definition sample_tab :: "((IP \<Rightarrow> nat) \<times> nat) Table" where
  "sample_tab =
     \<lparr>buckets = (replicate nBuckets \<lparr>entries = [], replacements = [], bips = (\<lambda>k. 0, 2)\<rparr>)
        [3 := \<lparr>entries = [sample_node 1], replacements = [], bips = ((\<lambda>k. 0)([192, 0, 2] := 1), 2)\<rparr>],
      nursery = [], tips = ((\<lambda>k. 0)([192, 0, 2] := 1), 10), self = sample_enode 0, initDone = True,
      checks = (\<lambda>_. 0), added = (\<lambda>_. 0), fresh = 100, written = []\<rparr>"

lemma sample_tab_bucket:
  "buckets sample_tab ! 3 =
     \<lparr>entries = [sample_node 1], replacements = [], bips = ((\<lambda>k. 0)([192, 0, 2] := 1), 2)\<rparr>"
  "shape sample_tab ! 3 = ([sample_node 1], [])"
  by (simp_all add: sample_tab_def nBuckets_def hashBits_def shape_def)

lemma sample_tab_index: "i \<in> {1, 18} \<Longrightarrow> bucket_index sample_disc sample_tab (nID (sample_node i)) = Some 3"
  by (auto simp: bucket_index_def sample_tab_def sample_disc_def sample_node_def wrapNode_def sample_enode_def
      bucketAtDistance_def bucketMinDistance_def nBuckets_def hashBits_def)

lemma sample_tab_ok: "table_ok sample_disc sample_tab"
proof -
  have "node_ok sample_disc (eID (self sample_tab)) 3 (sample_node 1)"
    using sample_tab_index [of 1]
    by (simp add: node_ok_def bucket_index_def) (simp add: sample_node_def wrapNode_def sample_enode_def sample_tab_def)
  then have "bucket_ok sample_disc (eID (self sample_tab)) 3 ([sample_node 1], [])"
    by (simp add: bucket_ok_def bucketSize_def)
  moreover have "shape sample_tab = (replicate nBuckets ([], []))[3 := ([sample_node 1], [])]"
    by (simp add: sample_tab_def shape_def map_update)
  moreover have "bucket_ok sample_disc slf bi ([], [])" for slf bi by (simp add: bucket_ok_def)
  ultimately have "bucket_ok sample_disc (eID (self sample_tab)) bi (shape sample_tab ! bi)" if "bi < nBuckets" for bi
    using that by (cases "bi = 3") simp_all
  moreover have "length (buckets sample_tab) = nBuckets" by (simp add: sample_tab_def)
  ultimately show ?thesis by (simp add: table_ok_def)
qed

subsection \<open>Properties\<close>

text \<open>
  C2. Whatever the order in which the table's operations run after its creation, none panics, and every
  bucket keeps at most 16 entries and 10 replacements, no identity twice in a bucket, every node in the
  bucket of its distance, with an address, and never the local node itself.
\<close>

theorem table_invariant:
  assumes "lib_ok L" "newTable L slf bootnodes queried now = Some (Inr tab)" "list_all event_ok events"
  shows "\<exists>tab'. foldl (table_run_step L) (Some tab) events = Some tab' \<and> table_ok L tab'"
proof -
  have "table_ok L tab"
    using newTable_ok [of L slf bootnodes queried now] assms(1,2) by (auto simp: lib_ok_def)
  moreover have "run_ok (table_run_step L) (\<lambda>state e. lib_ok L \<and> event_ok e) (Some tab) events"
    unfolding run_ok_all using assms(1,3) by simp
  ultimately have "table_run_ok L (foldl (table_run_step L) (Some tab) events)"
    by (intro table_runs.inv_run) (simp_all add: table_run_ok_def)
  then show ?thesis by (simp add: table_run_ok_def)
qed

theorem table_invariant_witness:
  "\<exists>tab tab'. newTable sample_disc (sample_enode 0) [] [] 0 = Some (Inr tab) \<and>
     foldl (table_run_step sample_disc) (Some tab)
       [Seen (sample_node 1) 5, InitDone, Verified (sample_node 2) 6, Deleted (sample_node 1),
        Revalidated (sample_node 2) 3 (Inl []) (Inl []) 0] = Some tab' \<and> table_ok sample_disc tab'"
proof -
  obtain tab where tab: "newTable sample_disc (sample_enode 0) [] [] 0 = Some (Inr tab)"
    using sample_newTable by blast
  have "list_all event_ok [Seen (sample_node 1) 5, InitDone, Verified (sample_node 2) 6, Deleted (sample_node 1),
        Revalidated (sample_node 2) 3 (Inl []) (Inl []) 0]"
    by (simp add: nBuckets_def hashBits_def)
  from table_invariant [OF sample_lib_ok tab this] tab show ?thesis by blast
qed

text \<open>
  \<open>getNode\<close> looks into one bucket only and finds every node of the table: it returns the record of
  the entry with the identity asked for, in whichever bucket that entry is, and nothing exactly when no
  bucket has one.
\<close>

theorem getNode_finds:
  assumes "table_ok L tab" "logdist_ok L"
  shows "\<exists>res. getNode L tab key = Some res \<and>
     (case res of
        None \<Rightarrow> \<forall>bi < nBuckets. key \<notin> nID ` set (entries (buckets tab ! bi))
      | Some e \<Rightarrow> \<exists>bi < nBuckets. \<exists>n \<in> set (entries (buckets tab ! bi)). nID n = key \<and> Node n = e)"
proof -
  obtain bi where bi: "bucket_index L tab key = Some bi" "bi < nBuckets"
    using bucket_index_total [OF assms(2)] by blast
  have only: "j = bi" if "j < nBuckets" "n \<in> set (entries (buckets tab ! j))" "nID n = key" for j n
    using bucket_okD(6) [OF table_okD(1) [OF assms(1) that(1)] that(2)] bi(1) that(3)
    by (simp add: node_ok_def bucket_index_def)
  show ?thesis
  proof (cases "List.find (\<lambda>e. nID e = key) (entries (buckets tab ! bi))")
    case None
    then have "\<forall>j < nBuckets. key \<notin> nID ` set (entries (buckets tab ! j))"
      using only by (fastforce simp: find_None_iff)
    then show ?thesis using bi None by (simp add: getNode_def)
  next
    case (Some n)
    then have "n \<in> set (entries (buckets tab ! bi))" "nID n = key" by (auto simp: find_Some_iff)
    then show ?thesis using bi Some by (auto simp: getNode_def unwrapNode_def)
  qed
qed

theorem getNode_finds_witness:
  "\<exists>tab res. newTable sample_disc (sample_enode 0) [] [] 0 = Some (Inr tab) \<and>
     getNode sample_disc tab [7] = Some res"
proof -
  obtain tab where tab: "newTable sample_disc (sample_enode 0) [] [] 0 = Some (Inr tab)"
    using sample_newTable by blast
  then have "table_ok sample_disc tab" using newTable_ok [OF sample_logdist] by (metis option.inject)
  from getNode_finds [OF this sample_logdist, of "[7]"] tab show ?thesis by blast
qed

end
