(* ===== verification/Table_Accounting.thy ===== *)
theory Table_Accounting
  imports Node_Table
begin

text \<open>
  The address limits of the node table: at most two nodes of a bucket and ten nodes of the table from
  one network range, LAN addresses apart. The sets \<open>ips\<close> of the table and of its buckets only count;
  the lemmas relate the counts to the nodes the table holds.
\<close>

definition counted_ip :: "'s disc_lib \<Rightarrow> (IP \<Rightarrow> IP \<Rightarrow> bool) \<Rightarrow> IP \<Rightarrow> IP \<Rightarrow> nat" where
  "counted_ip L rel ip x = of_bool (\<not> IsLAN L ip \<and> rel ip x)"

definition occ :: "'s disc_lib \<Rightarrow> (IP \<Rightarrow> IP \<Rightarrow> bool) \<Rightarrow> node list \<Rightarrow> IP \<Rightarrow> nat" where
  "occ L rel ns x = (\<Sum>n\<leftarrow>ns. counted_ip L rel (nIP n) x)"

definition occ2 :: "'s disc_lib \<Rightarrow> (IP \<Rightarrow> IP \<Rightarrow> bool) \<Rightarrow> node list \<times> node list \<Rightarrow> IP \<Rightarrow> nat" where
  "occ2 L rel b x = occ L rel (fst b) x + occ L rel (snd b) x"

definition occ_table :: "'s disc_lib \<Rightarrow> (IP \<Rightarrow> IP \<Rightarrow> bool) \<Rightarrow> 's Table \<Rightarrow> IP \<Rightarrow> nat" where
  "occ_table L rel tab x = (\<Sum>b\<leftarrow>shape tab. occ2 L rel b x)"

definition limits_ok :: "('s \<Rightarrow> IP \<Rightarrow> nat) \<Rightarrow> ('s \<Rightarrow> nat) \<Rightarrow> 's Table \<Rightarrow> bool" where
  "limits_ok cnt lim tab \<longleftrightarrow>
     lim (tips tab) = tableIPLimit \<and> (\<forall>x. cnt (tips tab) x \<le> tableIPLimit) \<and>
     (\<forall>bi < length (buckets tab). lim (bips (buckets tab ! bi)) = bucketIPLimit \<and>
        (\<forall>x. cnt (bips (buckets tab ! bi)) x \<le> bucketIPLimit))"

definition covered :: "'s disc_lib \<Rightarrow> ('s \<Rightarrow> IP \<Rightarrow> nat) \<Rightarrow> (IP \<Rightarrow> IP \<Rightarrow> bool) \<Rightarrow> 's Table \<Rightarrow> bool" where
  "covered L cnt rel tab \<longleftrightarrow>
     (\<forall>x. occ_table L rel tab x \<le> cnt (tips tab) x) \<and>
     (\<forall>bi < length (buckets tab). \<forall>x. occ2 L rel (shape tab ! bi) x \<le> cnt (bips (buckets tab ! bi)) x)"

text \<open>Equal addresses are in one range, and both or neither on a LAN.\<close>

definition ipform_ok :: "'s disc_lib \<Rightarrow> (IP \<Rightarrow> IP \<Rightarrow> bool) \<Rightarrow> bool" where
  "ipform_ok L rel \<longleftrightarrow> (\<forall>a b. ip_Equal a b \<longrightarrow> IsLAN L a = IsLAN L b \<and> rel a b)"

subsection \<open>Counting nodes\<close>

lemma occ_simps [simp]:
  "occ L rel [] x = 0" "occ L rel (n # ns) x = counted_ip L rel (nIP n) x + occ L rel ns x"
  "occ L rel (ns @ ms) x = occ L rel ns x + occ L rel ms x"
  by (simp_all add: occ_def)

lemma occ_deleteNode_le: "occ L rel (deleteNode ns n) x \<le> occ L rel ns x"
  by (induction ns) auto

lemma occ_deleteNode:
  "distinct (map nID ns) \<Longrightarrow> m \<in> set ns \<Longrightarrow> nID m = nID n \<Longrightarrow>
   occ L rel (deleteNode ns n) x + counted_ip L rel (nIP m) x = occ L rel ns x"
  by (induction ns) (auto, metis image_eqI)

lemma occ_last: "ns \<noteq> [] \<Longrightarrow> occ L rel ns x = occ L rel (butlast ns) x + counted_ip L rel (nIP (last ns)) x"
  by (metis add.right_neutral append_butlast_last_id occ_simps)

lemma occ_pushNode:
  "0 < mx \<Longrightarrow> occ L rel (fst (pushNode ns n mx)) x +
     (case snd (pushNode ns n mx) of None \<Rightarrow> 0 | Some r \<Rightarrow> counted_ip L rel (nIP r) x)
   = counted_ip L rel (nIP n) x + occ L rel ns x"
  using occ_last [of ns L rel x] by (cases "ns = []") (auto simp: pushNode_def)

lemma occ_split:
  "i < length ns \<Longrightarrow> occ L rel (take i ns) x + counted_ip L rel (nIP (ns ! i)) x + occ L rel (drop (Suc i) ns) x
     = occ L rel ns x"
  by (metis (no_types, lifting) add.assoc id_take_nth_drop occ_simps(2,3))

lemma counted_ip_rel:
  "equivp rel \<Longrightarrow> rel a b \<Longrightarrow> IsLAN L a = IsLAN L b \<Longrightarrow> counted_ip L rel a x = counted_ip L rel b x"
  by (auto simp: counted_ip_def dest: equivp_symp equivp_transp)

lemma occ_table_update:
  assumes "bi < length (shape tab)" "shape tab' = (shape tab)[bi := b]"
  shows "occ_table L rel tab' x + occ2 L rel (shape tab ! bi) x = occ_table L rel tab x + occ2 L rel b x"
proof -
  have "(\<Sum>c\<leftarrow>xs[k := b]. f c) + f (xs ! k) = (\<Sum>c\<leftarrow>xs. f c) + (f b :: nat)" if "k < length xs" for f xs k
    using that by (induction xs arbitrary: k) (auto simp: nth_Cons split: nat.split)
  from this [OF assms(1), of "\<lambda>c. occ2 L rel c x"] show ?thesis
    by (simp add: occ_table_def assms(2))
qed

subsection \<open>A step that changes one bucket\<close>

text \<open>
  \<open>tab'\<close> differs from \<open>tab\<close> in one bucket, whose lists changed by at most what the counters
  changed: \<open>d\<close> was added and \<open>m\<close> taken away.
\<close>

lemma covered_step:
  assumes cov: "covered L cnt rel tab" and bi: "bi < length (buckets tab)"
    and sh: "shape tab' = (shape tab)[bi := b]"
    and tips: "\<And>x. cnt (tips tab) x + d x \<le> cnt (tips tab') x + m x"
    and bips: "\<And>x. cnt (bips (buckets tab ! bi)) x + d x \<le> cnt (bips (buckets tab' ! bi)) x + m x"
    and others: "\<And>j. j \<noteq> bi \<Longrightarrow> bips (buckets tab' ! j) = bips (buckets tab ! j)"
    and occ: "\<And>x. occ2 L rel b x + m x \<le> occ2 L rel (shape tab ! bi) x + d x"
  shows "covered L cnt rel tab'"
proof -
  have len: "length (buckets tab') = length (buckets tab)"
    using arg_cong [OF sh, of length] by simp
  have "occ_table L rel tab' x \<le> cnt (tips tab') x" for x
  proof -
    have "occ_table L rel tab x \<le> cnt (tips tab) x" using cov by (simp add: covered_def)
    moreover have "occ_table L rel tab' x + occ2 L rel (shape tab ! bi) x = occ_table L rel tab x + occ2 L rel b x"
      using occ_table_update [OF _ sh] bi by simp
    ultimately show ?thesis using tips [of x] occ [of x] by linarith
  qed
  moreover have "occ2 L rel (shape tab' ! j) x \<le> cnt (bips (buckets tab' ! j)) x" if j: "j < length (buckets tab)" for j x
  proof (cases "j = bi")
    case True
    have "occ2 L rel (shape tab ! bi) x \<le> cnt (bips (buckets tab ! bi)) x" using cov bi by (simp add: covered_def)
    then show ?thesis using True bi occ [of x] bips [of x] by (simp add: sh)
  next
    case False
    then show ?thesis using cov j others [OF False] by (simp add: covered_def sh)
  qed
  ultimately show ?thesis using len by (simp add: covered_def)
qed

text \<open>Counters after \<open>addIP\<close> and \<open>removeIP\<close>, in the form the step rule takes.\<close>

definition counters_moved ::
  "'s disc_lib \<Rightarrow> ('s \<Rightarrow> IP \<Rightarrow> nat) \<Rightarrow> 's Table \<Rightarrow> 's Table \<Rightarrow> nat \<Rightarrow> (IP \<Rightarrow> nat) \<Rightarrow> (IP \<Rightarrow> nat) \<Rightarrow> bool" where
  "counters_moved L cnt tab tab' bi d m \<longleftrightarrow>
     (\<forall>x. cnt (tips tab) x + d x \<le> cnt (tips tab') x + m x) \<and>
     (\<forall>x. cnt (bips (buckets tab ! bi)) x + d x \<le> cnt (bips (buckets tab' ! bi)) x + m x) \<and>
     (\<forall>j. j \<noteq> bi \<longrightarrow> bips (buckets tab' ! j) = bips (buckets tab ! j))"

lemma counters_moved_refl: "counters_moved L cnt tab tab bi (\<lambda>x. 0) (\<lambda>x. 0)"
  by (simp add: counters_moved_def)

lemma counters_moved_trans:
  assumes "counters_moved L cnt t u bi d m" "counters_moved L cnt u v bi d' m'"
  shows "counters_moved L cnt t v bi (\<lambda>x. d x + d' x) (\<lambda>x. m x + m' x)"
proof -
  have "cnt (tips t) x + (d x + d' x) \<le> cnt (tips v) x + (m x + m' x)" for x
  proof -
    have "cnt (tips t) x + d x \<le> cnt (tips u) x + m x" "cnt (tips u) x + d' x \<le> cnt (tips v) x + m' x"
      using assms by (simp_all add: counters_moved_def)
    then show ?thesis by linarith
  qed
  moreover have "cnt (bips (buckets t ! bi)) x + (d x + d' x) \<le> cnt (bips (buckets v ! bi)) x + (m x + m' x)" for x
  proof -
    have "cnt (bips (buckets t ! bi)) x + d x \<le> cnt (bips (buckets u ! bi)) x + m x"
      "cnt (bips (buckets u ! bi)) x + d' x \<le> cnt (bips (buckets v ! bi)) x + m' x"
      using assms by (simp_all add: counters_moved_def)
    then show ?thesis by linarith
  qed
  ultimately show ?thesis using assms by (simp add: counters_moved_def)
qed

lemma counters_moved_lists:
  assumes "counters_moved L cnt tab t bi d m" "tips u = tips t" "\<And>j. bips (buckets u ! j) = bips (buckets t ! j)"
  shows "counters_moved L cnt tab u bi d m"
  using assms by (simp add: counters_moved_def)

lemma bips_upd_bucket:
  "(\<And>b. bips (f b) = bips b) \<Longrightarrow> bips (buckets (upd_bucket tab bi f) ! j) = bips (buckets tab ! j)"
  by (cases "j = bi"; cases "bi < length (buckets tab)") (simp_all add: upd_bucket_def list_update_beyond)

lemma counters_addIP:
  assumes "netset_ok L cnt lim rel" "bi < length (buckets tab)" "addIP L tab bi ip = (r, tab')"
  shows "counters_moved L cnt tab tab' bi (\<lambda>x. if r then counted_ip L rel ip x else 0) (\<lambda>x. 0)"
  using addIP_counts [OF assms] by (simp add: counters_moved_def counted_ip_def)

lemma counters_removeIP:
  assumes "netset_ok L cnt lim rel" "bi < length (buckets tab)"
  shows "counters_moved L cnt tab (removeIP L tab bi ip) bi (\<lambda>x. 0) (counted_ip L rel ip)"
  using removeIP_counts [OF assms] by (auto simp: counters_moved_def counted_ip_def)

lemma covered_moved:
  assumes "covered L cnt rel tab" "bi < length (buckets tab)" "counters_moved L cnt tab tab' bi d m"
    and "shape tab' = (shape tab)[bi := b]" "\<And>x. occ2 L rel b x + m x \<le> occ2 L rel (shape tab ! bi) x + d x"
  shows "covered L cnt rel tab'"
  using assms by (intro covered_step [of L cnt rel tab bi tab' b d m]) (simp_all add: counters_moved_def)

lemma limits_addIP:
  assumes N: "netset_ok L cnt lim rel" and bi: "bi < length (buckets tab)" and a: "addIP L tab bi ip = (r, tab')"
    and ok: "limits_ok cnt lim tab"
  shows "limits_ok cnt lim tab'"
proof -
  note c = addIP_counts [OF N bi a]
  have res: "r \<and> \<not> IsLAN L ip \<Longrightarrow> cnt (tips tab) ip < lim (tips tab) \<and>
      cnt (bips (buckets tab ! bi)) ip < lim (bips (buckets tab ! bi))"
    using addIP_result [OF N, of tab bi ip] a by auto
  have same: "rel ip x \<Longrightarrow> cnt s ip = cnt s x" for s x by (rule netset_okD(8) [OF N])
  have l: "lim (tips tab) = tableIPLimit" "lim (bips (buckets tab ! bi)) = bucketIPLimit"
    using ok bi by (simp_all add: limits_ok_def)
  have "cnt (tips tab') x \<le> tableIPLimit" for x
    using c(1) [of x] res same [of x] l ok by (cases "r \<and> \<not> IsLAN L ip \<and> rel ip x") (auto simp: limits_ok_def)
  moreover have "cnt (bips (buckets tab' ! bi)) x \<le> bucketIPLimit" for x
    using c(2) [of x] res same [of x] l ok bi
    by (cases "r \<and> \<not> IsLAN L ip \<and> rel ip x") (auto simp: limits_ok_def)
  moreover have "length (buckets tab') = length (buckets tab)" by (rule addIP_eqD(3) [OF a])
  ultimately show ?thesis
    using ok c(3-5) l unfolding limits_ok_def by metis
qed

lemma limits_removeIP:
  assumes N: "netset_ok L cnt lim rel" and ok: "limits_ok cnt lim tab"
  shows "limits_ok cnt lim (removeIP L tab bi ip)"
proof (cases "bi < length (buckets tab)")
  case True
  note c = removeIP_counts [OF N True]
  have "cnt (tips (removeIP L tab bi ip)) x \<le> tableIPLimit" for x
    using c(1) [of ip x] ok by (auto simp: limits_ok_def intro: le_trans [OF diff_le_self])
  moreover have "cnt (bips (buckets (removeIP L tab bi ip) ! bi)) x \<le> bucketIPLimit" for x
    using c(2) [of ip x] ok True by (auto simp: limits_ok_def intro: le_trans [OF diff_le_self])
  ultimately show ?thesis
    using ok c(3-5) True unfolding limits_ok_def self_removeIP(2) by metis
next
  case False
  then show ?thesis
    using ok netset_okD(6,7) [OF N] by (auto simp: removeIP_def upd_bucket_def limits_ok_def list_update_beyond
        intro: le_trans [OF diff_le_self])
qed

lemma limits_lists:
  assumes "limits_ok cnt lim t" "tips u = tips t" "length (buckets u) = length (buckets t)"
    "\<And>j. bips (buckets u ! j) = bips (buckets t ! j)"
  shows "limits_ok cnt lim u"
  using assms by (simp add: limits_ok_def)

subsection \<open>Each operation keeps the accounts\<close>

definition accounted ::
  "'s disc_lib \<Rightarrow> ('s \<Rightarrow> IP \<Rightarrow> nat) \<Rightarrow> ('s \<Rightarrow> nat) \<Rightarrow> (IP \<Rightarrow> IP \<Rightarrow> bool) \<Rightarrow> 's Table \<Rightarrow> bool" where
  "accounted L cnt lim rel tab \<longleftrightarrow> limits_ok cnt lim tab \<and> covered L cnt rel tab"

lemma accounted_same:
  assumes "accounted L cnt lim rel t" "shape u = shape t" "tips u = tips t" "\<And>j. bips (buckets u ! j) = bips (buckets t ! j)"
  shows "accounted L cnt lim rel u"
proof -
  have "length (buckets u) = length (buckets t)" using arg_cong [OF assms(2), of length] by simp
  then show ?thesis
    using assms limits_lists [of cnt lim t u] by (simp add: accounted_def covered_def occ_table_def)
qed

text \<open>Counters that moved with the lists of one bucket.\<close>

lemma accounted_moved:
  assumes "accounted L cnt lim rel tab" "bi < length (buckets tab)" "counters_moved L cnt tab t bi d m"
    and "limits_ok cnt lim t" "tips u = tips t" "\<And>j. bips (buckets u ! j) = bips (buckets t ! j)"
    and "shape u = (shape tab)[bi := b]" "\<And>x. occ2 L rel b x + m x \<le> occ2 L rel (shape tab ! bi) x + d x"
    and "length (buckets t) = length (buckets tab)"
  shows "accounted L cnt lim rel u"
proof -
  have "length (buckets u) = length (buckets tab)" using arg_cong [OF assms(7), of length] by simp
  then have "limits_ok cnt lim u" using limits_lists [OF assms(4)] assms(5,6,9) by simp
  moreover have "covered L cnt rel u"
    using covered_moved [OF _ assms(2) counters_moved_lists [OF assms(3,5,6)] assms(7,8)] assms(1)
    by (simp add: accounted_def)
  ultimately show ?thesis by (simp add: accounted_def)
qed

lemma addIP_accounted:
  assumes N: "netset_ok L cnt lim rel" and bi: "bi < length (buckets tab)" and a: "addIP L tab bi ip = (r, t)"
    and ok: "accounted L cnt lim rel tab"
  shows "accounted L cnt lim rel t"
proof (rule accounted_moved [OF ok bi counters_addIP [OF N bi a]])
  show "limits_ok cnt lim t" using limits_addIP [OF N bi a] ok by (simp add: accounted_def)
  show "shape t = (shape tab)[bi := shape tab ! bi]" using addIP_eqD(1) [OF a] by simp
qed (use addIP_eqD(3) [OF a] in auto)

lemma addReplacement_accounted:
  assumes N: "netset_ok L cnt lim rel" and bi: "bi < length (buckets tab)" and ok: "accounted L cnt lim rel tab"
  shows "accounted L cnt lim rel (addReplacement L tab bi n)"
proof -
  obtain r t where a: "addIP L tab bi (nIP n) = (r, t)" by (cases "addIP L tab bi (nIP n)")
  note t = addIP_eqD [OF a]
  define ns removed where "ns = fst (pushNode (replacements (buckets t ! bi)) n maxReplacements)"
    and "removed = snd (pushNode (replacements (buckets t ! bi)) n maxReplacements)"
  define u where "u = upd_bucket t bi (\<lambda>b. b\<lparr>replacements := ns\<rparr>)"
  define v where "v = (case removed of None \<Rightarrow> u | Some q \<Rightarrow> removeIP L u bi (nIP q))"
  define m where "m x = (case removed of None \<Rightarrow> 0 | Some q \<Rightarrow> counted_ip L rel (nIP q) x)" for x
  have bt: "bi < length (buckets t)" "bi < length (buckets u)" using bi t(3) by (simp_all add: u_def)
  have lists: "entries (buckets t ! bi) = fst (shape tab ! bi)" "replacements (buckets t ! bi) = snd (shape tab ! bi)"
    using t(1) bi bt(1) entries_shape [of bi t] replacements_shape [of bi t] by simp_all
  have "accounted L cnt lim rel v" if r
  proof (rule accounted_moved [OF ok bi _ _ refl refl])
    have "counters_moved L cnt u v bi (\<lambda>x. 0) m"
      using counters_removeIP [OF N bt(2)] counters_moved_refl [of L cnt u bi] by (simp add: v_def m_def [abs_def] split: option.split)
    moreover have "counters_moved L cnt tab u bi (counted_ip L rel (nIP n)) (\<lambda>x. 0)"
      using counters_addIP [OF N bi a] that
      by (auto intro!: counters_moved_lists [of L cnt tab t] bips_upd_bucket simp: u_def)
    ultimately show "counters_moved L cnt tab v bi (\<lambda>x. counted_ip L rel (nIP n) x + 0) (\<lambda>x. 0 + m x)"
      by (rule counters_moved_trans [rotated])
    have "limits_ok cnt lim t" using limits_addIP [OF N bi a] ok by (simp add: accounted_def)
    then have "limits_ok cnt lim u" by (rule limits_lists) (simp_all add: u_def bips_upd_bucket)
    then show "limits_ok cnt lim v" by (simp add: v_def limits_removeIP [OF N] split: option.split)
    have "shape u = (shape tab)[bi := (fst (shape tab ! bi), ns)]"
      using t(1) lists by (simp add: u_def shape_upd_bucket)
    then show "shape v = (shape tab)[bi := (fst (shape tab ! bi), ns)]" by (simp add: v_def split: option.split)
    show "occ2 L rel (fst (shape tab ! bi), ns) x + (0 + m x) \<le> occ2 L rel (shape tab ! bi) x + (counted_ip L rel (nIP n) x + 0)" for x
      using occ_pushNode [of maxReplacements L rel "snd (shape tab ! bi)" n x]
      by (simp add: occ2_def ns_def removed_def m_def lists maxReplacements_def)
    show "length (buckets v) = length (buckets tab)" using t(3) by (simp add: v_def u_def split: option.split)
  qed
  moreover have "addReplacement L tab bi n =
      (if contains (replacements (buckets tab ! bi)) (nID n) then tab else if r then v else t)"
    unfolding addReplacement_def a v_def u_def ns_def removed_def by (simp add: case_prod_beta Let_def)
  ultimately show ?thesis using ok addIP_accounted [OF N bi a ok] by simp
qed

lemma insert_accounted:
  assumes N: "netset_ok L cnt lim rel" and bi: "bi < length (buckets tab)" and ok: "accounted L cnt lim rel tab"
    and a: "addIP L tab bi (nIP n) = (True, t)"
    and f: "\<And>es x. occ L rel (f es) x = occ L rel es x + counted_ip L rel (nIP n) x"
  shows "accounted L cnt lim rel ((upd_bucket t bi (\<lambda>b. b\<lparr>entries := f (entries b),
           replacements := deleteNode (replacements b) n\<rparr>))\<lparr>added := d\<rparr>)"
proof (rule accounted_moved [OF ok bi])
  note t = addIP_eqD [OF a]
  have bt: "bi < length (buckets t)" using bi t(3) by simp
  have lists: "entries (buckets t ! bi) = fst (shape tab ! bi)" "replacements (buckets t ! bi) = snd (shape tab ! bi)"
    using t(1) bi bt entries_shape [of bi t] replacements_shape [of bi t] by simp_all
  show "counters_moved L cnt tab t bi (counted_ip L rel (nIP n)) (\<lambda>x. 0)" using counters_addIP [OF N bi a] by simp
  show "limits_ok cnt lim t" using limits_addIP [OF N bi a] ok by (simp add: accounted_def)
  show "shape ((upd_bucket t bi (\<lambda>b. b\<lparr>entries := f (entries b), replacements := deleteNode (replacements b) n\<rparr>))\<lparr>added := d\<rparr>)
        = (shape tab)[bi := (f (fst (shape tab ! bi)), deleteNode (snd (shape tab ! bi)) n)]"
    using t(1) lists by (simp add: shape_upd_bucket)
  show "occ2 L rel (f (fst (shape tab ! bi)), deleteNode (snd (shape tab ! bi)) n) x + 0
        \<le> occ2 L rel (shape tab ! bi) x + counted_ip L rel (nIP n) x" for x
    using occ_deleteNode_le [of L rel "snd (shape tab ! bi)" n x] by (simp add: occ2_def f)
  show "bips (buckets ((upd_bucket t bi (\<lambda>b. b\<lparr>entries := f (entries b), replacements := deleteNode (replacements b) n\<rparr>))\<lparr>added := d\<rparr>) ! j)
        = bips (buckets t ! j)" for j
    using bips_upd_bucket [of "\<lambda>b. b\<lparr>entries := f (entries b), replacements := deleteNode (replacements b) n\<rparr>" t bi j] by simp
qed (use addIP_eqD(3) [OF a] in simp_all)

lemma addSeenNode_accounted:
  assumes N: "netset_ok L cnt lim rel" and ok: "table_ok L tab" and acc: "accounted L cnt lim rel tab"
    and r: "addSeenNode L tab n now = Some tab'"
  shows "accounted L cnt lim rel tab'"
proof (cases "nID n = eID (self tab)")
  case True
  then show ?thesis using r acc by (simp add: addSeenNode_def)
next
  case False
  then obtain bi where bi: "bucket_index L tab (nID n) = Some bi"
    using r by (auto simp: addSeenNode_def bind_eq_Some_conv)
  have len: "bi < length (buckets tab)"
    using bi bucketAtDistance_less table_okD(2) [OF ok] by (auto simp: bucket_index_def)
  obtain q t where a: "addIP L tab bi (nIP n) = (q, t)" by (cases "addIP L tab bi (nIP n)")
  have "accounted L cnt lim rel ((upd_bucket t bi (\<lambda>b. b\<lparr>entries := entries b @ [n],
      replacements := deleteNode (replacements b) n\<rparr>))\<lparr>added := (added t)(ptr n := now)\<rparr>)" if q
    using insert_accounted [OF N len acc, of n t "\<lambda>es. es @ [n]"] a that by simp
  then show ?thesis
    using r False bi a acc addIP_accounted [OF N len a acc] addReplacement_accounted [OF N len acc, of n]
    by (auto simp: addSeenNode_def Let_def split: if_splits bool.splits)
qed

lemma entry_counted:
  assumes acc: "accounted L cnt lim rel tab" and bi: "bi < length (buckets tab)" and e: "e \<in> set (entries (buckets tab ! bi))"
  shows "counted_ip L rel (nIP e) x \<le> cnt (tips tab) x"
    and "counted_ip L rel (nIP e) x \<le> cnt (bips (buckets tab ! bi)) x"
proof -
  have "counted_ip L rel (nIP e) x \<le> occ L rel (entries (buckets tab ! bi)) x"
    unfolding occ_def using e by (intro member_le_sum_list) simp_all
  then have o: "counted_ip L rel (nIP e) x \<le> occ2 L rel (shape tab ! bi) x"
    using shape_nth [OF bi] by (simp add: occ2_def)
  have "occ2 L rel (shape tab ! bi) x \<le> occ_table L rel tab x"
    unfolding occ_table_def using bi by (intro member_le_sum_list) simp_all
  moreover have "occ_table L rel tab x \<le> cnt (tips tab) x" "occ2 L rel (shape tab ! bi) x \<le> cnt (bips (buckets tab ! bi)) x"
    using acc bi by (simp_all add: accounted_def covered_def)
  ultimately show "counted_ip L rel (nIP e) x \<le> cnt (tips tab) x"
    "counted_ip L rel (nIP e) x \<le> cnt (bips (buckets tab ! bi)) x" using o by linarith+
qed

text \<open>Taking an entry's address out, failing to add another, and putting the first back changes nothing.\<close>

lemma putback_counts:
  assumes N: "netset_ok L cnt lim rel" and bi: "bi < length (buckets tab)" and acc: "accounted L cnt lim rel tab"
    and e: "e \<in> set (entries (buckets tab ! bi))" "nIP e \<noteq> []"
    and a: "addIP L (removeIP L tab bi (nIP e)) bi ip = (False, t)" and q: "addIP L t bi (nIP e) = (q, tab')"
  shows "counters_moved L cnt tab tab' bi (\<lambda>x. 0) (\<lambda>x. 0)"
proof -
  define old where "old = nIP e"
  define u where "u = removeIP L tab bi old"
  have lu: "bi < length (buckets u)" and lt: "bi < length (buckets t)"
    using bi addIP_eqD(3) [OF a] by (simp_all add: u_def)
  note cu = removeIP_counts [OF N bi, where ip = old, folded u_def]
    and ct = addIP_counts [OF N lu a [folded old_def, folded u_def]] and cq = addIP_counts [OF N lt q [folded old_def]]
  have one: "of_bool (\<not> IsLAN L old \<and> rel old x) \<le> cnt (tips tab) x"
    "of_bool (\<not> IsLAN L old \<and> rel old x) \<le> cnt (bips (buckets tab ! bi)) x" for x
    using entry_counted [OF acc bi e(1), of x] by (simp_all add: counted_ip_def old_def)
  have lims: "lim (tips tab) = tableIPLimit" "cnt (tips tab) old \<le> tableIPLimit"
    "lim (bips (buckets tab ! bi)) = bucketIPLimit" "cnt (bips (buckets tab ! bi)) old \<le> bucketIPLimit"
    using acc bi by (simp_all add: accounted_def limits_ok_def)
  have "rel old old" using netset_okD(9) [OF N] by (simp add: equivp_reflp)
  then have "\<not> IsLAN L old \<Longrightarrow> cnt (tips t) old < lim (tips t) \<and> cnt (bips (buckets t ! bi)) old < lim (bips (buckets t ! bi))"
    using one [of old] cu(1,2) [of old] cu(3,4) ct(1,2) [of old] ct(3,4) lims by simp linarith
  then have "q" using addIP_result [OF N, of t bi old] q e(2) by (auto simp: old_def)
  then have "cnt (tips tab') x = cnt (tips tab) x \<and> cnt (bips (buckets tab' ! bi)) x = cnt (bips (buckets tab ! bi)) x" for x
    using one [of x] cu(1,2) [of x] ct(1,2) [of x] cq(1,2) [of x] by simp
  then show ?thesis using cu(5) ct(5) cq(5) by (simp add: counters_moved_def)
qed

lemma bump_rejected_accounted:
  assumes N: "netset_ok L cnt lim rel" and bi: "bi < length (buckets tab)" and acc: "accounted L cnt lim rel tab"
    and e: "e \<in> set (entries (buckets tab ! bi))" "nIP e \<noteq> []"
    and a: "addIP L (removeIP L tab bi (nIP e)) bi ip = (False, t)"
  shows "accounted L cnt lim rel (snd (addIP L t bi (nIP e)))"
proof -
  obtain q t' where q: "addIP L t bi (nIP e) = (q, t')" by (cases "addIP L t bi (nIP e)")
  have lu: "bi < length (buckets (removeIP L tab bi (nIP e)))" and lt: "bi < length (buckets t)"
    using bi addIP_eqD(3) [OF a] by simp_all
  have "limits_ok cnt lim t'"
    using limits_addIP [OF N lt q limits_addIP [OF N lu a]] limits_removeIP [OF N] acc by (simp add: accounted_def)
  moreover have "shape t' = (shape tab)[bi := shape tab ! bi]" "length (buckets t') = length (buckets tab)"
    using addIP_eqD [OF a] addIP_eqD [OF q] by simp_all
  ultimately have "accounted L cnt lim rel t'"
    using accounted_moved [OF acc bi putback_counts [OF N bi acc e a q], of t' "shape tab ! bi"] by simp
  then show ?thesis by (simp add: q)
qed

lemma occ2_rotate:
  assumes "i < length es"
  shows "occ2 L rel (n # take i es @ drop (Suc i) es, rs) x + counted_ip L rel (nIP (es ! i)) x
      = occ2 L rel (es, rs) x + counted_ip L rel (nIP n) x"
  using occ_split [OF assms, of L rel x] by (simp add: occ2_def)

lemma bump_moved_accounted:
  assumes N: "netset_ok L cnt lim rel" and bi: "bi < length (buckets tab)" and acc: "accounted L cnt lim rel tab"
    and es: "shape tab ! bi = (es, rs)" "i < length es"
    and a: "addIP L (removeIP L tab bi (nIP (es ! i))) bi (nIP n) = (True, t)"
    and tab': "tab' = upd_bucket t bi (\<lambda>b. b\<lparr>entries := n # take i (entries b) @ drop (Suc i) (entries b)\<rparr>)"
  shows "accounted L cnt lim rel tab'"
proof (rule accounted_moved [OF acc bi])
  define u where "u = removeIP L tab bi (nIP (es ! i))"
  have lu: "bi < length (buckets u)" using bi by (simp add: u_def)
  note a' = a [folded u_def]
  note t = addIP_eqD [OF a']
  show "counters_moved L cnt tab t bi (\<lambda>x. 0 + counted_ip L rel (nIP n) x) (\<lambda>x. counted_ip L rel (nIP (es ! i)) x + 0)"
    using counters_moved_trans [OF counters_removeIP [OF N bi, where ip = "nIP (es ! i)", folded u_def] counters_addIP [OF N lu a']]
    by simp
  have "entries (buckets t ! bi) = es" "replacements (buckets t ! bi) = rs"
    using t(1,3) lu bi es entries_shape [of bi t] replacements_shape [of bi t] by (simp_all add: u_def)
  then show "shape tab' = (shape tab)[bi := (n # take i es @ drop (Suc i) es, rs)]"
    using tab' t(1) by (simp add: shape_upd_bucket u_def)
  show "limits_ok cnt lim t"
    using limits_addIP [OF N lu a'] limits_removeIP [OF N] acc by (simp add: accounted_def u_def)
  show "occ2 L rel (n # take i es @ drop (Suc i) es, rs) x + (counted_ip L rel (nIP (es ! i)) x + 0) \<le>
      occ2 L rel (shape tab ! bi) x + (0 + counted_ip L rel (nIP n) x)" for x
    using occ2_rotate [OF es(2), of L rel n rs x] by (simp add: es(1))
  show "length (buckets t) = length (buckets tab)" using t(3) by (simp add: u_def)
qed (simp_all add: tab' bips_upd_bucket)

lemma bump_accounted:
  assumes N: "netset_ok L cnt lim rel" "ipform_ok L rel" and ok: "table_ok L tab" and bi: "bi < nBuckets"
    and acc: "accounted L cnt lim rel tab" and b: "bumpInBucket L tab bi n = (r, tab')"
  shows "accounted L cnt lim rel tab'"
  using b
proof (cases rule: bump_cases)
  case absent
  then show ?thesis using acc by simp
next
  case (rejected i t)
  note len = table_okD(2) [OF ok bi]
  have e: "entries (buckets tab ! bi) ! i \<in> set (entries (buckets tab ! bi))"
    using index_of_Some [OF rejected(2)] by simp
  then have "nIP (entries (buckets tab ! bi) ! i) \<noteq> []"
    using bucket_okD(6) [OF table_okD(1) [OF ok bi]] by (simp add: node_ok_def)
  then show ?thesis using bump_rejected_accounted [OF N(1) len acc e _ rejected(4)] rejected(5) by simp
next
  case (moved i t)
  note len = table_okD(2) [OF ok bi]
  show ?thesis
    using bump_moved_accounted [OF N(1) len acc shape_nth [OF len] _ moved(3,4)] index_of_Some [OF moved(2)] by simp
next
  case (same i)
  note len = table_okD(2) [OF ok bi]
  define es rs where "es = entries (buckets tab ! bi)" and "rs = replacements (buckets tab ! bi)"
  have i: "i < length es" using index_of_Some [OF same(2)] by (simp add: es_def)
  have eq: "counted_ip L rel (nIP n) x = counted_ip L rel (nIP (es ! i)) x" for x
    using N(2) same(3) netset_okD(9) [OF N(1)] by (intro counted_ip_rel) (auto simp: ipform_ok_def es_def)
  show ?thesis
  proof (rule accounted_moved [OF acc len counters_moved_refl])
    show "shape tab' = (shape tab)[bi := (n # take i es @ drop (Suc i) es, rs)]"
      using same(4) by (simp add: shape_upd_bucket es_def rs_def)
    show "occ2 L rel (n # take i es @ drop (Suc i) es, rs) x + 0 \<le> occ2 L rel (shape tab ! bi) x + 0" for x
      using occ2_rotate [OF i, of L rel n rs x] eq [of x] shape_nth [OF len] by (simp add: es_def rs_def)
  qed (use acc in \<open>simp_all add: same(4) bips_upd_bucket accounted_def\<close>)
qed

lemma addVerifiedNode_accounted:
  assumes N: "netset_ok L cnt lim rel" "ipform_ok L rel" and ok: "table_ok L tab"
    and acc: "accounted L cnt lim rel tab" and r: "addVerifiedNode L tab n now = Some tab'"
  shows "accounted L cnt lim rel tab'"
proof (cases "\<not> initDone tab \<or> nID n = eID (self tab)")
  case True
  then show ?thesis using r acc by (auto simp: addVerifiedNode_def split: if_splits)
next
  case False
  then obtain bi where bi: "bucket_index L tab (nID n) = Some bi"
    using r by (auto simp: addVerifiedNode_def bind_eq_Some_conv split: if_splits)
  then have nb: "bi < nBuckets" using bucketAtDistance_less by (auto simp: bucket_index_def)
  obtain moved u where u: "bumpInBucket L tab bi n = (moved, u)" by (cases "bumpInBucket L tab bi n")
  note uacc = bump_accounted [OF N ok nb acc u] and uok = bumpInBucket_ok(1) [OF ok nb u]
  note len = table_okD(2) [OF uok nb]
  obtain q t where a: "addIP L u bi (nIP n) = (q, t)" by (cases "addIP L u bi (nIP n)")
  have "entries (buckets t ! bi) = entries (buckets u ! bi)"
    using addIP_eqD(1,3) [OF a] len entries_shape [of bi t] entries_shape [of bi u] by simp
  then have push: "upd_bucket t bi (\<lambda>b. b\<lparr>entries := fst (pushNode (entries b) n bucketSize),
        replacements := deleteNode (replacements b) n\<rparr>) =
      upd_bucket t bi (\<lambda>b. b\<lparr>entries := n # entries b, replacements := deleteNode (replacements b) n\<rparr>)"
    if "length (entries (buckets u ! bi)) < bucketSize"
    using that by (simp add: upd_bucket_def pushNode_def)
  have "accounted L cnt lim rel ((upd_bucket t bi (\<lambda>b. b\<lparr>entries := n # entries b,
      replacements := deleteNode (replacements b) n\<rparr>))\<lparr>added := (added t)(ptr n := now)\<rparr>)" if q
    using insert_accounted [OF N(1) len uacc, of n t "\<lambda>es. n # es"] a that by simp
  then show ?thesis
    using r False bi u a uacc addIP_accounted [OF N(1) len a uacc] addReplacement_accounted [OF N(1) len uacc, of n] push
    by (auto simp: addVerifiedNode_def split: if_splits bool.splits)
qed

lemma add_seeds_accounted:
  assumes N: "netset_ok L cnt lim rel" and L: "logdist_ok L"
  shows "table_ok L tab \<Longrightarrow> accounted L cnt lim rel tab \<Longrightarrow> add_seeds L tab now seeds = Some tab' \<Longrightarrow>
         accounted L cnt lim rel tab'"
proof (induction seeds arbitrary: tab)
  case (Cons seed seeds)
  then obtain t where t: "addSeenNode L tab seed now = Some t" "add_seeds L t now seeds = Some tab'"
    by (auto simp: bind_eq_Some_conv)
  moreover have "table_ok L t" using addSeenNode_ok [OF Cons.prems(1) L, of seed now] t(1) by auto
  ultimately show ?case
    using Cons.IH addSeenNode_accounted [OF N Cons.prems(1,2) t(1)] by blast
qed simp

lemma loadSeedNodes_accounted:
  assumes "netset_ok L cnt lim rel" "logdist_ok L" "table_ok L tab" "accounted L cnt lim rel tab"
    and "loadSeedNodes L tab queried now = Some tab'"
  shows "accounted L cnt lim rel tab'"
proof -
  have "table_ok L (tab\<lparr>fresh := fresh tab + length queried\<rparr>)"
    "accounted L cnt lim rel (tab\<lparr>fresh := fresh tab + length queried\<rparr>)"
    using table_okI_shape [OF assms(3)] accounted_same [OF assms(4)] by simp_all
  then show ?thesis using add_seeds_accounted [OF assms(1,2)] assms(5) by (simp add: loadSeedNodes_def)
qed

lemma deleteInBucket_accounted:
  assumes N: "netset_ok L cnt lim rel" and bi: "bi < length (buckets tab)" and acc: "accounted L cnt lim rel tab"
    and d: "distinct (map nID (entries (buckets tab ! bi)))"
    and e: "e \<in> set (entries (buckets tab ! bi))" "nID e = nID n" "nIP e = nIP n"
  shows "accounted L cnt lim rel (deleteInBucket L tab bi n)"
proof -
  define u where "u = upd_bucket tab bi (\<lambda>b. b\<lparr>entries := deleteNode (entries b) n\<rparr>)"
  have lu: "bi < length (buckets u)" using bi by (simp add: u_def)
  have cu: "counters_moved L cnt tab u bi (\<lambda>x. 0) (\<lambda>x. 0)"
    by (rule counters_moved_lists [OF counters_moved_refl]) (simp_all add: u_def bips_upd_bucket)
  have c: "counters_moved L cnt tab (removeIP L u bi (nIP n)) bi (\<lambda>x. 0 + 0) (\<lambda>x. 0 + counted_ip L rel (nIP n) x)"
    by (rule counters_moved_trans [OF cu counters_removeIP [OF N lu]])
  have "limits_ok cnt lim tab" using acc by (simp add: accounted_def)
  then have "limits_ok cnt lim u" by (rule limits_lists) (simp_all add: u_def bips_upd_bucket)
  then have lim: "limits_ok cnt lim (removeIP L u bi (nIP n))" by (rule limits_removeIP [OF N])
  have "accounted L cnt lim rel (removeIP L u bi (nIP n))"
  proof (rule accounted_moved [OF acc bi c lim])
    show "shape (removeIP L u bi (nIP n)) =
        (shape tab)[bi := (deleteNode (entries (buckets tab ! bi)) n, replacements (buckets tab ! bi))]"
      by (simp add: u_def shape_upd_bucket)
    show "occ2 L rel (deleteNode (entries (buckets tab ! bi)) n, replacements (buckets tab ! bi)) x +
        (0 + counted_ip L rel (nIP n) x) \<le> occ2 L rel (shape tab ! bi) x + (0 + 0)" for x
      using occ_deleteNode [OF d e(1,2), of L rel x] shape_nth [OF bi] e(3) by (simp add: occ2_def)
  qed (simp_all add: u_def)
  then show ?thesis by (simp add: deleteInBucket_def u_def)
qed

lemma replace_swap_accounted:
  assumes N: "netset_ok L cnt lim rel" and bi: "bi < length (buckets tab)" and acc: "accounted L cnt lim rel tab"
    and b: "entries (buckets tab ! bi) = es" "replacements (buckets tab ! bi) = rs" "es \<noteq> []" "rn \<in> set rs"
      "distinct (map nID rs)" and ip: "nIP lst = nIP (last es)"
  shows "accounted L cnt lim rel (removeIP L (upd_bucket tab bi (\<lambda>b. b\<lparr>replacements := deleteNode (replacements b) rn,
           entries := (entries b)[length (entries b) - 1 := rn]\<rparr>)) bi (nIP lst))"
proof -
  define u where "u = upd_bucket tab bi (\<lambda>b. b\<lparr>replacements := deleteNode (replacements b) rn,
           entries := (entries b)[length (entries b) - 1 := rn]\<rparr>)"
  have lu: "bi < length (buckets u)" using bi by (simp add: u_def)
  have cu: "counters_moved L cnt tab u bi (\<lambda>x. 0) (\<lambda>x. 0)"
    by (rule counters_moved_lists [OF counters_moved_refl]) (simp_all add: u_def bips_upd_bucket)
  have c: "counters_moved L cnt tab (removeIP L u bi (nIP lst)) bi (\<lambda>x. 0 + 0) (\<lambda>x. 0 + counted_ip L rel (nIP lst) x)"
    by (rule counters_moved_trans [OF cu counters_removeIP [OF N lu]])
  have "limits_ok cnt lim tab" using acc by (simp add: accounted_def)
  then have "limits_ok cnt lim u" by (rule limits_lists) (simp_all add: u_def bips_upd_bucket)
  then have lim: "limits_ok cnt lim (removeIP L u bi (nIP lst))" by (rule limits_removeIP [OF N])
  have upd: "es[length es - 1 := rn] = butlast es @ [rn]"
    using b(3) by (metis append_butlast_last_id length_butlast list_update_length)
  have "accounted L cnt lim rel (removeIP L u bi (nIP lst))"
  proof (rule accounted_moved [OF acc bi c lim])
    show "shape (removeIP L u bi (nIP lst)) = (shape tab)[bi := (es[length es - 1 := rn], deleteNode rs rn)]"
      by (simp add: u_def shape_upd_bucket b(1,2))
    show "occ2 L rel (es[length es - 1 := rn], deleteNode rs rn) x + (0 + counted_ip L rel (nIP lst) x)
        \<le> occ2 L rel (shape tab ! bi) x + (0 + 0)" for x
      using occ_deleteNode [OF b(5,4) refl, of L rel x] occ_last [OF b(3), of L rel x] shape_nth [OF bi]
      unfolding upd by (simp add: occ2_def b(1,2) ip)
  qed (simp_all add: u_def)
  then show ?thesis by (simp add: u_def)
qed

lemma replace_accounted:
  assumes N: "netset_ok L cnt lim rel" and ok: "table_ok L tab" and bi: "bi < nBuckets"
    and acc: "accounted L cnt lim rel tab"
    and ip: "entries (buckets tab ! bi) \<noteq> [] \<Longrightarrow> nID (last (entries (buckets tab ! bi))) = nID lst \<Longrightarrow>
             nIP lst = nIP (last (entries (buckets tab ! bi)))"
  shows "accounted L cnt lim rel (snd (replace L tab bi lst r))"
proof -
  note len = table_okD(2) [OF ok bi] and d = bucket_okD(3,4) [OF table_okD(1) [OF ok bi]]
  define es rs where "es = entries (buckets tab ! bi)" and "rs = replacements (buckets tab ! bi)"
  consider "es = [] \<or> nID (last es) \<noteq> nID lst" | "es \<noteq> []" "nID (last es) = nID lst" "rs = []"
    | "es \<noteq> []" "nID (last es) = nID lst" "rs \<noteq> []" by blast
  then show ?thesis
  proof cases
    case 1
    then show ?thesis using acc by (auto simp: replace_def es_def Let_def)
  next
    case 2
    then have "accounted L cnt lim rel (deleteInBucket L tab bi lst)"
      using deleteInBucket_accounted [OF N len acc d(1), of "last es" lst] ip by (simp add: es_def)
    then show ?thesis using 2 by (simp add: replace_def es_def rs_def Let_def)
  next
    case 3
    have "rs ! (r mod length rs) \<in> set rs" using 3 by simp
    from replace_swap_accounted [OF N len acc es_def [symmetric] rs_def [symmetric] 3(1) this] d(2) ip 3 show ?thesis
      by (simp add: replace_def Let_def flip: es_def rs_def)
  qed
qed

lemma doRevalidate_accounted:
  assumes N: "netset_ok L cnt lim rel" "ipform_ok L rel" and ok: "table_ok L tab" and bi: "bi < nBuckets"
    and acc: "accounted L cnt lim rel tab"
    and ip: "isl pinged \<Longrightarrow> entries (buckets tab ! bi) \<noteq> [] \<Longrightarrow> nID (last (entries (buckets tab ! bi))) = nID lst \<Longrightarrow>
             nIP lst = nIP (last (entries (buckets tab ! bi)))"
  shows "accounted L cnt lim rel (doRevalidate L tab lst bi pinged enr r)"
proof (cases pinged)
  case (Inl e)
  have "revalidate_fetch tab lst pinged enr = (tab, lst)" by (simp add: revalidate_fetch_def Inl)
  then show ?thesis using replace_accounted [OF N(1) ok bi acc, of lst r] ip by (simp add: doRevalidate_def Inl)
next
  case (Inr seq)
  obtain t l where f: "revalidate_fetch tab lst pinged enr = (t, l)" by (cases "revalidate_fetch tab lst pinged enr")
  note fs = revalidate_fetch_shape [OF f]
  define u where "u = t\<lparr>checks := (checks t)(ptr l := checks t (ptr l) + 1)\<rparr>"
  have more: "tips t = tips tab" "buckets t = buckets tab"
    using f by (auto simp: revalidate_fetch_def Let_def split: if_splits sum.splits)
  have u: "table_ok L u" "accounted L cnt lim rel u"
    using table_okI_shape [OF ok, of u] accounted_same [OF acc, of u] fs more by (simp_all add: u_def)
  obtain b v where b: "bumpInBucket L u bi l = (b, v)" by (cases "bumpInBucket L u bi l")
  from bump_accounted [OF N u(1) bi u(2) b] show ?thesis using f b Inr by (simp add: doRevalidate_def u_def)
qed

lemma newTable_accounted:
  assumes N: "netset_ok L cnt lim rel" and L: "logdist_ok L"
    and new: "newTable L slf bootnodes queried now = Some (Inr tab)"
  shows "accounted L cnt lim rel tab"
proof -
  define tab0 where "tab0 = \<lparr>buckets = replicate nBuckets
       \<lparr>entries = [], replacements = [], bips = newNetSet L bucketSubnet bucketIPLimit\<rparr>,
     nursery = [], tips = newNetSet L tableSubnet tableIPLimit, self = slf, initDone = False,
     checks = (\<lambda>_. 0), added = (\<lambda>_. 0), fresh = 0, written = []\<rparr>"
  have ok0: "table_ok L tab0" by (simp add: table_ok_def tab0_def shape_def bucket_ok_def)
  have "sum_list (replicate k 0) = (0 :: nat)" for k by (simp add: sum_list_replicate)
  then have acc0: "accounted L cnt lim rel tab0"
    using netset_okD(1,2) [OF N]
    by (simp add: accounted_def limits_ok_def covered_def tab0_def occ_table_def shape_def occ2_def)
  from new obtain t where t: "setFallbackNodes L tab0 bootnodes = Inr t" "loadSeedNodes L t queried now = Some tab"
    by (auto simp: newTable_def tab0_def Let_def split: sum.splits)
  then have "t = tab0\<lparr>nursery := wrapNodes (fresh tab0) bootnodes, fresh := fresh tab0 + length bootnodes\<rparr>"
    by (auto simp: setFallbackNodes_def split: option.splits)
  then have "table_ok L t" "accounted L cnt lim rel t"
    using table_okI_shape [OF ok0, of t] accounted_same [OF acc0, of t] by simp_all
  then show ?thesis using loadSeedNodes_accounted [OF N L _ _ t(2)] by blast
qed

subsection \<open>Runs that keep the limits\<close>

text \<open>
  Runs in which \<open>delete\<close> is called for an entry of the table, with the address the table has for it,
  and a revalidation that fails and finds the node it pinged as the last of the bucket finds it under the address
  it pinged. The code does not ensure either.
\<close>

primrec fair_event :: "'s disc_lib \<Rightarrow> 's Table \<Rightarrow> table_event \<Rightarrow> bool" where
  "fair_event L tab (Seen n now) = True"
| "fair_event L tab (Verified n now) = True"
| "fair_event L tab (Deleted n) =
     (\<forall>bi. bucket_index L tab (nID n) = Some bi \<longrightarrow>
        (\<exists>e \<in> set (entries (buckets tab ! bi)). nID e = nID n \<and> nIP e = nIP n))"
| "fair_event L tab (Revalidated lst bi pinged enr r) =
     (bi < nBuckets \<and>
      (isl pinged \<longrightarrow> entries (buckets tab ! bi) \<noteq> [] \<longrightarrow> nID (last (entries (buckets tab ! bi))) = nID lst \<longrightarrow>
         nIP lst = nIP (last (entries (buckets tab ! bi)))))"
| "fair_event L tab InitDone = True"
| "fair_event L tab (Refreshed queried now) = True"
| "fair_event L tab (Copied now) = True"

lemma table_step_accounted:
  assumes N: "netset_ok L cnt lim rel" "ipform_ok L rel" and L: "logdist_ok L" and ok: "table_ok L tab"
    and acc: "accounted L cnt lim rel tab" and e: "fair_event L tab e" and st: "table_step L tab e = Some tab'"
  shows "accounted L cnt lim rel tab'"
proof (cases e)
  case (Seen n now)
  then show ?thesis using addSeenNode_accounted [OF N(1) ok acc] st by simp
next
  case (Verified n now)
  then show ?thesis using addVerifiedNode_accounted [OF N ok acc] st by simp
next
  case (Deleted n)
  then obtain bi where bi: "bucket_index L tab (nID n) = Some bi" "tab' = deleteInBucket L tab bi n"
    using st by (auto simp: delete_def bind_eq_Some_conv)
  then have nb: "bi < nBuckets" using bucketAtDistance_less by (auto simp: bucket_index_def)
  obtain x where "x \<in> set (entries (buckets tab ! bi))" "nID x = nID n" "nIP x = nIP n"
    using e bi(1) Deleted by auto
  then show ?thesis
    using deleteInBucket_accounted [OF N(1) table_okD(2) [OF ok nb] acc] bucket_okD(3) [OF table_okD(1) [OF ok nb]] bi(2)
    by blast
next
  case (Revalidated lst bi pinged enr r)
  have "accounted L cnt lim rel (doRevalidate L tab lst bi pinged enr r)"
    by (rule doRevalidate_accounted [OF N ok _ acc]) (use e Revalidated in simp_all)
  then show ?thesis using st Revalidated by simp
next
  case InitDone
  then show ?thesis using accounted_same [OF acc, of tab'] st by auto
next
  case (Refreshed queried now)
  then show ?thesis using loadSeedNodes_accounted [OF N(1) L ok acc] st by simp
next
  case (Copied now)
  then show ?thesis using accounted_same [OF acc, of tab'] st by (auto simp: copyLiveNodes_def)
qed

lemma fair_event_ok: "fair_event L tab e \<Longrightarrow> event_ok e"
  by (cases e) simp_all

definition fair_step :: "'s disc_lib \<Rightarrow> 's Table go \<Rightarrow> table_event \<Rightarrow> bool" where
  "fair_step L state e \<longleftrightarrow> (case state of None \<Rightarrow> False | Some tab \<Rightarrow> fair_event L tab e)"

definition accounted_state ::
  "'s disc_lib \<Rightarrow> ('s \<Rightarrow> IP \<Rightarrow> nat) \<Rightarrow> ('s \<Rightarrow> nat) \<Rightarrow> (IP \<Rightarrow> IP \<Rightarrow> bool) \<Rightarrow> 's Table go \<Rightarrow> bool" where
  "accounted_state L cnt lim rel state \<longleftrightarrow>
     netset_ok L cnt lim rel \<and> ipform_ok L rel \<and> logdist_ok L \<and>
     (\<exists>tab. state = Some tab \<and> table_ok L tab \<and> accounted L cnt lim rel tab)"

interpretation accounts: event_machine "table_run_step L" "fair_step L" "accounted_state L cnt lim rel"
  for L :: "'s disc_lib" and cnt lim rel
proof
  fix state :: "'s Table go" and e
  assume inv: "accounted_state L cnt lim rel state" and e: "fair_step L state e"
  then obtain tab where N: "netset_ok L cnt lim rel" "ipform_ok L rel" "logdist_ok L"
    and tab: "state = Some tab" "table_ok L tab" "accounted L cnt lim rel tab" "fair_event L tab e"
    by (auto simp: accounted_state_def fair_step_def)
  obtain tab' where tab': "table_step L tab e = Some tab'" "table_ok L tab'"
    using table_step_ok [OF tab(2) N(3,1)] fair_event_ok [OF tab(4)] by blast
  then show "accounted_state L cnt lim rel (table_run_step L state e)"
    using table_step_accounted [OF N tab(2-4) tab'(1)] N tab(1)
    by (simp add: accounted_state_def table_run_step_def)
qed

lemma sample_ipform: "ipform_ok sample_disc sample_rel"
proof -
  have "to4 a = to4 b" if "ip_Equal a b" for a b
    using that by (auto simp: ip_Equal_def to4_def v4InV6Prefix_def split: if_splits)
  then show ?thesis by (auto simp: ipform_ok_def sample_disc_def sample_rel_def range_of_def)
qed

subsection \<open>Why a revalidation must find the address it pinged\<close>

definition moved_node :: node where
  "moved_node = wrapNode 200 ((sample_enode 1)\<lparr>eIP := [198, 51, 100, 1]\<rparr>)"

definition moving_run :: "table_event list" where
  "moving_run =
     [InitDone, Verified (sample_node 1) 1, Verified moved_node 2, Verified (sample_node 18) 3, Verified (sample_node 35) 4,
      Revalidated (sample_node 1) 3 (Inl ''timeout'') (Inl []) 0, Verified (sample_node 52) 5]"

definition run_tab :: "node list \<Rightarrow> (IP \<Rightarrow> nat) \<Rightarrow> (IP \<Rightarrow> nat) \<Rightarrow> (nat \<Rightarrow> int) \<Rightarrow> ((IP \<Rightarrow> nat) \<times> nat) Table" where
  "run_tab es f g ad =
     \<lparr>buckets = (replicate nBuckets \<lparr>entries = [], replacements = [], bips = (\<lambda>k. 0, 2)\<rparr>)
        [3 := \<lparr>entries = es, replacements = [], bips = (f, 2)\<rparr>],
      nursery = [], tips = (g, 10), self = sample_enode 0, initDone = True,
      checks = (\<lambda>_. 0), added = ad, fresh = 0, written = []\<rparr>"

lemma run_tab_bucket [simp]: "buckets (run_tab es f g ad) ! 3 = \<lparr>entries = es, replacements = [], bips = (f, 2)\<rparr>"
  by (simp add: run_tab_def nBuckets_def hashBits_def)

lemma run_tab_fields [simp]:
  "(run_tab es f g ad)\<lparr>added := ad'\<rparr> = run_tab es f g ad'" "tips (run_tab es f g ad) = (g, 10)" "initDone (run_tab es f g ad)"
  "self (run_tab es f g ad) = sample_enode 0" "added (run_tab es f g ad) = ad"
  by (simp_all add: run_tab_def)

lemma run_tab_upd:
  "F \<lparr>entries = es, replacements = [], bips = (f, 2)\<rparr> = \<lparr>entries = es', replacements = [], bips = (f', 2)\<rparr> \<Longrightarrow>
   upd_bucket ((run_tab es f g ad)\<lparr>tips := (g', 10)\<rparr>) 3 F = run_tab es' f' g' ad"
  "F \<lparr>entries = es, replacements = [], bips = (f, 2)\<rparr> = \<lparr>entries = es', replacements = [], bips = (f', 2)\<rparr> \<Longrightarrow>
   upd_bucket (run_tab es f g ad) 3 F = run_tab es' f' g ad"
  by (simp_all add: upd_bucket_def run_tab_def nBuckets_def hashBits_def)

lemma run_tab_addIP:
  assumes "\<not> IsLAN sample_disc ip" "ip \<noteq> []" "f (range_of ip) < 2" "g (range_of ip) < 10"
  shows "addIP sample_disc (run_tab es f g ad) 3 ip =
     (True, run_tab es (f(range_of ip := f (range_of ip) + 1)) (g(range_of ip := g (range_of ip) + 1)) ad)"
proof -
  have "netAdd sample_disc (h, k) ip = (True, h(range_of ip := h (range_of ip) + 1), k)" if "h (range_of ip) < k" for h k
    using that by (simp add: sample_disc_def)
  with assms show ?thesis by (simp add: addIP_def run_tab_upd(1))
qed

lemma run_tab_removeIP:
  assumes "\<not> IsLAN sample_disc ip"
  shows "removeIP sample_disc (run_tab es f g ad) 3 ip =
     run_tab es (f(range_of ip := f (range_of ip) - 1)) (g(range_of ip := g (range_of ip) - 1)) ad"
proof -
  have "netRemove sample_disc (h, k) ip = (h(range_of ip := h (range_of ip) - 1), k)" for h k by (simp add: sample_disc_def)
  with assms show ?thesis by (simp add: removeIP_def run_tab_upd(1))
qed

lemma run_tab_verified:
  assumes "bucket_index sample_disc (run_tab es f g ad) (nID n) = Some 3" "nID n \<noteq> eID (sample_enode 0)"
    "index_of es (nID n) = None" "length es < 16" "\<not> IsLAN sample_disc (nIP n)" "nIP n \<noteq> []" "f (range_of (nIP n)) < 2" "g (range_of (nIP n)) < 10"
  shows "addVerifiedNode sample_disc (run_tab es f g ad) n now =
     Some (run_tab (n # es) (f(range_of (nIP n) := f (range_of (nIP n)) + 1)) (g(range_of (nIP n) := g (range_of (nIP n)) + 1)) (ad(ptr n := now)))"
  using assms run_tab_addIP [of "nIP n" f g es ad]
  by (simp add: addVerifiedNode_def bumpInBucket_def bucketSize_def pushNode_def run_tab_upd(2))

lemma moving_nodes:
  "nID (sample_node i) = [i]" "nIP (sample_node i) = [192, 0, 2, i]" "ptr (sample_node i) = unat i"
  "nID moved_node = [1]" "nIP moved_node = [198, 51, 100, 1]" "eID (sample_enode 0) = [0]"
  "range_of [192, 0, 2, i] = [192, 0, 2]" "\<not> IsLAN sample_disc [192, 0, 2, i]"
  "range_of [198, 51, 100, i] = [198, 51, 100]" "\<not> IsLAN sample_disc [198, 51, 100, i]"
  by (simp_all add: sample_node_def moved_node_def wrapNode_def sample_enode_def range_of_def to4_def sample_disc_def)

lemma moving_index:
  "i \<in> {1, 18, 35, 52} \<Longrightarrow> bucket_index sample_disc (run_tab es f g ad) [i] = Some 3"
  by (auto simp: bucket_index_def sample_enode_def sample_disc_def bucketAtDistance_def bucketMinDistance_def nBuckets_def hashBits_def)

lemma moving_verified:
  assumes "i \<in> {1, 18, 35, 52}" "index_of es [i] = None" "length es < 16" "c < 2"
  shows "addVerifiedNode sample_disc (run_tab es (h([192, 0, 2] := c)) (h([192, 0, 2] := c)) ad) (sample_node i) now =
     Some (run_tab (sample_node i # es) (h([192, 0, 2] := c + 1)) (h([192, 0, 2] := c + 1)) (ad(unat i := now)))"
  using assms moving_index [OF assms(1)]
    run_tab_verified [of es "h([192, 0, 2] := c)" "h([192, 0, 2] := c)" ad "sample_node i" now]
  by (auto simp: moving_nodes)

lemma moving_bumped:
  "addVerifiedNode sample_disc (run_tab [sample_node 1] ((\<lambda>k. 0)([192, 0, 2] := 1)) ((\<lambda>k. 0)([192, 0, 2] := 1)) ad) moved_node now =
     Some (run_tab [moved_node] ((\<lambda>k. 0)([198, 51, 100] := 1, [192, 0, 2] := 0)) ((\<lambda>k. 0)([198, 51, 100] := 1, [192, 0, 2] := 0)) ad)"
  using moving_index [of 1]
    run_tab_removeIP [of "[192, 0, 2, 1]" "[sample_node 1]" "(\<lambda>k. 0)([192, 0, 2] := 1)" "(\<lambda>k. 0)([192, 0, 2] := 1)" ad]
    run_tab_addIP [of "[198, 51, 100, 1]" "(\<lambda>k. 0)([192, 0, 2] := 0)" "(\<lambda>k. 0)([192, 0, 2] := 0)" "[sample_node 1]" ad]
  by (simp add: addVerifiedNode_def bumpInBucket_def moving_nodes run_tab_upd(2) ip_Equal_def fun_upd_twist)

lemma moving_failed:
  "doRevalidate sample_disc (run_tab [sample_node 35, sample_node 18, moved_node] (h([192, 0, 2] := Suc (Suc 0))) (h([192, 0, 2] := Suc (Suc 0))) ad)
      (sample_node 1) 3 (Inl err) enr 0 = run_tab [sample_node 35, sample_node 18] (h([192, 0, 2] := 1)) (h([192, 0, 2] := 1)) ad"
  using run_tab_removeIP [of "[192, 0, 2, 1]"]
  by (simp add: doRevalidate_def revalidate_fetch_def replace_def deleteInBucket_def moving_nodes run_tab_upd(2))

lemma moving_new:
  obtains tab where "newTable sample_disc (sample_enode 0) [] [] 0 = Some (Inr tab)"
    "tab\<lparr>initDone := True\<rparr> = run_tab [] ((\<lambda>k. 0)([192, 0, 2] := 0)) ((\<lambda>k. 0)([192, 0, 2] := 0)) (\<lambda>k. 0)"
proof -
  define tab where "tab = (run_tab [] (\<lambda>k. 0) (\<lambda>k. 0) (\<lambda>k. 0))\<lparr>initDone := False\<rparr>"
  have "(replicate k x)[i := x] = replicate k x" for k i :: nat and x :: "((IP \<Rightarrow> nat) \<times> nat) bucket"
    by (cases "i < k") (simp_all add: list_update_same_conv list_update_beyond)
  then have "newTable sample_disc (sample_enode 0) [] [] 0 = Some (Inr tab)"
    by (simp add: newTable_def setFallbackNodes_def loadSeedNodes_def wrapNodes_def tab_def run_tab_def sample_disc_def
        bucketIPLimit_def tableIPLimit_def nBuckets_def hashBits_def)
  moreover have "(\<lambda>k :: IP. 0 :: nat)([192, 0, 2] := 0) = (\<lambda>k. 0)" by (simp add: fun_eq_iff)
  ultimately show thesis using that by (simp add: tab_def run_tab_def)
qed

subsection \<open>Properties\<close>

text \<open>
  C12. A bucket holds at most two nodes of one network range, and the table at most ten, entries and replacements
  together, LAN addresses apart: in every run from a new table in which \<open>delete\<close> is called for entries of the table
  only, under the address the table has for them, and in which a revalidation that fails does not find the node it
  pinged under another address than it pinged. Both conditions are needed: \<open>delete_absent_undercounts\<close> and
  \<open>ip_limit_exceeded\<close> below.
\<close>

theorem ip_limits:
  assumes "netset_ok L cnt lim rel" "ipform_ok L rel" "logdist_ok L"
    and "newTable L slf bootnodes queried now = Some (Inr tab)"
    and "run_ok (table_run_step L) (fair_step L) (Some tab) events"
  shows "\<exists>tab'. foldl (table_run_step L) (Some tab) events = Some tab' \<and>
           (\<forall>x. occ_table L rel tab' x \<le> tableIPLimit \<and>
                (\<forall>bi < nBuckets. occ2 L rel (shape tab' ! bi) x \<le> bucketIPLimit))"
proof -
  have "table_ok L tab" using newTable_ok [OF assms(3)] assms(4) by (metis option.inject)
  then have "accounted_state L cnt lim rel (Some tab)"
    using assms newTable_accounted [OF assms(1,3,4)] by (simp add: accounted_state_def)
  from accounts.inv_run [OF this assms(5)] obtain tab' where t: "foldl (table_run_step L) (Some tab) events = Some tab'"
    "table_ok L tab'" "accounted L cnt lim rel tab'"
    by (auto simp: accounted_state_def)
  have "occ_table L rel tab' x \<le> tableIPLimit" for x
    using t(3) by (auto simp: accounted_def limits_ok_def covered_def intro: le_trans)
  moreover have "occ2 L rel (shape tab' ! bi) x \<le> bucketIPLimit" if "bi < nBuckets" for bi x
  proof (rule le_trans)
    show "occ2 L rel (shape tab' ! bi) x \<le> cnt (bips (buckets tab' ! bi)) x"
      using t(3) table_okD(2) [OF t(2) that] by (simp add: accounted_def covered_def)
    show "cnt (bips (buckets tab' ! bi)) x \<le> bucketIPLimit"
      using t(3) table_okD(2) [OF t(2) that] by (simp add: accounted_def limits_ok_def)
  qed
  ultimately show ?thesis using t(1) by blast
qed

theorem ip_limits_witness:
  "\<exists>tab tab'. newTable sample_disc (sample_enode 0) [] [] 0 = Some (Inr tab) \<and>
     foldl (table_run_step sample_disc) (Some tab) [Seen (sample_node 1) 5, InitDone, Verified (sample_node 2) 6] = Some tab' \<and>
     (\<forall>x. occ_table sample_disc sample_rel tab' x \<le> tableIPLimit)"
proof -
  obtain tab where tab: "newTable sample_disc (sample_enode 0) [] [] 0 = Some (Inr tab)"
    using sample_newTable by blast
  have "fair_step sample_disc state e" if "state \<noteq> None" "e \<in> {Seen n t, Verified n t, InitDone}" for state e n t
    using that by (auto simp: fair_step_def)
  have run: "run_ok (table_run_step sample_disc) (fair_step sample_disc) (Some tab)
      [Seen (sample_node 1) 5, InitDone, Verified (sample_node 2) 6]"
  proof -
    have ok: "table_ok sample_disc tab" using newTable_ok [OF sample_logdist] tab by (metis option.inject)
    obtain t1 where t1: "addSeenNode sample_disc tab (sample_node 1) 5 = Some t1"
      using addSeenNode_ok [OF ok sample_logdist] by blast
    then show ?thesis by (simp add: fair_step_def table_run_step_def)
  qed
  from ip_limits [OF sample_netset sample_ipform sample_logdist tab run] tab show ?thesis by blast
qed

text \<open>
  \<open>delete\<close> gives an address back whether or not the node is in the table: deleting a node the table
  does not hold, from a range whose counter is exact, leaves the nodes in place and the counter one
  short, so that the limits can be exceeded afterwards.
\<close>

theorem delete_absent_undercounts:
  assumes "netset_ok L cnt lim rel" "table_ok L tab" "bucket_index L tab (nID n) = Some bi"
    and "nID n \<notin> nID ` set (entries (buckets tab ! bi))" "\<not> IsLAN L (nIP n)"
    and "0 < occ2 L rel (shape tab ! bi) (nIP n)"
    and "cnt (bips (buckets tab ! bi)) (nIP n) = occ2 L rel (shape tab ! bi) (nIP n)"
  shows "\<exists>tab'. delete L tab n = Some tab' \<and> shape tab' = shape tab \<and>
           cnt (bips (buckets tab' ! bi)) (nIP n) < occ2 L rel (shape tab' ! bi) (nIP n)"
proof -
  have nb: "bi < nBuckets" using assms(3) bucketAtDistance_less by (auto simp: bucket_index_def)
  note len = table_okD(2) [OF assms(2) nb]
  define u where "u = upd_bucket tab bi (\<lambda>b. b\<lparr>entries := deleteNode (entries b) n\<rparr>)"
  have u: "shape u = shape tab" "bi < length (buckets u)" "bips (buckets u ! bi) = bips (buckets tab ! bi)"
    using len deleteNode_absent [OF assms(4)] shape_nth [OF len]
    by (simp_all add: u_def shape_upd_bucket bips_upd_bucket) (metis list_update_id)
  have "rel (nIP n) (nIP n)" using netset_okD(9) [OF assms(1)] by (simp add: equivp_reflp)
  then have "cnt (bips (buckets (removeIP L u bi (nIP n)) ! bi)) (nIP n) = cnt (bips (buckets tab ! bi)) (nIP n) - 1"
    using removeIP_counts(2) [OF assms(1) u(2), of "nIP n" "nIP n"] u(3) assms(5) by simp
  then show ?thesis
    using assms(3,6,7) u(1) by (simp add: delete_def deleteInBucket_def u_def)
qed

theorem delete_absent_undercounts_witness:
  "\<exists>tab'. delete sample_disc sample_tab (sample_node 18) = Some tab' \<and> shape tab' = shape sample_tab \<and>
     sample_count (bips (buckets tab' ! 3)) (nIP (sample_node 18)) <
       occ2 sample_disc sample_rel (shape tab' ! 3) (nIP (sample_node 18))"
proof (rule delete_absent_undercounts [OF sample_netset sample_tab_ok])
  have ip: "range_of (nIP (sample_node i)) = [192, 0, 2]" "\<not> IsLAN sample_disc (nIP (sample_node i))" for i
    by (simp_all add: sample_node_def wrapNode_def sample_enode_def range_of_def to4_def sample_disc_def)
  then have occ: "occ2 sample_disc sample_rel (shape sample_tab ! 3) (nIP (sample_node 18)) = 1"
    by (simp add: sample_tab_bucket occ2_def counted_ip_def sample_rel_def)
  show "bucket_index sample_disc sample_tab (nID (sample_node 18)) = Some 3" by (rule sample_tab_index) simp
  show "nID (sample_node 18) \<notin> nID ` set (entries (buckets sample_tab ! 3))"
    by (simp add: sample_tab_bucket) (simp add: sample_node_def wrapNode_def sample_enode_def)
  show "\<not> IsLAN sample_disc (nIP (sample_node 18))" by (rule ip)
  show "0 < occ2 sample_disc sample_rel (shape sample_tab ! 3) (nIP (sample_node 18))" by (simp add: occ)
  show "sample_count (bips (buckets sample_tab ! 3)) (nIP (sample_node 18)) =
      occ2 sample_disc sample_rel (shape sample_tab ! 3) (nIP (sample_node 18))"
    by (simp add: occ) (simp add: sample_tab_bucket sample_count_def ip)
qed

text \<open>
  A node is pinged at its first address and bumped to another one while the ping is pending. When the ping fails, the
  entry is removed and the first address given back a second time, so that a third node of its range fits into the
  bucket: without the second condition on the runs the limits are exceeded.
\<close>

theorem ip_limit_exceeded:
  "\<exists>tab tab2 tab'. newTable sample_disc (sample_enode 0) [] [] 0 = Some (Inr tab) \<and>
     foldl (table_run_step sample_disc) (Some tab) (take 2 moving_run) = Some tab2 \<and>
     nodeToRevalidate tab2 [3] = Some (sample_node 1, 3) \<and>
     foldl (table_run_step sample_disc) (Some tab2) (drop 2 moving_run) = Some tab' \<and>
     bucketIPLimit < occ2 sample_disc sample_rel (shape tab' ! 3) (nIP (sample_node 1))"
proof -
  define h where "h = (\<lambda>k :: IP. 0 :: nat)([198, 51, 100] := 1)"
  define t2 where "t2 = run_tab [sample_node 1] ((\<lambda>k. 0)([192, 0, 2] := 1)) ((\<lambda>k. 0)([192, 0, 2] := 1)) ((\<lambda>k. 0)(1 := 1))"
  define t' where "t' = run_tab [sample_node 52, sample_node 35, sample_node 18] (h([192, 0, 2] := Suc (Suc 0))) (h([192, 0, 2] := Suc (Suc 0)))
      ((\<lambda>k. 0)(1 := 1, 18 := 3, 35 := 4, 52 := 5))"
  obtain tab where tab: "newTable sample_disc (sample_enode 0) [] [] 0 = Some (Inr tab)"
    "tab\<lparr>initDone := True\<rparr> = run_tab [] ((\<lambda>k. 0)([192, 0, 2] := 0)) ((\<lambda>k. 0)([192, 0, 2] := 0)) (\<lambda>k. 0)"
    by (rule moving_new)
  have "foldl (table_run_step sample_disc) (Some tab) (take 2 moving_run) = Some t2"
    using moving_verified [of 1 "[]" 0 "\<lambda>k. 0" "\<lambda>k. 0" 1] by (simp add: moving_run_def table_run_step_def tab(2) t2_def)
  moreover have "foldl (table_run_step sample_disc) (Some t2) (drop 2 moving_run) = Some t'"
    using moving_bumped [of "(\<lambda>k. 0)(1 := 1)" 2] moving_verified [of 18 "[moved_node]" 0 h "(\<lambda>k. 0)(1 := 1)" 3]
      moving_verified [of 35 "[sample_node 18, moved_node]" 1 h "(\<lambda>k. 0)(1 := 1, 18 := 3)" 4] moving_failed [of h]
      moving_verified [of 52 "[sample_node 35, sample_node 18]" 1 h "(\<lambda>k. 0)(1 := 1, 18 := 3, 35 := 4)" 5]
    by (simp add: moving_run_def table_run_step_def h_def moving_nodes t2_def t'_def)
  moreover have "nodeToRevalidate t2 [3] = Some (sample_node 1, 3)" by (simp add: t2_def)
  moreover have "shape t' ! 3 = ([sample_node 52, sample_node 35, sample_node 18], [])"
    by (simp add: t'_def run_tab_def shape_def nBuckets_def hashBits_def)
  then have "occ2 sample_disc sample_rel (shape t' ! 3) (nIP (sample_node 1)) = 3"
    by (simp add: occ2_def counted_ip_def sample_rel_def moving_nodes)
  ultimately show ?thesis using tab(1) by (auto simp: bucketIPLimit_def)
qed

end
