(* ===== verification/Table_Queries.thy ===== *)
theory Table_Queries
  imports Node_Table "HOL-Library.Multiset"
begin

text \<open>
  What the queries of the node table return: \<open>push\<close> as insertion into a list ordered by distance,
  \<open>findnodeByID\<close> as the closest nodes of the table, and the shuffle of \<open>ReadRandomNodes\<close>.
\<close>

subsection \<open>Insertion by distance\<close>

primrec ins :: "('a \<Rightarrow> nat) \<Rightarrow> 'a \<Rightarrow> 'a list \<Rightarrow> 'a list" where
  "ins key n [] = [n]"
| "ins key n (m # ms) = (if key m \<le> key n then m # ins key n ms else n # m # ms)"

abbreviation by_key :: "('a \<Rightarrow> nat) \<Rightarrow> 'a list \<Rightarrow> bool" where
  "by_key key es \<equiv> sorted (map key es)"

lemma mset_ins [simp]: "mset (ins key n es) = add_mset n (mset es)"
  by (induction es) auto

lemma set_ins [simp]: "set (ins key n es) = insert n (set es)"
  by (induction es) auto

lemma ins_sorted: "by_key key es \<Longrightarrow> by_key key (ins key n es)"
  by (induction es) auto

lemma ins_split:
  "ix \<le> length es \<Longrightarrow> \<forall>k < ix. key (es ! k) \<le> key n \<Longrightarrow> \<forall>k. ix \<le> k \<longrightarrow> k < length es \<longrightarrow> key n < key (es ! k) \<Longrightarrow>
   ins key n es = take ix es @ n # drop ix es"
proof (induction es arbitrary: ix)
  case (Cons m ms)
  show ?case
  proof (cases ix)
    case 0
    then show ?thesis using Cons.prems(3) by (auto dest: spec [of _ 0])
  next
    case (Suc j)
    have "key m \<le> key n" using Cons.prems(2) Suc by auto
    moreover have "ins key n ms = take j ms @ n # drop j ms"
      using Cons.prems Suc by (intro Cons.IH) (auto dest: spec [of _ "Suc _"])
    ultimately show ?thesis using Suc by simp
  qed
qed simp

lemma take_ins: "take k (ins key n (take k es)) = take k (ins key n es)"
proof (induction es arbitrary: k)
  case (Cons m ms)
  show ?case
  proof (cases k)
    case (Suc j)
    have "take j (m # take j ms) = take j (m # ms)" by (cases j) (simp_all add: min_def)
    then show ?thesis using Suc Cons.IH [of j] by simp
  qed simp
qed simp

lemma push_ins:
  assumes d: "distcmp_ok L dist" and s: "by_key (\<lambda>n. dist (target h) (nID n)) (nentries h)"
    and len: "length (nentries h) \<le> mx"
  shows "nentries (push L h n mx) = take mx (ins (\<lambda>n. dist (target h) (nID n)) n (nentries h))"
    and "target (push L h n mx) = target h"
proof -
  define es where "es = nentries h"
  define key where "key = (\<lambda>n. dist (target h) (nID n))"
  define f where "f i \<longleftrightarrow> DistCmp L (target h) (nID (es ! i)) (nID n) > 0" for i
  define ix where "ix = go_search (length es) f"
  have f: "f i \<longleftrightarrow> key n < key (es ! i)" for i using d by (simp add: f_def key_def distcmp_ok_def)
  have mono: "a \<le> b \<Longrightarrow> b < length es \<Longrightarrow> f a \<Longrightarrow> f b" for a b
    using s sorted_nth_mono [of "map key es" a b] by (simp add: f key_def es_def)
  have ix: "ix \<le> length es" unfolding ix_def by (rule go_search_spec(1)) (rule mono)
  have low: "\<not> f k" if "k < ix" for k
    using that unfolding ix_def by (rule go_search_spec(2) [rotated]) (rule mono)
  have high: "f k" if "ix \<le> k" "k < length es" for k
    using that unfolding ix_def by (rule go_search_spec(3) [rotated]) (rule mono)
  have ins: "ins key n es = take ix es @ n # drop ix es"
    using ix low high by (intro ins_split) (auto simp: f not_less)
  have eq: "nentries (push L h n mx) =
      (let es' = (if length es < mx then es @ [n] else es)
       in if ix = length es' then es' else take ix es' @ n # butlast (drop ix es'))"
    by (simp add: push_def Let_def ix_def f_def [abs_def] es_def)
  show "nentries (push L h n mx) = take mx (ins (\<lambda>n. dist (target h) (nID n)) n (nentries h))"
  proof (cases "length es < mx")
    case True
    then show ?thesis
      using ix unfolding eq key_def [symmetric] es_def [symmetric] ins by (simp add: butlast_append Let_def min_def Cons_nth_drop_Suc)
  next
    case False
    then have mx: "mx = length es" using len by (simp add: es_def)
    show ?thesis
    proof (cases "ix = length es")
      case True
      then show ?thesis unfolding eq key_def [symmetric] es_def [symmetric] ins by (simp add: mx)
    next
      case ne: False
      then have "ix < length es" using ix by simp
      then have "take (length es - Suc ix) (drop ix es) = butlast (drop ix es)"
        by (simp add: butlast_conv_take)
      moreover have "length es - ix = Suc (length es - Suc ix)" using \<open>ix < length es\<close> by simp
      ultimately show ?thesis
        using ne \<open>ix < length es\<close> unfolding eq key_def [symmetric] es_def [symmetric] ins
        by (simp add: mx min_def)
    qed
  qed
  show "target (push L h n mx) = target h" by (simp add: push_def Let_def)
qed

definition ins_all :: "('a \<Rightarrow> nat) \<Rightarrow> 'a list \<Rightarrow> 'a list" where
  "ins_all key ns = foldl (\<lambda>es n. ins key n es) [] ns"

lemma ins_all_snoc [simp]: "ins_all key (ns @ [n]) = ins key n (ins_all key ns)"
  by (simp add: ins_all_def)

lemma ins_all_props: "by_key key (ins_all key ns) \<and> mset (ins_all key ns) = mset ns"
  by (induction ns rule: rev_induct) (simp_all add: ins_sorted, simp add: ins_all_def)

lemma ins_all_sort:
  assumes "distinct (map key ns)"
  shows "ins_all key ns = sort_key key ns"
proof (rule map_sorted_distinct_set_unique)
  note p = ins_all_props [of key ns]
  have m: "mset (map key (ins_all key ns)) = mset (map key ns)" "mset (map key (sort_key key ns)) = mset (map key ns)"
    using p by (simp_all only: mset_map mset_sort)
  show "distinct (map key (ins_all key ns))" "distinct (map key (sort_key key ns))"
    using m assms by (metis mset_eq_imp_distinct_iff)+
  have "set (ins_all key ns) = set ns" using p by (metis mset_eq_setD)
  then show "set (ins_all key ns) = set (sort_key key ns)" by simp
  show "inj_on key (set (ins_all key ns) \<union> set (sort_key key ns))"
    using assms \<open>set (ins_all key ns) = set ns\<close> by (simp add: distinct_map)
qed (use ins_all_props [of key ns] in simp_all)

lemma push_all:
  assumes d: "distcmp_ok L dist"
  shows "nentries (foldl (\<lambda>h n. push L h n mx) \<lparr>nentries = [], target = t\<rparr> ns)
           = take mx (ins_all (\<lambda>n. dist t (nID n)) ns) \<and>
         target (foldl (\<lambda>h n. push L h n mx) \<lparr>nentries = [], target = t\<rparr> ns) = t"
proof (induction ns rule: rev_induct)
  case (snoc n ns)
  define h where "h = foldl (\<lambda>h n. push L h n mx) \<lparr>nentries = [], target = t\<rparr> ns"
  have h: "nentries h = take mx (ins_all (\<lambda>n. dist t (nID n)) ns)" "target h = t"
    using snoc.IH by (simp_all add: h_def)
  have "by_key (\<lambda>n. dist (target h) (nID n)) (nentries h)" "length (nentries h) \<le> mx"
    using ins_all_props [of "\<lambda>n. dist t (nID n)" ns] h by (simp_all add: take_map sorted_wrt_take flip: take_map)
  from push_ins [OF d this, of n] show ?case
    by (simp add: h_def [symmetric] h take_ins)
qed (simp add: ins_all_def)

subsection \<open>The nodes of the table\<close>

definition all_entries :: "'s Table \<Rightarrow> node list" where
  "all_entries tab = concat (map entries (buckets tab))"

definition live_entries :: "'s Table \<Rightarrow> node list" where
  "live_entries tab = filter (\<lambda>n. checks tab (ptr n) > 0) (all_entries tab)"

lemma distinct_all_entries:
  assumes ok: "table_ok L tab"
  shows "distinct (map nID (all_entries tab))"
proof -
  have len: "length (buckets tab) = nBuckets" using ok by (simp add: table_ok_def)
  have index: "bucketAtDistance (LogDist L (eID (self tab)) (nID n)) = Some bi"
    if "bi < nBuckets" "n \<in> set (entries (buckets tab ! bi))" for bi n
    using bucket_okD(6) [OF table_okD(1) [OF ok that(1)] that(2)] by (simp add: node_ok_def)
  have "distinct (map nID (concat (map entries (take k (buckets tab)))))" if "k \<le> nBuckets" for k
    using that
  proof (induction k)
    case (Suc k)
    have "nID n \<noteq> nID m" if n: "n \<in> set (entries (buckets tab ! k))" and m: "m \<in> set (concat (map entries (take k (buckets tab))))" for n m
    proof -
      obtain b where "b \<in> set (take k (buckets tab))" "m \<in> set (entries b)" using m by auto
      then obtain j where j: "j < k" "m \<in> set (entries (buckets tab ! j))"
        by (metis in_set_conv_nth length_take min_less_iff_conj nth_take)
      show ?thesis using index [OF _ n] index [OF _ j(2)] j(1) Suc.prems by auto
    qed
    then have "set (map nID (concat (map entries (take k (buckets tab))))) \<inter> set (map nID (entries (buckets tab ! k))) = {}"
    proof (intro equals0I)
      fix y
      assume y: "y \<in> set (map nID (concat (map entries (take k (buckets tab))))) \<inter> set (map nID (entries (buckets tab ! k)))"
      then obtain m n where "m \<in> set (concat (map entries (take k (buckets tab))))" "y = nID m"
        "n \<in> set (entries (buckets tab ! k))" "y = nID n"
        unfolding set_map by blast
      with \<open>\<And>n m. n \<in> set (entries (buckets tab ! k)) \<Longrightarrow> m \<in> set (concat (map entries (take k (buckets tab)))) \<Longrightarrow> nID n \<noteq> nID m\<close>
      show False by metis
    qed
    moreover have "concat (map entries (take (Suc k) (buckets tab))) =
        concat (map entries (take k (buckets tab))) @ entries (buckets tab ! k)"
      using Suc.prems len by (simp add: take_Suc_conv_app_nth)
    ultimately show ?case
      using Suc bucket_okD(3) [OF table_okD(1) [OF ok, of k]] by (simp only: map_append distinct_append)
  qed simp
  from this [of nBuckets] show ?thesis by (simp add: all_entries_def len)
qed

lemma findnode_fold:
  "foldl (\<lambda>(nodes, live) n. (push L nodes n k, if Q n then push L live n k else live)) (a, b) ns =
     (foldl (\<lambda>h n. push L h n k) a ns, foldl (\<lambda>h n. push L h n k) b (filter Q ns))"
  by (induction ns arbitrary: a b) auto

lemma distinct_dist:
  "distcmp_ok L dist \<Longrightarrow> distinct (map nID ns) \<Longrightarrow> distinct (map (\<lambda>n. dist t (nID n)) ns)"
proof -
  assume "distcmp_ok L dist" "distinct (map nID ns)"
  then have "distinct (map (dist t) (map nID ns))"
    by (subst distinct_map) (auto simp: distcmp_ok_def intro: inj_on_subset [OF _ subset_UNIV])
  then show ?thesis by (simp add: o_def)
qed

lemma findnodeByID_sorted:
  assumes d: "distcmp_ok L dist" and ok: "table_ok L tab"
  shows "nentries (findnodeByID L tab t k preferLive) =
     take k (sort_key (\<lambda>n. dist t (nID n))
       (if preferLive \<and> live_entries tab \<noteq> [] \<and> 0 < k then live_entries tab else all_entries tab))"
proof -
  note da = distinct_dist [OF d distinct_all_entries [OF ok], of t]
  have dl: "distinct (map (\<lambda>n. dist t (nID n)) (live_entries tab))"
    using da by (simp add: live_entries_def distinct_map_filter)
  define live where "live = foldl (\<lambda>h n. push L h n k) \<lparr>nentries = [], target = t\<rparr> (live_entries tab)"
  have live: "nentries live = take k (sort_key (\<lambda>n. dist t (nID n)) (live_entries tab))"
    using push_all [OF d, of k t "live_entries tab"] ins_all_sort [OF dl] by (simp add: live_def)
  have nodes: "nentries (foldl (\<lambda>h n. push L h n k) \<lparr>nentries = [], target = t\<rparr> (all_entries tab))
      = take k (sort_key (\<lambda>n. dist t (nID n)) (all_entries tab))"
    using push_all [OF d, of k t "all_entries tab"] ins_all_sort [OF da] by simp
  have ne: "nentries live \<noteq> [] \<longleftrightarrow> live_entries tab \<noteq> [] \<and> 0 < k"
    unfolding live by (auto simp: take_eq_Nil) (metis set_sort set_empty)
  show ?thesis
  proof (cases preferLive)
    case True
    then have "findnodeByID L tab t k preferLive =
        (if nentries live \<noteq> [] then live else foldl (\<lambda>h n. push L h n k) \<lparr>nentries = [], target = t\<rparr> (all_entries tab))"
      by (simp add: findnodeByID_def findnode_fold live_def live_entries_def all_entries_def case_prod_beta Let_def)
    then show ?thesis using True ne live nodes by auto
  next
    case False
    then have "findnodeByID L tab t k preferLive = foldl (\<lambda>h n. push L h n k) \<lparr>nentries = [], target = t\<rparr> (all_entries tab)"
      unfolding findnodeByID_def Let_def findnode_fold by (simp add: all_entries_def)
    then show ?thesis using nodes False by simp
  qed
qed

subsection \<open>The shuffle\<close>

lemma mset_shuffle: "i + k \<le> length ns \<Longrightarrow> mset (shuffle rnd i k ns) = mset ns"
proof (induction k arbitrary: i ns)
  case (Suc k)
  define j where "j = rnd i mod length ns"
  have len: "i < length ns" "j < length ns" using Suc.prems by (auto simp: j_def intro!: mod_less_divisor)
  have "mset (shuffle rnd i (Suc k) ns) = mset (ns[i := ns ! j, j := ns ! i])"
    using Suc.prems Suc.IH [of "Suc i" "ns[i := ns ! j, j := ns ! i]"] by (simp add: j_def Let_def)
  also have "\<dots> = mset ns" using mset_swap [OF len(2,1)] by simp
  finally show ?case .
qed simp

lemma table_len_eq: "table_len tab = length (all_entries tab)"
proof -
  have "foldl (\<lambda>n b. n + length (entries b)) a bs = a + length (concat (map entries bs))" for a and bs :: "'a bucket list"
    by (induction bs arbitrary: a) auto
  then show ?thesis by (simp add: table_len_def all_entries_def)
qed

lemma sample_all_entries: "all_entries sample_tab = [sample_node 1]"
proof -
  have "replicate nBuckets b = replicate 3 b @ b # replicate 13 b" for b :: "((IP \<Rightarrow> nat) \<times> nat) bucket"
    using replicate_add [of 3 14 b] replicate_Suc [of 13 b] by (simp add: nBuckets_def hashBits_def)
  then show ?thesis by (simp add: all_entries_def sample_tab_def list_update_append)
qed

subsection \<open>Properties\<close>

text \<open>
  C22. \<open>findnodeByID\<close> returns the nodes of the table closest to the target, in order of distance, as many
  as asked for or as there are; when live nodes are preferred and there are any, the same among the nodes
  that passed a liveness check.
\<close>

theorem findnodeByID_closest:
  assumes "distcmp_ok L dist" "table_ok L tab" "0 < k"
  shows "nentries (findnodeByID L tab t k preferLive) =
     take k (sort_key (\<lambda>n. dist t (nID n))
       (if preferLive \<and> live_entries tab \<noteq> [] then live_entries tab else all_entries tab))"
  using findnodeByID_sorted [OF assms(1,2), of t k preferLive] assms(3) by simp

theorem findnodeByID_closest_witness:
  "nentries (findnodeByID sample_disc sample_tab [] 4 True) = [sample_node 1]"
proof -
  note all = sample_all_entries
  have "live_entries sample_tab = []" by (simp add: live_entries_def all) (simp add: sample_tab_def)
  then show ?thesis
    using findnodeByID_closest [OF sample_distcmp sample_tab_ok, of 4 "[]" True] by (simp add: all)
qed

text \<open>
  The binary search and the sliding copy of \<open>push\<close> insert the node after all that are not farther, and
  then cut the list to the maximum: a full list loses its farthest node, or stays as it is when the new
  node is the farthest.
\<close>

theorem push_inserts:
  assumes "distcmp_ok L dist" "sorted (map (\<lambda>n. dist (target h) (nID n)) (nentries h))"
    and "length (nentries h) \<le> maxElems"
  shows "nentries (push L h n maxElems) = take maxElems (ins (\<lambda>n. dist (target h) (nID n)) n (nentries h)) \<and>
         sorted (map (\<lambda>n. dist (target h) (nID n)) (nentries (push L h n maxElems)))"
  using push_ins [OF assms] ins_sorted [OF assms(2)] by (simp add: take_map sorted_wrt_take flip: take_map)

theorem push_inserts_witness:
  "nentries (push sample_disc \<lparr>nentries = [sample_node 1, sample_node 5], target = []\<rparr> (sample_node 3) 2)
     = [sample_node 1, sample_node 3]"
proof -
  have key: "id_number (nID (sample_node i)) = Suc (unat i)" for i
    by (simp add: sample_node_def wrapNode_def sample_enode_def)
  show ?thesis
    using push_inserts [OF sample_distcmp, of "\<lparr>nentries = [sample_node 1, sample_node 5], target = []\<rparr>" 2 "sample_node 3"]
    by (simp add: key)
qed

text \<open>
  \<open>ReadRandomNodes\<close> on an initialised table returns nodes of the table, none twice, and fills the
  buffer as far as the table has nodes, whatever the random source yields.
\<close>

theorem ReadRandomNodes_distinct:
  assumes "table_ok L tab" "initDone tab"
  shows "set (ReadRandomNodes tab rnd k) \<subseteq> Node ` set (all_entries tab) \<and>
         distinct (map eID (ReadRandomNodes tab rnd k)) \<and>
         length (ReadRandomNodes tab rnd k) = min k (table_len tab)"
proof -
  define nodes where "nodes = map Node (all_entries tab)"
  have nodes: "concat (map (\<lambda>b. map unwrapNode (entries b)) (buckets tab)) = nodes"
    by (simp add: nodes_def all_entries_def map_concat o_def unwrapNode_def [abs_def])
  define sh where "sh = shuffle rnd 0 (length nodes) nodes"
  have m: "mset sh = mset nodes" by (simp add: sh_def mset_shuffle)
  have "distinct (map eID nodes)" using distinct_all_entries [OF assms(1)] by (simp add: nodes_def o_def)
  moreover have "mset (map eID sh) = mset (map eID nodes)" using m by simp
  ultimately have "distinct (map eID sh)" by (metis mset_eq_imp_distinct_iff)
  moreover have "set sh = set nodes" "length sh = length nodes" using m by (metis mset_eq_setD, metis mset_eq_length)
  moreover have "ReadRandomNodes tab rnd k = take k sh" using assms(2) by (simp add: ReadRandomNodes_def nodes sh_def Let_def)
  ultimately show ?thesis
    using set_take_subset [of k sh] by (auto simp: nodes_def table_len_eq min.commute simp flip: take_map)
qed

theorem ReadRandomNodes_distinct_witness:
  "length (ReadRandomNodes sample_tab (\<lambda>i. 7) 5) = min 5 (table_len sample_tab) \<and>
   distinct (map eID (ReadRandomNodes sample_tab (\<lambda>i. 7) 5))"
proof -
  have "initDone sample_tab" by (simp add: sample_tab_def)
  from ReadRandomNodes_distinct [OF sample_tab_ok this, of "\<lambda>i. 7" 5] show ?thesis by simp
qed

end
