(* ===== verification/Node_Lookup.thy ===== *)
theory Node_Lookup
  imports Table_Queries
begin

text \<open>
  The iterative lookup (\<^verbatim>\<open>pkg/discover/lookup.go\<close>). The lookup runs up to \<open>alpha\<close> query goroutines
  beside its main loop. What the scheduler and the network decide (which goroutine finishes with which
  answer, when the main loop receives, when the context is cancelled) is a list of choices; a function
  that waits consumes it. The theory shows how many queries are under way, that no node is asked twice,
  what the result is, and that every lookup ends.
\<close>

subsection \<open>The state of a lookup\<close>

definition maxFindnodeFailures :: int where "maxFindnodeFailures = 5"

datatype query_error = errClosed | other_error string

definition errLowPort :: string where "errLowPort = ''low port''"
definition errTimeout :: query_error where "errTimeout = other_error ''RPC timeout''"

text \<open>
  \<open>queryfunc\<close> says whether the function is set. \<open>running\<close> are the query goroutines under way with the
  failure count each has read, and \<open>findFails\<close> is the counter of the node database. \<open>started\<close> and
  \<open>received\<close> are history variables that no operation reads: every node ever asked, and every node of
  the replies taken from the channel.
\<close>

record 's lookup =
  ltab :: "'s Table"
  findFails :: "ID \<times> IP \<Rightarrow> int"
  queryfunc :: bool
  replyCh :: "node option list list"
  asked :: "ID set"
  seen :: "ID set"
  result :: nodesByDistance
  replyBuffer :: "node list"
  queries :: int
  running :: "(node \<times> int) list"
  started :: "node list"
  received :: "node option list"

definition newLookup :: "'s Table \<Rightarrow> (ID \<times> IP \<Rightarrow> int) \<Rightarrow> ID \<Rightarrow> 's lookup" where
  "newLookup tab db tgt =
     \<lparr>ltab = tab, findFails = db, queryfunc = True, replyCh = [], asked = {eID (self tab)}, seen = {},
      result = \<lparr>nentries = [], target = tgt\<rparr>, replyBuffer = [], queries = -1, running = [], started = [],
      received = []\<rparr>"

subsection \<open>Starting queries\<close>

fun ask_loop :: "'s lookup \<Rightarrow> node list \<Rightarrow> 's lookup" where
  "ask_loop it [] = it"
| "ask_loop it (n # ns) =
     (if queries it < int alpha
      then ask_loop
        (if nID n \<notin> asked it
         then it\<lparr>asked := insert (nID n) (asked it), queries := queries it + 1,
                 running := running it @ [(n, findFails it (nID n, nIP n))], started := started it @ [n]\<rparr>
         else it) ns
      else it)"

definition startQueries :: "'s disc_lib \<Rightarrow> 's lookup \<Rightarrow> bool \<times> 's lookup" where
  "startQueries L it =
     (if \<not> queryfunc it then (False, it)
      else if queries it = -1
      then (True, it\<lparr>queries := 1,
             replyCh := replyCh it @ [map Some (nentries (findnodeByID L (ltab it) (target (result it)) bucketSize False))]\<rparr>)
      else let it = ask_loop it (nentries (result it)) in (0 < queries it, it))"

subsection \<open>The query goroutine\<close>

text \<open>A nil node in the reply is dereferenced by \<open>addSeenNode\<close>.\<close>

fun add_reply :: "'s disc_lib \<Rightarrow> 's Table \<Rightarrow> int \<Rightarrow> node option list \<Rightarrow> 's Table go" where
  "add_reply L tab now [] = Some tab"
| "add_reply L tab now (None # r) = None"
| "add_reply L tab now (Some n # r) = do { tab \<leftarrow> addSeenNode L tab n now; add_reply L tab now r }"

definition record_failure :: "'s disc_lib \<Rightarrow> 's lookup \<Rightarrow> node \<Rightarrow> int \<Rightarrow> 's lookup go" where
  "record_failure L it n fails =
     (let it = it\<lparr>findFails := (findFails it)((nID n, nIP n) := fails)\<rparr>
      in if fails \<ge> maxFindnodeFailures
         then do {
           len \<leftarrow> bucketLen L (ltab it) (nID n);
           if len \<ge> bucketSize div 2 then do { tab \<leftarrow> delete L (ltab it) n; Some (it\<lparr>ltab := tab\<rparr>) }
           else Some it }
         else Some it)"

definition query ::
  "'s disc_lib \<Rightarrow> 's lookup \<Rightarrow> node \<Rightarrow> int \<Rightarrow> node option list \<Rightarrow> query_error option \<Rightarrow> int \<Rightarrow> 's lookup go" where
  "query L it n fails r err now =
     (if err = Some errClosed then Some (it\<lparr>replyCh := replyCh it @ [[]]\<rparr>)
      else do {
        it \<leftarrow> (if r = [] then record_failure L it n (fails + 1)
               else Some (if fails > 0 then it\<lparr>findFails := (findFails it)((nID n, nIP n) := 0)\<rparr> else it));
        tab \<leftarrow> add_reply L (ltab it) now r;
        Some (it\<lparr>ltab := tab, replyCh := replyCh it @ [r]\<rparr>) })"

subsection \<open>The main loop\<close>

fun receive_nodes :: "'s disc_lib \<Rightarrow> 's lookup \<Rightarrow> node option list \<Rightarrow> 's lookup" where
  "receive_nodes L it [] = it"
| "receive_nodes L it (None # ns) = receive_nodes L it ns"
| "receive_nodes L it (Some n # ns) =
     receive_nodes L
       (if nID n \<notin> seen it
        then it\<lparr>seen := insert (nID n) (seen it), result := push L (result it) n bucketSize,
                replyBuffer := replyBuffer it @ [n]\<rparr>
        else it) ns"

definition receive :: "'s disc_lib \<Rightarrow> 's lookup \<Rightarrow> node option list \<Rightarrow> 's lookup" where
  "receive L it r =
     (let it = receive_nodes L (it\<lparr>replyBuffer := [], received := received it @ r\<rparr>) r
      in it\<lparr>queries := queries it - 1\<rparr>)"

text \<open>
  \<open>Answer i r err now\<close>: goroutine \<open>i\<close> gets \<open>(r, err)\<close> from the query function and finishes. \<open>Receive\<close>: the
  main loop takes a reply. \<open>Cancel\<close>: it sees the closed context.
\<close>

datatype choice = Answer nat "node option list" "query_error option" int | Receive | Cancel

text \<open>A call that waits when the choices are used up is \<open>Waiting\<close>; a choice that cannot happen is \<open>Disabled\<close>.\<close>

datatype 's outcome =
    Waiting "'s lookup"
  | Disabled
  | Panicked
  | Returned bool "'s lookup" "choice list"

definition finish_query ::
  "'s disc_lib \<Rightarrow> 's lookup \<Rightarrow> nat \<Rightarrow> node option list \<Rightarrow> query_error option \<Rightarrow> int \<Rightarrow> 's lookup go" where
  "finish_query L it i r err now =
     query L (it\<lparr>running := take i (running it) @ drop (Suc i) (running it)\<rparr>)
       (fst (running it ! i)) (snd (running it ! i)) r err now"

function shutdown :: "'s disc_lib \<Rightarrow> 's lookup \<Rightarrow> choice list \<Rightarrow> 's outcome" where
  "shutdown L it cs =
     (if queries it > 0
      then (case replyCh it of
              r # rs \<Rightarrow> shutdown L (it\<lparr>replyCh := rs, queries := queries it - 1\<rparr>) cs
            | [] \<Rightarrow>
                (case cs of
                   [] \<Rightarrow> Waiting it
                 | Answer i r err now # cs \<Rightarrow>
                     (if i < length (running it)
                      then case finish_query L it i r err now of None \<Rightarrow> Panicked | Some it \<Rightarrow> shutdown L it cs
                      else Disabled)
                 | _ # cs \<Rightarrow> Disabled))
      else Returned False (it\<lparr>queryfunc := False, replyBuffer := []\<rparr>) cs)"
  by pat_completeness auto

text \<open>After \<open>shutdown\<close> the query function is nil, so \<open>startQueries\<close> ends the loop at once.\<close>

lemma queries_finish_query: "finish_query L it i r err now = Some it' \<Longrightarrow> queries it' = queries it"
  by (auto simp: finish_query_def query_def record_failure_def Let_def split: if_splits bind_splits)

termination shutdown
  by (relation "measure (\<lambda>(L, it, cs). nat (queries it) + length cs)") (auto simp: queries_finish_query)

declare shutdown.simps [simp del]

fun select_loop :: "'s disc_lib \<Rightarrow> 's lookup \<Rightarrow> choice list \<Rightarrow> 's outcome" where
  "select_loop L it [] = Waiting it"
| "select_loop L it (Answer i r err now # cs) =
     (if i < length (running it)
      then case finish_query L it i r err now of None \<Rightarrow> Panicked | Some it \<Rightarrow> select_loop L it cs
      else Disabled)"
| "select_loop L it (Receive # cs) =
     (case replyCh it of
        [] \<Rightarrow> Disabled
      | r # rs \<Rightarrow>
          (let it = receive L (it\<lparr>replyCh := rs\<rparr>) r
           in if replyBuffer it \<noteq> [] then Returned True it cs
              else let (go_on, it) = startQueries L it
                   in if go_on then select_loop L it cs else Returned False it cs))"
| "select_loop L it (Cancel # cs) = shutdown L it cs"

definition advance :: "'s disc_lib \<Rightarrow> 's lookup \<Rightarrow> choice list \<Rightarrow> 's outcome" where
  "advance L it cs =
     (let (go_on, it) = startQueries L it in if go_on then select_loop L it cs else Returned False it cs)"

lemma shutdown_returns:
  "shutdown L it cs = Returned b it' cs' \<Longrightarrow> \<not> b \<and> length cs' \<le> length cs"
  by (induction L it cs rule: shutdown.induct)
    (subst (asm) (3) shutdown.simps, fastforce split: if_splits list.splits choice.splits option.splits)

lemma select_loop_consumes:
  "select_loop L it cs = Returned b it' cs' \<Longrightarrow> length cs' < length cs"
  by (induction L it cs rule: select_loop.induct)
    (auto simp: Let_def less_Suc_eq_le dest: shutdown_returns intro: less_imp_le split: if_splits list.splits option.splits prod.splits)

lemma advance_consumes: "advance L it cs = Returned True it' cs' \<Longrightarrow> length cs' < length cs"
  by (auto simp: advance_def dest: select_loop_consumes split: prod.splits if_splits)

text \<open>\<open>run\<close> calls \<open>advance\<close> until it ends; the nodes it returns are those of the last state.\<close>

function run_loop :: "'s disc_lib \<Rightarrow> 's lookup \<Rightarrow> choice list \<Rightarrow> 's outcome" where
  "run_loop L it cs =
     (case advance L it cs of
        Returned True it cs \<Rightarrow> run_loop L it cs
      | other \<Rightarrow> other)"
  by pat_completeness auto
termination run_loop
  by (relation "measure (\<lambda>(L, it, cs). length cs)") (auto dest: advance_consumes)

declare run_loop.simps [simp del]

definition run :: "'s disc_lib \<Rightarrow> 's lookup \<Rightarrow> choice list \<Rightarrow> enode list go" where
  "run L it cs =
     (case run_loop L it cs of
        Returned _ it _ \<Rightarrow> Some (unwrapNodes (nentries (result it)))
      | _ \<Rightarrow> None)"


subsection \<open>The iterator\<close>

text \<open>
  \<open>cancelled\<close> is that the iterator's context has ended. Between two lookups the iterator keeps the table
  and the database the last one left; \<open>nextLookup\<close> makes a new lookup of them.
\<close>

record 's lookupIterator =
  buffer :: "node list"
  cancelled :: bool
  ilookup :: "'s lookup option"
  itab :: "'s Table"
  idb :: "ID \<times> IP \<Rightarrow> int"

definition newLookupIterator :: "'s Table \<Rightarrow> (ID \<times> IP \<Rightarrow> int) \<Rightarrow> bool \<Rightarrow> 's lookupIterator" where
  "newLookupIterator tab db ctx_done = \<lparr>buffer = [], cancelled = ctx_done, ilookup = None, itab = tab, idb = db\<rparr>"

definition iter_Node :: "'s lookupIterator \<Rightarrow> enode option" where
  "iter_Node it = (if buffer it = [] then None else Some (unwrapNode (hd (buffer it))))"

text \<open>\<open>None\<close>: the rounds or the choices are used up, or the lookup panicked.\<close>

fun Next_loop ::
  "'s disc_lib \<Rightarrow> ('s Table \<Rightarrow> (ID \<times> IP \<Rightarrow> int) \<Rightarrow> 's lookup) \<Rightarrow> nat \<Rightarrow> 's lookupIterator \<Rightarrow> choice list \<Rightarrow>
   (bool \<times> 's lookupIterator \<times> choice list) option" where
  "Next_loop L nextLookup 0 it cs = None"
| "Next_loop L nextLookup (Suc k) it cs =
     (if buffer it \<noteq> [] then Some (True, it, cs)
      else if cancelled it then Some (False, it\<lparr>ilookup := None, buffer := []\<rparr>, cs)
      else case ilookup it of
        None \<Rightarrow> Next_loop L nextLookup k (it\<lparr>ilookup := Some (nextLookup (itab it) (idb it))\<rparr>) cs
      | Some lk \<Rightarrow>
          (case advance L lk cs of
             Returned found_new lk' cs' \<Rightarrow>
               Next_loop L nextLookup k
                 (it\<lparr>ilookup := (if found_new then Some lk' else None), itab := ltab lk', idb := findFails lk',
                     buffer := (if found_new then replyBuffer lk' else []),
                     cancelled := Cancel \<in> set (take (length cs - length cs') cs)\<rparr>) cs'
           | _ \<Rightarrow> None))"

definition Next ::
  "'s disc_lib \<Rightarrow> ('s Table \<Rightarrow> (ID \<times> IP \<Rightarrow> int) \<Rightarrow> 's lookup) \<Rightarrow> nat \<Rightarrow> 's lookupIterator \<Rightarrow> choice list \<Rightarrow>
   (bool \<times> 's lookupIterator \<times> choice list) option" where
  "Next L nextLookup k it cs = Next_loop L nextLookup k (it\<lparr>buffer := tl (buffer it)\<rparr>) cs"

definition iter_Close :: "'s lookupIterator \<Rightarrow> 's lookupIterator" where
  "iter_Close it = it\<lparr>cancelled := True\<rparr>"

subsection \<open>Invariants of a lookup\<close>

text \<open>
  A predicate kept by each step of the main loop and of the goroutines holds of every state in which a
  call waits or returns, whatever the schedule; \<open>A\<close> restricts the answers.
\<close>

fun choice_sat :: "(node option list \<Rightarrow> bool) \<Rightarrow> choice \<Rightarrow> bool" where
  "choice_sat A (Answer i r err now) = A r"
| "choice_sat A c = True"

primrec outcome_sat :: "('s lookup \<Rightarrow> bool) \<Rightarrow> 's outcome \<Rightarrow> bool" where
  "outcome_sat P (Waiting it) = P it"
| "outcome_sat P Disabled = True"
| "outcome_sat P Panicked = False"
| "outcome_sat P (Returned b it cs) = P it"

lemma shutdown_suffix: "shutdown L it cs = Returned b it' cs' \<Longrightarrow> set cs' \<subseteq> set cs"
  by (induction L it cs rule: shutdown.induct)
    (subst (asm) (3) shutdown.simps, fastforce split: if_splits list.splits choice.splits option.splits)

lemma select_loop_suffix: "select_loop L it cs = Returned b it' cs' \<Longrightarrow> set cs' \<subseteq> set cs"
  by (induction L it cs rule: select_loop.induct)
    (fastforce simp: Let_def dest: shutdown_suffix split: if_splits list.splits option.splits prod.splits)+

lemma advance_suffix: "advance L it cs = Returned b it' cs' \<Longrightarrow> set cs' \<subseteq> set cs"
  by (auto simp: advance_def dest: select_loop_suffix split: prod.splits if_splits)

locale lookup_invariant =
  fixes L :: "'s disc_lib"
    and P :: "'s lookup \<Rightarrow> bool"
    and A :: "node option list \<Rightarrow> bool"
  assumes P_query: "P it \<Longrightarrow> i < length (running it) \<Longrightarrow> A r \<Longrightarrow>
      \<exists>it'. finish_query L it i r err now = Some it' \<and> P it'"
    and P_receive: "P it \<Longrightarrow> replyCh it = r # rs \<Longrightarrow> P (receive L (it\<lparr>replyCh := rs\<rparr>) r)"
    and P_start: "P it \<Longrightarrow> P (snd (startQueries L it))"
    and P_drop: "P it \<Longrightarrow> replyCh it = r # rs \<Longrightarrow> P (it\<lparr>replyCh := rs, queries := queries it - 1\<rparr>)"
    and P_nil: "P it \<Longrightarrow> P (it\<lparr>queryfunc := False, replyBuffer := []\<rparr>)"
begin

lemma shutdown_sat: "P it \<Longrightarrow> list_all (choice_sat A) cs \<Longrightarrow> outcome_sat P (shutdown L it cs)"
proof (induction "nat (queries it) + length cs" arbitrary: it cs rule: less_induct)
  case less
  show ?case
  proof (cases "queries it > 0")
    case False
    then show ?thesis using less.prems by (simp add: shutdown.simps [of L it] P_nil)
  next
    case True
    show ?thesis
    proof (cases "replyCh it")
      case (Cons r rs)
      then have "outcome_sat P (shutdown L (it\<lparr>replyCh := rs, queries := queries it - 1\<rparr>) cs)"
        using less.prems P_drop True by (intro less.hyps) auto
      then show ?thesis using True Cons by (simp add: shutdown.simps [of L it])
    next
      case Nil
      show ?thesis
      proof (cases cs)
        case (Cons c ds)
        show ?thesis
        proof (cases c)
          case (Answer i r err now)
          show ?thesis
          proof (cases "i < length (running it)")
            case i: True
            obtain it' where it': "finish_query L it i r err now = Some it'" "P it'"
              using P_query [OF less.prems(1) i, of r err now] less.prems(2) Cons Answer by auto
            then have "outcome_sat P (shutdown L it' ds)"
              using less.prems(2) Cons queries_finish_query [OF it'(1)] by (intro less.hyps) auto
            then show ?thesis using True Nil Cons Answer i it' by (simp add: shutdown.simps [of L it])
          qed (use True Nil Cons Answer in \<open>simp add: shutdown.simps [of L it]\<close>)
        qed (use True Nil Cons in \<open>simp_all add: shutdown.simps [of L it]\<close>)
      qed (use True Nil less.prems in \<open>simp add: shutdown.simps [of L it]\<close>)
    qed
  qed
qed

lemma select_loop_sat: "P it \<Longrightarrow> list_all (choice_sat A) cs \<Longrightarrow> outcome_sat P (select_loop L it cs)"
proof (induction cs arbitrary: it)
  case (Cons c cs)
  show ?case
  proof (cases c)
    case (Answer i r err now)
    show ?thesis
    proof (cases "i < length (running it)")
      case True
      then obtain it' where "finish_query L it i r err now = Some it'" "P it'"
        using P_query [OF Cons.prems(1) True, of r err now] Cons.prems(2) Answer by auto
      then show ?thesis using Cons True Answer by simp
    qed (simp add: Answer)
  next
    case Receive
    show ?thesis
    proof (cases "replyCh it")
      case (Cons r rs)
      note P = P_receive [OF \<open>P it\<close> Cons] P_start [OF P_receive [OF \<open>P it\<close> Cons]]
      show ?thesis
        using P Cons.prems Cons.IH [OF P(2)] Receive Cons by (simp add: Let_def case_prod_beta)
    qed (simp add: Receive)
  next
    case Cancel
    then show ?thesis using Cons.prems shutdown_sat by simp
  qed
qed simp

lemma advance_sat: "P it \<Longrightarrow> list_all (choice_sat A) cs \<Longrightarrow> outcome_sat P (advance L it cs)"
  using select_loop_sat [OF P_start] P_start by (simp add: advance_def case_prod_beta)

lemma run_loop_sat: "P it \<Longrightarrow> list_all (choice_sat A) cs \<Longrightarrow> outcome_sat P (run_loop L it cs)"
proof (induction "length cs" arbitrary: it cs rule: less_induct)
  case less
  note P = advance_sat [OF less.prems]
  show ?case
  proof (cases "advance L it cs")
    case (Returned b it' cs')
    show ?thesis
    proof (cases b)
      case True
      have "list_all (choice_sat A) cs'"
        using less.prems(2) advance_suffix [OF Returned] by (auto simp: list_all_iff)
      then have "outcome_sat P (run_loop L it' cs')"
        using P Returned True advance_consumes [of L it cs] by (intro less.hyps) auto
      then show ?thesis using Returned True by (simp add: run_loop.simps [of L it])
    qed (use P Returned in \<open>simp add: run_loop.simps [of L it]\<close>)
  qed (use P in \<open>simp_all add: run_loop.simps [of L it]\<close>)
qed

end

subsection \<open>What a reply adds\<close>

text \<open>The nodes of a reply whose identity is new, in order.\<close>

fun news :: "ID set \<Rightarrow> node option list \<Rightarrow> node list" where
  "news S [] = []"
| "news S (None # r) = news S r"
| "news S (Some n # r) = (if nID n \<in> S then news S r else n # news (insert (nID n) S) r)"

lemma news_append: "news S (a @ b) = news S a @ news (S \<union> nID ` set (news S a)) b"
  by (induction S a rule: news.induct) auto

lemma news_fresh: "distinct (map nID (news S r)) \<and> nID ` set (news S r) \<inter> S = {}"
  by (induction S r rule: news.induct) auto

lemma news_ids: "nID ` set (news S r) = {nID n | n. Some n \<in> set r} - S"
  by (induction S r rule: news.induct) (auto split: if_splits)

lemma news_subset: "n \<in> set (news S r) \<Longrightarrow> Some n \<in> set r"
  by (induction S r rule: news.induct) (auto split: if_splits)

abbreviation push_list :: "'s disc_lib \<Rightarrow> nodesByDistance \<Rightarrow> node list \<Rightarrow> nodesByDistance" where
  "push_list L h ns \<equiv> foldl (\<lambda>h n. push L h n bucketSize) h ns"

lemma receive_nodes_news:
  "receive_nodes L it r =
     it\<lparr>seen := seen it \<union> nID ` set (news (seen it) r), result := push_list L (result it) (news (seen it) r),
        replyBuffer := replyBuffer it @ news (seen it) r\<rparr>"
  by (induction L it r rule: receive_nodes.induct) (simp_all)

lemma receive_news:
  "receive L it r =
     it\<lparr>seen := seen it \<union> nID ` set (news (seen it) r), result := push_list L (result it) (news (seen it) r),
        replyBuffer := news (seen it) r, received := received it @ r, queries := queries it - 1\<rparr>"
  by (simp add: receive_def receive_nodes_news Let_def)

lemma target_push [simp]: "target (push L h n mx) = target h"
  by (simp add: push_def Let_def)

lemma target_push_list [simp]: "target (push_list L h ns) = target h"
  by (induction ns arbitrary: h) simp_all

definition found :: "'s lookup \<Rightarrow> node list" where
  "found it = news {} (received it)"

subsection \<open>The invariant\<close>

definition queries_ok :: "'s lookup \<Rightarrow> bool" where
  "queries_ok it \<longleftrightarrow>
     (queries it = -1 \<and> replyCh it = [] \<and> running it = [] \<and> started it = []) \<or>
     (queries it \<le> int alpha \<and> queries it = int (length (replyCh it)) + int (length (running it)))"

definition asked_ok :: "'s lookup \<Rightarrow> bool" where
  "asked_ok it \<longleftrightarrow>
     asked it = insert (eID (self (ltab it))) (nID ` set (started it)) \<and>
     distinct (map nID (started it)) \<and> eID (self (ltab it)) \<notin> nID ` set (started it) \<and>
     fst ` set (running it) \<subseteq> set (started it) \<and> set (started it) \<subseteq> set (found it)"

definition result_ok :: "'s disc_lib \<Rightarrow> 's lookup \<Rightarrow> bool" where
  "result_ok L it \<longleftrightarrow>
     seen it = nID ` set (found it) \<and>
     result it = push_list L \<lparr>nentries = [], target = target (result it)\<rparr> (found it)"

definition lookup_ok :: "'s disc_lib \<Rightarrow> 's lookup \<Rightarrow> bool" where
  "lookup_ok L it \<longleftrightarrow> queries_ok it \<and> asked_ok it \<and> result_ok L it \<and> table_ok L (ltab it)"

lemma add_reply_ok:
  assumes L: "logdist_ok L" and r: "None \<notin> set r"
  shows "table_ok L tab \<Longrightarrow> \<exists>tab'. add_reply L tab now r = Some tab' \<and> table_ok L tab' \<and> self tab' = self tab"
  using r
proof (induction r arbitrary: tab)
  case (Cons o' r)
  then obtain n where n: "o' = Some n" by (cases o') auto
  obtain t where t: "addSeenNode L tab n now = Some t" "table_ok L t" "self t = self tab"
    using addSeenNode_ok [OF Cons.prems(1) L] by blast
  then show ?case using Cons.IH [OF t(2)] Cons.prems(2) n by auto
qed simp

lemma record_failure_ok:
  assumes "logdist_ok L" "table_ok L (ltab it)"
  shows "\<exists>tab db. record_failure L it n fails = Some (it\<lparr>ltab := tab, findFails := db\<rparr>) \<and>
           table_ok L tab \<and> self tab = self (ltab it)"
proof -
  define db where "db = (findFails it)((nID n, nIP n) := fails)"
  define it' where "it' = it\<lparr>findFails := db\<rparr>"
  obtain bi where bi: "bucket_index L (ltab it) (nID n) = Some bi" using bucket_index_total [OF assms(1)] by blast
  obtain t where t: "delete L (ltab it) n = Some t" "table_ok L t" "self t = self (ltab it)"
    using delete_ok [OF assms(2,1)] by blast
  have same: "it' = it\<lparr>ltab := ltab it, findFails := db\<rparr>" by (simp add: it'_def)
  have "record_failure L it n fails = Some it' \<or> record_failure L it n fails = Some (it'\<lparr>ltab := t\<rparr>)"
    using bi t by (auto simp: record_failure_def it'_def db_def bucketLen_def Let_def)
  then show ?thesis
  proof
    assume "record_failure L it n fails = Some it'"
    then show ?thesis using assms(2) same by blast
  next
    assume "record_failure L it n fails = Some (it'\<lparr>ltab := t\<rparr>)"
    moreover have "it'\<lparr>ltab := t\<rparr> = it\<lparr>ltab := t, findFails := db\<rparr>" by (simp add: it'_def)
    ultimately show ?thesis using t(2,3) by metis
  qed
qed

text \<open>What a query goroutine changes: the table, the database, its own entry and the channel.\<close>

lemma finish_query_frame:
  assumes L: "logdist_ok L" and r: "None \<notin> set r" and ok: "table_ok L (ltab it)"
  shows "\<exists>tab db. finish_query L it i r err now =
       Some (it\<lparr>ltab := tab, findFails := db, replyCh := replyCh it @ [if err = Some errClosed then [] else r],
                running := take i (running it) @ drop (Suc i) (running it)\<rparr>) \<and>
     table_ok L tab \<and> self tab = self (ltab it)"
proof -
  define it0 where "it0 = it\<lparr>running := take i (running it) @ drop (Suc i) (running it)\<rparr>"
  define n where "n = fst (running it ! i)"
  define fails where "fails = snd (running it ! i)"
  have q: "finish_query L it i r err now = query L it0 n fails r err now"
    by (simp add: finish_query_def it0_def n_def fails_def)
  have ok0: "table_ok L (ltab it0)" using ok by (simp add: it0_def)
  show ?thesis
  proof (cases "err = Some errClosed")
    case True
    then have "finish_query L it i r err now =
        Some (it\<lparr>ltab := ltab it, findFails := findFails it, replyCh := replyCh it @ [[]],
                running := take i (running it) @ drop (Suc i) (running it)\<rparr>)"
      unfolding q query_def by (simp add: it0_def)
    then show ?thesis using True ok by (intro exI [of _ "ltab it"] exI [of _ "findFails it"]) simp
  next
    case False
    define first where "first = (if r = [] then record_failure L it0 n (fails + 1)
      else Some (if fails > 0 then it0\<lparr>findFails := (findFails it0)((nID n, nIP n) := 0)\<rparr> else it0))"
    obtain t db where t: "first = Some (it0\<lparr>ltab := t, findFails := db\<rparr>)" "table_ok L t" "self t = self (ltab it)"
    proof (cases "r = []")
      case True
      then show ?thesis using record_failure_ok [OF L ok0, of n "fails + 1"] that by (auto simp: first_def it0_def)
    next
      case r: False
      define db where "db = (if fails > 0 then (findFails it0)((nID n, nIP n) := 0) else findFails it0)"
      have "first = Some (it0\<lparr>ltab := ltab it0, findFails := db\<rparr>)" using r by (simp add: first_def db_def)
      then show ?thesis using that [of db "ltab it0"] ok0 by (simp add: it0_def)
    qed
    obtain t' where t': "add_reply L t now r = Some t'" "table_ok L t'" "self t' = self t"
      using add_reply_ok [OF L r t(2)] by blast
    have "query L it0 n fails r err now =
        Option.bind first (\<lambda>it. Option.bind (add_reply L (ltab it) now r)
          (\<lambda>tab. Some (it\<lparr>ltab := tab, replyCh := replyCh it @ [r]\<rparr>)))"
      using False by (simp add: query_def first_def)
    then have "finish_query L it i r err now =
        Some (it\<lparr>ltab := t', findFails := db, replyCh := replyCh it @ [r],
                running := take i (running it) @ drop (Suc i) (running it)\<rparr>)"
      unfolding q by (simp add: t(1) t'(1) it0_def)
    then show ?thesis using False t' t(3) by auto
  qed
qed

lemma nentries_result:
  assumes d: "distcmp_ok L dist" and ok: "result_ok L it"
  shows "nentries (result it) = take bucketSize (sort_key (\<lambda>n. dist (target (result it)) (nID n)) (found it))"
proof -
  have "distinct (map (\<lambda>n. dist (target (result it)) (nID n)) (found it))"
    using news_fresh [of "{}" "received it"] by (intro distinct_dist [OF d]) (simp add: found_def)
  moreover have "nentries (push_list L \<lparr>nentries = [], target = target (result it)\<rparr> (found it))
      = take bucketSize (ins_all (\<lambda>n. dist (target (result it)) (nID n)) (found it))"
    using push_all [OF d, of bucketSize "target (result it)" "found it"] by simp
  ultimately show ?thesis using ok ins_all_sort by (metis result_ok_def)
qed

lemma set_push_subset: "set (nentries (push L h n mx)) \<subseteq> insert n (set (nentries h))"
proof -
  define es where "es = (if length (nentries h) < mx then nentries h @ [n] else nentries h)"
  define ix where "ix = go_search (length (nentries h)) (\<lambda>i. DistCmp L (target h) (nID (nentries h ! i)) (nID n) > 0)"
  have "nentries (push L h n mx) = (if ix = length es then es else take ix es @ n # butlast (drop ix es))"
    by (simp add: push_def Let_def es_def ix_def)
  moreover have "set es \<subseteq> insert n (set (nentries h))" by (auto simp: es_def)
  ultimately show ?thesis by (auto split: if_splits dest: in_set_takeD in_set_butlastD in_set_dropD)
qed

lemma set_push_list_subset: "set (nentries (push_list L h ns)) \<subseteq> set (nentries h) \<union> set ns"
proof (induction ns arbitrary: h)
  case (Cons n ns)
  then show ?case using set_push_subset [of L h n bucketSize] by fastforce
qed simp

lemma set_result: "result_ok L it \<Longrightarrow> set (nentries (result it)) \<subseteq> set (found it)"
  using set_push_list_subset [of L "\<lparr>nentries = [], target = target (result it)\<rparr>" "found it"]
  by (simp add: result_ok_def)

text \<open>The loop over the result asks the closest nodes that are still to be asked.\<close>

definition ask :: "'s lookup \<Rightarrow> node list \<Rightarrow> 's lookup" where
  "ask it ns = it\<lparr>asked := asked it \<union> nID ` set ns, queries := queries it + int (length ns),
     running := running it @ map (\<lambda>n. (n, findFails it (nID n, nIP n))) ns, started := started it @ ns\<rparr>"

lemma ask_loop_asks:
  "\<exists>ns. ask_loop it es = ask it ns \<and> set ns \<subseteq> set es \<and> distinct (map nID ns) \<and> nID ` set ns \<inter> asked it = {} \<and>
     queries it + int (length ns) \<le> max (queries it) (int alpha) \<and>
     (queries it + int (length ns) < int alpha \<longrightarrow> nID ` set es \<subseteq> asked it \<union> nID ` set ns)"
proof (induction es arbitrary: it)
  case Nil
  show ?case by (rule exI [of _ "[]"]) (simp add: ask_def)
next
  case (Cons e es)
  show ?case
  proof (cases "queries it < int alpha")
    case False
    then show ?thesis by (intro exI [of _ "[]"]) (simp add: ask_def)
  next
    case q: True
    show ?thesis
    proof (cases "nID e \<in> asked it")
      case True
      then show ?thesis using Cons.IH [of it] q by auto
    next
      case new: False
      have one: "ask_loop it (e # es) = ask_loop (ask it [e]) es"
        using q new by (simp add: ask_def)
      obtain ns where ns: "ask_loop (ask it [e]) es = ask (ask it [e]) ns" "set ns \<subseteq> set es" "distinct (map nID ns)"
        "nID ` set ns \<inter> asked (ask it [e]) = {}"
        "queries (ask it [e]) + int (length ns) \<le> max (queries (ask it [e])) (int alpha)"
        "queries (ask it [e]) + int (length ns) < int alpha \<longrightarrow> nID ` set es \<subseteq> asked (ask it [e]) \<union> nID ` set ns"
        using Cons.IH [of "ask it [e]"] by blast
      have "ask (ask it [e]) ns = ask it (e # ns)" by (simp add: ask_def)
      then show ?thesis
        using one ns new q by (intro exI [of _ "e # ns"]) (auto simp: ask_def)
    qed
  qed
qed

lemma found_more [simp]:
  "found (it\<lparr>ltab := a\<rparr>) = found it" "found (it\<lparr>findFails := b\<rparr>) = found it" "found (it\<lparr>queryfunc := c\<rparr>) = found it"
  "found (it\<lparr>replyCh := d\<rparr>) = found it" "found (it\<lparr>asked := e\<rparr>) = found it" "found (it\<lparr>queries := f\<rparr>) = found it"
  "found (it\<lparr>running := g\<rparr>) = found it" "found (it\<lparr>started := h\<rparr>) = found it" "found (it\<lparr>replyBuffer := j\<rparr>) = found it"
  "found (it\<lparr>seen := k\<rparr>) = found it" "found (it\<lparr>result := l\<rparr>) = found it" 
  by (simp_all add: found_def)

lemmas lookup_ok_defs = lookup_ok_def queries_ok_def asked_ok_def result_ok_def

lemma ask_ok:
  assumes ok: "lookup_ok L it" and q: "0 \<le> queries it"
  shows "lookup_ok L (ask_loop it (nentries (result it)))"
proof -
  obtain ns where ns: "ask_loop it (nentries (result it)) = ask it ns" "set ns \<subseteq> set (nentries (result it))"
    "distinct (map nID ns)" "nID ` set ns \<inter> asked it = {}"
    "queries it + int (length ns) \<le> max (queries it) (int alpha)"
    using ask_loop_asks [of it "nentries (result it)"] by blast
  have "set ns \<subseteq> set (found it)" using ns(2) set_result ok by (auto simp: lookup_ok_def)
  then show ?thesis
    using ok q ns(3-5) unfolding ns(1) by (auto simp: lookup_ok_defs ask_def image_Un)
qed

lemma start_ok: "lookup_ok L it \<Longrightarrow> lookup_ok L (snd (startQueries L it))"
proof -
  assume ok: "lookup_ok L it"
  have "queries it = -1 \<or> 0 \<le> queries it" using ok by (auto simp: lookup_ok_def queries_ok_def)
  then consider "\<not> queryfunc it" | "queryfunc it" "queries it = -1" | "queryfunc it" "0 \<le> queries it" "queries it \<noteq> -1"
    by force
  then show ?thesis
  proof cases
    case 2
    then show ?thesis using ok by (simp add: startQueries_def lookup_ok_defs alpha_def)
  next
    case 3
    then show ?thesis using ask_ok [OF ok] by (simp add: startQueries_def Let_def)
  qed (simp add: startQueries_def ok)
qed

lemma finish_ok:
  assumes ok: "lookup_ok L it" and i: "i < length (running it)" and L: "logdist_ok L" and r: "None \<notin> set r"
  shows "\<exists>it'. finish_query L it i r err now = Some it' \<and> lookup_ok L it'"
proof -
  have t: "table_ok L (ltab it)" using ok by (simp add: lookup_ok_def)
  obtain tab db where f: "finish_query L it i r err now =
       Some (it\<lparr>ltab := tab, findFails := db, replyCh := replyCh it @ [if err = Some errClosed then [] else r],
                running := take i (running it) @ drop (Suc i) (running it)\<rparr>)" "table_ok L tab" "self tab = self (ltab it)"
    using finish_query_frame [OF L r t] by blast
  have "fst ` set (take i (running it) @ drop (Suc i) (running it)) \<subseteq> fst ` set (running it)"
    by (rule image_mono) (auto dest: in_set_takeD in_set_dropD)
  then have "fst ` set (take i (running it) @ drop (Suc i) (running it)) \<subseteq> set (started it)"
    by (rule subset_trans) (use ok in \<open>simp add: lookup_ok_def asked_ok_def\<close>)
  then show ?thesis
    using f ok i unfolding lookup_ok_defs by fastforce
qed

lemma receive_ok:
  assumes ok: "lookup_ok L it" and r: "replyCh it = r # rs"
  shows "lookup_ok L (receive L (it\<lparr>replyCh := rs\<rparr>) r)"
proof -
  have s: "seen it = nID ` set (found it)" using ok by (simp add: lookup_ok_defs)
  have f: "news {} (received it @ r) = found it @ news (seen it) r"
    by (simp add: news_append found_def [symmetric] s)
  have res: "push_list L (result it) ns = push_list L \<lparr>nentries = [], target = target (result it)\<rparr> (found it @ ns)" for ns
    using ok by (simp add: lookup_ok_defs)
  define it' where "it' = receive L (it\<lparr>replyCh := rs\<rparr>) r"
  note it' = it'_def [unfolded receive_news, simplified]
  have f': "found it' = found it @ news (seen it) r" unfolding found_def [of it'] by (simp add: it' f)
  have "queries_ok it'" using ok r by (auto simp: it' lookup_ok_def queries_ok_def)
  moreover have "asked_ok it'" using ok f' by (auto simp: lookup_ok_def asked_ok_def) (auto simp: it')
  moreover have "result_ok L it'" unfolding result_ok_def f' by (simp add: it' s res image_Un)
  moreover have "table_ok L (ltab it')" using ok by (simp add: it' lookup_ok_def)
  ultimately show ?thesis by (simp add: lookup_ok_def it'_def)
qed

lemma drop_ok: "lookup_ok L it \<Longrightarrow> replyCh it = r # rs \<Longrightarrow> lookup_ok L (it\<lparr>replyCh := rs, queries := queries it - 1\<rparr>)"
  unfolding lookup_ok_defs by auto

lemma nil_ok: "lookup_ok L it \<Longrightarrow> lookup_ok L (it\<lparr>queryfunc := False, replyBuffer := []\<rparr>)"
  unfolding lookup_ok_defs by auto

lemma newLookup_ok: "table_ok L tab \<Longrightarrow> lookup_ok L (newLookup tab db t)"
  by (simp add: newLookup_def lookup_ok_defs found_def)

text \<open>
  The nodes that can turn up are those of a set \<open>U\<close>: the table's own, before the first query, and those
  of the answers.
\<close>

definition reply_in :: "ID set \<Rightarrow> node option list \<Rightarrow> bool" where
  "reply_in U r \<longleftrightarrow> None \<notin> set r \<and> (\<forall>n. Some n \<in> set r \<longrightarrow> nID n \<in> U)"

definition within :: "ID set \<Rightarrow> 's lookup \<Rightarrow> bool" where
  "within U it \<longleftrightarrow> (\<forall>r \<in> set (replyCh it). reply_in U r) \<and> nID ` set (found it) \<subseteq> U \<and>
     (queries it = -1 \<longrightarrow> nID ` set (all_entries (ltab it)) \<subseteq> U)"

lemma findnode_subset: "set (nentries (findnodeByID L tab t k False)) \<subseteq> set (all_entries tab)"
proof -
  have "set (nentries (foldl (\<lambda>h n. push L h n k) h ns)) \<subseteq> set (nentries h) \<union> set ns" for h ns
  proof (induction ns arbitrary: h)
    case (Cons n ns)
    then show ?case using set_push_subset [of L h n k] by fastforce
  qed simp
  from this [of "\<lparr>nentries = [], target = t\<rparr>" "all_entries tab"] show ?thesis
    unfolding findnodeByID_def Let_def findnode_fold by (simp add: all_entries_def)
qed

definition found_in :: "'s disc_lib \<Rightarrow> ID set \<Rightarrow> ID \<Rightarrow> 's lookup \<Rightarrow> bool" where
  "found_in L U t it \<longleftrightarrow> lookup_ok L it \<and> within U it \<and> target (result it) = t"

lemma target_start [simp]: "target (result (snd (startQueries L it))) = target (result it)"
proof -
  obtain ns where "ask_loop it (nentries (result it)) = ask it ns" using ask_loop_asks by blast
  then show ?thesis by (simp add: startQueries_def Let_def ask_def)
qed

lemma within_start:
  assumes P: "found_in L U t it"
  shows "within U (snd (startQueries L it))"
proof (cases "queryfunc it \<and> queries it = -1")
  case True
  have "\<forall>n. Some n \<in> set (map Some (nentries (findnodeByID L (ltab it) (target (result it)) bucketSize False))) \<longrightarrow> nID n \<in> U"
    using findnode_subset [of L "ltab it" "target (result it)" bucketSize] P True
    by (auto simp: found_in_def within_def) blast
  then show ?thesis using P True by (auto simp: found_in_def startQueries_def within_def reply_in_def)
next
  case False
  obtain ns where "ask_loop it (nentries (result it)) = ask it ns" using ask_loop_asks by blast
  moreover have "queries it = -1 \<or> 0 \<le> queries it" using P by (auto simp: found_in_def lookup_ok_def queries_ok_def)
  ultimately show ?thesis using P False by (auto simp: found_in_def startQueries_def within_def ask_def Let_def)
qed

interpretation lookups: lookup_invariant L "found_in L U t" "\<lambda>r. logdist_ok L \<and> reply_in U r" for L :: "'s disc_lib" and U t
proof
  fix it :: "'s lookup" and i r err now
  assume P: "found_in L U t it" and i: "i < length (running it)" and A: "logdist_ok L \<and> reply_in U r"
  have t: "table_ok L (ltab it)" using P by (simp add: found_in_def lookup_ok_def)
  have ok: "lookup_ok L it" using P by (simp add: found_in_def)
  have r: "None \<notin> set r" using A by (simp add: reply_in_def)
  obtain it' where it': "finish_query L it i r err now = Some it'" "lookup_ok L it'"
    using finish_ok [OF ok i _ r] A by blast
  have "queries it \<noteq> -1" using ok i by (auto simp: lookup_ok_def queries_ok_def)
  then have "within U it' \<and> target (result it') = t"
    using finish_query_frame [OF _ r t, of i err now] it'(1) A P
    by (auto simp: found_in_def within_def reply_in_def split: if_splits)
  then show "\<exists>it'. finish_query L it i r err now = Some it' \<and> found_in L U t it'"
    using it' by (auto simp: found_in_def)
next
  fix it :: "'s lookup" and r rs
  assume P: "found_in L U t it" and r: "replyCh it = r # rs"
  have ok: "lookup_ok L it" using P by (simp add: found_in_def)
  have "queries it \<noteq> 0" using ok r by (auto simp: lookup_ok_def queries_ok_def)
  moreover have "news {} (received it @ r) = found it @ news (nID ` set (found it)) r"
    by (simp add: news_append found_def)
  moreover have "nID ` set (news S r) \<subseteq> U" for S
    using P r by (auto simp: found_in_def within_def reply_in_def dest: news_subset)
  moreover have "found (receive L (it\<lparr>replyCh := rs\<rparr>) r) = news {} (received it @ r)"
    unfolding found_def receive_news by simp
  ultimately have "within U (receive L (it\<lparr>replyCh := rs\<rparr>) r)"
    using P r by (auto simp: found_in_def within_def) (auto simp: receive_news)
  then show "found_in L U t (receive L (it\<lparr>replyCh := rs\<rparr>) r)"
    using receive_ok [OF ok r] P by (simp add: found_in_def receive_news)
next
  fix it :: "'s lookup"
  assume P: "found_in L U t it"
  then show "found_in L U t (snd (startQueries L it))"
    using start_ok [of L it] within_start [OF P] by (simp add: found_in_def)
next
  fix it :: "'s lookup" and r rs
  assume P: "found_in L U t it" and r: "replyCh it = r # rs"
  have "queries it \<noteq> 0" using P r by (auto simp: found_in_def lookup_ok_def queries_ok_def)
  then have "within U (it\<lparr>replyCh := rs, queries := queries it - 1\<rparr>)"
    using P r by (auto simp: found_in_def within_def)
  then show "found_in L U t (it\<lparr>replyCh := rs, queries := queries it - 1\<rparr>)"
    using P r by (simp add: found_in_def drop_ok)
next
  fix it :: "'s lookup"
  assume "found_in L U t it"
  then show "found_in L U t (it\<lparr>queryfunc := False, replyBuffer := []\<rparr>)"
    by (auto simp: found_in_def nil_ok within_def)
qed

subsection \<open>Every lookup ends\<close>

text \<open>
  Every choice uses up work: a node still to be asked counts three, a running query two and a waiting
  reply one. Cancellation is the only choice that does not, and it is made once.
\<close>

definition work :: "ID set \<Rightarrow> 's lookup \<Rightarrow> nat" where
  "work U it = 3 * card (U - asked it) + 2 * length (running it) + length (replyCh it) + (if queries it = -1 then 2 else 0)"

lemma work_start:
  assumes P: "found_in L U t it" and U: "finite U"
  shows "work U (snd (startQueries L it)) \<le> work U it"
proof (cases "queryfunc it \<and> queries it \<noteq> -1")
  case False
  then show ?thesis by (auto simp: startQueries_def work_def)
next
  case True
  obtain ns where ns: "ask_loop it (nentries (result it)) = ask it ns" "set ns \<subseteq> set (nentries (result it))"
    "distinct (map nID ns)" "nID ` set ns \<inter> asked it = {}"
    using ask_loop_asks [of it "nentries (result it)"] by blast
  have "set (nentries (result it)) \<subseteq> set (found it)" using P set_result by (auto simp: found_in_def lookup_ok_def)
  moreover have "nID ` set (found it) \<subseteq> U" using P by (simp add: found_in_def within_def)
  ultimately have "nID ` set ns \<subseteq> U" using ns(2) by blast
  then have "nID ` set ns \<subseteq> U - asked it" using ns(4) by blast
  then have "card (U - asked it - nID ` set ns) = card (U - asked it) - length ns"
    and "length ns \<le> card (U - asked it)"
    using ns(3) U card_mono [of "U - asked it" "nID ` set ns"] distinct_card [of "map nID ns"]
    by (simp_all add: card_Diff_subset)
  moreover have "U - (asked it \<union> nID ` set ns) = U - asked it - nID ` set ns" by blast
  moreover have "0 \<le> queries it" using P True by (auto simp: found_in_def lookup_ok_def queries_ok_def)
  ultimately show ?thesis using True ns(1) by (simp add: startQueries_def Let_def work_def ask_def)
qed

lemma work_finish:
  assumes "finish_query L it i r err now = Some it'" "i < length (running it)" "found_in L U t it" "logdist_ok L" "None \<notin> set r"
  shows "Suc (work U it') = work U it"
  using finish_query_frame [OF assms(4,5), of it i err now] assms(1-3)
  by (auto simp: work_def found_in_def lookup_ok_def)

lemma work_receive:
  assumes "found_in L U t it" "replyCh it = r # rs"
  shows "Suc (work U (receive L (it\<lparr>replyCh := rs\<rparr>) r)) = work U it"
  using assms by (auto simp: work_def receive_news found_in_def lookup_ok_def queries_ok_def)

lemma work_drop:
  assumes "found_in L U t it" "replyCh it = r # rs"
  shows "Suc (work U (it\<lparr>replyCh := rs, queries := queries it - 1\<rparr>)) = work U it"
  using assms by (auto simp: work_def found_in_def lookup_ok_def queries_ok_def)


lemma shutdown_waits:
  assumes L: "logdist_ok L"
  shows "found_in L U t it \<Longrightarrow> list_all (choice_sat (reply_in U)) cs \<Longrightarrow> shutdown L it cs = Waiting it' \<Longrightarrow>
     work U it' + length cs \<le> work U it \<and> 0 < queries it' \<and> found_in L U t it'"
proof (induction "nat (queries it) + length cs" arbitrary: it cs rule: less_induct)
  case less
  have q: "0 < queries it" using less.prems(3) by (auto simp: shutdown.simps [of L it] split: if_splits)
  show ?case
  proof (cases "replyCh it")
    case (Cons r rs)
    define it1 where "it1 = it\<lparr>replyCh := rs, queries := queries it - 1\<rparr>"
    have "shutdown L it cs = shutdown L it1 cs" using q Cons by (simp add: shutdown.simps [of L it] it1_def)
    moreover have "found_in L U t it1" unfolding it1_def by (rule lookups.P_drop [OF less.prems(1) Cons])
    moreover have "Suc (work U it1) = work U it" unfolding it1_def by (rule work_drop [OF less.prems(1) Cons])
    ultimately show ?thesis
      using less.hyps [of it1 cs] less.prems q by (simp add: it1_def)
  next
    case Nil
    show ?thesis
    proof (cases cs)
      case Nil': Nil
      then show ?thesis using less.prems q Nil by (simp add: shutdown.simps [of L it])
    next
      case (Cons c ds)
      then obtain i r err now where c: "c = Answer i r err now" "i < length (running it)"
        using less.prems(3) q Nil by (auto simp: shutdown.simps [of L it] split: choice.splits if_splits)
      have r: "reply_in U r" using less.prems(2) Cons c by simp
      obtain it1 where it1: "finish_query L it i r err now = Some it1" "found_in L U t it1"
        using lookups.P_query [OF less.prems(1) c(2)] L r by blast
      have "shutdown L it cs = shutdown L it1 ds" using q Nil Cons c it1(1) by (simp add: shutdown.simps [of L it])
      moreover have "Suc (work U it1) = work U it"
        using work_finish [OF it1(1) c(2) less.prems(1) L] r by (simp add: reply_in_def)
      ultimately show ?thesis
        using less.hyps [of it1 ds] less.prems Cons it1 queries_finish_query [OF it1(1)] by simp
    qed
  qed
qed

lemma start_queries: "fst (startQueries L it) \<Longrightarrow> 0 < queries (snd (startQueries L it))"
  by (auto simp: startQueries_def Let_def split: if_splits)

lemma select_loop_waits:
  assumes L: "logdist_ok L" and U: "finite U"
  shows "found_in L U t it \<Longrightarrow> list_all (choice_sat (reply_in U)) cs \<Longrightarrow> 0 < queries it \<Longrightarrow>
     (\<forall>it'. select_loop L it cs = Waiting it' \<longrightarrow> work U it' + length cs \<le> Suc (work U it) \<and> 0 < queries it' \<and> found_in L U t it') \<and>
     (\<forall>it' cs'. select_loop L it cs = Returned True it' cs' \<longrightarrow> work U it' + length cs \<le> work U it + length cs' \<and> found_in L U t it')"
proof (induction cs arbitrary: it)
  case Nil
  then show ?case by simp
next
  case (Cons c cs)
  show ?case
  proof (cases c)
    case (Answer i r err now)
    show ?thesis
    proof (cases "i < length (running it)")
      case True
      have r: "reply_in U r" using Cons.prems(2) Answer by simp
      obtain it1 where it1: "finish_query L it i r err now = Some it1" "found_in L U t it1"
        using lookups.P_query [OF Cons.prems(1) True] L r by blast
      have w: "Suc (work U it1) = work U it"
        using work_finish [OF it1(1) True Cons.prems(1) L] r by (simp add: reply_in_def)
      have step: "select_loop L it (c # cs) = select_loop L it1 cs" using Answer True it1(1) by simp
      show ?thesis
        using Cons.IH [OF it1(2)] Cons.prems(2,3) queries_finish_query [OF it1(1)] w unfolding step by fastforce
    qed (simp add: Answer)
  next
    case Receive
    show ?thesis
    proof (cases "replyCh it")
      case r: (Cons r rs)
      define it1 where "it1 = receive L (it\<lparr>replyCh := rs\<rparr>) r"
      define it2 where "it2 = snd (startQueries L it1)"
      have P1: "found_in L U t it1" unfolding it1_def by (rule lookups.P_receive [OF Cons.prems(1) r])
      have P2: "found_in L U t it2" unfolding it2_def by (rule lookups.P_start [OF P1])
      have w: "Suc (work U it1) = work U it" "work U it2 \<le> work U it1"
        using work_receive [OF Cons.prems(1) r] work_start [OF P1 U] by (simp_all add: it1_def it2_def)
      have step: "select_loop L it (c # cs) =
          (if replyBuffer it1 \<noteq> [] then Returned True it1 cs
           else if fst (startQueries L it1) then select_loop L it2 cs else Returned False it2 cs)"
        using Receive r by (simp add: it1_def it2_def Let_def case_prod_beta)
      have q: "fst (startQueries L it1) \<Longrightarrow> 0 < queries it2" using start_queries by (simp add: it2_def)
      show ?thesis
        using Cons.IH [OF P2] Cons.prems(2) P1 w q unfolding step by (auto split: if_splits)
    qed (simp add: Receive)
  next
    case Cancel
    then show ?thesis
      using shutdown_waits [OF L Cons.prems(1)] shutdown_returns Cons.prems(2) by fastforce
  qed
qed

lemma advance_waits:
  assumes L: "logdist_ok L" and U: "finite U" and P: "found_in L U t it" and cs: "list_all (choice_sat (reply_in U)) cs"
  shows "advance L it cs = Waiting it' \<Longrightarrow> work U it' + length cs \<le> Suc (work U it) \<and> 0 < queries it' \<and> found_in L U t it'"
    and "advance L it cs = Returned True it' cs' \<Longrightarrow> work U it' + length cs \<le> work U it + length cs' \<and> found_in L U t it'"
proof -
  define it1 where "it1 = snd (startQueries L it)"
  have it1: "found_in L U t it1" "work U it1 \<le> work U it" "fst (startQueries L it) \<Longrightarrow> 0 < queries it1"
    using lookups.P_start [OF P] work_start [OF P U] start_queries by (simp_all add: it1_def)
  have adv: "advance L it cs = (if fst (startQueries L it) then select_loop L it1 cs else Returned False it1 cs)"
    by (simp add: advance_def it1_def case_prod_beta)
  note w = select_loop_waits [OF L U it1(1) cs it1(3)]
  show "advance L it cs = Waiting it' \<Longrightarrow> work U it' + length cs \<le> Suc (work U it) \<and> 0 < queries it' \<and> found_in L U t it'"
    using w it1(2) by (fastforce simp: adv split: if_splits)
  show "advance L it cs = Returned True it' cs' \<Longrightarrow> work U it' + length cs \<le> work U it + length cs' \<and> found_in L U t it'"
    using w it1(2) by (fastforce simp: adv split: if_splits)
qed

lemma run_loop_waits:
  assumes L: "logdist_ok L" and U: "finite U"
  shows "found_in L U t it \<Longrightarrow> list_all (choice_sat (reply_in U)) cs \<Longrightarrow> run_loop L it cs = Waiting it' \<Longrightarrow>
     work U it' + length cs \<le> Suc (work U it) \<and> 0 < queries it' \<and> found_in L U t it'"
proof (induction "length cs" arbitrary: it cs rule: less_induct)
  case less
  note w = advance_waits [OF L U less.prems(1,2)]
  show ?case
  proof (cases "advance L it cs")
    case (Waiting it1)
    then show ?thesis using w(1) [OF Waiting] less.prems(3) by (simp add: run_loop.simps [of L it])
  next
    case (Returned b it1 cs1)
    then have b: "b" and run: "run_loop L it1 cs1 = Waiting it'"
      using less.prems(3) by (auto simp: run_loop.simps [of L it] split: bool.splits)
    note ret = Returned [unfolded eq_True [THEN iffD2, OF b]]
    have "list_all (choice_sat (reply_in U)) cs1"
      using less.prems(2) advance_suffix [OF Returned] by (auto simp: list_all_iff)
    then show ?thesis
      using less.hyps [OF advance_consumes [OF ret] _ _ run] w(2) [OF ret] by simp
  qed (use less.prems(3) in \<open>simp_all add: run_loop.simps [of L it]\<close>)
qed

subsection \<open>How a lookup ends\<close>

definition all_asked :: "'s lookup \<Rightarrow> bool" where
  "all_asked it \<longleftrightarrow> queries it \<le> 0 \<and> nID ` set (nentries (result it)) \<subseteq> asked it"

lemma start_ends:
  assumes "queryfunc it" "\<not> fst (startQueries L it)"
  shows "all_asked (snd (startQueries L it))"
proof -
  have q: "queries it \<noteq> -1" using assms by (auto simp: startQueries_def split: if_splits)
  obtain ns where ns: "ask_loop it (nentries (result it)) = ask it ns"
    "queries it + int (length ns) < int alpha \<longrightarrow> nID ` set (nentries (result it)) \<subseteq> asked it \<union> nID ` set ns"
    using ask_loop_asks [of it "nentries (result it)"] by blast
  have "queries (ask it ns) \<le> 0" using assms q ns(1) by (simp add: startQueries_def Let_def)
  then show ?thesis
    using assms(1) q ns by (auto simp: startQueries_def Let_def all_asked_def ask_def alpha_def)
qed

lemma queryfunc_frame:
  "queryfunc (snd (startQueries L it)) = queryfunc it"
  "queryfunc (receive L it r) = queryfunc it"
  "finish_query L it i r err now = Some it' \<Longrightarrow> queryfunc it' = queryfunc it"
proof -
  obtain ns where "ask_loop it (nentries (result it)) = ask it ns" using ask_loop_asks by blast
  then show "queryfunc (snd (startQueries L it)) = queryfunc it" by (simp add: startQueries_def Let_def ask_def)
  show "queryfunc (receive L it r) = queryfunc it" by (simp add: receive_news)
  show "finish_query L it i r err now = Some it' \<Longrightarrow> queryfunc it' = queryfunc it"
    by (auto simp: finish_query_def query_def record_failure_def Let_def split: if_splits bind_splits)
qed

lemma select_loop_ends:
  "queryfunc it \<Longrightarrow> Cancel \<notin> set cs \<Longrightarrow> select_loop L it cs = Returned b it' cs' \<Longrightarrow>
   queryfunc it' \<and> (b \<or> all_asked it')"
proof (induction L it cs rule: select_loop.induct)
  case (3 L it cs)
  then obtain r rs where r: "replyCh it = r # rs" by (auto split: list.splits)
  define it1 where "it1 = receive L (it\<lparr>replyCh := rs\<rparr>) r"
  have q: "queryfunc it1" using "3.prems"(1) by (simp add: it1_def queryfunc_frame)
  show ?case
  proof (cases "replyBuffer it1 = [] \<and> fst (startQueries L it1)")
    case True
    then show ?thesis
      using "3.IH" [OF r it1_def _ refl prod.collapse] "3.prems" r q queryfunc_frame(1) [of L it1]
      by (auto simp: it1_def [symmetric] Let_def case_prod_beta)
  next
    case False
    then show ?thesis
      using "3.prems" r q queryfunc_frame(1) [of L it1] start_ends [OF q, of L]
      by (auto simp: it1_def [symmetric] Let_def case_prod_beta split: if_splits)
  qed
qed (auto dest: queryfunc_frame(3) split: if_splits option.splits)

lemma run_loop_ends:
  "queryfunc it \<Longrightarrow> Cancel \<notin> set cs \<Longrightarrow> run_loop L it cs = Returned b it' cs' \<Longrightarrow> \<not> b \<and> all_asked it'"
proof (induction "length cs" arbitrary: it cs rule: less_induct)
  case less
  obtain c it1 cs1 where a: "advance L it cs = Returned c it1 cs1"
    using less.prems(3) by (auto simp: run_loop.simps [of L it] split: outcome.splits)
  have end1: "queryfunc it1 \<and> (c \<or> all_asked it1)"
    using a less.prems(1,2) queryfunc_frame(1) [of L it] start_ends [OF less.prems(1), of L]
      select_loop_ends [of "snd (startQueries L it)" cs L c it1 cs1]
    by (auto simp: advance_def case_prod_beta split: if_splits)
  show ?case
  proof (cases c)
    case True
    then have "run_loop L it1 cs1 = Returned b it' cs'" using a less.prems(3) by (simp add: run_loop.simps [of L it])
    then show ?thesis
      using less.hyps [of cs1 it1] a True end1 less.prems(2) advance_consumes [of L it cs it1 cs1] advance_suffix [OF a] by auto
  next
    case False
    then show ?thesis using a end1 less.prems(3) by (simp add: run_loop.simps [of L it])
  qed
qed

lemma newLookup_found_in:
  assumes "table_ok L tab" "nID ` set (all_entries tab) \<subseteq> U"
  shows "found_in L U t (newLookup tab db t)"
  using newLookup_ok [OF assms(1)] assms(2) by (simp add: found_in_def within_def newLookup_def found_def)

lemma run_loop_found_in:
  assumes L: "logdist_ok L" and P: "found_in L U t it" and cs: "list_all (choice_sat (reply_in U)) cs"
  shows "outcome_sat (found_in L U t) (run_loop L it cs)"
proof (rule lookups.run_loop_sat [OF P])
  have "choice_sat (\<lambda>r. logdist_ok L \<and> reply_in U r) c = choice_sat (reply_in U) c" for c
    using L by (cases c) simp_all
  then show "list_all (choice_sat (\<lambda>r. logdist_ok L \<and> reply_in U r)) cs" using cs by (simp add: list_all_iff)
qed

lemma reply_in_UNIV: "reply_in UNIV = (\<lambda>r. None \<notin> set r)"
  by (simp add: reply_in_def fun_eq_iff)

lemma outcome_sat_mono: "outcome_sat P oc \<Longrightarrow> (\<And>it. P it \<Longrightarrow> Q it) \<Longrightarrow> outcome_sat Q oc"
  by (cases oc) simp_all

subsection \<open>A sample lookup\<close>

text \<open>The table holds one node, which answers with nothing.\<close>

definition sample_schedule :: "choice list" where
  "sample_schedule = [Receive, Answer 0 [] None 5, Receive]"

definition sample_lookup :: "((IP \<Rightarrow> nat) \<times> nat) lookup" where
  "sample_lookup = newLookup sample_tab (\<lambda>_. 0) []"

lemma sample_findnode:
  "nentries (findnodeByID sample_disc sample_tab [] bucketSize False) = [sample_node 1]"
  using findnodeByID_sorted [OF sample_distcmp sample_tab_ok, of "[]" bucketSize False]
  by (simp add: sample_all_entries bucketSize_def)

lemma sample_push:
  "push sample_disc \<lparr>nentries = [], target = []\<rparr> (sample_node 1) bucketSize = \<lparr>nentries = [sample_node 1], target = []\<rparr>"
  by (simp add: push_def go_search_def search_loop.simps bucketSize_def)

lemma sample_node_id: "nID (sample_node i) = [i]"
  by (simp add: sample_node_def wrapNode_def sample_enode_def)

lemma sample_advance:
  "advance sample_disc sample_lookup (Receive # cs) =
     Returned True (sample_lookup\<lparr>seen := {[1]}, result := \<lparr>nentries = [sample_node 1], target = []\<rparr>,
       replyBuffer := [sample_node 1], queries := 0, received := [Some (sample_node 1)]\<rparr>) cs"
  by (simp add: advance_def startQueries_def sample_lookup_def newLookup_def sample_findnode receive_news
      sample_push sample_node_id Let_def)

lemma sample_run:
  "\<exists>it. run_loop sample_disc sample_lookup sample_schedule = Returned False it [] \<and>
        found it = [sample_node 1] \<and> started it = [sample_node 1]"
proof -
  have "run_loop sample_disc sample_lookup sample_schedule = run_loop sample_disc (sample_lookup\<lparr>seen := {[1]}, result := \<lparr>nentries = [sample_node 1], target = []\<rparr>,
       replyBuffer := [sample_node 1], queries := 0, received := [Some (sample_node 1)]\<rparr>) [Answer 0 [] None 5, Receive]"
    by (simp add: run_loop.simps [of _ sample_lookup] sample_schedule_def sample_advance)
  moreover have "eID (self sample_tab) = [0]" by (simp add: sample_tab_def sample_enode_def)
  ultimately show ?thesis
    by (simp add: run_loop.simps advance_def startQueries_def sample_lookup_def newLookup_def sample_node_id alpha_def
       finish_query_def query_def record_failure_def maxFindnodeFailures_def receive_news Let_def found_def)
qed

lemma Next_loop_result:
  "Next_loop L nextLookup k it cs = Some (b, it', cs') \<Longrightarrow> (b \<longleftrightarrow> iter_Node it' \<noteq> None) \<and> (b \<or> cancelled it')"
proof (induction k arbitrary: it cs)
  case (Suc k)
  show ?case
  proof (cases "buffer it \<noteq> [] \<or> cancelled it")
    case True
    then show ?thesis using Suc.prems by (auto simp: iter_Node_def split: if_splits)
  next
    case False
    obtain it1 cs1 where "Next_loop L nextLookup k it1 cs1 = Some (b, it', cs')"
      using Suc.prems False by (auto split: option.splits outcome.splits)
    from Suc.IH [OF this] show ?thesis .
  qed
qed simp

subsection \<open>Properties\<close>

text \<open>
  C8. A lookup, under any scheduling and any answers without nil nodes: it never panics, at most \<open>alpha\<close>
  queries are outstanding at a time, so that no goroutine blocks on the reply channel, no node is asked
  twice, the local node is never asked, only nodes that were reported are asked, and the node table keeps
  its invariant.
\<close>

theorem lookup_invariants:
  assumes "logdist_ok L" "table_ok L tab" "list_all (choice_sat (\<lambda>r. None \<notin> set r)) cs"
  shows "outcome_sat
     (\<lambda>it. length (running it) + length (replyCh it) \<le> alpha \<and> distinct (map nID (started it)) \<and>
           eID (self (ltab it)) \<notin> nID ` set (started it) \<and> set (started it) \<subseteq> set (found it) \<and> table_ok L (ltab it))
     (run_loop L (newLookup tab db t) cs)"
proof (rule outcome_sat_mono)
  show "outcome_sat (found_in L UNIV t) (run_loop L (newLookup tab db t) cs)"
    using assms by (intro run_loop_found_in newLookup_found_in) (simp_all add: reply_in_UNIV)
qed (auto simp: found_in_def lookup_ok_def queries_ok_def asked_ok_def alpha_def)

theorem lookup_invariants_witness:
  "\<exists>it. run_loop sample_disc (newLookup sample_tab (\<lambda>_. 0) []) sample_schedule = Returned False it [] \<and>
        started it = [sample_node 1] \<and> table_ok sample_disc (ltab it)"
proof -
  have "list_all (choice_sat (\<lambda>r. None \<notin> set r)) sample_schedule" by (simp add: sample_schedule_def)
  from lookup_invariants [OF sample_logdist sample_tab_ok this, of "\<lambda>_. 0" "[]"] sample_run
  show ?thesis by (auto simp: sample_lookup_def)
qed

text \<open>
  C18. A lookup that ends without being cancelled returns the sixteen nodes closest to the target among all
  that were reported, in order of distance, and every one of them was asked, or is the local node.
\<close>

theorem lookup_result:
  assumes "logdist_ok L" "table_ok L tab" "distcmp_ok L dist" "list_all (choice_sat (\<lambda>r. None \<notin> set r)) cs"
    and "Cancel \<notin> set cs" "run_loop L (newLookup tab db t) cs = Returned b it cs'"
  shows "run L (newLookup tab db t) cs = Some (map Node (take bucketSize (sort_key (\<lambda>n. dist t (nID n)) (found it)))) \<and>
         nID ` set (nentries (result it)) \<subseteq> insert (eID (self (ltab it))) (nID ` set (started it))"
proof -
  have "outcome_sat (found_in L UNIV t) (run_loop L (newLookup tab db t) cs)"
    using assms(1-4) by (intro run_loop_found_in newLookup_found_in) (simp_all add: reply_in_UNIV)
  then have P: "lookup_ok L it" "target (result it) = t" using assms(6) by (simp_all add: found_in_def)
  have "all_asked it" using run_loop_ends [of "newLookup tab db t" cs L b it cs'] assms(5,6) by (simp add: newLookup_def)
  moreover have "asked it = insert (eID (self (ltab it))) (nID ` set (started it))"
    using P(1) by (simp add: lookup_ok_def asked_ok_def)
  ultimately show ?thesis
    using assms(6) nentries_result [OF assms(3), of it] P
    by (simp add: run_def unwrapNodes_def unwrapNode_def [abs_def] all_asked_def lookup_ok_def)
qed

theorem lookup_result_witness:
  "run sample_disc (newLookup sample_tab (\<lambda>_. 0) []) sample_schedule = Some [sample_enode 1]"
proof -
  obtain it where it: "run_loop sample_disc sample_lookup sample_schedule = Returned False it []" "found it = [sample_node 1]"
    using sample_run by blast
  have "list_all (choice_sat (\<lambda>r. None \<notin> set r)) sample_schedule" "Cancel \<notin> set sample_schedule"
    by (simp_all add: sample_schedule_def)
  from lookup_result [OF sample_logdist sample_tab_ok sample_distcmp this it(1) [unfolded sample_lookup_def]] it(2)
  show ?thesis by (simp add: bucketSize_def) (simp add: sample_node_def wrapNode_def)
qed

text \<open>
  C19. Every lookup ends: when the identities of the table and of the answers are among a finite set, a
  schedule that leaves the lookup waiting has at most three choices for each of them and three more, and a
  waiting lookup is never stuck, since a goroutine is running or a reply is in the channel.
\<close>

theorem lookup_terminates:
  assumes "logdist_ok L" "table_ok L tab" "finite U" "nID ` set (all_entries tab) \<subseteq> U"
    and "list_all (choice_sat (reply_in U)) cs" "run_loop L (newLookup tab db t) cs = Waiting it"
  shows "length cs \<le> 3 * card U + 3 \<and> (running it \<noteq> [] \<or> replyCh it \<noteq> [])"
proof -
  define it0 where "it0 = newLookup tab db t"
  have "found_in L U t it0" unfolding it0_def by (rule newLookup_found_in [OF assms(2,4)])
  from run_loop_waits [OF assms(1,3) this assms(5) assms(6) [folded it0_def]]
  have w: "work U it + length cs \<le> Suc (work U it0)" "0 < queries it" "found_in L U t it" by simp_all
  have "card (U - {eID (self tab)}) \<le> card U" by (rule card_mono [OF assms(3)]) simp
  then have "work U it0 \<le> 3 * card U + 2" by (simp add: it0_def work_def newLookup_def)
  moreover have "running it \<noteq> [] \<or> replyCh it \<noteq> []"
    using w(2,3) by (auto simp: found_in_def lookup_ok_def queries_ok_def)
  ultimately show ?thesis using w(1) by simp
qed

theorem lookup_terminates_witness:
  "\<exists>it. run_loop sample_disc (newLookup sample_tab (\<lambda>_. 0) []) [] = Waiting it \<and> replyCh it = [[Some (sample_node 1)]] \<and>
        (running it \<noteq> [] \<or> replyCh it \<noteq> [])"
proof -
  obtain it where it: "run_loop sample_disc (newLookup sample_tab (\<lambda>_. 0) []) [] = Waiting it" "replyCh it = [[Some (sample_node 1)]]"
    by (simp add: run_loop.simps advance_def startQueries_def newLookup_def sample_findnode)
  from lookup_terminates [OF sample_logdist sample_tab_ok _ _ _ it(1), of "{[1]}"] it
  show ?thesis by (simp add: sample_all_entries sample_node_id)
qed

text \<open>
  \<open>Next\<close> moves to the following node: it returns true exactly when there is a current node, returns
  the rest of a filled buffer in order without starting a query, returns false only when the context has
  ended, and after \<open>Close\<close> it returns after at most one round, delivering what is buffered and then false.
\<close>

theorem Next_spec:
  "(Next L nextLookup k it cs = Some (b, it', cs') \<longrightarrow> (b \<longleftrightarrow> iter_Node it' \<noteq> None) \<and> (b \<or> cancelled it')) \<and>
   (tl (buffer it) = n # ns \<longrightarrow> Next L nextLookup (Suc k) it cs = Some (True, it\<lparr>buffer := n # ns\<rparr>, cs)) \<and>
   (tl (buffer it) = [] \<longrightarrow>
      Next L nextLookup (Suc k) (iter_Close it) cs = Some (False, (iter_Close it)\<lparr>ilookup := None, buffer := []\<rparr>, cs))"
  using Next_loop_result [of L nextLookup k "it\<lparr>buffer := tl (buffer it)\<rparr>" cs b it' cs']
  by (simp add: Next_def iter_Close_def)

theorem Next_spec_witness:
  "Next sample_disc (\<lambda>tab db. newLookup tab db []) 1
     ((newLookupIterator sample_tab (\<lambda>_. 0) False)\<lparr>buffer := [sample_node 1, sample_node 2]\<rparr>) [] =
   Some (True, (newLookupIterator sample_tab (\<lambda>_. 0) False)\<lparr>buffer := [sample_node 2]\<rparr>, [])"
  using Next_spec [of sample_disc "\<lambda>tab db. newLookup tab db []" 0
      "(newLookupIterator sample_tab (\<lambda>_. 0) False)\<lparr>buffer := [sample_node 1, sample_node 2]\<rparr>" "[]" _ _ _ "sample_node 2" "[]"]
  by simp

end
