(* ===== verification/Table_Loop.thy ===== *)
theory Table_Loop
  imports Node_Lookup
begin

text \<open>
  The scheduling loop of the node table (\<^verbatim>\<open>loop\<close>, \<^verbatim>\<open>refresh\<close>, \<^verbatim>\<open>doRefresh\<close> and \<^verbatim>\<open>close\<close> of \<^verbatim>\<open>pkg/discover/table.go\<close>): its timers, the goroutines it
  starts, and the callers that wait for a refresh. The operations on the table that the goroutines make are those of \<open>Node_Table\<close>, whose
  invariants hold for them in any order.
\<close>

subsection \<open>A refresh\<close>

text \<open>
  \<^verbatim>\<open>doRefresh\<close> loads seed nodes and runs a lookup of the own node and three of random targets. Each lookup starts from the table and the
  counters that the one before left; its target and the choices of its scheduling are arguments.
\<close>

definition lookup_on :: "'s disc_lib \<Rightarrow> 's Table \<times> (ID \<times> IP \<Rightarrow> int) \<Rightarrow> ID \<times> choice list \<Rightarrow> ('s Table \<times> (ID \<times> IP \<Rightarrow> int)) go" where
  "lookup_on L s x =
     (case run_loop L (newLookup (fst s) (snd s) (fst x)) (snd x) of
        Returned _ it _ \<Rightarrow> Some (ltab it, findFails it)
      | _ \<Rightarrow> None)"

definition doRefresh ::
  "'s disc_lib \<Rightarrow> 's Table \<Rightarrow> (ID \<times> IP \<Rightarrow> int) \<Rightarrow> enode list \<Rightarrow> int \<Rightarrow> ID \<times> choice list \<Rightarrow> (nat \<Rightarrow> ID \<times> choice list) \<Rightarrow>
   ('s Table \<times> (ID \<times> IP \<Rightarrow> int)) go" where
  "doRefresh L tab db queried now lookupSelf lookupRandom =
     do { tab \<leftarrow> loadSeedNodes L tab queried now;
          s \<leftarrow> lookup_on L (tab, db) lookupSelf;
          foldl (\<lambda>s i. Option.bind s (\<lambda>s. lookup_on L s (lookupRandom i))) (Some s) [0..<3] }"

subsection \<open>The loop\<close>

text \<open>
  Channels that are only ever closed are numbers, \<open>0\<close> the table's \<open>initDone\<close>. \<open>refreshCh\<close> is \<open>refreshDone\<close>: nil, open or closed;
  \<open>revalidateCh\<close> is that \<open>revalidateDone\<close> is not nil. \<open>refreshers\<close> and \<open>revalidators\<close> count the goroutines that run.
\<close>

record tableLoop =
  loopRunning :: bool
  refreshCh :: "bool option"
  refreshers :: nat
  revalidateTimer :: bool
  revalidateCh :: bool
  revalidators :: nat
  waitingCh :: "nat list"
  closedCh :: "nat list"
  allocated :: nat
  closeReq :: bool
  tabClosed :: bool

definition loop_start :: tableLoop where
  "loop_start = \<lparr>loopRunning = True, refreshCh = Some False, refreshers = 1, revalidateTimer = True, revalidateCh = False, revalidators = 0,
     waitingCh = [0], closedCh = [], allocated = 1, closeReq = False, tabClosed = False\<rparr>"

text \<open>Closing a channel twice panics.\<close>

fun close_chans :: "tableLoop \<Rightarrow> nat list \<Rightarrow> tableLoop go" where
  "close_chans s [] = Some s"
| "close_chans s (c # cs) = (if c \<in> set (closedCh s) then None else close_chans (s\<lparr>closedCh := closedCh s @ [c]\<rparr>) cs)"

definition start_refresh :: "tableLoop \<Rightarrow> tableLoop" where
  "start_refresh s = (if refreshCh s = None then s\<lparr>refreshCh := Some False, refreshers := Suc (refreshers s)\<rparr> else s)"

text \<open>
  \<open>RefreshReq\<close> and \<open>RefreshReqClosed\<close> are the two outcomes of a call of \<^verbatim>\<open>refresh\<close>; \<open>RefreshEnds\<close> is the deferred close of \<^verbatim>\<open>doRefresh\<close> and
  \<open>RefreshSeen\<close> its receipt by the loop; \<open>RevalidateEnds\<close> is the send of \<^verbatim>\<open>doRevalidate\<close> with its receipt. After \<open>LoopBreak\<close> the loop waits for
  the refresh, releases the callers, waits for the revalidation and closes the table; \<open>LoopEnd\<close> makes one step of it, which is possible once
  both goroutines are at their end.
\<close>

datatype loop_event =
    RefreshTick | RefreshReq | RefreshReqClosed | RefreshEnds | RefreshSeen | RevalidateTick | RevalidateEnds | CopyTick | CloseReq | LoopBreak | LoopEnd

fun loop_enabled :: "tableLoop \<Rightarrow> loop_event \<Rightarrow> bool" where
  "loop_enabled s RefreshTick \<longleftrightarrow> loopRunning s"
| "loop_enabled s RefreshReq \<longleftrightarrow> loopRunning s"
| "loop_enabled s RefreshReqClosed \<longleftrightarrow> closeReq s"
| "loop_enabled s RefreshEnds \<longleftrightarrow> 0 < refreshers s"
| "loop_enabled s RefreshSeen \<longleftrightarrow> loopRunning s \<and> refreshCh s = Some True"
| "loop_enabled s RevalidateTick \<longleftrightarrow> loopRunning s \<and> revalidateTimer s"
| "loop_enabled s RevalidateEnds \<longleftrightarrow> loopRunning s \<and> revalidateCh s \<and> 0 < revalidators s"
| "loop_enabled s CopyTick \<longleftrightarrow> loopRunning s"
| "loop_enabled s CloseReq \<longleftrightarrow> \<not> closeReq s"
| "loop_enabled s LoopBreak \<longleftrightarrow> loopRunning s \<and> closeReq s"
| "loop_enabled s LoopEnd \<longleftrightarrow> \<not> loopRunning s \<and> \<not> tabClosed s \<and> refreshCh s \<noteq> Some False \<and> (revalidateCh s \<longrightarrow> 0 < revalidators s)"

fun loop_step :: "tableLoop \<Rightarrow> loop_event \<Rightarrow> tableLoop go" where
  "loop_step s RefreshTick = Some (start_refresh s)"
| "loop_step s RefreshReq = Some (start_refresh (s\<lparr>waitingCh := waitingCh s @ [allocated s], allocated := Suc (allocated s)\<rparr>))"
| "loop_step s RefreshReqClosed = close_chans (s\<lparr>allocated := Suc (allocated s)\<rparr>) [allocated s]"
| "loop_step s RefreshEnds = Some (s\<lparr>refreshCh := Some True, refreshers := refreshers s - 1\<rparr>)"
| "loop_step s RefreshSeen = do { s \<leftarrow> close_chans s (waitingCh s); Some (s\<lparr>waitingCh := [], refreshCh := None\<rparr>) }"
| "loop_step s RevalidateTick = Some (s\<lparr>revalidateTimer := False, revalidateCh := True, revalidators := Suc (revalidators s)\<rparr>)"
| "loop_step s RevalidateEnds = Some (s\<lparr>revalidateTimer := True, revalidateCh := False, revalidators := revalidators s - 1\<rparr>)"
| "loop_step s CopyTick = Some s"
| "loop_step s CloseReq = Some (s\<lparr>closeReq := True\<rparr>)"
| "loop_step s LoopBreak = Some (s\<lparr>loopRunning := False, revalidateTimer := False\<rparr>)"
| "loop_step s LoopEnd =
     do { s \<leftarrow> close_chans s (waitingCh s);
          Some (s\<lparr>waitingCh := [], refreshCh := None, revalidateCh := False,
                  revalidators := (if revalidateCh s then revalidators s - 1 else revalidators s), tabClosed := True\<rparr>) }"

definition isInitDone :: "tableLoop \<Rightarrow> bool" where
  "isInitDone s \<longleftrightarrow> 0 \<in> set (closedCh s)"

subsection \<open>Invariant\<close>

definition loop_inv :: "tableLoop \<Rightarrow> bool" where
  "loop_inv s \<longleftrightarrow> distinct (waitingCh s @ closedCh s) \<and> set (waitingCh s @ closedCh s) = {..<allocated s} \<and>
     (waitingCh s \<noteq> [] \<longrightarrow> refreshCh s \<noteq> None \<and> \<not> tabClosed s) \<and> refreshers s = (if refreshCh s = Some False then 1 else 0) \<and>
     revalidators s = (if revalidateCh s then 1 else 0) \<and> \<not> (revalidateTimer s \<and> revalidateCh s) \<and>
     (loopRunning s \<longrightarrow> \<not> tabClosed s \<and> (revalidateTimer s \<or> revalidateCh s)) \<and> (\<not> loopRunning s \<longrightarrow> closeReq s)"

lemma close_chans_all:
  "distinct cs \<Longrightarrow> set cs \<inter> set (closedCh s) = {} \<Longrightarrow> close_chans s cs = Some (s\<lparr>closedCh := closedCh s @ cs\<rparr>)"
  by (induction s cs rule: close_chans.induct) auto

lemma close_chans_keeps: "close_chans s cs = Some s' \<Longrightarrow> set (closedCh s) \<union> set cs \<subseteq> set (closedCh s')"
  by (induction s cs rule: close_chans.induct) (auto split: if_splits)

lemma isInitDone_stays: "loop_step s e = Some s' \<Longrightarrow> isInitDone s \<Longrightarrow> isInitDone s'"
  by (cases e) (auto simp: isInitDone_def start_refresh_def bind_eq_Some_conv dest!: close_chans_keeps split: if_splits)

lemma isInitDone_first_refresh: "loop_step s RefreshSeen = Some s' \<Longrightarrow> 0 \<in> set (waitingCh s) \<Longrightarrow> isInitDone s'"
  by (auto simp: isInitDone_def bind_eq_Some_conv dest!: close_chans_keeps)

lemma loop_inv_start: "loop_inv loop_start"
  by (auto simp: loop_inv_def loop_start_def)

lemma close_waiting:
  "loop_inv s \<Longrightarrow> close_chans s (waitingCh s) = Some (s\<lparr>closedCh := closedCh s @ waitingCh s\<rparr>)"
  by (rule close_chans_all) (auto simp: loop_inv_def)

lemma loop_inv_start_refresh: "loop_inv s \<Longrightarrow> loop_inv (start_refresh s)"
  by (auto simp: loop_inv_def start_refresh_def)

lemma loop_step_inv:
  assumes "loop_inv s" "loop_enabled s e"
  shows "\<exists>s'. loop_step s e = Some s' \<and> loop_inv s'"
proof (cases e)
  case RefreshTick
  then show ?thesis using loop_inv_start_refresh [OF assms(1)] by simp
next
  case RefreshReq
  then show ?thesis using assms by (auto simp: loop_inv_def start_refresh_def)
next
  case RefreshReqClosed
  have "allocated s \<notin> set (closedCh s)" using assms(1) by (auto simp: loop_inv_def)
  then show ?thesis using RefreshReqClosed assms by (auto simp: loop_inv_def)
next
  case RefreshSeen
  then show ?thesis using assms by (auto simp: close_waiting) (auto simp: loop_inv_def)
next
  case LoopEnd
  then show ?thesis using assms by (auto simp: close_waiting) (auto simp: loop_inv_def)
qed (use assms in \<open>auto simp: loop_inv_def split: if_splits\<close>)

definition loop_run :: "tableLoop go \<Rightarrow> loop_event \<Rightarrow> tableLoop go" where
  "loop_run s e = Option.bind s (\<lambda>s. loop_step s e)"

definition loop_admissible :: "tableLoop go \<Rightarrow> loop_event \<Rightarrow> bool" where
  "loop_admissible s e \<longleftrightarrow> (\<exists>t. s = Some t \<and> loop_enabled t e)"

interpretation table_loops: event_machine loop_run loop_admissible "\<lambda>s. \<exists>t. s = Some t \<and> loop_inv t"
proof
  fix s e
  assume "\<exists>t. s = Some t \<and> loop_inv t" "loop_admissible s e"
  then show "\<exists>t. loop_run s e = Some t \<and> loop_inv t" using loop_step_inv by (auto simp: loop_run_def loop_admissible_def)
qed

subsection \<open>A refresh keeps the table\<close>

lemma lookup_on_ok:
  assumes "logdist_ok L" "table_ok L (fst s)" "list_all (choice_sat (\<lambda>r. None \<notin> set r)) (snd x)" "lookup_on L s x = Some s'"
  shows "table_ok L (fst s')"
proof -
  obtain b it cs where r: "run_loop L (newLookup (fst s) (snd s) (fst x)) (snd x) = Returned b it cs" "s' = (ltab it, findFails it)"
    using assms(4) by (auto simp: lookup_on_def split: outcome.splits)
  have "outcome_sat (found_in L UNIV (fst x)) (run_loop L (newLookup (fst s) (snd s) (fst x)) (snd x))"
    using assms(1-3) by (intro run_loop_found_in newLookup_found_in) (simp_all add: reply_in_UNIV)
  then show ?thesis using r by (simp add: found_in_def lookup_ok_def)
qed

lemma doRefresh_ok:
  assumes "logdist_ok L" "table_ok L tab" "list_all (choice_sat (\<lambda>r. None \<notin> set r)) (snd slf)"
    and "\<forall>i. list_all (choice_sat (\<lambda>r. None \<notin> set r)) (snd (rnd i))" "doRefresh L tab db queried now slf rnd = Some (tab', db')"
  shows "table_ok L tab'"
proof -
  have fold: "table_ok L (fst s')" if "foldl (\<lambda>s i. Option.bind s (\<lambda>s. lookup_on L s (rnd i))) (Some s) is = Some s'" "table_ok L (fst s)" for s s' "is"
    using that
  proof (induction "is" arbitrary: s)
    case (Cons i "is")
    then obtain u where u: "lookup_on L s (rnd i) = Some u" by (cases "lookup_on L s (rnd i)") simp_all
    show ?case using Cons.IH [of u] Cons.prems u lookup_on_ok [OF assms(1) Cons.prems(2) _ u] assms(4) by simp
  qed simp
  obtain t s where t: "loadSeedNodes L tab queried now = Some t" "lookup_on L (t, db) slf = Some s"
    "foldl (\<lambda>s i. Option.bind s (\<lambda>s. lookup_on L s (rnd i))) (Some s) [0..<3] = Some (tab', db')"
    using assms(5) unfolding doRefresh_def by (auto simp: bind_eq_Some_conv)
  have "table_ok L t" using loadSeedNodes_ok [OF assms(1,2), of queried now] t(1) by simp
  then have "table_ok L (fst s)" using lookup_on_ok [OF assms(1) _ assms(3) t(2)] by simp
  then show ?thesis using fold [OF t(3)] by simp
qed

subsection \<open>Properties\<close>

text \<open>
  C17. The loop of the node table, whatever the order of timers, finished goroutines, callers and closing: it closes no channel twice, at most one
  refresh and one revalidation run at a time, every caller of \<open>refresh\<close> is either waiting or released, and one that waits is released by the end of
  the refresh that is running, or of the loop. When the loop has ended nobody waits.
\<close>

theorem table_loop:
  assumes "run_ok loop_run loop_admissible (Some loop_start) es"
  shows "\<exists>s. foldl loop_run (Some loop_start) es = Some s \<and> refreshers s \<le> 1 \<and> revalidators s \<le> 1 \<and>
     distinct (waitingCh s @ closedCh s) \<and> set (waitingCh s @ closedCh s) = {..<allocated s} \<and> (tabClosed s \<longrightarrow> waitingCh s = []) \<and>
     (waitingCh s \<noteq> [] \<longrightarrow>
        (let fs = (if refreshers s = 1 then [RefreshEnds] else []) @ [if loopRunning s then RefreshSeen else LoopEnd]
         in run_ok loop_run loop_admissible (Some s) fs \<and>
            (\<exists>s'. foldl loop_run (Some s) fs = Some s' \<and> waitingCh s' = [] \<and> set (closedCh s') = {..<allocated s})))"
proof -
  obtain s where s: "foldl loop_run (Some loop_start) es = Some s" and inv: "loop_inv s"
    using table_loops.inv_run [OF _ assms] loop_inv_start by auto
  define u where "u = (if refreshers s = 1 then s\<lparr>refreshCh := Some True, refreshers := 0\<rparr> else s)"
  have u: "loop_inv u" "waitingCh u = waitingCh s" "closedCh u = closedCh s" "allocated u = allocated s" "loopRunning u = loopRunning s"
    using inv by (auto simp: u_def loop_inv_def)
  have next_event: "loop_enabled u (if loopRunning s then RefreshSeen else LoopEnd)" if "waitingCh s \<noteq> []"
    using inv that by (auto simp: u_def loop_inv_def split: if_splits)
  have released: "\<exists>s'. loop_step u (if loopRunning s then RefreshSeen else LoopEnd) = Some s' \<and> waitingCh s' = [] \<and> closedCh s' = closedCh s @ waitingCh s"
    using close_waiting [OF u(1)] u(2,3) by simp
  have all: "set (closedCh s @ waitingCh s) = {..<allocated s}" using inv by (auto simp: loop_inv_def)
  have "waitingCh s \<noteq> [] \<longrightarrow> (let fs = (if refreshers s = 1 then [RefreshEnds] else []) @ [if loopRunning s then RefreshSeen else LoopEnd]
         in run_ok loop_run loop_admissible (Some s) fs \<and>
            (\<exists>s'. foldl loop_run (Some s) fs = Some s' \<and> waitingCh s' = [] \<and> set (closedCh s') = {..<allocated s}))"
    using next_event released all by (cases "refreshers s = 1") (auto simp: u_def loop_run_def loop_admissible_def)
  moreover have "refreshers s \<le> 1 \<and> revalidators s \<le> 1 \<and> distinct (waitingCh s @ closedCh s) \<and> set (waitingCh s @ closedCh s) = {..<allocated s} \<and>
    (tabClosed s \<longrightarrow> waitingCh s = [])"
    using inv unfolding loop_inv_def by auto
  ultimately show ?thesis using s by blast
qed

theorem table_loop_witness:
  "\<exists>s. foldl loop_run (Some loop_start) [RefreshReq, RevalidateTick, RefreshEnds, RefreshReq] = Some s \<and> waitingCh s = [0, 1, 2] \<and>
     distinct (waitingCh s @ closedCh s)"
proof -
  have "run_ok loop_run loop_admissible (Some loop_start) [RefreshReq, RevalidateTick, RefreshEnds, RefreshReq]"
    by (simp add: loop_run_def loop_admissible_def loop_start_def start_refresh_def)
  from table_loop [OF this] show ?thesis by (auto simp: loop_run_def loop_start_def start_refresh_def)
qed

end
