(* ===== verification/V5_Msg.thy ===== *)
theory V5_Msg
  imports Node_Table
begin

text \<open>
  The messages of the Discovery v5 wire protocol (\<^verbatim>\<open>pkg/discover/v5wire/msg.go\<close>): the packet types, their
  names, kinds and request IDs, and \<open>DecodeMessage\<close>. RLP is a parameter: \<open>rlpDecode\<close> decodes into a
  value of the type of its first argument, as \<^verbatim>\<open>rlp.DecodeBytes\<close> does. A node record is given by its
  encoding.
\<close>

type_synonym Nonce = bytes
type_synonym enr_record = bytes

subsection \<open>Message types\<close>

definition PingMsg :: byte where "PingMsg = 1"
definition PongMsg :: byte where "PongMsg = 2"
definition FindnodeMsg :: byte where "FindnodeMsg = 3"
definition NodesMsg :: byte where "NodesMsg = 4"
definition TalkRequestMsg :: byte where "TalkRequestMsg = 5"
definition TalkResponseMsg :: byte where "TalkResponseMsg = 6"
definition RequestTicketMsg :: byte where "RequestTicketMsg = 7"
definition TicketMsg :: byte where "TicketMsg = 8"
definition RegtopicMsg :: byte where "RegtopicMsg = 9"
definition RegconfirmationMsg :: byte where "RegconfirmationMsg = 10"
definition TopicQueryMsg :: byte where "TopicQueryMsg = 11"
definition UnknownPacket :: byte where "UnknownPacket = 255"
definition WhoareyouPacket :: byte where "WhoareyouPacket = 254"

lemmas msg_kinds = PingMsg_def PongMsg_def FindnodeMsg_def NodesMsg_def TalkRequestMsg_def TalkResponseMsg_def
  RequestTicketMsg_def TicketMsg_def RegtopicMsg_def RegconfirmationMsg_def TopicQueryMsg_def
  UnknownPacket_def WhoareyouPacket_def

record whoareyou =
  ChallengeData :: bytes
  wNonce :: Nonce
  IDNonce :: bytes
  RecordSeq :: u64
  wNode :: "enode option"
  sent :: int

datatype Packet =
    Unknown Nonce
  | Whoareyou whoareyou
  | Ping bytes u64
  | Pong bytes u64 IP u16
  | Findnode bytes "u64 list"
  | Nodes bytes byte "enr_record list"
  | TalkRequest bytes string bytes
  | TalkResponse bytes bytes
  | RequestTicket bytes bytes
  | Ticket bytes bytes
  | Regtopic bytes bytes enr_record
  | Regconfirmation bytes bool
  | TopicQuery bytes bytes

fun Name :: "Packet \<Rightarrow> string" where
  "Name (Whoareyou w) = ''WHOAREYOU/v5''"
| "Name (Unknown n) = ''UNKNOWN/v5''"
| "Name (Ping r s) = ''PING/v5''"
| "Name (Pong r s ip p) = ''PONG/v5''"
| "Name (Findnode r ds) = ''FINDNODE/v5''"
| "Name (Nodes r t ns) = ''NODES/v5''"
| "Name (TalkRequest r p m) = ''TALKREQ/v5''"
| "Name (TalkResponse r m) = ''TALKRESP/v5''"
| "Name (RequestTicket r t) = ''REQTICKET/v5''"
| "Name (Regtopic r t e) = ''REGTOPIC/v5''"
| "Name (Ticket r t) = ''TICKET/v5''"
| "Name (Regconfirmation r b) = ''REGCONFIRMATION/v5''"
| "Name (TopicQuery r t) = ''TOPICQUERY/v5''"

fun Kind :: "Packet \<Rightarrow> byte" where
  "Kind (Whoareyou w) = WhoareyouPacket"
| "Kind (Unknown n) = UnknownPacket"
| "Kind (Ping r s) = PingMsg"
| "Kind (Pong r s ip p) = PongMsg"
| "Kind (Findnode r ds) = FindnodeMsg"
| "Kind (Nodes r t ns) = NodesMsg"
| "Kind (TalkRequest r p m) = TalkRequestMsg"
| "Kind (TalkResponse r m) = TalkResponseMsg"
| "Kind (RequestTicket r t) = RequestTicketMsg"
| "Kind (Regtopic r t e) = RegtopicMsg"
| "Kind (Ticket r t) = TicketMsg"
| "Kind (Regconfirmation r b) = RegconfirmationMsg"
| "Kind (TopicQuery r t) = TopicQueryMsg"

text \<open>A nil request ID is the empty one.\<close>

fun RequestID :: "Packet \<Rightarrow> bytes" where
  "RequestID (Whoareyou w) = []"
| "RequestID (Unknown n) = []"
| "RequestID (Ping r s) = r"
| "RequestID (Pong r s ip p) = r"
| "RequestID (Findnode r ds) = r"
| "RequestID (Nodes r t ns) = r"
| "RequestID (TalkRequest r p m) = r"
| "RequestID (TalkResponse r m) = r"
| "RequestID (RequestTicket r t) = r"
| "RequestID (Regtopic r t e) = r"
| "RequestID (Ticket r t) = r"
| "RequestID (Regconfirmation r b) = r"
| "RequestID (TopicQuery r t) = r"

fun SetRequestID :: "Packet \<Rightarrow> bytes \<Rightarrow> Packet" where
  "SetRequestID (Whoareyou w) i = Whoareyou w"
| "SetRequestID (Unknown n) i = Unknown n"
| "SetRequestID (Ping r s) i = Ping i s"
| "SetRequestID (Pong r s ip p) i = Pong i s ip p"
| "SetRequestID (Findnode r ds) i = Findnode i ds"
| "SetRequestID (Nodes r t ns) i = Nodes i t ns"
| "SetRequestID (TalkRequest r p m) i = TalkRequest i p m"
| "SetRequestID (TalkResponse r m) i = TalkResponse i m"
| "SetRequestID (RequestTicket r t) i = RequestTicket i t"
| "SetRequestID (Regtopic r t e) i = Regtopic i t e"
| "SetRequestID (Ticket r t) i = Ticket i t"
| "SetRequestID (Regconfirmation r b) i = Regconfirmation i b"
| "SetRequestID (TopicQuery r t) i = TopicQuery i t"

subsection \<open>Decoding\<close>

record rlp_lib =
  rlpEncode :: "Packet \<Rightarrow> bytes"
  rlpDecode :: "Packet \<Rightarrow> bytes \<Rightarrow> string + Packet"

definition ErrInvalidReqID :: string where "ErrInvalidReqID = ''request ID larger than 8 bytes''"

text \<open>The switch of \<open>DecodeMessage\<close>: an empty packet of the type.\<close>

definition new_packet :: "byte \<Rightarrow> Packet option" where
  "new_packet ptype =
     (if ptype = PingMsg then Some (Ping [] 0)
      else if ptype = PongMsg then Some (Pong [] 0 [] 0)
      else if ptype = FindnodeMsg then Some (Findnode [] [])
      else if ptype = NodesMsg then Some (Nodes [] 0 [])
      else if ptype = TalkRequestMsg then Some (TalkRequest [] [] [])
      else if ptype = TalkResponseMsg then Some (TalkResponse [] [])
      else if ptype = RequestTicketMsg then Some (RequestTicket [] [])
      else if ptype = TicketMsg then Some (Ticket [] [])
      else if ptype = RegtopicMsg then Some (Regtopic [] [] [])
      else if ptype = RegconfirmationMsg then Some (Regconfirmation [] False)
      else if ptype = TopicQueryMsg then Some (TopicQuery [] [])
      else None)"

definition DecodeMessage :: "rlp_lib \<Rightarrow> byte \<Rightarrow> bytes \<Rightarrow> string + Packet" where
  "DecodeMessage R ptype body =
     (case new_packet ptype of
        None \<Rightarrow> Inl ''unknown packet type''
      | Some dec \<Rightarrow>
          (case rlpDecode R dec body of
             Inl err \<Rightarrow> Inl err
           | Inr p \<Rightarrow> if length (RequestID p) > 8 then Inl ErrInvalidReqID else Inr p))"

subsection \<open>What RLP promises\<close>

text \<open>
  \<open>rlpDecode\<close> fills a value of the type it is given, and undoes the encoding of a value of that type.
\<close>

definition is_message :: "Packet \<Rightarrow> bool" where
  "is_message p \<longleftrightarrow> (case p of Unknown _ \<Rightarrow> False | Whoareyou _ \<Rightarrow> False | _ \<Rightarrow> True)"

definition rlp_ok :: "rlp_lib \<Rightarrow> bool" where
  "rlp_ok R \<longleftrightarrow>
     (\<forall>dec body p. rlpDecode R dec body = Inr p \<longrightarrow> Kind p = Kind dec) \<and>
     (\<forall>dec p. is_message p \<longrightarrow> Kind p = Kind dec \<longrightarrow> rlpDecode R dec (rlpEncode R p) = Inr p)"

lemma Kind_new_packet: "new_packet k = Some p \<Longrightarrow> Kind p = k"
  by (auto simp: new_packet_def split: if_splits)

lemma new_packet_message: "is_message p \<Longrightarrow> \<exists>dec. new_packet (Kind p) = Some dec"
  by (cases p) (simp_all add: is_message_def new_packet_def msg_kinds)

lemma Kind_message: "is_message p \<longleftrightarrow> Kind p \<noteq> UnknownPacket \<and> Kind p \<noteq> WhoareyouPacket"
  by (cases p) (simp_all add: is_message_def msg_kinds)

lemma Kind_SetRequestID [simp]: "Kind (SetRequestID p i) = Kind p"
  by (cases p) simp_all

lemma RequestID_SetRequestID: "is_message p \<Longrightarrow> RequestID (SetRequestID p i) = i"
  by (cases p) (simp_all add: is_message_def)

lemma DecodeMessage_encode:
  assumes "rlp_ok R" "is_message p"
  shows "DecodeMessage R (Kind p) (rlpEncode R p) = (if length (RequestID p) \<le> 8 then Inr p else Inl ErrInvalidReqID)"
proof -
  obtain dec where dec: "new_packet (Kind p) = Some dec" using new_packet_message [OF assms(2)] by blast
  have "rlpDecode R dec (rlpEncode R p) = Inr p" using assms Kind_new_packet [OF dec] by (simp add: rlp_ok_def)
  then show ?thesis by (simp add: DecodeMessage_def dec)
qed

lemma DecodeMessage_accepts:
  assumes "rlp_ok R" "DecodeMessage R k body = Inr p"
  shows "Kind p = k" "is_message p" "length (RequestID p) \<le> 8"
proof -
  obtain dec where dec: "new_packet k = Some dec" "rlpDecode R dec body = Inr p" "length (RequestID p) \<le> 8"
    using assms(2) by (auto simp: DecodeMessage_def split: option.splits sum.splits if_splits)
  show "Kind p = k" "length (RequestID p) \<le> 8"
    using dec assms(1) Kind_new_packet [OF dec(1)] by (auto simp: rlp_ok_def)
  moreover have "k \<noteq> UnknownPacket" "k \<noteq> WhoareyouPacket"
    using dec(1) by (auto simp: new_packet_def msg_kinds)
  ultimately show "is_message p" by (simp add: Kind_message)
qed

subsection \<open>An instance of RLP\<close>

text \<open>A packet as a list of byte strings, each written with its length in unary.\<close>

definition string_bytes :: "string \<Rightarrow> bytes" where
  "string_bytes s = map (\<lambda>c. of_nat (of_char c)) s"

definition bytes_string :: "bytes \<Rightarrow> string" where
  "bytes_string bs = map (\<lambda>b. char_of (unat b)) bs"

lemma bytes_string_bytes [simp]: "bytes_string (string_bytes s) = s"
proof -
  have "char_of (unat (of_nat (of_char c) :: byte)) = c" for c :: char
    by (simp add: unat_of_nat)
  then show ?thesis by (simp add: string_bytes_def bytes_string_def o_def)
qed

fun packet_fields :: "Packet \<Rightarrow> bytes list" where
  "packet_fields (Ping r s) = [r, be_bytes 8 s]"
| "packet_fields (Pong r s ip p) = [r, be_bytes 8 s, ip, be_bytes 2 p]"
| "packet_fields (Findnode r ds) = r # map (be_bytes 8) ds"
| "packet_fields (Nodes r t ns) = r # [t] # ns"
| "packet_fields (TalkRequest r p m) = [r, string_bytes p, m]"
| "packet_fields (TalkResponse r m) = [r, m]"
| "packet_fields (RequestTicket r t) = [r, t]"
| "packet_fields (Regtopic r t e) = [r, t, e]"
| "packet_fields (Ticket r t) = [r, t]"
| "packet_fields (Regconfirmation r b) = [r, [of_bool b]]"
| "packet_fields (TopicQuery r t) = [r, t]"
| "packet_fields p = []"

fun fields_packet :: "Packet \<Rightarrow> bytes list \<Rightarrow> Packet option" where
  "fields_packet (Ping _ _) [r, s] = Some (Ping r (be_word s))"
| "fields_packet (Pong _ _ _ _) [r, s, ip, p] = Some (Pong r (be_word s) ip (be_word p))"
| "fields_packet (Findnode _ _) (r # ds) = Some (Findnode r (map be_word ds))"
| "fields_packet (Nodes _ _ _) (r # [t] # ns) = Some (Nodes r t ns)"
| "fields_packet (TalkRequest _ _ _) [r, p, m] = Some (TalkRequest r (bytes_string p) m)"
| "fields_packet (TalkResponse _ _) [r, m] = Some (TalkResponse r m)"
| "fields_packet (RequestTicket _ _) [r, t] = Some (RequestTicket r t)"
| "fields_packet (Regtopic _ _ _) [r, t, e] = Some (Regtopic r t e)"
| "fields_packet (Ticket _ _) [r, t] = Some (Ticket r t)"
| "fields_packet (Regconfirmation _ _) [r, b] = Some (Regconfirmation r (b = [1]))"
| "fields_packet (TopicQuery _ _) [r, t] = Some (TopicQuery r t)"
| "fields_packet _ _ = None"

definition write_fields :: "bytes list \<Rightarrow> bytes" where
  "write_fields fs = concat (map (\<lambda>f. replicate (length f) 1 @ 0 # f) fs)"

fun read_fields :: "nat \<Rightarrow> bytes \<Rightarrow> bytes list" where
  "read_fields n [] = []"
| "read_fields n (b # bs) = (if b = 1 then read_fields (Suc n) bs else take n bs # read_fields 0 (drop n bs))"

lemma read_fields_unary: "read_fields n (replicate k 1 @ bs) = read_fields (n + k) bs"
  by (induction k arbitrary: n) simp_all

lemma read_write_fields [simp]: "read_fields 0 (write_fields fs) = fs"
  by (induction fs) (simp_all add: write_fields_def read_fields_unary)

definition sample_rlp :: rlp_lib where
  "sample_rlp = \<lparr>rlpEncode = (\<lambda>p. write_fields (packet_fields p)),
     rlpDecode = (\<lambda>dec body. case fields_packet dec (read_fields 0 body) of None \<Rightarrow> Inl ''rlp'' | Some p \<Rightarrow> Inr p)\<rparr>"

lemma fields_packet_fields: "is_message p \<Longrightarrow> Kind p = Kind dec \<Longrightarrow> fields_packet dec (packet_fields p) = Some p"
  by (cases p; cases dec)
    (simp_all add: is_message_def msg_kinds be_word_be_bytes o_def)

lemma Kind_fields_packet: "fields_packet dec fs = Some p \<Longrightarrow> Kind p = Kind dec"
  by (induction dec fs rule: fields_packet.induct) auto

lemma sample_rlp_ok: "rlp_ok sample_rlp"
  by (auto simp: rlp_ok_def sample_rlp_def fields_packet_fields Kind_fields_packet split: option.splits)

end
