(* ===== verification/V5_Session.thy ===== *)
theory V5_Session
  imports Go_Net V5_Msg
begin

text \<open>
  Keys and sessions of the Discovery v5 wire protocol (\<^verbatim>\<open>v5wire/crypto.go\<close> and \<^verbatim>\<open>v5wire/session.go\<close>).
  The cryptographic primitives, the LRU cache and the node record library are parameters (\<open>wire_lib\<close>).
  A session is shared by pointer between the cache and the encoder that counts its nonces, so the
  cache holds addresses and the sessions are kept by address.
\<close>

subsection \<open>The libraries\<close>

text \<open>
  \<open>hkdf\<close> and \<open>ctr\<close> are streams of bytes. A private or public key knows whether its curve is secp256k1.
  \<open>lruGet\<close> also marks the entry as recently used.
\<close>

type_synonym sessionID = "ID \<times> string"

record ('priv, 'pub, 'c) wire_lib =
  rlp :: rlp_lib
  privOnS256 :: "'priv \<Rightarrow> bool"
  pubOnS256 :: "'pub \<Rightarrow> bool"
  PublicKey :: "'priv \<Rightarrow> 'pub"
  CompressPubkey :: "'pub \<Rightarrow> bytes"
  DecompressPubkey :: "bytes \<Rightarrow> string + 'pub"
  Sign :: "bytes \<Rightarrow> 'priv \<Rightarrow> string + bytes"
  VerifySignature :: "bytes \<Rightarrow> bytes \<Rightarrow> bytes \<Rightarrow> bool"
  ScalarMult :: "'pub \<Rightarrow> 'priv \<Rightarrow> (nat \<times> nat) option"
  sha256 :: "bytes \<Rightarrow> bytes"
  hkdf :: "bytes \<Rightarrow> bytes \<Rightarrow> bytes \<Rightarrow> nat \<Rightarrow> byte"
  ctr :: "bytes \<Rightarrow> bytes \<Rightarrow> nat \<Rightarrow> byte"
  gcmSeal :: "bytes \<Rightarrow> Nonce \<Rightarrow> bytes \<Rightarrow> bytes \<Rightarrow> bytes"
  gcmOpen :: "bytes \<Rightarrow> Nonce \<Rightarrow> bytes \<Rightarrow> bytes \<Rightarrow> bytes option"
  IdentityScheme :: "enode \<Rightarrow> string"
  LoadSecp256k1 :: "enode \<Rightarrow> 'pub option"
  LoadRaw :: "enode \<Rightarrow> bytes option"
  Record :: "enode \<Rightarrow> enr_record"
  decodeRecord :: "bytes \<Rightarrow> string + enr_record"
  recordSeq :: "enr_record \<Rightarrow> u64"
  enodeNew :: "enr_record \<Rightarrow> string + enode"
  newLRU :: "nat \<Rightarrow> 'c"
  lruGet :: "'c \<Rightarrow> sessionID \<Rightarrow> nat option \<times> 'c"
  lruAdd :: "'c \<Rightarrow> sessionID \<Rightarrow> nat \<Rightarrow> 'c"

subsection \<open>Keys and signatures\<close>

definition aesKeySize :: nat where "aesKeySize = 16"
definition gcmNonceSize :: nat where "gcmNonceSize = 12"

definition errInvalidNonceSig :: string where "errInvalidNonceSig = ''invalid ID nonce signature''"

definition EncodePubkey :: "('priv, 'pub, 'c) wire_lib \<Rightarrow> 'pub \<Rightarrow> bytes go" where
  "EncodePubkey W key = (if pubOnS256 W key then Some (CompressPubkey W key) else None)"

definition DecodePubkey :: "('priv, 'pub, 'c) wire_lib \<Rightarrow> 'priv \<Rightarrow> bytes \<Rightarrow> string + 'pub" where
  "DecodePubkey W priv e =
     (if privOnS256 W priv
      then if length e \<noteq> 33 then Inl ''wrong size public key data'' else DecompressPubkey W e
      else Inl ''unsupported curve'')"

definition idNonceHash :: "('priv, 'pub, 'c) wire_lib \<Rightarrow> bytes \<Rightarrow> bytes \<Rightarrow> ID \<Rightarrow> bytes" where
  "idNonceHash W challenge ephkey destID =
     sha256 W (string_bytes ''discovery v5 identity proof'' @ challenge @ ephkey @ destID)"

text \<open>The last byte of the signature is the recovery ID; slicing an empty signature would panic.\<close>

definition makeIDSignature ::
  "('priv, 'pub, 'c) wire_lib \<Rightarrow> 'priv \<Rightarrow> bytes \<Rightarrow> bytes \<Rightarrow> ID \<Rightarrow> (string + bytes) go" where
  "makeIDSignature W key challenge ephkey destID =
     (if privOnS256 W key
      then case Sign W (idNonceHash W challenge ephkey destID) key of
             Inl err \<Rightarrow> Some (Inl err)
           | Inr idsig \<Rightarrow> if idsig = [] then None else Some (Inr (butlast idsig))
      else Some (Inl ''unsupported curve''))"

definition verifyIDSignature ::
  "('priv, 'pub, 'c) wire_lib \<Rightarrow> bytes \<Rightarrow> enode \<Rightarrow> bytes \<Rightarrow> bytes \<Rightarrow> ID \<Rightarrow> string option" where
  "verifyIDSignature W sig n challenge ephkey destID =
     (if IdentityScheme W n = ''v4''
      then case LoadRaw W n of
             None \<Rightarrow> Some ''no secp256k1 public key in record''
           | Some pubkey \<Rightarrow>
               if VerifySignature W pubkey (idNonceHash W challenge ephkey destID) sig then None
               else Some errInvalidNonceSig
      else Some ''can't verify ID nonce signature against scheme'')"

definition ecdh :: "('priv, 'pub, 'c) wire_lib \<Rightarrow> 'priv \<Rightarrow> 'pub \<Rightarrow> bytes option" where
  "ecdh W privkey pubkey =
     (case ScalarMult W pubkey privkey of
        None \<Rightarrow> None
      | Some (secX, secY) \<Rightarrow> Some ((0x02 OR of_nat (secY mod 2)) # nat_bytes 32 secX))"

record session =
  writeKey :: bytes
  readKey' :: bytes
  nonceCounter :: u32

definition deriveKeys ::
  "('priv, 'pub, 'c) wire_lib \<Rightarrow> 'priv \<Rightarrow> 'pub \<Rightarrow> ID \<Rightarrow> ID \<Rightarrow> bytes \<Rightarrow> session option" where
  "deriveKeys W priv pub n1 n2 challenge =
     (let info = string_bytes ''discovery v5 key agreement'' @ n1 @ n2
      in case ecdh W priv pub of
           None \<Rightarrow> None
         | Some eph \<Rightarrow>
             (let kdf = hkdf W eph challenge info
              in Some \<lparr>writeKey = map kdf [0..<aesKeySize], readKey' = map kdf [aesKeySize..<2 * aesKeySize], nonceCounter = 0\<rparr>))"

text \<open>\<^verbatim>\<open>aes.NewCipher\<close> takes keys of 16, 24 or 32 bytes.\<close>

definition aes_key_ok :: "bytes \<Rightarrow> bool" where
  "aes_key_ok key \<longleftrightarrow> length key \<in> {16, 24, 32}"

text \<open>\<^verbatim>\<open>Seal\<close> panics on a nonce of another length.\<close>

definition encryptGCM :: "('priv, 'pub, 'c) wire_lib \<Rightarrow> bytes \<Rightarrow> Nonce \<Rightarrow> bytes \<Rightarrow> bytes \<Rightarrow> bytes go" where
  "encryptGCM W key nonce plaintext authData =
     (if aes_key_ok key \<and> length nonce = gcmNonceSize then Some (gcmSeal W key nonce plaintext authData) else None)"

definition decryptGCM :: "('priv, 'pub, 'c) wire_lib \<Rightarrow> bytes \<Rightarrow> Nonce \<Rightarrow> bytes \<Rightarrow> bytes \<Rightarrow> string + bytes" where
  "decryptGCM W key nonce ct authData =
     (if \<not> aes_key_ok key then Inl ''can't create block cipher''
      else if length nonce \<noteq> gcmNonceSize then Inl ''invalid GCM nonce size''
      else case gcmOpen W key nonce ct authData of
             None \<Rightarrow> Inl ''cipher: message authentication failed''
           | Some pt \<Rightarrow> Inr pt)"

subsection \<open>The session cache\<close>

definition handshakeTimeout :: int where "handshakeTimeout = 1000000000"

record 'c SessionCache =
  sessions :: 'c
  sheap :: "nat \<Rightarrow> session"
  sfresh :: nat
  handshakes :: "sessionID \<rightharpoonup> whoareyou"

definition keysFlipped :: "session \<Rightarrow> session" where
  "keysFlipped s = \<lparr>writeKey = readKey' s, readKey' = writeKey s, nonceCounter = nonceCounter s\<rparr>"

definition NewSessionCache :: "('priv, 'pub, 'c) wire_lib \<Rightarrow> nat \<Rightarrow> 'c SessionCache" where
  "NewSessionCache W maxItems =
     \<lparr>sessions = newLRU W maxItems, sheap = (\<lambda>_. \<lparr>writeKey = [], readKey' = [], nonceCounter = 0\<rparr>), sfresh = 0,
      handshakes = Map.empty\<rparr>"

text \<open>\<open>rnd\<close> is what the random source yields, or \<open>None\<close> when it fails.\<close>

definition generateNonce :: "u32 \<Rightarrow> bytes option \<Rightarrow> string + Nonce" where
  "generateNonce counter rnd =
     (case rnd of None \<Rightarrow> Inl ''rand'' | Some r \<Rightarrow> Inr (be_bytes 4 counter @ r))"

definition nextNonce :: "'c SessionCache \<Rightarrow> nat \<Rightarrow> bytes option \<Rightarrow> 'c SessionCache \<times> (string + Nonce)" where
  "nextNonce sc s rnd =
     (let counter = nonceCounter (sheap sc s) + 1
      in (sc\<lparr>sheap := (sheap sc)(s := (sheap sc s)\<lparr>nonceCounter := counter\<rparr>)\<rparr>, generateNonce counter rnd))"

definition get_session ::
  "('priv, 'pub, 'c) wire_lib \<Rightarrow> 'c SessionCache \<Rightarrow> ID \<Rightarrow> string \<Rightarrow> nat option \<times> 'c SessionCache" where
  "get_session W sc i addr = (let (item, c) = lruGet W (sessions sc) (i, addr) in (item, sc\<lparr>sessions := c\<rparr>))"

definition readKey ::
  "('priv, 'pub, 'c) wire_lib \<Rightarrow> 'c SessionCache \<Rightarrow> ID \<Rightarrow> string \<Rightarrow> bytes \<times> 'c SessionCache" where
  "readKey W sc i addr =
     (case get_session W sc i addr of
        (None, sc) \<Rightarrow> ([], sc)
      | (Some s, sc) \<Rightarrow> (readKey' (sheap sc s), sc))"

definition alloc_session :: "'c SessionCache \<Rightarrow> session \<Rightarrow> nat \<times> 'c SessionCache" where
  "alloc_session sc s = (sfresh sc, sc\<lparr>sheap := (sheap sc)(sfresh sc := s), sfresh := Suc (sfresh sc)\<rparr>)"

definition storeNewSession ::
  "('priv, 'pub, 'c) wire_lib \<Rightarrow> 'c SessionCache \<Rightarrow> ID \<Rightarrow> string \<Rightarrow> nat \<Rightarrow> 'c SessionCache" where
  "storeNewSession W sc i addr s = sc\<lparr>sessions := lruAdd W (sessions sc) (i, addr) s\<rparr>"

definition getHandshake :: "'c SessionCache \<Rightarrow> ID \<Rightarrow> string \<Rightarrow> whoareyou option" where
  "getHandshake sc i addr = handshakes sc (i, addr)"

definition storeSentHandshake :: "'c SessionCache \<Rightarrow> ID \<Rightarrow> string \<Rightarrow> whoareyou \<Rightarrow> int \<Rightarrow> 'c SessionCache" where
  "storeSentHandshake sc i addr challenge now =
     sc\<lparr>handshakes := (handshakes sc)((i, addr) \<mapsto> challenge\<lparr>sent := now\<rparr>)\<rparr>"

definition deleteHandshake :: "'c SessionCache \<Rightarrow> ID \<Rightarrow> string \<Rightarrow> 'c SessionCache" where
  "deleteHandshake sc i addr = sc\<lparr>handshakes := (handshakes sc)((i, addr) := None)\<rparr>"

definition handshakeGC :: "'c SessionCache \<Rightarrow> int \<Rightarrow> 'c SessionCache" where
  "handshakeGC sc now =
     sc\<lparr>handshakes := (\<lambda>key. case handshakes sc key of
            None \<Rightarrow> None
          | Some challenge \<Rightarrow> if sent challenge < now - handshakeTimeout then None else Some challenge)\<rparr>"

subsection \<open>What the libraries promise\<close>

text \<open>
  An entry of the LRU cache is there after it is added and stays until another is added; looking it up
  changes nothing but the order.
\<close>

definition lru_ok :: "('priv, 'pub, 'c) wire_lib \<Rightarrow> ('c \<Rightarrow> sessionID \<rightharpoonup> nat) \<Rightarrow> bool" where
  "lru_ok W look \<longleftrightarrow>
     (\<forall>n. look (newLRU W n) = Map.empty) \<and>
     (\<forall>c k. fst (lruGet W c k) = look c k \<and> look (snd (lruGet W c k)) = look c) \<and>
     (\<forall>c k s. look (lruAdd W c k s) k = Some s \<and> (\<forall>j. j \<noteq> k \<longrightarrow> look (lruAdd W c k s) j \<in> {look c j, None}))"

text \<open>Decryption with the key, nonce and header of the encryption gives the plaintext.\<close>

definition gcm_ok :: "('priv, 'pub, 'c) wire_lib \<Rightarrow> bool" where
  "gcm_ok W \<longleftrightarrow>
     (\<forall>key nonce pt ad. gcmOpen W key nonce (gcmSeal W key nonce pt ad) ad = Some pt \<and>
        length (gcmSeal W key nonce pt ad) = length pt + 16)"

text \<open>
  The curve: keys survive compression to 33 bytes, the two sides of a key exchange compute one point, and
  a signature of a digest, of 32 bytes as SHA-256 yields them, is 65 bytes long with its recovery ID and verifies without it.
\<close>

definition curve_ok :: "('priv, 'pub, 'c) wire_lib \<Rightarrow> bool" where
  "curve_ok W \<longleftrightarrow>
     (\<forall>a. privOnS256 W a \<longrightarrow> pubOnS256 W (PublicKey W a)) \<and>
     (\<forall>k. pubOnS256 W k \<longrightarrow> length (CompressPubkey W k) = 33 \<and> DecompressPubkey W (CompressPubkey W k) = Inr k) \<and>
     (\<forall>a b. ScalarMult W (PublicKey W a) b = ScalarMult W (PublicKey W b) a \<and> ScalarMult W (PublicKey W a) b \<noteq> None) \<and>
     (\<forall>bs. length (sha256 W bs) = 32) \<and>
     (\<forall>m a. length m = 32 \<and> privOnS256 W a \<longrightarrow> (\<exists>sig. Sign W m a = Inr sig \<and> length sig = 65 \<and>
        VerifySignature W (CompressPubkey W (PublicKey W a)) m (butlast sig)))"

lemma curve_Sign:
  assumes "curve_ok W" "privOnS256 W a"
  shows "\<exists>sig. Sign W (idNonceHash W ch key i) a = Inr sig \<and> length sig = 65 \<and>
     VerifySignature W (CompressPubkey W (PublicKey W a)) (idNonceHash W ch key i) (butlast sig)"
  using assms by (simp add: curve_ok_def idNonceHash_def)

text \<open>The record of a node: it carries the node's key, and a node is recovered from it.\<close>

definition node_record_ok :: "('priv, 'pub, 'c) wire_lib \<Rightarrow> enode \<Rightarrow> 'priv \<Rightarrow> bool" where
  "node_record_ok W n a \<longleftrightarrow>
     privOnS256 W a \<and> length (eID n) = 32 \<and> IdentityScheme W n = ''v4'' \<and>
     LoadSecp256k1 W n = Some (PublicKey W a) \<and> LoadRaw W n = Some (CompressPubkey W (PublicKey W a)) \<and>
     decodeRecord W (Record W n) = Inr (Record W n) \<and> recordSeq W (Record W n) = eSeq n \<and>
     enodeNew W (Record W n) = Inr n \<and> Record W n \<noteq> [] \<and> length (Record W n) \<le> 300"

lemma ecdh_commute:
  assumes "curve_ok W"
  shows "ecdh W a (PublicKey W b) = ecdh W b (PublicKey W a)" "ecdh W a (PublicKey W b) \<noteq> None"
proof -
  have "ScalarMult W (PublicKey W b) a = ScalarMult W (PublicKey W a) b" "ScalarMult W (PublicKey W b) a \<noteq> None"
    using assms by (auto simp: curve_ok_def)
  then show "ecdh W a (PublicKey W b) = ecdh W b (PublicKey W a)" "ecdh W a (PublicKey W b) \<noteq> None"
    by (auto simp: ecdh_def)
qed

text \<open>Both sides of a handshake derive the same keys.\<close>

lemma deriveKeys_agree:
  assumes "curve_ok W"
  shows "deriveKeys W a (PublicKey W b) n1 n2 challenge = deriveKeys W b (PublicKey W a) n1 n2 challenge"
    and "\<exists>s. deriveKeys W a (PublicKey W b) n1 n2 challenge = Some s \<and>
             length (writeKey s) = 16 \<and> length (readKey' s) = 16 \<and> nonceCounter s = 0"
  using ecdh_commute [OF assms, of a b] by (auto simp: deriveKeys_def Let_def aesKeySize_def)

lemma decrypt_encrypt:
  "gcm_ok W \<Longrightarrow> encryptGCM W key nonce pt ad = Some ct \<Longrightarrow> decryptGCM W key nonce ct ad = Inr pt"
  by (auto simp: encryptGCM_def decryptGCM_def gcm_ok_def split: if_splits)

lemma keysFlipped_twice [simp]: "keysFlipped (keysFlipped s) = s"
  by (simp add: keysFlipped_def)

lemma handshakeGC_keeps:
  "handshakes sc key = Some ch \<Longrightarrow> now - handshakeTimeout \<le> sent ch \<Longrightarrow> handshakes (handshakeGC sc now) key = Some ch"
  by (simp add: handshakeGC_def)

lemma handshakeGC_fields [simp]:
  "sessions (handshakeGC sc now) = sessions sc" "sheap (handshakeGC sc now) = sheap sc" "sfresh (handshakeGC sc now) = sfresh sc"
  by (simp_all add: handshakeGC_def)

end
