(* ===== verification/V5_Codec.thy ===== *)
theory V5_Codec
  imports V5_Session
begin

text \<open>
  The packet codec of Discovery v5 (\<^verbatim>\<open>v5wire/encoding.go\<close>): packet headers and their masking, the three
  kinds of packets, and the handshake. The buffers of the codec are reused but never read after being
  overwritten, so a packet is a value here; the input that \<open>Decode\<close> unmasks in place is passed on
  unmasked. What the random sources yield is an argument of \<open>Encode\<close>.
\<close>

subsection \<open>Headers\<close>

record Header =
  IV :: bytes
  ProtocolID :: bytes
  Version :: u16
  Flag :: byte
  hNonce :: Nonce
  AuthSize :: u16
  AuthData :: bytes
  src :: ID

record whoareyouAuthData =
  aIDNonce :: bytes
  aRecordSeq :: u64

record handshakeAuthData =
  SrcID :: ID
  SigSize :: byte
  PubkeySize :: byte
  signature :: bytes
  pubkey :: bytes
  arecord :: bytes

definition flagMessage :: byte where "flagMessage = 0"
definition flagWhoareyou :: byte where "flagWhoareyou = 1"
definition flagHandshake :: byte where "flagHandshake = 2"

definition version :: u16 where "version = 1"
definition minVersion :: u16 where "minVersion = 1"
definition sizeofMaskingIV :: nat where "sizeofMaskingIV = 16"
definition minMessageSize :: nat where "minMessageSize = 48"
definition randomPacketMsgSize :: nat where "randomPacketMsgSize = 20"

definition protocolID :: bytes where "protocolID = string_bytes ''discv5''"

definition errTooShort :: string where "errTooShort = ''packet too short''"
definition errInvalidHeader :: string where "errInvalidHeader = ''invalid packet header''"
definition errInvalidFlag :: string where "errInvalidFlag = ''invalid flag value in header''"
definition errMinVersion :: string where "errMinVersion = ''version of packet header below minimum''"
definition errMsgTooShort :: string where "errMsgTooShort = ''message/handshake packet below minimum size''"
definition errAuthSize :: string where "errAuthSize = ''declared auth size is beyond packet length''"
definition errUnexpectedHandshake :: string where "errUnexpectedHandshake = ''unexpected auth response, not in handshake''"
definition errInvalidAuthKey :: string where "errInvalidAuthKey = ''invalid ephemeral pubkey''"
definition errNoRecord :: string where "errNoRecord = ''expected ENR in handshake but none sent''"
definition errMessageTooShort :: string where "errMessageTooShort = ''message contains no data''"
definition errMessageDecrypt :: string where "errMessageDecrypt = ''cannot decrypt message''"

text \<open>The sizes that \<^verbatim>\<open>binary.Size\<close> gives for the fixed-size structs.\<close>

definition sizeofStaticHeader :: nat where "sizeofStaticHeader = 6 + 2 + 1 + 12 + 2"
definition sizeofWhoareyouAuthData :: nat where "sizeofWhoareyouAuthData = 16 + 8"
definition sizeofHandshakeAuthData :: nat where "sizeofHandshakeAuthData = 32 + 1 + 1"
definition sizeofMessageAuthData :: nat where "sizeofMessageAuthData = 32"
definition sizeofStaticPacketData :: nat where "sizeofStaticPacketData = sizeofMaskingIV + sizeofStaticHeader"

lemmas wire_sizes = sizeofStaticHeader_def sizeofWhoareyouAuthData_def sizeofHandshakeAuthData_def
  sizeofMessageAuthData_def sizeofStaticPacketData_def sizeofMaskingIV_def

text \<open>\<^verbatim>\<open>binary.Write\<close> and \<^verbatim>\<open>binary.Read\<close> of the static header, big-endian.\<close>

definition write_static :: "Header \<Rightarrow> bytes" where
  "write_static h = ProtocolID h @ be_bytes 2 (Version h) @ [Flag h] @ hNonce h @ be_bytes 2 (AuthSize h)"

definition read_static :: "Header \<Rightarrow> bytes \<Rightarrow> Header" where
  "read_static h bs =
     h\<lparr>ProtocolID := take 6 bs, Version := be_word (take 2 (drop 6 bs)), Flag := bs ! 8,
       hNonce := take 12 (drop 9 bs), AuthSize := be_word (take 2 (drop 21 bs))\<rparr>"

definition empty_header :: Header where
  "empty_header = \<lparr>IV = replicate 16 0, ProtocolID = replicate 6 0, Version = 0, Flag = 0, hNonce = replicate 12 0,
     AuthSize = 0, AuthData = [], src = replicate 32 0\<rparr>"

definition writeHeaders :: "Header \<Rightarrow> bytes" where
  "writeHeaders head = IV head @ write_static head @ AuthData head"

text \<open>
  The mask is the key stream of AES-CTR under the destination's ID; \<open>xor_stream\<close> continues it from an
  offset. IDs have 32 bytes, so the cipher is always created.
\<close>

definition mask_stream :: "('priv, 'pub, 'c) wire_lib \<Rightarrow> ID \<Rightarrow> bytes \<Rightarrow> nat \<Rightarrow> byte" where
  "mask_stream W destID iv = ctr W (take 16 destID) iv"

definition xor_stream :: "(nat \<Rightarrow> byte) \<Rightarrow> nat \<Rightarrow> bytes \<Rightarrow> bytes" where
  "xor_stream f k bs = map (\<lambda>i. (bs ! i) XOR f (k + i)) [0..<length bs]"

definition checkValid :: "Header \<Rightarrow> nat \<Rightarrow> string option" where
  "checkValid h packetLen =
     (if ProtocolID h \<noteq> protocolID then Some errInvalidHeader
      else if Version h < minVersion then Some errMinVersion
      else if Flag h \<noteq> flagWhoareyou \<and> packetLen < minMessageSize then Some errMsgTooShort
      else if unat (AuthSize h) > packetLen then Some errAuthSize
      else None)"

subsection \<open>The codec\<close>

record ('priv, 'c) Codec =
  localnode :: enode
  privkey :: 'priv
  sc :: "'c SessionCache"

definition NewCodec :: "('priv, 'pub, 'c) wire_lib \<Rightarrow> enode \<Rightarrow> 'priv \<Rightarrow> ('priv, 'c) Codec" where
  "NewCodec W ln key = \<lparr>localnode = ln, privkey = key, sc = NewSessionCache W 1024\<rparr>"

text \<open>The random sources: the tail of a counted nonce, the masking IV, an ephemeral key, a random nonce and random data.\<close>

record 'priv entropy =
  rNonce :: "bytes option"
  rIV :: "bytes option"
  rKey :: "'priv option"
  rRandomNonce :: "bytes option"
  rData :: bytes

definition EncodeRaw :: "('priv, 'pub, 'c) wire_lib \<Rightarrow> ID \<Rightarrow> Header \<Rightarrow> bytes \<Rightarrow> bytes" where
  "EncodeRaw W i head msgdata =
     (let buf = writeHeaders head;
          masked = drop sizeofMaskingIV buf
      in take sizeofMaskingIV buf @ xor_stream (mask_stream W i (IV head)) 0 masked @ msgdata)"

definition makeHeader :: "byte \<Rightarrow> nat \<Rightarrow> Header go" where
  "makeHeader flag authsizeExtra =
     do { authsize \<leftarrow> (if flag = flagMessage then Some sizeofMessageAuthData
                       else if flag = flagWhoareyou then Some sizeofWhoareyouAuthData
                       else if flag = flagHandshake then Some sizeofHandshakeAuthData
                       else None);
          let authsize = authsize + authsizeExtra;
          if authsize > 65535 then None
          else Some (empty_header\<lparr>ProtocolID := protocolID, Version := version, Flag := flag, AuthSize := of_nat authsize\<rparr>) }"

definition encodeRandom :: "('priv, 'c) Codec \<Rightarrow> 'priv entropy \<Rightarrow> (string + Header \<times> bytes) go" where
  "encodeRandom c e =
     do { head \<leftarrow> makeHeader flagMessage 0;
          case rRandomNonce e of
            None \<Rightarrow> Some (Inl ''can't get random data'')
          | Some nonce \<Rightarrow> Some (Inr (head\<lparr>hNonce := nonce, AuthData := eID (localnode c)\<rparr>, rData e)) }"

definition encodeWhoareyou :: "whoareyou \<Rightarrow> Header go" where
  "encodeWhoareyou w =
     (if RecordSeq w > 0 \<and> wNode w = None then None
      else do { head \<leftarrow> makeHeader flagWhoareyou 0;
                Some (head\<lparr>hNonce := wNonce w, AuthData := IDNonce w @ be_bytes 8 (RecordSeq w)\<rparr>) })"

definition makeHandshakeAuth ::
  "('priv, 'pub, 'c) wire_lib \<Rightarrow> ('priv, 'c) Codec \<Rightarrow> ID \<Rightarrow> whoareyou \<Rightarrow> enode \<Rightarrow> 'priv entropy \<Rightarrow>
   (string + handshakeAuthData \<times> session) go" where
  "makeHandshakeAuth W c toID challenge node e =
     (case LoadSecp256k1 W node of
        None \<Rightarrow> Some (Inl ''can't find secp256k1 key for recipient'')
      | Some remotePubkey \<Rightarrow>
          (case rKey e of
             None \<Rightarrow> Some (Inl ''can't generate ephemeral key'')
           | Some ephkey \<Rightarrow>
               do { ephpubkey \<leftarrow> EncodePubkey W (PublicKey W ephkey);
                    sig \<leftarrow> makeIDSignature W (privkey c) (ChallengeData challenge) ephpubkey toID;
                    case sig of
                      Inl err \<Rightarrow> Some (Inl ''can't sign'')
                    | Inr idsig \<Rightarrow>
                        (let ln = localnode c;
                             auth = \<lparr>SrcID = eID ln, SigSize = of_nat (length idsig), PubkeySize = of_nat (length ephpubkey),
                                     signature = idsig, pubkey = ephpubkey,
                                     arecord = (if RecordSeq challenge < eSeq ln then Record W ln else [])\<rparr>
                         in case deriveKeys W ephkey remotePubkey (eID ln) (eID node) (ChallengeData challenge) of
                              None \<Rightarrow> Some (Inl ''key derivation failed'')
                            | Some sec \<Rightarrow> Some (Inr (auth, sec))) }))"

definition write_handshake_auth :: "handshakeAuthData \<Rightarrow> bytes" where
  "write_handshake_auth auth = SrcID auth @ [SigSize auth] @ [PubkeySize auth] @ signature auth @ pubkey auth @ arecord auth"

text \<open>The session is allocated by \<open>deriveKeys\<close>, counted by \<open>nextNonce\<close> and then stored.\<close>

definition encodeHandshakeHeader ::
  "('priv, 'pub, 'c) wire_lib \<Rightarrow> ('priv, 'c) Codec \<Rightarrow> ID \<Rightarrow> string \<Rightarrow> whoareyou \<Rightarrow> 'priv entropy \<Rightarrow>
   (('priv, 'c) Codec \<times> (string + Header \<times> nat)) go" where
  "encodeHandshakeHeader W c toID addr challenge e =
     do { node \<leftarrow> wNode challenge;
          r \<leftarrow> makeHandshakeAuth W c toID challenge node e;
          case r of
            Inl err \<Rightarrow> Some (c, Inl err)
          | Inr (auth, sec) \<Rightarrow>
              (let (s, cache) = alloc_session (sc c) sec
               in case nextNonce cache s (rNonce e) of
                    (cache, Inl err) \<Rightarrow> Some (c\<lparr>sc := cache\<rparr>, Inl ''can't generate nonce'')
                  | (cache, Inr nonce) \<Rightarrow>
                      do { let cache = storeNewSession W cache toID addr s;
                           head \<leftarrow> makeHeader flagHandshake (length (pubkey auth) + length (signature auth) + length (arecord auth));
                           Some (c\<lparr>sc := cache\<rparr>, Inr (head\<lparr>AuthData := write_handshake_auth auth, hNonce := nonce\<rparr>, s)) }) }"

definition encodeMessageHeader ::
  "('priv, 'c) Codec \<Rightarrow> nat \<Rightarrow> 'priv entropy \<Rightarrow> (('priv, 'c) Codec \<times> (string + Header)) go" where
  "encodeMessageHeader c s e =
     do { head \<leftarrow> makeHeader flagMessage 0;
          case nextNonce (sc c) s (rNonce e) of
            (cache, Inl err) \<Rightarrow> Some (c\<lparr>sc := cache\<rparr>, Inl ''can't generate nonce'')
          | (cache, Inr nonce) \<Rightarrow>
              Some (c\<lparr>sc := cache\<rparr>, Inr (head\<lparr>AuthData := eID (localnode c), hNonce := nonce\<rparr>)) }"

text \<open>
  \<^verbatim>\<open>rlp.Encode\<close> of a message into the codec's buffer fails for values of types without an encoding only;
  every message type has one, so \<open>rlpEncode\<close> is total and its error branch is left out.
\<close>

definition encryptMessage ::
  "('priv, 'pub, 'c) wire_lib \<Rightarrow> session \<Rightarrow> Packet \<Rightarrow> Header \<Rightarrow> bytes \<Rightarrow> bytes go" where
  "encryptMessage W s p head headerData =
     encryptGCM W (writeKey s) (hNonce head) (Kind p # rlpEncode (rlp W) p) headerData"

text \<open>
  \<open>Encode\<close>: the header, then the message. The first component is the codec after the call, the second the
  error, or the packet with its nonce.
\<close>

definition finish_message ::
  "('priv, 'pub, 'c) wire_lib \<Rightarrow> ('priv, 'c) Codec \<Rightarrow> ID \<Rightarrow> Packet \<Rightarrow> Header \<Rightarrow> nat \<Rightarrow> 'priv entropy \<Rightarrow>
   (('priv, 'c) Codec \<times> (string + bytes \<times> Nonce)) go" where
  "finish_message W c i packet head s e =
     (case rIV e of
        None \<Rightarrow> Some (c, Inl ''can't generate masking IV'')
      | Some iv \<Rightarrow>
          (let head = head\<lparr>IV := iv\<rparr>
           in do { msgData \<leftarrow> encryptMessage W (sheap (sc c) s) packet head (writeHeaders head);
                   Some (c, Inr (EncodeRaw W i head msgData, hNonce head)) }))"

definition Encode ::
  "('priv, 'pub, 'c) wire_lib \<Rightarrow> ('priv, 'c) Codec \<Rightarrow> ID \<Rightarrow> string \<Rightarrow> Packet \<Rightarrow> whoareyou option \<Rightarrow> 'priv entropy \<Rightarrow> int \<Rightarrow>
   (('priv, 'c) Codec \<times> (string + bytes \<times> Nonce)) go" where
  "Encode W c i addr packet challenge e now =
     (case packet of
        Whoareyou w \<Rightarrow>
          do { head \<leftarrow> encodeWhoareyou w;
               case rIV e of
                 None \<Rightarrow> Some (c, Inl ''can't generate masking IV'')
               | Some iv \<Rightarrow>
                   (let head = head\<lparr>IV := iv\<rparr>
                    in Some (c\<lparr>sc := storeSentHandshake (sc c) i addr (w\<lparr>ChallengeData := writeHeaders head\<rparr>) now\<rparr>,
                             Inr (EncodeRaw W i head [], hNonce head))) }
      | _ \<Rightarrow>
          (case challenge of
             Some ch \<Rightarrow>
               do { r \<leftarrow> encodeHandshakeHeader W c i addr ch e;
                    case r of
                      (c, Inl err) \<Rightarrow> Some (c, Inl err)
                    | (c, Inr (head, s)) \<Rightarrow> finish_message W c i packet head s e }
           | None \<Rightarrow>
               (case get_session W (sc c) i addr of
                  (Some s, cache) \<Rightarrow>
                    do { r \<leftarrow> encodeMessageHeader (c\<lparr>sc := cache\<rparr>) s e;
                         case r of
                           (c, Inl err) \<Rightarrow> Some (c, Inl err)
                         | (c, Inr head) \<Rightarrow> finish_message W c i packet head s e }
                | (None, cache) \<Rightarrow>
                    do { r \<leftarrow> encodeRandom c e;
                         case r of
                           Inl err \<Rightarrow> Some (c\<lparr>sc := cache\<rparr>, Inl err)
                         | Inr (head, msgData) \<Rightarrow>
                             (case rIV e of
                                None \<Rightarrow> Some (c\<lparr>sc := cache\<rparr>, Inl ''can't generate masking IV'')
                              | Some iv \<Rightarrow>
                                  Some (c\<lparr>sc := cache\<rparr>, Inr (EncodeRaw W i (head\<lparr>IV := iv\<rparr>) msgData, hNonce head))) })))"

subsection \<open>Decoding\<close>

definition decryptMessage ::
  "('priv, 'pub, 'c) wire_lib \<Rightarrow> bytes \<Rightarrow> Nonce \<Rightarrow> bytes \<Rightarrow> bytes \<Rightarrow> string + Packet" where
  "decryptMessage W input nonce headerData key =
     (case decryptGCM W key nonce input headerData of
        Inl err \<Rightarrow> Inl errMessageDecrypt
      | Inr [] \<Rightarrow> Inl errMessageTooShort
      | Inr (k # body) \<Rightarrow> DecodeMessage (rlp W) k body)"

definition decodeWhoareyou :: "Header \<Rightarrow> bytes \<Rightarrow> string + Packet" where
  "decodeWhoareyou head headerData =
     (if length (AuthData head) \<noteq> sizeofWhoareyouAuthData then Inl ''invalid auth size for WHOAREYOU''
      else Inr (Whoareyou \<lparr>ChallengeData = headerData, wNonce = hNonce head, IDNonce = take 16 (AuthData head),
                  RecordSeq = be_word (drop 16 (AuthData head)), wNode = None, sent = 0\<rparr>))"

definition empty_auth :: handshakeAuthData where
  "empty_auth = \<lparr>SrcID = replicate 32 0, SigSize = 0, PubkeySize = 0, signature = [], pubkey = [], arecord = []\<rparr>"

text \<open>The auth data read, with the error if there is one; the source ID of the header is set once the fixed part is read.\<close>

definition decodeHandshakeAuthData :: "Header \<Rightarrow> Header \<times> handshakeAuthData \<times> string option" where
  "decodeHandshakeAuthData head =
     (if length (AuthData head) < sizeofHandshakeAuthData
      then (head, empty_auth, Some ''header authsize too low for handshake'')
      else let auth = empty_auth\<lparr>SrcID := take 32 (AuthData head), SigSize := AuthData head ! 32, PubkeySize := AuthData head ! 33\<rparr>;
               head = head\<lparr>src := SrcID auth\<rparr>;
               vardata = drop sizeofHandshakeAuthData (AuthData head);
               keyOffset = unat (SigSize auth);
               recOffset = keyOffset + unat (PubkeySize auth)
           in if length vardata < unat (SigSize auth) + unat (PubkeySize auth) then (head, auth, Some errTooShort)
              else (head, auth\<lparr>signature := take keyOffset vardata, pubkey := take (recOffset - keyOffset) (drop keyOffset vardata),
                               arecord := drop recOffset vardata\<rparr>, None))"

definition decodeHandshakeRecord ::
  "('priv, 'pub, 'c) wire_lib \<Rightarrow> enode option \<Rightarrow> ID \<Rightarrow> bytes \<Rightarrow> string + enode" where
  "decodeHandshakeRecord W local wantID remote =
     (let fallback = (case local of None \<Rightarrow> Inl errNoRecord | Some n \<Rightarrow> Inr n)
      in if length remote > 0
         then case decodeRecord W remote of
                Inl err \<Rightarrow> Inl err
              | Inr record \<Rightarrow>
                  if (case local of None \<Rightarrow> True | Some l \<Rightarrow> eSeq l < recordSeq W record)
                  then case enodeNew W record of
                         Inl err \<Rightarrow> Inl ''invalid node record''
                       | Inr n \<Rightarrow> if eID n \<noteq> wantID then Inl ''record in handshake has wrong ID'' else Inr n
                  else fallback
         else fallback)"

text \<open>A nil session is dereferenced by \<open>keysFlipped\<close>.\<close>

definition decodeHandshake ::
  "('priv, 'pub, 'c) wire_lib \<Rightarrow> ('priv, 'c) Codec \<Rightarrow> string \<Rightarrow> Header \<Rightarrow>
   (Header \<times> handshakeAuthData \<times> (string + enode \<times> session)) go" where
  "decodeHandshake W c fromAddr head =
     (case decodeHandshakeAuthData head of
        (head, auth, Some err) \<Rightarrow> Some (head, auth, Inl err)
      | (head, auth, None) \<Rightarrow>
          (case getHandshake (sc c) (SrcID auth) fromAddr of
             None \<Rightarrow> Some (head, auth, Inl errUnexpectedHandshake)
           | Some challenge \<Rightarrow>
               (case decodeHandshakeRecord W (wNode challenge) (SrcID auth) (arecord auth) of
                  Inl err \<Rightarrow> Some (head, auth, Inl err)
                | Inr n \<Rightarrow>
                    (case verifyIDSignature W (signature auth) n (ChallengeData challenge) (pubkey auth) (eID (localnode c)) of
                       Some err \<Rightarrow> Some (head, auth, Inl err)
                     | None \<Rightarrow>
                         (case DecodePubkey W (privkey c) (pubkey auth) of
                            Inl err \<Rightarrow> Some (head, auth, Inl errInvalidAuthKey)
                          | Inr ephkey \<Rightarrow>
                              map_option (\<lambda>s. (head, auth, Inr (n, keysFlipped s)))
                                (deriveKeys W (privkey c) ephkey (SrcID auth) (eID (localnode c)) (ChallengeData challenge)))))))"

definition decodeHandshakeMessage ::
  "('priv, 'pub, 'c) wire_lib \<Rightarrow> ('priv, 'c) Codec \<Rightarrow> string \<Rightarrow> Header \<Rightarrow> bytes \<Rightarrow> bytes \<Rightarrow>
   (('priv, 'c) Codec \<times> Header \<times> enode option \<times> (string + Packet)) go" where
  "decodeHandshakeMessage W c fromAddr head headerData msgData =
     do { (head, auth, r) \<leftarrow> decodeHandshake W c fromAddr head;
          let drop_challenge = (\<lambda>cache. deleteHandshake cache (SrcID auth) fromAddr);
          case r of
            Inl err \<Rightarrow> Some (c\<lparr>sc := drop_challenge (sc c)\<rparr>, head, None, Inl err)
          | Inr (node, s) \<Rightarrow>
              (case decryptMessage W msgData (hNonce head) headerData (readKey' s) of
                 Inl err \<Rightarrow> Some (c\<lparr>sc := drop_challenge (sc c)\<rparr>, head, Some node, Inl err)
               | Inr msg \<Rightarrow>
                   (let (p, cache) = alloc_session (sc c) s
                    in Some (c\<lparr>sc := drop_challenge (storeNewSession W cache (SrcID auth) fromAddr p)\<rparr>, head, Some node, Inr msg))) }"

definition decodeMessage ::
  "('priv, 'pub, 'c) wire_lib \<Rightarrow> ('priv, 'c) Codec \<Rightarrow> string \<Rightarrow> Header \<Rightarrow> bytes \<Rightarrow> bytes \<Rightarrow>
   ('priv, 'c) Codec \<times> Header \<times> (string + Packet)" where
  "decodeMessage W c fromAddr head headerData msgData =
     (if length (AuthData head) \<noteq> sizeofMessageAuthData then (c, head, Inl ''invalid auth size for message packet'')
      else let head = head\<lparr>src := AuthData head\<rparr>;
               (key, cache) = readKey W (sc c) (src head) fromAddr;
               msg = decryptMessage W msgData (hNonce head) headerData key
           in (c\<lparr>sc := cache\<rparr>, head, if msg = Inl errMessageDecrypt then Inr (Unknown (hNonce head)) else msg))"

text \<open>
  \<open>Decode\<close> yields the codec after the call, the source ID, the node of a handshake, and the error or the
  packet.
\<close>

definition Decode ::
  "('priv, 'pub, 'c) wire_lib \<Rightarrow> ('priv, 'c) Codec \<Rightarrow> bytes \<Rightarrow> string \<Rightarrow> int \<Rightarrow>
   (('priv, 'c) Codec \<times> ID \<times> enode option \<times> (string + Packet)) go" where
  "Decode W c input addr now =
     (let zeroID = replicate 32 0
      in if length input < sizeofStaticPacketData then Some (c, zeroID, None, Inl errTooShort)
         else
           let iv = take sizeofMaskingIV input;
               mask = mask_stream W (eID (localnode c)) iv;
               static = xor_stream mask 0 (take sizeofStaticHeader (drop sizeofMaskingIV input));
               head = read_static (empty_header\<lparr>IV := iv\<rparr>) static
           in case checkValid head (length input - sizeofStaticPacketData) of
                Some err \<Rightarrow> Some (c, zeroID, None, Inl err)
              | None \<Rightarrow>
                  let authDataEnd = sizeofStaticPacketData + unat (AuthSize head);
                      authData = xor_stream mask sizeofStaticHeader (take (unat (AuthSize head)) (drop sizeofStaticPacketData input));
                      head = head\<lparr>AuthData := authData\<rparr>;
                      c = c\<lparr>sc := handshakeGC (sc c) now\<rparr>;
                      headerData = iv @ static @ authData;
                      msgData = drop authDataEnd input
                  in if Flag head = flagWhoareyou then Some (c, src head, None, decodeWhoareyou head headerData)
                     else if Flag head = flagHandshake
                     then do { (c, head, n, p) \<leftarrow> decodeHandshakeMessage W c addr head headerData msgData;
                               Some (c, src head, n, p) }
                     else if Flag head = flagMessage
                     then let (c, head, p) = decodeMessage W c addr head headerData msgData in Some (c, src head, None, p)
                     else Some (c, src head, None, Inl errInvalidFlag))"

subsection \<open>Masking\<close>

lemma length_xor_stream [simp]: "length (xor_stream f k bs) = length bs"
  by (simp add: xor_stream_def)

lemma xor_stream_twice [simp]: "xor_stream f k (xor_stream f k bs) = bs"
  by (rule nth_equalityI) (simp_all add: xor_stream_def xor.assoc)

lemma xor_stream_append: "xor_stream f k (a @ b) = xor_stream f k a @ xor_stream f (k + length a) b"
  by (rule nth_equalityI) (auto simp: xor_stream_def nth_append add.assoc)

subsection \<open>Headers\<close>

definition header_ok :: "Header \<Rightarrow> bool" where
  "header_ok h \<longleftrightarrow> length (IV h) = 16 \<and> ProtocolID h = protocolID \<and> Version h = version \<and> length (hNonce h) = 12 \<and>
     unat (AuthSize h) = length (AuthData h)"

lemma length_protocolID [simp]: "length protocolID = 6"
  by (simp add: protocolID_def string_bytes_def)

lemma length_write_static: "header_ok h \<Longrightarrow> length (write_static h) = sizeofStaticHeader"
  by (simp add: header_ok_def write_static_def wire_sizes)

lemma read_write_static:
  assumes "header_ok h"
  shows "read_static e (write_static h) =
     e\<lparr>ProtocolID := ProtocolID h, Version := Version h, Flag := Flag h, hNonce := hNonce h, AuthSize := AuthSize h\<rparr>"
proof -
  obtain v0 v1 where v: "be_bytes 2 (Version h) = [v0, v1]"
    by (metis (no_types, lifting) One_nat_def Suc_1 length_0_conv length_Suc_conv length_be_bytes)
  have "length (ProtocolID h) = 6" "length (hNonce h) = 12" using assms by (simp_all add: header_ok_def)
  then show ?thesis
    using be_word_be_bytes [of 2 "Version h"] be_word_be_bytes [of 2 "AuthSize h"]
    by (simp add: read_static_def write_static_def v nth_append)
qed

text \<open>What \<open>Decode\<close> does with a packet that \<open>EncodeRaw\<close> made for this node.\<close>

definition dispatch_packet ::
  "('priv, 'pub, 'c) wire_lib \<Rightarrow> ('priv, 'c) Codec \<Rightarrow> string \<Rightarrow> Header \<Rightarrow> bytes \<Rightarrow>
   (('priv, 'c) Codec \<times> ID \<times> enode option \<times> (string + Packet)) go" where
  "dispatch_packet W c addr head msgData =
     (if Flag head = flagWhoareyou then Some (c, src head, None, decodeWhoareyou head (writeHeaders head))
      else if Flag head = flagHandshake
      then do { (c, head, n, p) \<leftarrow> decodeHandshakeMessage W c addr head (writeHeaders head) msgData;
                Some (c, src head, n, p) }
      else if Flag head = flagMessage
      then let (c, head, p) = decodeMessage W c addr head (writeHeaders head) msgData in Some (c, src head, None, p)
      else Some (c, src head, None, Inl errInvalidFlag))"

lemma Decode_EncodeRaw:
  assumes h: "header_ok h" and s: "src h = replicate 32 0"
    and len: "Flag h = flagWhoareyou \<or> length (AuthData h) + length msg \<ge> minMessageSize"
  shows "Decode W c (EncodeRaw W (eID (localnode c)) h msg) addr now =
         dispatch_packet W (c\<lparr>sc := handshakeGC (sc c) now\<rparr>) addr h msg"
proof -
  define f where "f = mask_stream W (eID (localnode c)) (IV h)"
  define input where "input = EncodeRaw W (eID (localnode c)) h msg"
  have iv: "length (IV h) = 16" and st: "length (write_static h) = 23"
    using h length_write_static [OF h] by (simp_all add: header_ok_def wire_sizes)
  have input: "input = IV h @ xor_stream f 0 (write_static h) @ xor_stream f 23 (AuthData h) @ msg"
    using iv st by (simp add: input_def EncodeRaw_def writeHeaders_def Let_def f_def sizeofMaskingIV_def xor_stream_append)
  define head0 where "head0 = empty_header\<lparr>IV := IV h, ProtocolID := ProtocolID h, Version := Version h, Flag := Flag h, hNonce := hNonce h, AuthSize := AuthSize h\<rparr>"
  have head: "read_static (empty_header\<lparr>IV := IV h\<rparr>) (write_static h) = head0"
    using read_write_static [OF h] by (simp add: head0_def)
  have full: "head0\<lparr>AuthData := AuthData h\<rparr> = h"
    using s by (cases h) (simp add: head0_def empty_header_def)
  have size: "unat (AuthSize head0) = length (AuthData h)" using h by (simp add: head0_def header_ok_def)
  have parts: "take sizeofMaskingIV input = IV h" "take sizeofStaticHeader (drop sizeofMaskingIV input) = xor_stream f 0 (write_static h)"
    "take (length (AuthData h)) (drop sizeofStaticPacketData input) = xor_stream f 23 (AuthData h)"
    "drop (sizeofStaticPacketData + length (AuthData h)) input = msg" "length input = 39 + length (AuthData h) + length msg"
    unfolding input by (simp_all add: wire_sizes iv st)
  have valid: "checkValid head0 (length input - sizeofStaticPacketData) = None"
    using h len size by (auto simp: checkValid_def parts wire_sizes header_ok_def head0_def version_def minVersion_def)
  show ?thesis
    unfolding Decode_def input_def [symmetric] Let_def parts f_def [symmetric] xor_stream_twice head size
      valid [unfolded parts] option.case
    using parts(5) full
    by (simp add: wire_sizes dispatch_packet_def writeHeaders_def Let_def f_def [symmetric] head0_def [symmetric])
qed

subsection \<open>The handshake\<close>

definition who_head :: "whoareyou \<Rightarrow> bytes \<Rightarrow> Header" where
  "who_head w iv = empty_header\<lparr>ProtocolID := protocolID, Version := version, Flag := flagWhoareyou, AuthSize := 24,
     hNonce := wNonce w, AuthData := IDNonce w @ be_bytes 8 (RecordSeq w), IV := iv\<rparr>"

definition who_ok :: "whoareyou \<Rightarrow> bool" where
  "who_ok w \<longleftrightarrow> length (wNonce w) = 12 \<and> length (IDNonce w) = 16 \<and> (RecordSeq w > 0 \<longrightarrow> wNode w \<noteq> None)"

lemma Encode_whoareyou:
  assumes "who_ok w" "rIV e = Some iv"
  shows "Encode W c i addr (Whoareyou w) ch e now =
     Some (c\<lparr>sc := storeSentHandshake (sc c) i addr (w\<lparr>ChallengeData := writeHeaders (who_head w iv)\<rparr>) now\<rparr>,
           Inr (EncodeRaw W i (who_head w iv) [], wNonce w))"
proof -
  have "encodeWhoareyou w = Some (empty_header\<lparr>ProtocolID := protocolID, Version := version, Flag := flagWhoareyou, AuthSize := 24,
     hNonce := wNonce w, AuthData := IDNonce w @ be_bytes 8 (RecordSeq w)\<rparr>)"
    using assms(1) by (auto simp: encodeWhoareyou_def who_ok_def makeHeader_def flagWhoareyou_def flagMessage_def wire_sizes)
  then show ?thesis using assms(2) by (simp add: Encode_def who_head_def Let_def)
qed

lemma who_head_ok: "who_ok w \<Longrightarrow> length iv = 16 \<Longrightarrow> header_ok (who_head w iv)"
  by (simp add: header_ok_def who_head_def who_ok_def)

lemma Decode_whoareyou:
  assumes w: "who_ok w" and iv: "length iv = 16"
  shows "Decode W c (EncodeRaw W (eID (localnode c)) (who_head w iv) []) addr now =
     Some (c\<lparr>sc := handshakeGC (sc c) now\<rparr>, replicate 32 0, None,
           Inr (Whoareyou \<lparr>ChallengeData = writeHeaders (who_head w iv), wNonce = wNonce w, IDNonce = IDNonce w,
                 RecordSeq = RecordSeq w, wNode = None, sent = 0\<rparr>))"
proof -
  have flag: "Flag (who_head w iv) = flagWhoareyou" and src: "src (who_head w iv) = replicate 32 0"
    by (simp_all add: who_head_def empty_header_def)
  have "decodeWhoareyou (who_head w iv) d =
      Inr (Whoareyou \<lparr>ChallengeData = d, wNonce = wNonce w, IDNonce = IDNonce w, RecordSeq = RecordSeq w, wNode = None, sent = 0\<rparr>)" for d
    using w by (simp add: decodeWhoareyou_def who_head_def who_ok_def wire_sizes be_word_be_bytes)
  then show ?thesis
    using Decode_EncodeRaw [OF who_head_ok [OF w iv] src, of "[]" W c addr now] flag src by (simp add: dispatch_packet_def)
qed

text \<open>The message part of a packet, once the keys agree.\<close>

lemma decryptMessage_encrypt:
  assumes "gcm_ok W" "rlp_ok (rlp W)" "is_message p" "length (RequestID p) \<le> 8"
    and "encryptMessage W s p head hdata = Some ct" "key = writeKey s" "nonce = hNonce head"
  shows "decryptMessage W ct nonce hdata key = Inr p"
  using decrypt_encrypt [OF assms(1), of "writeKey s" "hNonce head" _ hdata ct] DecodeMessage_encode [OF assms(2,3)] assms(4-7)
  by (simp add: encryptMessage_def decryptMessage_def)

lemma encryptMessage_length:
  "gcm_ok W \<Longrightarrow> encryptMessage W s p head hdata = Some ct \<Longrightarrow> 17 \<le> length ct"
  by (auto simp: encryptMessage_def encryptGCM_def gcm_ok_def split: if_splits)

lemma encryptMessage_total:
  "length (writeKey s) = 16 \<Longrightarrow> length (hNonce head) = 12 \<Longrightarrow> \<exists>ct. encryptMessage W s p head hdata = Some ct"
  by (simp add: encryptMessage_def encryptGCM_def aes_key_ok_def gcmNonceSize_def)

definition hs_auth :: "('priv, 'pub, 'c) wire_lib \<Rightarrow> enode \<Rightarrow> u64 \<Rightarrow> bytes \<Rightarrow> bytes \<Rightarrow> handshakeAuthData" where
  "hs_auth W ln seq idsig ephpub =
     \<lparr>SrcID = eID ln, SigSize = of_nat (length idsig), PubkeySize = of_nat (length ephpub), signature = idsig, pubkey = ephpub,
      arecord = (if seq < eSeq ln then Record W ln else [])\<rparr>"

lemma makeHandshakeAuth_ok:
  assumes curve: "curve_ok W" and A: "node_record_ok W (localnode c) (privkey c)"
    and B: "LoadSecp256k1 W node = Some remote" "remote = PublicKey W b" and eph: "rKey e = Some ephkey" "privOnS256 W ephkey"
  obtains idsig ephpub sec where
    "makeHandshakeAuth W c toID ch node e = Some (Inr (hs_auth W (localnode c) (RecordSeq ch) idsig ephpub, sec))"
    "length idsig = 64" "length ephpub = 33" "DecompressPubkey W ephpub = Inr (PublicKey W ephkey)"
    "VerifySignature W (CompressPubkey W (PublicKey W (privkey c))) (idNonceHash W (ChallengeData ch) ephpub toID) idsig"
    "deriveKeys W b (PublicKey W ephkey) (eID (localnode c)) (eID node) (ChallengeData ch) = Some sec"
    "length (writeKey sec) = 16" "length (readKey' sec) = 16" "nonceCounter sec = 0"
proof -
  define ephpub where "ephpub = CompressPubkey W (PublicKey W ephkey)"
  have pub: "EncodePubkey W (PublicKey W ephkey) = Some ephpub" "length ephpub = 33" "DecompressPubkey W ephpub = Inr (PublicKey W ephkey)"
    using curve eph(2) by (auto simp: curve_ok_def EncodePubkey_def ephpub_def)
  obtain sig where sig: "Sign W (idNonceHash W (ChallengeData ch) ephpub toID) (privkey c) = Inr sig" "length sig = 65"
    "VerifySignature W (CompressPubkey W (PublicKey W (privkey c))) (idNonceHash W (ChallengeData ch) ephpub toID) (butlast sig)"
    using curve_Sign [OF curve, of "privkey c"] A unfolding node_record_ok_def by blast
  have "privOnS256 W (privkey c)" "sig \<noteq> []" using A sig(2) by (auto simp: node_record_ok_def)
  then have id: "makeIDSignature W (privkey c) (ChallengeData ch) ephpub toID = Some (Inr (butlast sig))"
    using sig(1) by (simp add: makeIDSignature_def)
  obtain sec where sec: "deriveKeys W ephkey (PublicKey W b) (eID (localnode c)) (eID node) (ChallengeData ch) = Some sec"
    "length (writeKey sec) = 16" "length (readKey' sec) = 16" "nonceCounter sec = 0"
    using deriveKeys_agree(2) [OF curve] by metis
  have "makeHandshakeAuth W c toID ch node e = Some (Inr (hs_auth W (localnode c) (RecordSeq ch) (butlast sig) ephpub, sec))"
    using B eph(1) pub(1) id sec(1) by (simp add: makeHandshakeAuth_def hs_auth_def Let_def)
  moreover have "deriveKeys W b (PublicKey W ephkey) (eID (localnode c)) (eID node) (ChallengeData ch) = Some sec"
    using sec(1) deriveKeys_agree(1) [OF curve, of ephkey b] by simp
  ultimately show thesis
    using that [of "butlast sig" ephpub sec] sig pub sec by simp
qed

definition hs_head :: "handshakeAuthData \<Rightarrow> Nonce \<Rightarrow> bytes \<Rightarrow> Header" where
  "hs_head auth nonce iv = empty_header\<lparr>ProtocolID := protocolID, Version := version, Flag := flagHandshake,
     AuthSize := of_nat (34 + (length (pubkey auth) + length (signature auth) + length (arecord auth))),
     AuthData := write_handshake_auth auth, hNonce := nonce, IV := iv\<rparr>"

lemma hs_head_ok:
  assumes "length (SrcID auth) = 32" "length (signature auth) = 64" "length (pubkey auth) = 33" "length (arecord auth) \<le> 300"
    and "length nonce = 12" "length iv = 16"
  shows "header_ok (hs_head auth nonce iv)"
proof -
  define k where "k = 34 + (length (pubkey auth) + length (signature auth) + length (arecord auth))"
  have "k < 2 ^ LENGTH(16)" using assms by (simp add: k_def)
  then have "unat (of_nat k :: u16) = k" by (simp only: unat_of_nat mod_less)
  moreover have "length (write_handshake_auth auth) = k" using assms by (simp add: write_handshake_auth_def k_def)
  ultimately show ?thesis
    using assms(5,6) by (simp add: header_ok_def hs_head_def k_def [symmetric])
qed

lemma decodeHandshakeAuthData_write:
  assumes "length (SrcID auth) = 32" "SigSize auth = of_nat (length (signature auth))" "length (signature auth) = 64"
    and "PubkeySize auth = of_nat (length (pubkey auth))" "length (pubkey auth) = 33" "AuthData h = write_handshake_auth auth"
  shows "decodeHandshakeAuthData h = (h\<lparr>src := SrcID auth\<rparr>, auth, None)"
proof -
  have sizes: "unat (SigSize auth) = 64" "unat (PubkeySize auth) = 33" using assms by simp_all
  have a: "AuthData h = SrcID auth @ SigSize auth # PubkeySize auth # signature auth @ pubkey auth @ arecord auth"
    using assms(6) by (simp add: write_handshake_auth_def)
  have n: "AuthData h ! 32 = SigSize auth" "AuthData h ! 33 = PubkeySize auth" "take 32 (AuthData h) = SrcID auth"
    "drop 34 (AuthData h) = signature auth @ pubkey auth @ arecord auth" "length (AuthData h) = 34 + 64 + 33 + length (arecord auth)"
    unfolding a using assms(1,3,5) by (simp_all add: nth_append nth_Cons')
  show ?thesis
    unfolding decodeHandshakeAuthData_def Let_def n
    using assms(1,3,5) n sizes by (cases auth) (simp add: wire_sizes empty_auth_def)
qed

definition new_session ::
  "('priv, 'pub, 'c) wire_lib \<Rightarrow> 'c SessionCache \<Rightarrow> ID \<Rightarrow> string \<Rightarrow> session \<Rightarrow> 'c SessionCache" where
  "new_session W cache i addr s =
     cache\<lparr>sheap := (sheap cache)(sfresh cache := s), sfresh := Suc (sfresh cache),
           sessions := lruAdd W (sessions cache) (i, addr) (sfresh cache)\<rparr>"

definition good_entropy :: "'priv entropy \<Rightarrow> bool" where
  "good_entropy e \<longleftrightarrow> (\<exists>r iv. rNonce e = Some r \<and> length r = 8 \<and> rIV e = Some iv \<and> length iv = 16)"

text \<open>Sending the answer to a challenge: the new session is in the cache, and the packet is sealed under its key.\<close>

lemma Encode_handshake:
  assumes ch: "wNode ch = Some node" and e: "good_entropy e" and p: "is_message p"
    and auth: "makeHandshakeAuth W c i ch node e = Some (Inr (auth, sec))" and counter: "nonceCounter sec = 0"
    and keys: "length (writeKey sec) = 16"
    and lens: "length (SrcID auth) = 32" "length (signature auth) = 64" "length (pubkey auth) = 33" "length (arecord auth) \<le> 300"
  obtains h ct where
    "Encode W c i addr p (Some ch) e now =
       Some (c\<lparr>sc := new_session W (sc c) i addr (sec\<lparr>nonceCounter := 1\<rparr>)\<rparr>, Inr (EncodeRaw W i h ct, hNonce h))"
    "encryptMessage W sec p h (writeHeaders h) = Some ct" "header_ok h" "Flag h = flagHandshake"
    "AuthData h = write_handshake_auth auth" "src h = replicate 32 0"
proof -
  obtain r iv where r: "rNonce e = Some r" "length r = 8" "rIV e = Some iv" "length iv = 16"
    using e by (auto simp: good_entropy_def)
  define nonce where "nonce = be_bytes 4 (1 :: u32) @ r"
  define h where "h = hs_head auth nonce iv"
  have h: "header_ok h" "Flag h = flagHandshake" "AuthData h = write_handshake_auth auth" "src h = replicate 32 0" "hNonce h = nonce"
    using hs_head_ok [OF lens] r by (simp_all add: h_def hs_head_def nonce_def empty_header_def)
  obtain ct where ct: "encryptMessage W sec p h (writeHeaders h) = Some ct"
    using encryptMessage_total [OF keys, of h W p "writeHeaders h"] h(1) by (auto simp: header_ok_def)
  define cache where "cache = new_session W (sc c) i addr (sec\<lparr>nonceCounter := 1\<rparr>)"
  have size: "\<not> 34 + (length (pubkey auth) + length (signature auth) + length (arecord auth)) > 65535"
    using lens by simp
  have enc: "encodeHandshakeHeader W c i addr ch e =
      Some (c\<lparr>sc := cache\<rparr>, Inr (h\<lparr>IV := IV empty_header\<rparr>, sfresh (sc c)))"
    using ch auth r(1) size
    by (simp add: encodeHandshakeHeader_def alloc_session_def nextNonce_def generateNonce_def Let_def counter nonce_def
        makeHeader_def flagHandshake_def flagMessage_def flagWhoareyou_def wire_sizes storeNewSession_def cache_def
        new_session_def h_def hs_head_def)
  have ct': "encryptMessage W (sec\<lparr>nonceCounter := 1\<rparr>) p h (writeHeaders h) = Some ct"
    using ct by (simp add: encryptMessage_def)
  have fin: "finish_message W (c\<lparr>sc := cache\<rparr>) i p (h\<lparr>IV := IV empty_header\<rparr>) (sfresh (sc c)) e =
      Some (c\<lparr>sc := cache\<rparr>, Inr (EncodeRaw W i h ct, hNonce h))"
  proof -
    have "h\<lparr>IV := iv\<rparr> = h" by (simp add: h_def hs_head_def)
    then show ?thesis
      using r(3) ct' by (simp add: finish_message_def Let_def cache_def new_session_def)
  qed
  have "Encode W c i addr p (Some ch) e now = Some (c\<lparr>sc := cache\<rparr>, Inr (EncodeRaw W i h ct, hNonce h))"
    using p enc fin by (cases p) (simp_all add: Encode_def is_message_def)
  then show thesis using that ct h cache_def by blast
qed

lemma decodeHandshakeRecord_ok:
  assumes "node_record_ok W n a" "wantID = eID n"
    and "local = None \<and> seq = 0 \<and> 0 < eSeq n \<or> local = Some n \<and> seq = eSeq n"
  shows "decodeHandshakeRecord W local wantID (if seq < eSeq n then Record W n else []) = Inr n"
  using assms by (auto simp: decodeHandshakeRecord_def node_record_ok_def Let_def)

lemma Decode_handshake:
  assumes laws: "gcm_ok W" "rlp_ok (rlp W)" and A: "node_record_ok W nA a" and B: "privOnS256 W (privkey c)"
    and p: "is_message p" "length (RequestID p) \<le> 8"
    and hs: "handshakes (sc c) (eID nA, addr) = Some w" "now - handshakeTimeout \<le> sent w"
      "wNode w = None \<and> seq = 0 \<and> 0 < eSeq nA \<or> wNode w = Some nA \<and> seq = eSeq nA"
    and auth: "auth = hs_auth W nA seq idsig ephpub" "length idsig = 64" "length ephpub = 33"
      "DecompressPubkey W ephpub = Inr eph"
      "VerifySignature W (CompressPubkey W (PublicKey W a)) (idNonceHash W (ChallengeData w) ephpub (eID (localnode c))) idsig"
      "deriveKeys W (privkey c) eph (eID nA) (eID (localnode c)) (ChallengeData w) = Some sec"
    and h: "header_ok h" "Flag h = flagHandshake" "AuthData h = write_handshake_auth auth" "src h = replicate 32 0"
    and ct: "encryptMessage W sec p h (writeHeaders h) = Some ct"
  shows "Decode W c (EncodeRaw W (eID (localnode c)) h ct) addr now =
     Some (c\<lparr>sc := deleteHandshake (new_session W (handshakeGC (sc c) now) (eID nA) addr (keysFlipped sec)) (eID nA) addr\<rparr>,
           eID nA, Some nA, Inr p)"
proof -
  define c1 where "c1 = c\<lparr>sc := handshakeGC (sc c) now\<rparr>"
  have auth_fields: "SrcID auth = eID nA" "signature auth = idsig" "pubkey auth = ephpub"
    "arecord auth = (if seq < eSeq nA then Record W nA else [])" "length (SrcID auth) = 32"
    using A by (simp_all add: auth(1) hs_auth_def node_record_ok_def)
  have dec: "decodeHandshakeAuthData h = (h\<lparr>src := eID nA\<rparr>, auth, None)"
    using decodeHandshakeAuthData_write [of auth h] auth_fields auth(2,3) h(3) by (simp add: auth(1) hs_auth_def)
  have get: "getHandshake (sc c1) (eID nA) addr = Some w"
    using handshakeGC_keeps [OF hs(1,2)] by (simp add: getHandshake_def c1_def)
  have rec: "decodeHandshakeRecord W (wNode w) (eID nA) (if seq < eSeq nA then Record W nA else []) = Inr nA"
    by (rule decodeHandshakeRecord_ok [OF A refl hs(3)])
  have verify: "verifyIDSignature W idsig nA (ChallengeData w) ephpub (eID (localnode c1)) = None"
    using A auth(5) by (simp add: verifyIDSignature_def node_record_ok_def c1_def)
  have key: "DecodePubkey W (privkey c1) ephpub = Inr eph" using B auth(3,4) by (simp add: DecodePubkey_def c1_def)
  have derive: "deriveKeys W (privkey c1) eph (eID nA) (eID (localnode c1)) (ChallengeData w) = Some sec"
    using auth(6) by (simp add: c1_def)
  have hs': "decodeHandshake W c1 addr h = Some (h\<lparr>src := eID nA\<rparr>, auth, Inr (nA, keysFlipped sec))"
    unfolding decodeHandshake_def dec prod.case option.case auth_fields get rec sum.case verify key derive by simp
  have msg: "decryptMessage W ct (hNonce h) (writeHeaders h) (readKey' (keysFlipped sec)) = Inr p"
    by (rule decryptMessage_encrypt [OF laws p ct]) (simp_all add: keysFlipped_def)
  have "decodeHandshakeMessage W c1 addr h (writeHeaders h) ct =
     Some (c\<lparr>sc := deleteHandshake (new_session W (handshakeGC (sc c) now) (eID nA) addr (keysFlipped sec)) (eID nA) addr\<rparr>,
           h\<lparr>src := eID nA\<rparr>, Some nA, Inr p)"
    unfolding decodeHandshakeMessage_def hs' bind.bind_lunit prod.case Let_def sum.case
    using msg auth_fields(1)
    by (simp add: alloc_session_def storeNewSession_def Let_def new_session_def c1_def)
  then have "dispatch_packet W c1 addr h ct =
     Some (c\<lparr>sc := deleteHandshake (new_session W (handshakeGC (sc c) now) (eID nA) addr (keysFlipped sec)) (eID nA) addr\<rparr>,
           eID nA, Some nA, Inr p)"
    using h(2) by (simp add: dispatch_packet_def flagHandshake_def flagWhoareyou_def)
  moreover have "length (AuthData h) + length ct \<ge> minMessageSize"
    using auth(2,3) auth_fields by (simp add: h(3) write_handshake_auth_def minMessageSize_def)
  ultimately show ?thesis
    using Decode_EncodeRaw [OF h(1,4), of ct W c addr now] by (simp add: c1_def)
qed

subsection \<open>Established sessions\<close>

text \<open>Two codecs hold a session with each other: what one writes with, the other reads with.\<close>

definition linked ::
  "('c \<Rightarrow> sessionID \<rightharpoonup> nat) \<Rightarrow> ('priv, 'c) Codec \<Rightarrow> string \<Rightarrow> ('priv, 'c) Codec \<Rightarrow> string \<Rightarrow> bool" where
  "linked look A addrB B addrA \<longleftrightarrow>
     (\<exists>sa sb. look (sessions (sc A)) (eID (localnode B), addrB) = Some sa \<and>
        look (sessions (sc B)) (eID (localnode A), addrA) = Some sb \<and>
        writeKey (sheap (sc A) sa) = readKey' (sheap (sc B) sb) \<and>
        writeKey (sheap (sc B) sb) = readKey' (sheap (sc A) sa) \<and>
        length (writeKey (sheap (sc A) sa)) = 16 \<and> length (writeKey (sheap (sc B) sb)) = 16)"

lemma linked_sym: "linked look A addrB B addrA \<Longrightarrow> linked look B addrA A addrB"
  unfolding linked_def by metis

lemma get_session_look:
  "lru_ok W look \<Longrightarrow> \<exists>c'. get_session W cache i addr = (look (sessions cache) (i, addr), cache\<lparr>sessions := c'\<rparr>) \<and>
     look c' = look (sessions cache)"
  by (auto simp: get_session_def lru_ok_def Let_def case_prod_beta)

lemma Encode_message:
  assumes lru: "lru_ok W look" and s: "look (sessions (sc c)) (i, addr) = Some s" and keys: "length (writeKey (sheap (sc c) s)) = 16"
    and e: "good_entropy e" and p: "is_message p" and ID: "length (eID (localnode c)) = 32"
  obtains cache h ct where
    "Encode W c i addr p None e now = Some (c\<lparr>sc := cache\<rparr>, Inr (EncodeRaw W i h ct, hNonce h))"
    "encryptMessage W (sheap (sc c) s) p h (writeHeaders h) = Some ct" "header_ok h" "Flag h = flagMessage"
    "AuthData h = eID (localnode c)" "src h = replicate 32 0" "look (sessions cache) = look (sessions (sc c))"
    "sheap cache = (sheap (sc c))(s := (sheap (sc c) s)\<lparr>nonceCounter := nonceCounter (sheap (sc c) s) + 1\<rparr>)"
    "hNonce h = be_bytes 4 (nonceCounter (sheap (sc c) s) + 1) @ the (rNonce e)"
proof -
  obtain r iv where r: "rNonce e = Some r" "length r = 8" "rIV e = Some iv" "length iv = 16"
    using e by (auto simp: good_entropy_def)
  obtain c' where get: "get_session W (sc c) i addr = (Some s, (sc c)\<lparr>sessions := c'\<rparr>)" "look c' = look (sessions (sc c))"
    using get_session_look [OF lru, of "sc c" i addr] s by auto
  define counter where "counter = nonceCounter (sheap (sc c) s) + 1"
  define heap where "heap = (sheap (sc c))(s := (sheap (sc c) s)\<lparr>nonceCounter := counter\<rparr>)"
  define cache where "cache = (sc c)\<lparr>sessions := c', sheap := heap\<rparr>"
  define nonce where "nonce = be_bytes 4 counter @ r"
  define h where "h = empty_header\<lparr>ProtocolID := protocolID, Version := version, Flag := flagMessage, AuthSize := 32,
      AuthData := eID (localnode c), hNonce := nonce, IV := iv\<rparr>"
  have h: "header_ok h" "Flag h = flagMessage" "AuthData h = eID (localnode c)" "src h = replicate 32 0" "hNonce h = nonce"
    using r ID by (simp_all add: h_def header_ok_def nonce_def empty_header_def)
  obtain ct where ct: "encryptMessage W (sheap (sc c) s) p h (writeHeaders h) = Some ct"
    using encryptMessage_total [OF keys, of h W p "writeHeaders h"] h(1) by (auto simp: header_ok_def)
  then have ct': "encryptMessage W (heap s) p h (writeHeaders h) = Some ct" by (simp add: encryptMessage_def heap_def)
  have enc: "encodeMessageHeader (c\<lparr>sc := (sc c)\<lparr>sessions := c'\<rparr>\<rparr>) s e = Some (c\<lparr>sc := cache\<rparr>, Inr (h\<lparr>IV := IV empty_header\<rparr>))"
    using r(1) by (simp add: encodeMessageHeader_def makeHeader_def wire_sizes nextNonce_def generateNonce_def Let_def
        counter_def [symmetric] nonce_def [symmetric] cache_def heap_def h_def)
  have "h\<lparr>IV := iv\<rparr> = h" by (simp add: h_def)
  then have "finish_message W (c\<lparr>sc := cache\<rparr>) i p (h\<lparr>IV := IV empty_header\<rparr>) s e = Some (c\<lparr>sc := cache\<rparr>, Inr (EncodeRaw W i h ct, hNonce h))"
    using r(3) ct' by (simp add: finish_message_def Let_def cache_def)
  then have "Encode W c i addr p None e now = Some (c\<lparr>sc := cache\<rparr>, Inr (EncodeRaw W i h ct, hNonce h))"
    using p get(1) enc by (cases p) (simp_all add: Encode_def is_message_def)
  then show thesis
    using that [of cache h ct] ct h get(2) r(1) by (simp add: cache_def heap_def counter_def nonce_def)
qed

lemma Decode_message:
  assumes laws: "gcm_ok W" "rlp_ok (rlp W)" "lru_ok W look" and p: "is_message p" "length (RequestID p) \<le> 8"
    and s: "look (sessions (sc c)) (i, addr) = Some s" "readKey' (sheap (sc c) s) = writeKey sa"
    and h: "header_ok h" "Flag h = flagMessage" "AuthData h = i" "src h = replicate 32 0" "length i = 32"
    and ct: "encryptMessage W sa p h (writeHeaders h) = Some ct"
  shows "\<exists>cache. Decode W c (EncodeRaw W (eID (localnode c)) h ct) addr now = Some (c\<lparr>sc := cache\<rparr>, i, None, Inr p) \<and>
     look (sessions cache) = look (sessions (sc c)) \<and> sheap cache = sheap (sc c)"
proof -
  define c1 where "c1 = c\<lparr>sc := handshakeGC (sc c) now\<rparr>"
  obtain c' where get: "get_session W (sc c1) i addr = (Some s, (sc c1)\<lparr>sessions := c'\<rparr>)" "look c' = look (sessions (sc c))"
    using get_session_look [OF laws(3), of "sc c1" i addr] s(1) by (auto simp: c1_def)
  have key: "readKey W (sc c1) i addr = (writeKey sa, (sc c1)\<lparr>sessions := c'\<rparr>)"
    using get(1) s(2) by (simp add: readKey_def c1_def)
  have msg: "decryptMessage W ct (hNonce h) (writeHeaders h) (writeKey sa) = Inr p"
    by (rule decryptMessage_encrypt [OF laws(1,2) p ct]) simp_all
  have "decodeMessage W c1 addr h (writeHeaders h) ct = (c1\<lparr>sc := (sc c1)\<lparr>sessions := c'\<rparr>\<rparr>, h\<lparr>src := i\<rparr>, Inr p)"
    using h(3,5) key msg by (simp add: decodeMessage_def wire_sizes Let_def)
  then have "dispatch_packet W c1 addr h ct = Some (c1\<lparr>sc := (sc c1)\<lparr>sessions := c'\<rparr>\<rparr>, i, None, Inr p)"
    using h(2) by (simp add: dispatch_packet_def flagHandshake_def flagWhoareyou_def flagMessage_def)
  moreover have "length (AuthData h) + length ct \<ge> minMessageSize"
    using encryptMessage_length [OF laws(1) ct] h(3,5) by (simp add: minMessageSize_def)
  ultimately have "Decode W c (EncodeRaw W (eID (localnode c)) h ct) addr now = Some (c\<lparr>sc := (sc c1)\<lparr>sessions := c'\<rparr>\<rparr>, i, None, Inr p)"
    using Decode_EncodeRaw [OF h(1,4), of ct W c addr now] by (simp add: c1_def)
  then show ?thesis using get(2) by (auto simp: c1_def)
qed

lemma handshake_run:
  assumes laws: "rlp_ok (rlp W)" "gcm_ok W" "curve_ok W" "lru_ok W look"
    and nodes: "node_record_ok W (localnode A) (privkey A)" "node_record_ok W (localnode B) (privkey B)"
    and w: "who_ok w" "wNode w = None \<and> RecordSeq w = 0 \<and> 0 < eSeq (localnode A) \<or>
                       wNode w = Some (localnode A) \<and> RecordSeq w = eSeq (localnode A)"
    and e: "rIV e2 = Some iv" "length iv = 16" "good_entropy e3" "rKey e3 = Some ephkey" "privOnS256 W ephkey"
    and p: "is_message p" "length (RequestID p) \<le> 8" and t: "t6 - t2 \<le> handshakeTimeout"
  shows "\<exists>B1 packet2 A1 w' A2 packet3 nonce B2.
     Encode W B (eID (localnode A)) addrA (Whoareyou w) None e2 t2 = Some (B1, Inr (packet2, wNonce w)) \<and>
     Decode W A packet2 addrB t4 = Some (A1, replicate 32 0, None, Inr (Whoareyou w')) \<and> wNonce w' = wNonce w \<and>
     Encode W A1 (eID (localnode B)) addrB p (Some (w'\<lparr>wNode := Some (localnode B)\<rparr>)) e3 t5 = Some (A2, Inr (packet3, nonce)) \<and>
     Decode W B1 packet3 addrA t6 = Some (B2, eID (localnode A), Some (localnode A), Inr p) \<and>
     getHandshake (sc B2) (eID (localnode A)) addrA = None \<and> linked look A2 addrB B2 addrA"
proof -
  define cdata where "cdata = writeHeaders (who_head w iv)"
  define B1 where "B1 = B\<lparr>sc := storeSentHandshake (sc B) (eID (localnode A)) addrA (w\<lparr>ChallengeData := cdata\<rparr>) t2\<rparr>"
  define packet2 where "packet2 = EncodeRaw W (eID (localnode A)) (who_head w iv) []"
  have step2: "Encode W B (eID (localnode A)) addrA (Whoareyou w) None e2 t2 = Some (B1, Inr (packet2, wNonce w))"
    using Encode_whoareyou [OF w(1) e(1)] by (simp add: B1_def packet2_def cdata_def)
  define A1 where "A1 = A\<lparr>sc := handshakeGC (sc A) t4\<rparr>"
  define w' where "w' = \<lparr>ChallengeData = cdata, wNonce = wNonce w, IDNonce = IDNonce w, RecordSeq = RecordSeq w, wNode = None, sent = 0\<rparr>"
  have step4: "Decode W A packet2 addrB t4 = Some (A1, replicate 32 0, None, Inr (Whoareyou w'))"
    using Decode_whoareyou [OF w(1) e(2)] by (simp add: packet2_def A1_def w'_def cdata_def)
  define ch where "ch = w'\<lparr>wNode := Some (localnode B)\<rparr>"
  have A1: "node_record_ok W (localnode A1) (privkey A1)" "localnode A1 = localnode A" using nodes(1) by (simp_all add: A1_def)
  have loadB: "LoadSecp256k1 W (localnode B) = Some (PublicKey W (privkey B))" and privB: "privOnS256 W (privkey B)"
    using nodes(2) by (simp_all add: node_record_ok_def)
  obtain idsig ephpub sec where auth:
    "makeHandshakeAuth W A1 (eID (localnode B)) ch (localnode B) e3 =
       Some (Inr (hs_auth W (localnode A1) (RecordSeq ch) idsig ephpub, sec))"
    "length idsig = 64" "length ephpub = 33" "DecompressPubkey W ephpub = Inr (PublicKey W ephkey)"
    "VerifySignature W (CompressPubkey W (PublicKey W (privkey A1))) (idNonceHash W (ChallengeData ch) ephpub (eID (localnode B))) idsig"
    "deriveKeys W (privkey B) (PublicKey W ephkey) (eID (localnode A1)) (eID (localnode B)) (ChallengeData ch) = Some sec"
    "length (writeKey sec) = 16" "length (readKey' sec) = 16" "nonceCounter sec = 0"
    using makeHandshakeAuth_ok [OF laws(3) A1(1) loadB refl e(4,5), of "eID (localnode B)" ch] .
  define au where "au = hs_auth W (localnode A) (RecordSeq w) idsig ephpub"
  have au: "makeHandshakeAuth W A1 (eID (localnode B)) ch (localnode B) e3 = Some (Inr (au, sec))"
    using auth(1) by (simp add: au_def A1_def ch_def w'_def)
  have lens: "length (SrcID au) = 32" "length (signature au) = 64" "length (pubkey au) = 33" "length (arecord au) \<le> 300"
    using nodes(1) auth(2,3) by (simp_all add: au_def hs_auth_def node_record_ok_def)
  obtain h ct where h: "Encode W A1 (eID (localnode B)) addrB p (Some ch) e3 t5 =
       Some (A1\<lparr>sc := new_session W (sc A1) (eID (localnode B)) addrB (sec\<lparr>nonceCounter := 1\<rparr>)\<rparr>,
             Inr (EncodeRaw W (eID (localnode B)) h ct, hNonce h))"
    "encryptMessage W sec p h (writeHeaders h) = Some ct" "header_ok h" "Flag h = flagHandshake"
    "AuthData h = write_handshake_auth au" "src h = replicate 32 0"
    by (rule Encode_handshake [of ch "localnode B" e3 p W A1 "eID (localnode B)" au sec, where addr = addrB and now = t5])
      (use e(3) p(1) au auth(7,9) lens in \<open>simp_all add: ch_def\<close>)
  define A2 where "A2 = A1\<lparr>sc := new_session W (sc A1) (eID (localnode B)) addrB (sec\<lparr>nonceCounter := 1\<rparr>)\<rparr>"
  define B2 where "B2 = B1\<lparr>sc := deleteHandshake (new_session W (handshakeGC (sc B1) t6) (eID (localnode A)) addrA (keysFlipped sec)) (eID (localnode A)) addrA\<rparr>"
  have "Decode W B1 (EncodeRaw W (eID (localnode B1)) h ct) addrA t6 = Some (B2, eID (localnode A), Some (localnode A), Inr p)"
    unfolding B2_def
    by (rule Decode_handshake [OF laws(2,1) nodes(1) _ p, where w = "w\<lparr>ChallengeData := cdata, sent := t2\<rparr>" and auth = au and
          seq = "RecordSeq w" and idsig = idsig and ephpub = ephpub and eph = "PublicKey W ephkey"])
      (use t w(2) privB auth(2-6) h(2-6) in \<open>simp_all add: B1_def storeSentHandshake_def ch_def w'_def A1_def au_def\<close>)
  then have step6: "Decode W B1 (EncodeRaw W (eID (localnode B)) h ct) addrA t6 = Some (B2, eID (localnode A), Some (localnode A), Inr p)"
    by (simp add: B1_def)
  have "linked look A2 addrB B2 addrA"
    using laws(4) auth(7,8)
    by (auto simp: linked_def A2_def B2_def A1_def B1_def new_session_def deleteHandshake_def keysFlipped_def lru_ok_def)
  moreover have "getHandshake (sc B2) (eID (localnode A)) addrA = None"
    by (simp add: B2_def getHandshake_def deleteHandshake_def)
  moreover have "wNonce w' = wNonce w" by (simp add: w'_def)
  ultimately show ?thesis
    using step2 step4 h(1) step6 unfolding ch_def A2_def by blast
qed

lemma session_run:
  assumes laws: "rlp_ok (rlp W)" "gcm_ok W" "lru_ok W look" and l: "linked look A addrB B addrA"
    and p: "is_message p" "length (RequestID p) \<le> 8" and e: "good_entropy e" and ID: "length (eID (localnode A)) = 32"
  shows "\<exists>A' packet nonce B'. Encode W A (eID (localnode B)) addrB p None e t = Some (A', Inr (packet, nonce)) \<and>
     Decode W B packet addrA t' = Some (B', eID (localnode A), None, Inr p) \<and> linked look A' addrB B' addrA"
proof -
  obtain sa sb where s: "look (sessions (sc A)) (eID (localnode B), addrB) = Some sa"
    "look (sessions (sc B)) (eID (localnode A), addrA) = Some sb"
    "writeKey (sheap (sc A) sa) = readKey' (sheap (sc B) sb)" "writeKey (sheap (sc B) sb) = readKey' (sheap (sc A) sa)"
    "length (writeKey (sheap (sc A) sa)) = 16" "length (writeKey (sheap (sc B) sb)) = 16"
    using l by (auto simp: linked_def)
  obtain cache h ct where enc: "Encode W A (eID (localnode B)) addrB p None e t =
      Some (A\<lparr>sc := cache\<rparr>, Inr (EncodeRaw W (eID (localnode B)) h ct, hNonce h))"
    "encryptMessage W (sheap (sc A) sa) p h (writeHeaders h) = Some ct" "header_ok h" "Flag h = flagMessage"
    "AuthData h = eID (localnode A)" "src h = replicate 32 0" "look (sessions cache) = look (sessions (sc A))"
    "sheap cache = (sheap (sc A))(sa := (sheap (sc A) sa)\<lparr>nonceCounter := nonceCounter (sheap (sc A) sa) + 1\<rparr>)"
    using Encode_message [OF laws(3) s(1,5) e p(1) ID] by metis
  obtain cacheB where dec: "Decode W B (EncodeRaw W (eID (localnode B)) h ct) addrA t' = Some (B\<lparr>sc := cacheB\<rparr>, eID (localnode A), None, Inr p)"
    "look (sessions cacheB) = look (sessions (sc B))" "sheap cacheB = sheap (sc B)"
    using Decode_message [OF laws(2,1,3) p s(2) s(3) [symmetric] enc(3-6) ID enc(2)] by blast
  have "linked look (A\<lparr>sc := cache\<rparr>) addrB (B\<lparr>sc := cacheB\<rparr>) addrA"
    using s enc(7,8) dec(2,3) by (auto simp: linked_def)
  then show ?thesis using enc(1) dec(1) by blast
qed

subsection \<open>What is accepted\<close>

text \<open>
  The layout of a handshake packet, read off the datagram: sixteen bytes of IV, then, under the mask, the
  static header of 23 bytes with the nonce at offset 9 and the size of the auth data at offset 21, then the
  auth data, which is the source ID, the sizes of the signature and of the ephemeral key, the two and the
  record, and, no longer masked, the sealed message.
\<close>

definition packet_plain :: "('priv, 'pub, 'c) wire_lib \<Rightarrow> ID \<Rightarrow> bytes \<Rightarrow> bytes" where
  "packet_plain W me input = xor_stream (mask_stream W me (take 16 input)) 0 (drop 16 input)"

definition packet_authsize :: "('priv, 'pub, 'c) wire_lib \<Rightarrow> ID \<Rightarrow> bytes \<Rightarrow> nat" where
  "packet_authsize W me input = unat (be_word (take 2 (drop 21 (packet_plain W me input))) :: u16)"

definition packet_nonce :: "('priv, 'pub, 'c) wire_lib \<Rightarrow> ID \<Rightarrow> bytes \<Rightarrow> bytes" where
  "packet_nonce W me input = take 12 (drop 9 (packet_plain W me input))"

definition packet_auth :: "('priv, 'pub, 'c) wire_lib \<Rightarrow> ID \<Rightarrow> bytes \<Rightarrow> bytes" where
  "packet_auth W me input = take (packet_authsize W me input) (drop 23 (packet_plain W me input))"

definition packet_header :: "('priv, 'pub, 'c) wire_lib \<Rightarrow> ID \<Rightarrow> bytes \<Rightarrow> bytes" where
  "packet_header W me input = take 16 input @ take (23 + packet_authsize W me input) (packet_plain W me input)"

definition packet_sealed :: "('priv, 'pub, 'c) wire_lib \<Rightarrow> ID \<Rightarrow> bytes \<Rightarrow> bytes" where
  "packet_sealed W me input = drop (39 + packet_authsize W me input) input"

definition auth_src :: "bytes \<Rightarrow> ID" where
  "auth_src auth = take 32 auth"

definition auth_sig :: "bytes \<Rightarrow> bytes" where
  "auth_sig auth = take (unat (auth ! 32)) (drop 34 auth)"

definition auth_ephkey :: "bytes \<Rightarrow> bytes" where
  "auth_ephkey auth = take (unat (auth ! 33)) (drop (34 + unat (auth ! 32)) auth)"

definition auth_record :: "bytes \<Rightarrow> bytes" where
  "auth_record auth = drop (34 + unat (auth ! 32) + unat (auth ! 33)) auth"

lemmas auth_parts = auth_src_def auth_sig_def auth_ephkey_def auth_record_def

text \<open>
  What the auth data of a packet has to satisfy to answer the challenge \<open>ch\<close>: the signature it carries
  verifies, under the key of the node's record, over the challenge, the ephemeral key it carries and the
  receiver's ID; and the node is the one of the challenge, or the one of the newer record it carries, with the
  source ID it names. \<open>s\<close> are the keys agreed on with the ephemeral key it carries.
\<close>

definition answers_challenge ::
  "('priv, 'pub, 'c) wire_lib \<Rightarrow> 'priv \<Rightarrow> ID \<Rightarrow> whoareyou \<Rightarrow> bytes \<Rightarrow> enode \<Rightarrow> session \<Rightarrow> bool" where
  "answers_challenge W priv me ch auth n s \<longleftrightarrow>
     34 + unat (auth ! 32) + unat (auth ! 33) \<le> length auth \<and>
     IdentityScheme W n = ''v4'' \<and>
     (\<exists>key. LoadRaw W n = Some key \<and>
        VerifySignature W key
          (sha256 W (string_bytes ''discovery v5 identity proof'' @ ChallengeData ch @ auth_ephkey auth @ me)) (auth_sig auth)) \<and>
     (wNode ch = Some n \<or>
      eID n = auth_src auth \<and> (\<exists>r. decodeRecord W (auth_record auth) = Inr r \<and> enodeNew W r = Inr n \<and>
         (\<forall>l. wNode ch = Some l \<longrightarrow> eSeq l < recordSeq W r))) \<and>
     (\<exists>ephkey. length (auth_ephkey auth) = 33 \<and> DecompressPubkey W (auth_ephkey auth) = Inr ephkey \<and>
        deriveKeys W priv ephkey (auth_src auth) me (ChallengeData ch) = Some s)"

lemma decodeHandshakeRecord_accepts:
  assumes "decodeHandshakeRecord W local wantID remote = Inr n"
  shows "local = Some n \<or> eID n = wantID \<and> (\<exists>r. decodeRecord W remote = Inr r \<and> enodeNew W r = Inr n \<and>
     (\<forall>l. local = Some l \<longrightarrow> eSeq l < recordSeq W r))"
  using assms by (auto simp: decodeHandshakeRecord_def Let_def split: option.splits sum.splits if_splits)

lemma decodeHandshakeAuthData_parts:
  assumes "decodeHandshakeAuthData h = (h', auth, None)"
  shows "h' = h\<lparr>src := auth_src (AuthData h)\<rparr>" "SrcID auth = auth_src (AuthData h)" "signature auth = auth_sig (AuthData h)"
    "pubkey auth = auth_ephkey (AuthData h)" "arecord auth = auth_record (AuthData h)"
    "34 + unat (AuthData h ! 32) + unat (AuthData h ! 33) \<le> length (AuthData h)"
  using assms by (auto simp: decodeHandshakeAuthData_def auth_parts wire_sizes Let_def ac_simps empty_auth_def split: if_splits)

lemma decodeHandshake_accepts:
  assumes "decodeHandshake W c addr h = Some (h', auth, Inr (n, s))"
  shows "h' = h\<lparr>src := auth_src (AuthData h)\<rparr>" "SrcID auth = auth_src (AuthData h)"
    "\<exists>ch k. getHandshake (sc c) (auth_src (AuthData h)) addr = Some ch \<and> s = keysFlipped k \<and>
       answers_challenge W (privkey c) (eID (localnode c)) ch (AuthData h) n k"
proof -
  obtain h0 where d: "decodeHandshakeAuthData h = (h0, auth, None)" "h' = h0"
    using assms by (auto simp: decodeHandshake_def split: option.splits sum.splits if_splits prod.splits)
  note parts = decodeHandshakeAuthData_parts [OF d(1)]
  show "h' = h\<lparr>src := auth_src (AuthData h)\<rparr>" "SrcID auth = auth_src (AuthData h)" using parts d(2) by simp_all
  obtain ch ephkey k where "getHandshake (sc c) (SrcID auth) addr = Some ch" "s = keysFlipped k"
    "decodeHandshakeRecord W (wNode ch) (SrcID auth) (arecord auth) = Inr n"
    "verifyIDSignature W (signature auth) n (ChallengeData ch) (pubkey auth) (eID (localnode c)) = None"
    "DecodePubkey W (privkey c) (pubkey auth) = Inr ephkey"
    "deriveKeys W (privkey c) ephkey (SrcID auth) (eID (localnode c)) (ChallengeData ch) = Some k"
    using assms d(1) by (auto simp: decodeHandshake_def split: option.splits sum.splits)
  then show "\<exists>ch k. getHandshake (sc c) (auth_src (AuthData h)) addr = Some ch \<and> s = keysFlipped k \<and>
       answers_challenge W (privkey c) (eID (localnode c)) ch (AuthData h) n k"
    using parts decodeHandshakeRecord_accepts [of W "wNode ch" "SrcID auth" "arecord auth" n]
    by (auto simp: answers_challenge_def verifyIDSignature_def idNonceHash_def DecodePubkey_def split: option.splits if_splits)
qed

lemma decodeHandshakeMessage_accepts:
  assumes "decodeHandshakeMessage W c addr h hdata msg = Some (c', h', Some n, Inr p)"
  shows "\<exists>ch s. src h' = auth_src (AuthData h) \<and> getHandshake (sc c) (auth_src (AuthData h)) addr = Some ch \<and>
     answers_challenge W (privkey c) (eID (localnode c)) ch (AuthData h) n s \<and>
     decryptMessage W msg (hNonce h) hdata (writeKey s) = Inr p \<and>
     c' = c\<lparr>sc := deleteHandshake (new_session W (sc c) (auth_src (AuthData h)) addr (keysFlipped s)) (auth_src (AuthData h)) addr\<rparr>"
proof -
  obtain head auth s where d: "decodeHandshake W c addr h = Some (head, auth, Inr (n, s))" "h' = head"
    "decryptMessage W msg (hNonce head) hdata (readKey' s) = Inr p"
    "c' = c\<lparr>sc := deleteHandshake (new_session W (sc c) (SrcID auth) addr s) (SrcID auth) addr\<rparr>"
    using assms by (auto simp: decodeHandshakeMessage_def alloc_session_def storeNewSession_def new_session_def Let_def
        split: bind_splits sum.splits prod.splits)
  show ?thesis
    using decodeHandshake_accepts [OF d(1)] d(2-4) by (auto simp: keysFlipped_def)
qed

text \<open>The header that \<open>Decode\<close> reads, in terms of the layout.\<close>

lemma xor_stream_take: "xor_stream f k (take n bs) = take n (xor_stream f k bs)"
  by (rule nth_equalityI) (auto simp: xor_stream_def)

lemma xor_stream_drop: "xor_stream f (k + n) (drop n bs) = drop n (xor_stream f k bs)"
  by (rule nth_equalityI) (auto simp: xor_stream_def ac_simps)

lemma Decode_layout:
  assumes "Decode W c input addr now = Some (c', i, Some n, r)"
  defines "me \<equiv> eID (localnode c)"
  obtains h h' where "AuthData h = packet_auth W me input" "hNonce h = packet_nonce W me input" "i = src h'"
    "decodeHandshakeMessage W (c\<lparr>sc := handshakeGC (sc c) now\<rparr>) addr h (packet_header W me input) (packet_sealed W me input) =
       Some (c', h', Some n, r)"
proof -
  define head where "head = read_static (empty_header\<lparr>IV := take 16 input\<rparr>) (take 23 (packet_plain W me input))"
  have mask: "xor_stream (mask_stream W me (take 16 input)) 0 (take 23 (drop 16 input)) = take 23 (packet_plain W me input)"
    by (simp add: packet_plain_def xor_stream_take)
  have size: "unat (AuthSize head) = packet_authsize W me input" and nonce: "hNonce head = packet_nonce W me input"
    by (simp_all add: head_def read_static_def packet_authsize_def packet_nonce_def drop_take)
  have "xor_stream f 23 (take k (drop 39 input)) = take k (drop 23 (xor_stream f 0 (drop 16 input)))" for f k
    using xor_stream_drop [of f 0 23 "drop 16 input"] by (simp add: xor_stream_take)
  then have auth: "xor_stream (mask_stream W me (take 16 input)) 23 (take (packet_authsize W me input) (drop 39 input)) = packet_auth W me input"
    by (simp add: packet_auth_def packet_plain_def)
  have hdr: "take 16 input @ take 23 (packet_plain W me input) @ packet_auth W me input = packet_header W me input"
    by (simp add: packet_header_def packet_auth_def take_add)
  obtain h' where "decodeHandshakeMessage W (c\<lparr>sc := handshakeGC (sc c) now\<rparr>) addr (head\<lparr>AuthData := packet_auth W me input\<rparr>)
      (packet_header W me input) (packet_sealed W me input) = Some (c', h', Some n, r)" "i = src h'"
    using assms(1)
    by (auto simp: Decode_def Let_def case_prod_beta wire_sizes me_def [symmetric] mask head_def [symmetric] size auth hdr
        packet_sealed_def [symmetric] split: if_splits option.splits bind_splits)
  then show thesis using that [of "head\<lparr>AuthData := packet_auth W me input\<rparr>" h'] nonce by simp
qed

lemma decodeHandshakeMessage_total:
  assumes "\<And>pub priv. ScalarMult W pub priv \<noteq> None"
  shows "decodeHandshakeMessage W c addr h hdata msg \<noteq> None"
proof -
  have "ecdh W priv pub \<noteq> None" for priv pub using assms [of pub priv] by (auto simp: ecdh_def)
  then have "deriveKeys W priv pub a b ch \<noteq> None" for priv pub a b ch
    by (auto simp: deriveKeys_def Let_def split: option.splits)
  then have "decodeHandshake W c addr h \<noteq> None"
    by (auto simp: decodeHandshake_def split: option.splits sum.splits prod.splits)
  then show ?thesis
    by (auto simp: decodeHandshakeMessage_def alloc_session_def Let_def split: sum.splits prod.splits bind_splits)
qed

lemma decryptMessage_accepts:
  "rlp_ok (rlp W) \<Longrightarrow> decryptMessage W ct nonce hdata key = Inr p \<Longrightarrow> is_message p \<and> length (RequestID p) \<le> 8"
  by (auto simp: decryptMessage_def dest: DecodeMessage_accepts split: sum.splits list.splits)

lemma Decode_defined:
  assumes "\<And>pub priv. ScalarMult W pub priv \<noteq> None"
  shows "\<exists>c' i n r. Decode W c input addr now = Some (c', i, n, r)"
proof -
  have "Decode W c input addr now \<noteq> None"
    by (simp add: Decode_def Let_def case_prod_beta bind_eq_None_conv decodeHandshakeMessage_total [OF assms]
        del: not_None_eq split: option.split)
  then show ?thesis by (metis option.exhaust prod.exhaust)
qed

lemma Decode_short: "length input < 39 \<Longrightarrow> Decode W c input addr now = Some (c, replicate 32 0, None, Inl errTooShort)"
  by (simp add: Decode_def wire_sizes)

lemma Decode_cases:
  assumes "Decode W c input addr now = Some (c', i, n, r)"
  obtains (early) err where "c' = c" "r = Inl err"
  | (who) h hdata where "c' = c\<lparr>sc := handshakeGC (sc c) now\<rparr>" "r = decodeWhoareyou h hdata"
  | (hs) h hdata msg h' where "decodeHandshakeMessage W (c\<lparr>sc := handshakeGC (sc c) now\<rparr>) addr h hdata msg = Some (c', h', n, r)"
  | (msg) h hdata msg h' where "decodeMessage W (c\<lparr>sc := handshakeGC (sc c) now\<rparr>) addr h hdata msg = (c', h', r)"
  | (flag) "c' = c\<lparr>sc := handshakeGC (sc c) now\<rparr>" "r = Inl errInvalidFlag"
  using assms by (auto simp: Decode_def Let_def case_prod_beta prod_eq_iff split: if_splits option.splits bind_splits)

lemma readKey_heap: "sheap (snd (readKey W cache i addr)) = sheap cache \<and> sfresh (snd (readKey W cache i addr)) = sfresh cache"
  by (auto simp: readKey_def get_session_def Let_def split: prod.splits option.splits)

lemma Decode_error_keys:
  assumes "Decode W c input addr now = Some (c', i, n, Inl err)"
  shows "sheap (sc c') = sheap (sc c) \<and> sfresh (sc c') = sfresh (sc c)"
  using assms
proof (cases rule: Decode_cases)
  case (hs h hdata msg h')
  then show ?thesis
    by (auto simp: decodeHandshakeMessage_def alloc_session_def deleteHandshake_def Let_def split: bind_splits sum.splits prod.splits)
next
  case (msg h hdata msg h')
  then show ?thesis
    using readKey_heap [of W "handshakeGC (sc c) now" "AuthData h" addr]
    by (auto simp: decodeMessage_def Let_def case_prod_beta split: if_splits)
qed auto

lemma Decode_accepts:
  assumes R: "rlp_ok (rlp W)" and d: "Decode W c input addr now = Some (c', i, n, Inr p)"
  shows "is_message p \<and> length (RequestID p) \<le> 8 \<or> (\<exists>w. p = Whoareyou w) \<or> (\<exists>nonce. p = Unknown nonce)"
  using d
proof (cases rule: Decode_cases)
  case (who h hdata)
  then show ?thesis by (auto simp: decodeWhoareyou_def split: if_splits)
next
  case (hs h hdata msg h')
  then show ?thesis
    by (auto simp: decodeHandshakeMessage_def alloc_session_def Let_def dest: decryptMessage_accepts [OF R]
        split: bind_splits sum.splits prod.splits)
next
  case (msg h hdata msg h')
  then show ?thesis
    using decryptMessage_accepts [OF R]
    by (auto simp: decodeMessage_def Let_def case_prod_beta split: if_splits)
qed auto

subsection \<open>An instance of the libraries\<close>

text \<open>
  Toy primitives that obey the laws: keys are numbers, a sealed message carries the key as its tag, and
  the cache is a list of 1024 entries, most recently used first.
\<close>

definition sample_peer :: "byte \<Rightarrow> enode" where
  "sample_peer i = \<lparr>eID = replicate 32 i, eIP = [192, 0, 2, i], eUDP = 30303, eTCP = 30303, eSeq = 1\<rparr>"

definition lru_insert :: "(sessionID \<times> nat) list \<Rightarrow> sessionID \<Rightarrow> nat \<Rightarrow> (sessionID \<times> nat) list" where
  "lru_insert c k s = take 1024 ((k, s) # filter (\<lambda>x. fst x \<noteq> k) c)"

definition sample_wire :: "(nat, nat, (sessionID \<times> nat) list) wire_lib" where
  "sample_wire =
     \<lparr>rlp = sample_rlp, privOnS256 = (\<lambda>a. a < 256), pubOnS256 = (\<lambda>k. k < 256), PublicKey = (\<lambda>a. a),
      CompressPubkey = (\<lambda>k. of_nat k # replicate 32 0), DecompressPubkey = (\<lambda>bs. Inr (unat (bs ! 0))),
      Sign = (\<lambda>m a. Inr (replicate 64 (of_nat a) @ [0])),
      VerifySignature = (\<lambda>key m sig. sig = replicate 64 (key ! 0)),
      ScalarMult = (\<lambda>pub priv. Some (pub * priv, 0)), sha256 = (\<lambda>bs. take 32 (bs @ replicate 32 0)), hkdf = (\<lambda>secret salt info i. of_nat i),
      ctr = (\<lambda>key iv i. of_nat i),
      gcmSeal = (\<lambda>key nonce pt ad. pt @ take 16 (key @ replicate 16 0)),
      gcmOpen = (\<lambda>key nonce ct ad. if 16 \<le> length ct \<and> drop (length ct - 16) ct = take 16 (key @ replicate 16 0)
                                    then Some (take (length ct - 16) ct) else None),
      IdentityScheme = (\<lambda>n. ''v4''), LoadSecp256k1 = (\<lambda>n. Some (unat (eID n ! 0))),
      LoadRaw = (\<lambda>n. Some (eID n ! 0 # replicate 32 0)),
      Record = (\<lambda>n. [eID n ! 0]), decodeRecord = (\<lambda>bs. Inr bs), recordSeq = (\<lambda>r. 1), enodeNew = (\<lambda>r. Inr (sample_peer (r ! 0))),
      newLRU = (\<lambda>n. []),
      lruGet = (\<lambda>c k. case map_of c k of None \<Rightarrow> (None, c) | Some s \<Rightarrow> (Some s, (k, s) # filter (\<lambda>x. fst x \<noteq> k) c)),
      lruAdd = lru_insert\<rparr>"

lemma map_of_filter_key: "j \<noteq> k \<Longrightarrow> map_of (filter (\<lambda>x. fst x \<noteq> k) c) j = map_of c j"
  by (induction c) auto

lemma map_of_take: "map_of (take n c) j \<in> {map_of c j, None}"
proof (induction c arbitrary: n)
  case (Cons x c)
  then show ?case using Cons.IH [of "n - 1"] by (cases n; cases x) auto
qed simp

lemma sample_lru: "lru_ok sample_wire map_of"
proof -
  have "map_of (lru_insert c k s) k = Some s" for c k s by (simp add: lru_insert_def)
  moreover have "map_of (lru_insert c k s) j \<in> {map_of c j, None}" if "j \<noteq> k" for c k s j
    using that map_of_take [of 1023 "filter (\<lambda>x. fst x \<noteq> k) c" j] by (simp add: lru_insert_def map_of_filter_key)
  moreover have "map_of ((k, s) # filter (\<lambda>x. fst x \<noteq> k) c) = map_of c" if "map_of c k = Some s" for c :: "(sessionID \<times> nat) list" and k s
    using that by (auto simp: fun_eq_iff map_of_filter_key)
  ultimately show ?thesis
    by (auto simp: lru_ok_def sample_wire_def split: option.splits)
qed

lemma sample_laws: "rlp_ok (rlp sample_wire)" "gcm_ok sample_wire" "curve_ok sample_wire"
proof -
  show "rlp_ok (rlp sample_wire)" by (simp add: sample_wire_def sample_rlp_ok)
  show "gcm_ok sample_wire" by (auto simp: gcm_ok_def sample_wire_def min_def)
  show "curve_ok sample_wire" by (auto simp: curve_ok_def sample_wire_def unat_of_nat butlast_append)
qed

lemma sample_peer_record: "node_record_ok sample_wire (sample_peer i) (unat i)"
  using unat_less_exp [of i] by (simp add: node_record_ok_def sample_wire_def sample_peer_def)

definition sample_codec :: "byte \<Rightarrow> (nat, (sessionID \<times> nat) list) Codec" where
  "sample_codec i = NewCodec sample_wire (sample_peer i) (unat i)"

definition sample_entropy :: "nat entropy" where
  "sample_entropy = \<lparr>rNonce = Some (replicate 8 9), rIV = Some (replicate 16 5), rKey = Some 77, rRandomNonce = Some (replicate 12 3),
     rData = replicate 20 1\<rparr>"

definition sample_who :: whoareyou where
  "sample_who = \<lparr>ChallengeData = [], wNonce = replicate 12 3, IDNonce = replicate 16 4, RecordSeq = 0, wNode = None, sent = 0\<rparr>"

lemma sample_entropy_ok: "good_entropy sample_entropy"
  by (simp add: good_entropy_def sample_entropy_def)

lemma sample_handshake:
  "\<exists>B1 packet2 A1 w' A2 packet3 nonce B2.
     Encode sample_wire (sample_codec 2) (replicate 32 1) ''a'' (Whoareyou sample_who) None sample_entropy 100 =
       Some (B1, Inr (packet2, wNonce sample_who)) \<and>
     Decode sample_wire (sample_codec 1) packet2 ''b'' 200 = Some (A1, replicate 32 0, None, Inr (Whoareyou w')) \<and>
     Encode sample_wire A1 (replicate 32 2) ''b'' (Ping [1, 2] 7) (Some (w'\<lparr>wNode := Some (sample_peer 2)\<rparr>)) sample_entropy 300 =
       Some (A2, Inr (packet3, nonce)) \<and>
     Decode sample_wire B1 packet3 ''a'' 400 = Some (B2, replicate 32 1, Some (sample_peer 1), Inr (Ping [1, 2] 7)) \<and>
     linked map_of A2 ''b'' B2 ''a''"
proof -
  have l: "localnode (sample_codec i) = sample_peer i" "privkey (sample_codec i) = unat i" "eID (sample_peer i) = replicate 32 i" for i
    by (simp_all add: sample_codec_def NewCodec_def sample_peer_def)
  have "who_ok sample_who" "wNode sample_who = None \<and> RecordSeq sample_who = 0 \<and> 0 < eSeq (localnode (sample_codec 1)) \<or>
      wNode sample_who = Some (localnode (sample_codec 1)) \<and> RecordSeq sample_who = eSeq (localnode (sample_codec 1))"
    by (simp_all add: who_ok_def sample_who_def l) (simp add: sample_peer_def)
  moreover have "rIV sample_entropy = Some (replicate 16 5)" "length (replicate 16 (5 :: byte)) = 16" "rKey sample_entropy = Some 77"
    "privOnS256 sample_wire 77" "is_message (Ping [1, 2] 7)" "length (RequestID (Ping [1, 2] 7)) \<le> 8" "400 - 100 \<le> handshakeTimeout"
    by (simp_all add: sample_entropy_def sample_wire_def is_message_def handshakeTimeout_def)
  ultimately show ?thesis
    using handshake_run [OF sample_laws sample_lru, of "sample_codec 1" "sample_codec 2" sample_who sample_entropy "replicate 16 5" sample_entropy 77
        "Ping [1, 2] 7" 400 100 "''a''" "''b''" 200 300] sample_entropy_ok sample_peer_record
    unfolding l by metis
qed

lemma sample_challenger:
  assumes "Encode W (sample_codec 2) i addr (Whoareyou sample_who) None sample_entropy t = Some (B, Inr (packet, nonce))"
  shows "localnode B = sample_peer 2 \<and> privkey B = 2"
proof -
  have "who_ok sample_who" "rIV sample_entropy = Some (replicate 16 5)"
    by (simp_all add: who_ok_def sample_who_def sample_entropy_def)
  from Encode_whoareyou [OF this, of W "sample_codec 2" i addr None t] assms show ?thesis
    by (auto simp: sample_codec_def NewCodec_def)
qed

lemma sample_linked:
  "\<exists>A B :: (nat, (sessionID \<times> nat) list) Codec. linked map_of A ''b'' B ''a'' \<and> localnode A = sample_peer 1 \<and> localnode B = sample_peer 2"
proof -
  define s where "s = \<lparr>writeKey = replicate 16 1, readKey' = replicate 16 2, nonceCounter = 1\<rparr>"
  define A where "A = (sample_codec 1)\<lparr>sc := new_session sample_wire (sc (sample_codec 1)) (replicate 32 2) ''b'' s\<rparr>"
  define B where "B = (sample_codec 2)\<lparr>sc := new_session sample_wire (sc (sample_codec 2)) (replicate 32 1) ''a'' (keysFlipped s)\<rparr>"
  have "linked map_of A ''b'' B ''a''"
    using sample_lru by (auto simp: linked_def A_def B_def new_session_def keysFlipped_def s_def sample_codec_def NewCodec_def
        sample_peer_def lru_ok_def)
  moreover have "localnode A = sample_peer 1" "localnode B = sample_peer 2"
    by (simp_all add: A_def B_def sample_codec_def NewCodec_def)
  ultimately show ?thesis by blast
qed

subsection \<open>Properties\<close>

text \<open>
  C1. The handshake of two nodes A and B, from B's challenge on: A decodes the WHOAREYOU packet that B encodes,
  B decodes the handshake packet with which A answers it within the timeout to A's message and A's record,
  the challenge is used up, and the two hold a session in which each reads with the key the other writes with.
\<close>

theorem handshake_establishes:
  assumes laws: "rlp_ok (rlp W)" "gcm_ok W" "curve_ok W" "lru_ok W look"
    and nodes: "node_record_ok W (localnode A) (privkey A)" "node_record_ok W (localnode B) (privkey B)"
    and w: "who_ok w" "wNode w = None \<and> RecordSeq w = 0 \<and> 0 < eSeq (localnode A) \<or>
                       wNode w = Some (localnode A) \<and> RecordSeq w = eSeq (localnode A)"
    and e: "rIV e2 = Some iv" "length iv = 16" "good_entropy e3" "rKey e3 = Some ephkey" "privOnS256 W ephkey"
    and p: "is_message p" "length (RequestID p) \<le> 8" and t: "t6 - t2 \<le> handshakeTimeout"
  shows "\<exists>B1 packet2 A1 w' A2 packet3 nonce B2.
     Encode W B (eID (localnode A)) addrA (Whoareyou w) None e2 t2 = Some (B1, Inr (packet2, wNonce w)) \<and>
     Decode W A packet2 addrB t4 = Some (A1, replicate 32 0, None, Inr (Whoareyou w')) \<and> wNonce w' = wNonce w \<and>
     Encode W A1 (eID (localnode B)) addrB p (Some (w'\<lparr>wNode := Some (localnode B)\<rparr>)) e3 t5 = Some (A2, Inr (packet3, nonce)) \<and>
     Decode W B1 packet3 addrA t6 = Some (B2, eID (localnode A), Some (localnode A), Inr p) \<and>
     getHandshake (sc B2) (eID (localnode A)) addrA = None \<and> linked look A2 addrB B2 addrA"
  using assms by (rule handshake_run)

theorem handshake_establishes_witness:
  "\<exists>B1 packet2 A1 w' A2 packet3 nonce B2.
     Encode sample_wire (sample_codec 2) (replicate 32 1) ''a'' (Whoareyou sample_who) None sample_entropy 100 =
       Some (B1, Inr (packet2, wNonce sample_who)) \<and>
     Decode sample_wire (sample_codec 1) packet2 ''b'' 200 = Some (A1, replicate 32 0, None, Inr (Whoareyou w')) \<and>
     Encode sample_wire A1 (replicate 32 2) ''b'' (Ping [1, 2] 7) (Some (w'\<lparr>wNode := Some (sample_peer 2)\<rparr>)) sample_entropy 300 =
       Some (A2, Inr (packet3, nonce)) \<and>
     Decode sample_wire B1 packet3 ''a'' 400 = Some (B2, replicate 32 1, Some (sample_peer 1), Inr (Ping [1, 2] 7)) \<and>
     linked map_of A2 ''b'' B2 ''a''"
proof -
  have l: "localnode (sample_codec i) = sample_peer i" "privkey (sample_codec i) = unat i" "eID (sample_peer i) = replicate 32 i" for i
    by (simp_all add: sample_codec_def NewCodec_def sample_peer_def)
  have "who_ok sample_who" "wNode sample_who = None \<and> RecordSeq sample_who = 0 \<and> 0 < eSeq (localnode (sample_codec 1)) \<or>
      wNode sample_who = Some (localnode (sample_codec 1)) \<and> RecordSeq sample_who = eSeq (localnode (sample_codec 1))"
    by (simp_all add: who_ok_def sample_who_def l) (simp add: sample_peer_def)
  moreover have "rIV sample_entropy = Some (replicate 16 5)" "length (replicate 16 (5 :: byte)) = 16" "rKey sample_entropy = Some 77"
    "privOnS256 sample_wire 77" "is_message (Ping [1, 2] 7)" "length (RequestID (Ping [1, 2] 7)) \<le> 8" "400 - 100 \<le> handshakeTimeout"
    by (simp_all add: sample_entropy_def sample_wire_def is_message_def handshakeTimeout_def)
  ultimately show ?thesis
    using handshake_establishes [OF sample_laws sample_lru, of "sample_codec 1" "sample_codec 2" sample_who sample_entropy "replicate 16 5" sample_entropy 77
        "Ping [1, 2] 7" 400 100 "''a''" "''b''" 200 300] sample_entropy_ok sample_peer_record
    unfolding l by metis
qed

text \<open>
  C9. Over an established session every message arrives: what one node encodes, the other decodes to the same
  message from the right sender, and the session stays established, in both directions and for any number of messages.
\<close>

theorem session_messages:
  assumes laws: "rlp_ok (rlp W)" "gcm_ok W" "lru_ok W look" and l: "linked look A addrB B addrA"
    and p: "is_message p" "length (RequestID p) \<le> 8" and e: "good_entropy e" and ID: "length (eID (localnode A)) = 32"
  shows "\<exists>A' packet nonce B'. Encode W A (eID (localnode B)) addrB p None e t = Some (A', Inr (packet, nonce)) \<and>
     Decode W B packet addrA t' = Some (B', eID (localnode A), None, Inr p) \<and> linked look A' addrB B' addrA"
  using assms by (rule session_run)

theorem session_messages_witness:
  "\<exists>A B A' packet nonce B'. linked map_of A ''b'' B ''a'' \<and>
     Encode sample_wire A (eID (localnode B)) ''b'' (Findnode [1] [256, 255]) None sample_entropy 5 = Some (A', Inr (packet, nonce)) \<and>
     Decode sample_wire B packet ''a'' 6 = Some (B', eID (localnode A), None, Inr (Findnode [1] [256, 255])) \<and>
     linked map_of A' ''b'' B' ''a''"
proof -
  obtain A B :: "(nat, (sessionID \<times> nat) list) Codec" where AB: "linked map_of A ''b'' B ''a''" "localnode A = sample_peer 1" using sample_linked by blast
  have "is_message (Findnode [1] [256, 255])" "length (RequestID (Findnode [1] [256, 255])) \<le> 8" "length (eID (localnode A)) = 32"
    by (simp_all add: is_message_def AB(2) sample_peer_def)
  from session_messages [OF sample_laws(1,2) sample_lru AB(1) this(1,2) sample_entropy_ok this(3), of 5 6] AB(1)
  show ?thesis by blast
qed

text \<open>
  C6. A handshake packet is accepted only as the answer to a challenge. When \<open>Decode\<close> returns a node and a
  message, the datagram names the source ID it returns; this node had sent that node a challenge at this address
  within the timeout; the signature in the datagram verifies, under the key of the returned record, over that
  challenge, the ephemeral key in the datagram and the receiver's own ID; the record is the one the challenge was made
  with, or a newer one from the datagram with the source ID; the message is the sealed part of the datagram
  opened, with the header as additional data, by the key agreed on from that ephemeral key; the cache gains a
  session of just these keys, and the challenge is gone, so that no packet is accepted twice.
\<close>

theorem Decode_authentic:
  assumes "Decode W c input addr now = Some (c', i, Some n, Inr p)"
  defines "me \<equiv> eID (localnode c)"
  shows "i = auth_src (packet_auth W me input) \<and>
     (\<exists>ch s. getHandshake (sc c) i addr = Some ch \<and> now - handshakeTimeout \<le> sent ch \<and>
       answers_challenge W (privkey c) me ch (packet_auth W me input) n s \<and>
       decryptMessage W (packet_sealed W me input) (packet_nonce W me input) (packet_header W me input) (writeKey s) = Inr p \<and>
       sheap (sc c') = (sheap (sc c))(sfresh (sc c) := keysFlipped s) \<and>
       sessions (sc c') = lruAdd W (sessions (sc c)) (i, addr) (sfresh (sc c)) \<and>
       getHandshake (sc c') i addr = None)"
proof -
  obtain h h' where h: "AuthData h = packet_auth W me input" "hNonce h = packet_nonce W me input" "i = src h'"
    "decodeHandshakeMessage W (c\<lparr>sc := handshakeGC (sc c) now\<rparr>) addr h (packet_header W me input) (packet_sealed W me input) =
       Some (c', h', Some n, Inr p)"
    using Decode_layout [OF assms(1)] unfolding me_def .
  obtain ch s where "i = auth_src (packet_auth W me input)" "getHandshake (handshakeGC (sc c) now) i addr = Some ch"
    "answers_challenge W (privkey c) me ch (packet_auth W me input) n s"
    "decryptMessage W (packet_sealed W me input) (packet_nonce W me input) (packet_header W me input) (writeKey s) = Inr p"
    "sc c' = deleteHandshake (new_session W (handshakeGC (sc c) now) i addr (keysFlipped s)) i addr"
    using decodeHandshakeMessage_accepts [OF h(4)] h(1-3) by (auto simp: me_def)
  then show ?thesis
    by (auto simp: getHandshake_def handshakeGC_def deleteHandshake_def new_session_def split: option.splits if_splits)
qed

theorem Decode_authentic_witness:
  "\<exists>B packet B' s. Decode sample_wire B packet ''a'' 400 = Some (B', replicate 32 1, Some (sample_peer 1), Inr (Ping [1, 2] 7)) \<and>
     localnode B = sample_peer 2 \<and> auth_src (packet_auth sample_wire (replicate 32 2) packet) = replicate 32 1 \<and>
     (\<exists>ch. getHandshake (sc B) (replicate 32 1) ''a'' = Some ch \<and>
        answers_challenge sample_wire 2 (replicate 32 2) ch (packet_auth sample_wire (replicate 32 2) packet) (sample_peer 1) s) \<and>
     getHandshake (sc B') (replicate 32 1) ''a'' = None"
proof -
  obtain B packet B' where d: "Decode sample_wire B packet ''a'' 400 = Some (B', replicate 32 1, Some (sample_peer 1), Inr (Ping [1, 2] 7))"
    "localnode B = sample_peer 2" "privkey B = 2"
    using sample_handshake sample_challenger by metis
  from Decode_authentic [OF d(1)] d show ?thesis by (simp add: sample_peer_def) metis
qed

text \<open>
  C20. \<open>Decode\<close> survives any input: it never panics as long as the curve's scalar multiplication returns a point; input
  shorter than the static header is rejected without a change of state; an error of any kind installs no keys; and what
  is accepted is an undecodable packet to be challenged, a challenge, or a message whose request ID has at most eight bytes.
\<close>

theorem Decode_total:
  assumes "rlp_ok (rlp W)" "\<And>pub priv. ScalarMult W pub priv \<noteq> None"
  shows "\<exists>c' i n r. Decode W c input addr now = Some (c', i, n, r) \<and>
     (length input < 39 \<longrightarrow> c' = c \<and> r = Inl errTooShort) \<and>
     (\<forall>err. r = Inl err \<longrightarrow> sheap (sc c') = sheap (sc c) \<and> sfresh (sc c') = sfresh (sc c)) \<and>
     (\<forall>p. r = Inr p \<longrightarrow> is_message p \<and> length (RequestID p) \<le> 8 \<or> (\<exists>w. p = Whoareyou w) \<or> (\<exists>nonce. p = Unknown nonce))"
proof -
  obtain c' i n r where d: "Decode W c input addr now = Some (c', i, n, r)" using Decode_defined [OF assms(2)] by blast
  show ?thesis
    using d Decode_short [of input W c addr now] Decode_error_keys [of W c input addr now c' i n]
      Decode_accepts [OF assms(1), of c input addr now c' i n] by fastforce
qed

theorem Decode_total_witness:
  "\<exists>c' i n r. Decode sample_wire (sample_codec 1) [1, 2, 3] ''a'' 0 = Some (c', i, n, r) \<and> c' = sample_codec 1 \<and> r = Inl errTooShort"
proof -
  have "ScalarMult sample_wire pub priv \<noteq> None" for pub priv by (simp add: sample_wire_def)
  from Decode_total [OF sample_laws(1) this, of "sample_codec 1" "[1, 2, 3]" "''a''" 0] show ?thesis by auto
qed

end
