(* ===== verification/V5_Codec_Total.thy ===== *)
theory V5_Codec_Total
  imports V5_Codec
begin

text \<open>
  The codec never panics: \<open>Encode\<close> returns for every packet and every challenge whose node is set, \<open>Decode\<close>
  for every input, and both keep the sessions' keys at the length of an AES key.
\<close>

subsection \<open>The codec never panics\<close>

definition codec_ok :: "('c \<Rightarrow> sessionID \<rightharpoonup> nat) \<Rightarrow> ('priv, 'c) Codec \<Rightarrow> bool" where
  "codec_ok look c \<longleftrightarrow> (\<forall>k s. look (sessions (sc c)) k = Some s \<longrightarrow> length (writeKey (sheap (sc c) s)) = 16)"

definition entropy_ok :: "('priv, 'pub, 'c) wire_lib \<Rightarrow> 'priv entropy \<Rightarrow> bool" where
  "entropy_ok W e \<longleftrightarrow> (\<forall>r. rNonce e = Some r \<longrightarrow> length r = 8) \<and> (\<forall>iv. rIV e = Some iv \<longrightarrow> length iv = 16) \<and>
     (\<forall>k. rKey e = Some k \<longrightarrow> privOnS256 W k)"

definition wire_ok :: "('priv, 'pub, 'c) wire_lib \<Rightarrow> ('c \<Rightarrow> sessionID \<rightharpoonup> nat) \<Rightarrow> bool" where
  "wire_ok W look \<longleftrightarrow> rlp_ok (rlp W) \<and> curve_ok W \<and> lru_ok W look \<and> (\<forall>pub priv. ScalarMult W pub priv \<noteq> None)"

lemma deriveKeys_length: "deriveKeys W a b n1 n2 ch = Some s \<Longrightarrow> length (writeKey s) = 16 \<and> length (readKey' s) = 16"
  by (auto simp: deriveKeys_def Let_def aesKeySize_def split: option.splits)

lemma codec_ok_sc:
  assumes "codec_ok look c" "look (sessions cache) = look (sessions (sc c))"
    and "\<And>s. writeKey (sheap cache s) = writeKey (sheap (sc c) s)"
  shows "codec_ok look (c\<lparr>sc := cache\<rparr>)"
  using assms by (simp add: codec_ok_def)

lemma lru_add: "lru_ok W look \<Longrightarrow> look (lruAdd W c k s) j = Some t \<Longrightarrow> (if j = k then t = s else look c j = Some t)"
  unfolding lru_ok_def by (cases "j = k") (metis option.inject, metis empty_iff insert_iff option.distinct(1))

lemma codec_ok_new_session:
  assumes "lru_ok W look" "codec_ok look (c\<lparr>sc := cache\<rparr>)" "length (writeKey s) = 16"
  shows "codec_ok look (c\<lparr>sc := new_session W cache i addr s\<rparr>)"
  unfolding codec_ok_def
proof (intro allI impI)
  fix k t
  assume "look (sessions (sc (c\<lparr>sc := new_session W cache i addr s\<rparr>))) k = Some t"
  then have "k = (i, addr) \<and> t = sfresh cache \<or> look (sessions cache) k = Some t"
    using lru_add [OF assms(1), of "sessions cache" "(i, addr)" "sfresh cache" k] by (auto simp: new_session_def split: if_splits)
  then show "length (writeKey (sheap (sc (c\<lparr>sc := new_session W cache i addr s\<rparr>)) t)) = 16"
    using assms(2,3) by (cases k) (auto simp: codec_ok_def new_session_def)
qed

lemma finish_message_total:
  assumes "length (writeKey (sheap (sc c) s)) = 16" "length (hNonce head) = 12"
  shows "\<exists>r. finish_message W c i p head s e = Some (c, r)"
proof (cases "rIV e")
  case (Some iv)
  obtain ct where "encryptMessage W (sheap (sc c) s) p (head\<lparr>IV := iv\<rparr>) (writeHeaders (head\<lparr>IV := iv\<rparr>)) = Some ct"
    using encryptMessage_total [OF assms(1), of "head\<lparr>IV := iv\<rparr>" W p "writeHeaders (head\<lparr>IV := iv\<rparr>)"] assms(2) by auto
  then show ?thesis using Some by (simp add: finish_message_def Let_def)
qed (simp add: finish_message_def)

lemma makeHandshakeAuth_total:
  assumes curve: "curve_ok W" and A: "node_record_ok W (localnode c) (privkey c)" and e: "entropy_ok W e"
  shows "\<exists>r. makeHandshakeAuth W c toID ch node e = Some r \<and>
     (\<forall>auth sec. r = Inr (auth, sec) \<longrightarrow> length (writeKey sec) = 16 \<and> length (pubkey auth) + length (signature auth) + length (arecord auth) \<le> 400)"
proof (cases "LoadSecp256k1 W node = None \<or> rKey e = None")
  case True
  then show ?thesis by (cases "LoadSecp256k1 W node") (auto simp: makeHandshakeAuth_def)
next
  case False
  then obtain remote ephkey where k: "LoadSecp256k1 W node = Some remote" "rKey e = Some ephkey" by auto
  define ephpub where "ephpub = CompressPubkey W (PublicKey W ephkey)"
  have "privOnS256 W ephkey" using e k(2) by (simp add: entropy_ok_def)
  then have pub: "EncodePubkey W (PublicKey W ephkey) = Some ephpub" "length ephpub = 33"
    using curve by (auto simp: curve_ok_def EncodePubkey_def ephpub_def)
  have priv: "privOnS256 W (privkey c)" "length (Record W (localnode c)) \<le> 300" using A by (simp_all add: node_record_ok_def)
  obtain sig where sig: "Sign W (idNonceHash W (ChallengeData ch) ephpub toID) (privkey c) = Inr sig" "length sig = 65"
    using curve_Sign [OF curve priv(1)] by blast
  then have id: "makeIDSignature W (privkey c) (ChallengeData ch) ephpub toID = Some (Inr (butlast sig))"
    using priv(1) by (auto simp: makeIDSignature_def)
  show ?thesis
    using k pub id sig(2) priv(2)
    by (cases "deriveKeys W ephkey remote (eID (localnode c)) (eID node) (ChallengeData ch)")
      (auto simp: makeHandshakeAuth_def Let_def dest: deriveKeys_length)
qed

lemma encodeHandshakeHeader_total:
  assumes curve: "curve_ok W" and A: "node_record_ok W (localnode c) (privkey c)" and e: "entropy_ok W e"
    and lru: "lru_ok W look" and ok: "codec_ok look c" and ch: "wNode ch = Some node"
  shows "\<exists>cache r. encodeHandshakeHeader W c i addr ch e = Some (c\<lparr>sc := cache\<rparr>, r) \<and> codec_ok look (c\<lparr>sc := cache\<rparr>) \<and>
     (\<forall>head s. r = Inr (head, s) \<longrightarrow> length (writeKey (sheap cache s)) = 16 \<and> length (hNonce head) = 12)"
proof -
  obtain r where r: "makeHandshakeAuth W c i ch node e = Some r"
    "\<And>auth sec. r = Inr (auth, sec) \<Longrightarrow> length (writeKey sec) = 16 \<and> length (pubkey auth) + length (signature auth) + length (arecord auth) \<le> 400"
    using makeHandshakeAuth_total [OF curve A e, of i ch node] by blast
  have same: "c\<lparr>sc := sc c\<rparr> = c" by simp
  show ?thesis
  proof (cases r)
    case (Inl err)
    then have "encodeHandshakeHeader W c i addr ch e = Some (c\<lparr>sc := sc c\<rparr>, Inl err)"
      using ch r(1) by (simp add: encodeHandshakeHeader_def)
    then show ?thesis using ok by (metis Inl_Inr_False same)
  next
    case (Inr x)
    then obtain auth sec where x: "r = Inr (auth, sec)" by (cases x) auto
    note b = r(2) [OF x]
    define sec' where "sec' = sec\<lparr>nonceCounter := nonceCounter sec + 1\<rparr>"
    define cache1 where "cache1 = (sc c)\<lparr>sheap := (sheap (sc c))(sfresh (sc c) := sec'), sfresh := Suc (sfresh (sc c))\<rparr>"
    define cache2 where "cache2 = new_session W (sc c) i addr sec'"
    have ok1: "codec_ok look (c\<lparr>sc := cache1\<rparr>)" using ok b by (auto simp: codec_ok_def cache1_def sec'_def)
    have ok2: "codec_ok look (c\<lparr>sc := cache2\<rparr>)"
      unfolding cache2_def using ok b by (intro codec_ok_new_session [OF lru]) (simp_all add: sec'_def)
    have "alloc_session (sc c) sec = (sfresh (sc c), (sc c)\<lparr>sheap := (sheap (sc c))(sfresh (sc c) := sec), sfresh := Suc (sfresh (sc c))\<rparr>)"
      by (simp add: alloc_session_def)
    then have next_nonce: "nextNonce (snd (alloc_session (sc c) sec)) (sfresh (sc c)) (rNonce e) = (cache1, generateNonce (nonceCounter sec + 1) (rNonce e))"
      by (simp add: nextNonce_def Let_def cache1_def sec'_def)
    show ?thesis
    proof (cases "rNonce e")
      case None
      then have "encodeHandshakeHeader W c i addr ch e = Some (c\<lparr>sc := cache1\<rparr>, Inl ''can't generate nonce'')"
        using ch r(1) x next_nonce by (simp add: encodeHandshakeHeader_def alloc_session_def generateNonce_def)
      then show ?thesis using ok1 by blast
    next
      case (Some rn)
      define nonce where "nonce = be_bytes 4 (nonceCounter sec + 1) @ rn"
      have "\<not> 34 + (length (pubkey auth) + length (signature auth) + length (arecord auth)) > 65535" using b by simp
      then obtain head where head: "makeHeader flagHandshake (length (pubkey auth) + length (signature auth) + length (arecord auth)) = Some head"
        by (simp add: makeHeader_def flagHandshake_def flagMessage_def flagWhoareyou_def wire_sizes)
      have "encodeHandshakeHeader W c i addr ch e =
          Some (c\<lparr>sc := cache2\<rparr>, Inr (head\<lparr>AuthData := write_handshake_auth auth, hNonce := nonce\<rparr>, sfresh (sc c)))"
        using ch r(1) x next_nonce Some head
        by (simp add: encodeHandshakeHeader_def alloc_session_def generateNonce_def storeNewSession_def nonce_def
            cache1_def cache2_def new_session_def)
      moreover have "length nonce = 12" using e Some by (simp add: nonce_def entropy_ok_def)
      moreover have "length (writeKey (sheap cache2 (sfresh (sc c)))) = 16" using b by (simp add: cache2_def new_session_def sec'_def)
      ultimately show ?thesis using ok2 by auto
    qed
  qed
qed

text \<open>\<open>Encode\<close> returns, whatever it is asked to send, as long as its callers set the node of a challenge.\<close>

definition sendable :: "Packet \<Rightarrow> whoareyou option \<Rightarrow> bool" where
  "sendable p challenge \<longleftrightarrow> (\<forall>w. p = Whoareyou w \<longrightarrow> RecordSeq w > 0 \<longrightarrow> wNode w \<noteq> None) \<and>
     (\<forall>ch. challenge = Some ch \<longrightarrow> wNode ch \<noteq> None)"

lemma Encode_whoareyou_total:
  assumes "RecordSeq w > 0 \<longrightarrow> wNode w \<noteq> None" "codec_ok look c"
  shows "\<exists>c' r. Encode W c i addr (Whoareyou w) ch e now = Some (c', r) \<and> codec_ok look c' \<and>
     localnode c' = localnode c \<and> privkey c' = privkey c"
proof -
  obtain head where "encodeWhoareyou w = Some head"
    using assms(1) by (auto simp: encodeWhoareyou_def makeHeader_def flagWhoareyou_def flagMessage_def wire_sizes)
  then show ?thesis
    using assms(2) by (cases "rIV e") (auto simp: Encode_def Let_def storeSentHandshake_def codec_ok_def)
qed

lemma Encode_challenge_total:
  assumes "wire_ok W look" "node_record_ok W (localnode c) (privkey c)" "entropy_ok W e" "codec_ok look c" "wNode ch = Some node"
    and "Kind p \<noteq> WhoareyouPacket"
  shows "\<exists>c' r. Encode W c i addr p (Some ch) e now = Some (c', r) \<and> codec_ok look c' \<and> localnode c' = localnode c \<and> privkey c' = privkey c"
proof -
  obtain cache r where r: "encodeHandshakeHeader W c i addr ch e = Some (c\<lparr>sc := cache\<rparr>, r)" "codec_ok look (c\<lparr>sc := cache\<rparr>)"
    "\<forall>head s. r = Inr (head, s) \<longrightarrow> length (writeKey (sheap cache s)) = 16 \<and> length (hNonce head) = 12"
    using encodeHandshakeHeader_total [of W c e look ch node i addr] assms by (auto simp: wire_ok_def)
  have enc: "Encode W c i addr p (Some ch) e now =
      (case r of Inl err \<Rightarrow> Some (c\<lparr>sc := cache\<rparr>, Inl err) | Inr (head, s) \<Rightarrow> finish_message W (c\<lparr>sc := cache\<rparr>) i p head s e)"
    using assms(6) r(1) by (cases p) (simp_all add: Encode_def split: sum.splits)
  show ?thesis
  proof (cases r)
    case (Inr x)
    then obtain head s where "r = Inr (head, s)" by (cases x) auto
    then show ?thesis
      using enc r(2,3) finish_message_total [of "c\<lparr>sc := cache\<rparr>" s head W i p e] by auto
  qed (use enc r(2) in simp)
qed

lemma Encode_plain_total:
  assumes "wire_ok W look" "entropy_ok W e" "codec_ok look c" "Kind p \<noteq> WhoareyouPacket"
  shows "\<exists>c' r. Encode W c i addr p None e now = Some (c', r) \<and> codec_ok look c' \<and> localnode c' = localnode c \<and> privkey c' = privkey c"
proof -
  obtain c0 where get: "get_session W (sc c) i addr = (look (sessions (sc c)) (i, addr), (sc c)\<lparr>sessions := c0\<rparr>)" "look c0 = look (sessions (sc c))"
    using get_session_look [of W look "sc c" i addr] assms(1) by (auto simp: wire_ok_def)
  have ok0: "codec_ok look (c\<lparr>sc := (sc c)\<lparr>sessions := c0\<rparr>\<rparr>)" using assms(3) get(2) by (simp add: codec_ok_def)
  have head: "\<exists>h. makeHeader flagMessage 0 = Some h" by (simp add: makeHeader_def wire_sizes)
  show ?thesis
  proof (cases "look (sessions (sc c)) (i, addr)")
    case None
    then show ?thesis
      using assms(4) get(1) ok0 head
      by (cases p; cases "rRandomNonce e"; cases "rIV e") (auto simp: Encode_def encodeRandom_def)
  next
    case (Some s)
    define cache where "cache = (sc c)\<lparr>sessions := c0, sheap := (sheap (sc c))(s := (sheap (sc c) s)\<lparr>nonceCounter := nonceCounter (sheap (sc c) s) + 1\<rparr>)\<rparr>"
    have ok: "codec_ok look (c\<lparr>sc := cache\<rparr>)" using assms(3) get(2) by (auto simp: codec_ok_def cache_def)
    have key: "length (writeKey (sheap cache s)) = 16" using assms(3) Some by (cases s) (auto simp: codec_ok_def cache_def)
    have enc: "\<exists>r. encodeMessageHeader (c\<lparr>sc := (sc c)\<lparr>sessions := c0\<rparr>\<rparr>) s e = Some (c\<lparr>sc := cache\<rparr>, r) \<and>
        (\<forall>h. r = Inr h \<longrightarrow> length (hNonce h) = 12)"
      using head assms(2)
      by (cases "rNonce e") (auto simp: encodeMessageHeader_def nextNonce_def generateNonce_def Let_def cache_def entropy_ok_def)
    then obtain r where r: "encodeMessageHeader (c\<lparr>sc := (sc c)\<lparr>sessions := c0\<rparr>\<rparr>) s e = Some (c\<lparr>sc := cache\<rparr>, r)"
      "\<forall>h. r = Inr h \<longrightarrow> length (hNonce h) = 12" by blast
    have eq: "Encode W c i addr p None e now =
        (case r of Inl err \<Rightarrow> Some (c\<lparr>sc := cache\<rparr>, Inl err) | Inr h \<Rightarrow> finish_message W (c\<lparr>sc := cache\<rparr>) i p h s e)"
      using assms(4) get(1) Some r(1) by (cases p) (simp_all add: Encode_def split: sum.split)
    show ?thesis
    proof (cases r)
      case (Inr h)
      then show ?thesis using eq ok key r(2) finish_message_total [of "c\<lparr>sc := cache\<rparr>" s h W i p e] by auto
    qed (use eq ok in simp)
  qed
qed

lemma Encode_total:
  assumes "wire_ok W look" "node_record_ok W (localnode c) (privkey c)" "entropy_ok W e" "codec_ok look c" "sendable p challenge"
  shows "\<exists>c' r. Encode W c i addr p challenge e now = Some (c', r) \<and> codec_ok look c' \<and> localnode c' = localnode c \<and> privkey c' = privkey c"
proof (cases "Kind p = WhoareyouPacket")
  case True
  then obtain w where "p = Whoareyou w" by (cases p) (simp_all add: msg_kinds)
  then show ?thesis using Encode_whoareyou_total [of w look c] assms(4,5) by (auto simp: sendable_def)
next
  case False
  show ?thesis
  proof (cases challenge)
    case None
    then show ?thesis using Encode_plain_total [OF assms(1,3,4) False] by simp
  next
    case (Some ch)
    then obtain node where "wNode ch = Some node" using assms(5) by (auto simp: sendable_def)
    then show ?thesis using Encode_challenge_total [OF assms(1-4) _ False] Some by blast
  qed
qed

lemma Decode_keeps:
  assumes "wire_ok W look" "codec_ok look c" "Decode W c input addr now = Some (c', i, n, r)"
  shows "codec_ok look c' \<and> localnode c' = localnode c \<and> privkey c' = privkey c"
  using assms(3)
proof (cases rule: Decode_cases)
  case (hs h hdata msg h')
  define c1 where "c1 = c\<lparr>sc := handshakeGC (sc c) now\<rparr>"
  have c1: "codec_ok look c1" using assms(2) by (simp add: codec_ok_def c1_def)
  obtain head auth x where d: "decodeHandshake W c1 addr h = Some (head, auth, x)"
    using hs by (auto simp: decodeHandshakeMessage_def c1_def split: bind_splits)
  have key: "length (writeKey s) = 16" if "x = Inr (m, s)" for m s
    using d that by (auto simp: decodeHandshake_def keysFlipped_def dest: deriveKeys_length split: option.splits sum.splits prod.splits)
  have "\<exists>cache. c' = c1\<lparr>sc := deleteHandshake cache (SrcID auth) addr\<rparr> \<and>
      (cache = sc c1 \<or> (\<exists>m s. x = Inr (m, s) \<and> cache = new_session W (sc c1) (SrcID auth) addr s))"
    using hs d unfolding c1_def [symmetric]
    by (auto simp: decodeHandshakeMessage_def alloc_session_def storeNewSession_def new_session_def Let_def split: sum.splits prod.splits)
  then obtain cache where c': "c' = c1\<lparr>sc := deleteHandshake cache (SrcID auth) addr\<rparr>"
    "cache = sc c1 \<or> (\<exists>m s. x = Inr (m, s) \<and> cache = new_session W (sc c1) (SrcID auth) addr s)" by blast
  have "codec_ok look (c1\<lparr>sc := cache\<rparr>)"
    using c'(2) c1 key codec_ok_new_session [where c = c1 and cache = "sc c1"] assms(1) by (auto simp: wire_ok_def)
  then have "codec_ok look c'" by (simp add: c'(1) codec_ok_def deleteHandshake_def)
  then show ?thesis by (simp add: c'(1) c1_def)
next
  case (msg h hdata msg h')
  obtain c0 where "snd (readKey W (handshakeGC (sc c) now) (AuthData h) addr) = (handshakeGC (sc c) now)\<lparr>sessions := c0\<rparr>" "look c0 = look (sessions (sc c))"
    using get_session_look [of W look "handshakeGC (sc c) now" "AuthData h" addr] assms(1)
    by (cases "look (sessions (sc c)) (AuthData h, addr)") (auto simp: readKey_def wire_ok_def)
  then show ?thesis
    using msg assms(2) by (auto simp: decodeMessage_def Let_def case_prod_beta codec_ok_def split: if_splits)
qed (use assms(2) in \<open>auto simp: codec_ok_def\<close>)

end
