(* ===== verification/V5_Nodes.thy ===== *)
theory V5_Nodes
  imports V5_Codec Node_Lookup
begin

text \<open>
  The FINDNODE exchange of the v5 transport (\<^verbatim>\<open>pkg/discover/v5_udp.go\<close>): the distances a lookup asks for,
  the nodes a server collects and packs into NODES packets, and how the caller of a request verifies and
  collects them. \<^verbatim>\<open>netutil.CheckRelayIP\<close> is a parameter; node records and their library are those of the codec.
\<close>

definition lookupRequestLimit :: nat where "lookupRequestLimit = 3"
definition findnodeResultLimit :: nat where "findnodeResultLimit = 16"
definition totalNodesResponseLimit :: int where "totalNodesResponseLimit = 5"
definition nodesResponseItemLimit :: nat where "nodesResponseItemLimit = 3"


text \<open>\<^verbatim>\<open>min\<close> of \<^verbatim>\<open>common.go\<close>.\<close>

definition min_int :: "int \<Rightarrow> int \<Rightarrow> int" where
  "min_int x y = (if x > y then y else x)"

subsection \<open>Requests\<close>

text \<open>The loop of \<open>lookupDistances\<close>, with a bound on its rounds; \<open>None\<close> when the bound is too small.\<close>

fun distances_loop :: "nat \<Rightarrow> int \<Rightarrow> int \<Rightarrow> u64 list \<Rightarrow> u64 list option" where
  "distances_loop 0 i td dists = (if length dists < lookupRequestLimit then None else Some dists)"
| "distances_loop (Suc k) i td dists =
     (if length dists < lookupRequestLimit
      then let dists = (if td + i < 256 then dists @ [of_int (td + i)] else dists);
               dists = (if td - i > 0 then dists @ [of_int (td - i)] else dists)
           in distances_loop k (i + 1) td dists
      else Some dists)"

definition lookupDistances :: "'s disc_lib \<Rightarrow> nat \<Rightarrow> ID \<Rightarrow> ID \<Rightarrow> u64 list option" where
  "lookupDistances L k tgt dest =
     (let td = int (LogDist L tgt dest) in distances_loop k 1 td [of_int td])"

fun containsUint :: "u64 \<Rightarrow> u64 list \<Rightarrow> bool" where
  "containsUint x [] = False"
| "containsUint x (v # xs) = (if x = v then True else containsUint x xs)"

subsection \<open>Responses\<close>

text \<open>\<open>distances\<close> is \<open>None\<close> for nil. The IDs already seen are threaded through.\<close>

definition verifyResponseNode ::
  "('priv, 'pub, 'c) wire_lib \<Rightarrow> 's disc_lib \<Rightarrow> (IP \<Rightarrow> IP \<Rightarrow> string option) \<Rightarrow> enode \<Rightarrow> enr_record \<Rightarrow> u64 list option \<Rightarrow> ID set \<Rightarrow>
   (string + enode) \<times> ID set" where
  "verifyResponseNode W L relay cnode r distances seenIDs =
     (case enodeNew W r of
        Inl err \<Rightarrow> (Inl err, seenIDs)
      | Inr node \<Rightarrow>
          (case relay (eIP cnode) (eIP node) of
             Some err \<Rightarrow> (Inl err, seenIDs)
           | None \<Rightarrow>
               if eUDP cnode \<le> 1024 then (Inl errLowPort, seenIDs)
               else if (case distances of None \<Rightarrow> False
                        | Some ds \<Rightarrow> \<not> containsUint (of_nat (LogDist L (eID cnode) (eID node))) ds)
               then (Inl ''does not match any requested distance'', seenIDs)
               else if eID node \<in> seenIDs then (Inl ''duplicate record'', seenIDs)
               else (Inr node, insert (eID node) seenIDs)))"

fun verify_records ::
  "('priv, 'pub, 'c) wire_lib \<Rightarrow> 's disc_lib \<Rightarrow> (IP \<Rightarrow> IP \<Rightarrow> string option) \<Rightarrow> enode \<Rightarrow> u64 list option \<Rightarrow> ID set \<Rightarrow> enode list \<Rightarrow>
   enr_record list \<Rightarrow> enode list \<times> ID set" where
  "verify_records W L relay cnode distances seenIDs nodes [] = (nodes, seenIDs)"
| "verify_records W L relay cnode distances seenIDs nodes (r # rs) =
     (case verifyResponseNode W L relay cnode r distances seenIDs of
        (Inl err, seenIDs) \<Rightarrow> verify_records W L relay cnode distances seenIDs nodes rs
      | (Inr node, seenIDs) \<Rightarrow> verify_records W L relay cnode distances seenIDs (nodes @ [node]) rs)"

text \<open>
  The loop of \<open>waitForNodes\<close> over what arrives on the call's two channels: a response or an error. A response of
  another type fails the type assertion.
\<close>

datatype 'a waited = Still_waiting | Wait_panic | Finished 'a

fun wait_loop ::
  "('priv, 'pub, 'c) wire_lib \<Rightarrow> 's disc_lib \<Rightarrow> (IP \<Rightarrow> IP \<Rightarrow> string option) \<Rightarrow> enode \<Rightarrow> u64 list option \<Rightarrow>
   enode list \<Rightarrow> ID set \<Rightarrow> int \<Rightarrow> int \<Rightarrow> (string + Packet) list \<Rightarrow> (enode list \<times> string option) waited" where
  "wait_loop W L relay cnode distances nodes seenIDs rcvd tot [] = Still_waiting"
| "wait_loop W L relay cnode distances nodes seenIDs rcvd tot (Inl err # inputs) = Finished (nodes, Some err)"
| "wait_loop W L relay cnode distances nodes seenIDs rcvd tot (Inr p # inputs) =
     (case p of
        Nodes reqID k records \<Rightarrow>
          (let (nodes, seenIDs) = verify_records W L relay cnode distances seenIDs nodes records;
               tot = (if tot = -1 then min_int (int (unat k)) totalNodesResponseLimit else tot);
               rcvd = rcvd + 1
           in if rcvd = tot then Finished (nodes, None)
              else wait_loop W L relay cnode distances nodes seenIDs rcvd tot inputs)
      | _ \<Rightarrow> Wait_panic)"

definition waitForNodes ::
  "('priv, 'pub, 'c) wire_lib \<Rightarrow> 's disc_lib \<Rightarrow> (IP \<Rightarrow> IP \<Rightarrow> string option) \<Rightarrow> enode \<Rightarrow> u64 list option \<Rightarrow> (string + Packet) list \<Rightarrow>
   (enode list \<times> string option) waited" where
  "waitForNodes W L relay cnode distances inputs = wait_loop W L relay cnode distances [] {} 0 (-1) inputs"

text \<open>\<open>RequestENR\<close> asks for distance zero, \<open>inputs\<close> being what arrives.\<close>

definition RequestENR ::
  "('priv, 'pub, 'c) wire_lib \<Rightarrow> 's disc_lib \<Rightarrow> (IP \<Rightarrow> IP \<Rightarrow> string option) \<Rightarrow> enode \<Rightarrow> (string + Packet) list \<Rightarrow> (string + enode) waited" where
  "RequestENR W L relay n inputs =
     (case waitForNodes W L relay n (Some [0]) inputs of
        Still_waiting \<Rightarrow> Still_waiting
      | Wait_panic \<Rightarrow> Wait_panic
      | Finished (nodes, Some err) \<Rightarrow> Finished (Inl err)
      | Finished (nodes, None) \<Rightarrow>
          Finished (if length nodes \<noteq> 1 then Inl ''nodes in response for distance zero'' else Inr (nodes ! 0)))"

text \<open>
  \<open>lookupWorker\<close>: \<open>r\<close> and \<open>err\<close> are what \<open>findnode\<close> returns; the nodes are wrapped at addresses from \<open>p\<close> on.
\<close>

definition lookupWorker ::
  "'s disc_lib \<Rightarrow> ID \<Rightarrow> ID \<Rightarrow> nat \<Rightarrow> enode list \<Rightarrow> query_error option \<Rightarrow> node list \<times> query_error option" where
  "lookupWorker L me tgt p r err =
     (if err = Some errClosed then ([], err)
      else (nentries (foldl (\<lambda>nodes n. push L nodes n findnodeResultLimit) \<lparr>nentries = [], target = tgt\<rparr>
              (filter (\<lambda>n. nID n \<noteq> me) (wrapNodes p r))), err))"

text \<open>\<open>Resolve\<close>: the record in the table, the answer to a direct request, and the result of a lookup.\<close>

definition Resolve :: "enode \<Rightarrow> enode option \<Rightarrow> string + enode \<Rightarrow> enode list \<Rightarrow> enode" where
  "Resolve n intable direct lookup_nodes =
     (let n = (case intable of Some m \<Rightarrow> if eSeq m > eSeq n then m else n | None \<Rightarrow> n)
      in case direct of
           Inr resp \<Rightarrow> resp
         | Inl err \<Rightarrow>
             (case List.find (\<lambda>rn. eID rn = eID n \<and> eSeq rn > eSeq n) lookup_nodes of Some rn \<Rightarrow> rn | None \<Rightarrow> n))"

definition AllNodes :: "'s Table \<Rightarrow> enode list" where
  "AllNodes tab = concat (map (\<lambda>b. map unwrapNode (entries b)) (buckets tab))"

subsection \<open>Serving FINDNODE\<close>

text \<open>One distance of \<open>collectTableNodes\<close>: append the acceptable nodes until the limit; the flag says that it was reached.\<close>

fun take_nodes :: "(IP \<Rightarrow> IP \<Rightarrow> string option) \<Rightarrow> IP \<Rightarrow> nat \<Rightarrow> enode list \<Rightarrow> enode list \<Rightarrow> bool \<times> enode list" where
  "take_nodes relay rip limit nodes [] = (False, nodes)"
| "take_nodes relay rip limit nodes (n # bn) =
     (if relay rip (eIP n) \<noteq> None then take_nodes relay rip limit nodes bn
      else let nodes = nodes @ [n]
           in if length nodes \<ge> limit then (True, nodes) else take_nodes relay rip limit nodes bn)"

fun collect_loop ::
  "'s Table \<Rightarrow> (IP \<Rightarrow> IP \<Rightarrow> string option) \<Rightarrow> enode \<Rightarrow> IP \<Rightarrow> nat \<Rightarrow> u64 set \<Rightarrow> enode list \<Rightarrow> u64 list \<Rightarrow> enode list go" where
  "collect_loop tab relay me rip limit processed nodes [] = Some nodes"
| "collect_loop tab relay me rip limit processed nodes (dist # ds) =
     (if dist \<in> processed \<or> dist > 256 then collect_loop tab relay me rip limit processed nodes ds
      else do {
        bn \<leftarrow> (if dist = 0 then Some [me]
               else do { bi \<leftarrow> bucketAtDistance (unat dist); Some (unwrapNodes (entries (buckets tab ! bi))) });
        case take_nodes relay rip limit nodes bn of
          (True, nodes) \<Rightarrow> Some nodes
        | (False, nodes) \<Rightarrow> collect_loop tab relay me rip limit (insert dist processed) nodes ds })"

definition collectTableNodes ::
  "'s Table \<Rightarrow> (IP \<Rightarrow> IP \<Rightarrow> string option) \<Rightarrow> enode \<Rightarrow> IP \<Rightarrow> u64 list \<Rightarrow> nat \<Rightarrow> enode list go" where
  "collectTableNodes tab relay me rip distances limit = collect_loop tab relay me rip limit {} [] distances"

text \<open>The loop of \<open>packNodes\<close>; the total is an 8-bit number.\<close>

function pack_loop :: "('priv, 'pub, 'c) wire_lib \<Rightarrow> bytes \<Rightarrow> byte \<Rightarrow> enode list \<Rightarrow> Packet list" where
  "pack_loop W reqID tot [] = []"
| "pack_loop W reqID tot (n # ns) =
     (let nodes = n # ns;
          items = nat (min_int (int nodesResponseItemLimit) (int (length nodes)))
      in Nodes reqID tot (map (Record W) (take items nodes)) # pack_loop W reqID tot (drop items nodes))"
  by pat_completeness auto
termination
  by (relation "measure (\<lambda>(W, reqID, tot, ns). length ns)") (simp_all add: min_int_def nodesResponseItemLimit_def)

declare pack_loop.simps(2) [simp del]

text \<open>\<^verbatim>\<open>math.Ceil(float64(n) / 3)\<close> is exact for the lengths of slices.\<close>

definition packNodes :: "('priv, 'pub, 'c) wire_lib \<Rightarrow> bytes \<Rightarrow> enode list \<Rightarrow> Packet list" where
  "packNodes W reqID nodes =
     (if nodes = [] then [Nodes reqID 1 []]
      else pack_loop W reqID (of_nat ((length nodes + 2) div 3)) nodes)"

subsection \<open>Distances\<close>

lemma lookupDistances_cases:
  assumes "LogDist L t d = td" "td \<le> 256"
  shows "lookupDistances L 3 t d = Some (map of_nat
     (if td = 0 then [0, 1, 2] else if td = 1 then [1, 2, 3] else if td < 255 then [td, td + 1, td - 1] else [td, td - 1, td - 2]))"
proof -
  have *: "(3 :: nat) = Suc (Suc (Suc 0))" by simp
  consider "td = 0" | "td = 1" | "2 \<le> td" "td < 255" | "td = 255" | "td = 256" using assms(2) by linarith
  then show ?thesis
    by cases (simp_all add: lookupDistances_def assms(1) * lookupRequestLimit_def Let_def of_nat_diff)
qed

subsection \<open>The exchange\<close>

definition acceptable ::
  "('priv, 'pub, 'c) wire_lib \<Rightarrow> 's disc_lib \<Rightarrow> (IP \<Rightarrow> IP \<Rightarrow> string option) \<Rightarrow> enode \<Rightarrow> u64 list \<Rightarrow> enode \<Rightarrow> bool" where
  "acceptable W L relay server ds n \<longleftrightarrow>
     enodeNew W (Record W n) = Inr n \<and> relay (eIP server) (eIP n) = None \<and> of_nat (LogDist L (eID server) (eID n)) \<in> set ds"

lemma containsUint_iff: "containsUint x xs \<longleftrightarrow> x \<in> set xs"
  by (induction xs) auto

lemma verify_acceptable:
  assumes "1024 < eUDP server" "list_all (acceptable W L relay server ds) ns"
    and "distinct (map eID ns)" "eID ` set ns \<inter> seenIDs = {}"
  shows "verify_records W L relay server (Some ds) seenIDs nodes (map (Record W) ns) = (nodes @ ns, seenIDs \<union> eID ` set ns)"
  using assms(2-)
proof (induction ns arbitrary: nodes seenIDs)
  case (Cons n ns)
  have "verifyResponseNode W L relay server (Record W n) (Some ds) seenIDs = (Inr n, insert (eID n) seenIDs)"
    using Cons.prems assms(1) by (simp add: verifyResponseNode_def acceptable_def containsUint_iff)
  moreover have "verify_records W L relay server (Some ds) (insert (eID n) seenIDs) (nodes @ [n]) (map (Record W) ns) =
      ((nodes @ [n]) @ ns, insert (eID n) seenIDs \<union> eID ` set ns)"
    using Cons.prems by (intro Cons.IH) auto
  ultimately show ?case by simp
qed simp

lemma pack_loop_Cons: "ns \<noteq> [] \<Longrightarrow> pack_loop W r t ns = Nodes r t (map (Record W) (take 3 ns)) # pack_loop W r t (drop 3 ns)"
proof -
  assume "ns \<noteq> []"
  then obtain m ms where "ns = m # ms" by (cases ns) auto
  then show ?thesis
    by (simp add: pack_loop.simps(2) min_int_def nodesResponseItemLimit_def Let_def split: if_splits)
qed

lemma wait_pack:
  assumes port: "1024 < eUDP server" and ns: "list_all (acceptable W L relay server ds) ns" "distinct (map eID ns)"
    and k: "3 * k < length ns" "tot = rcvd + 1 + int k" "0 \<le> rcvd" and fresh: "eID ` set ns \<inter> seenIDs = {}"
  shows "wait_loop W L relay server (Some ds) nodes seenIDs rcvd tot (map Inr (pack_loop W r t ns)) =
     Finished (nodes @ take (3 * Suc k) ns, None)"
  using ns k fresh
proof (induction k arbitrary: ns nodes seenIDs rcvd)
  case 0
  have "verify_records W L relay server (Some ds) seenIDs nodes (map (Record W) (take 3 ns)) = (nodes @ take 3 ns, seenIDs \<union> eID ` set (take 3 ns))"
  proof (rule verify_acceptable [OF port])
    show "list_all (acceptable W L relay server ds) (take 3 ns)" "eID ` set (take 3 ns) \<inter> seenIDs = {}"
      using 0 set_take_subset [of 3 ns] by (auto simp: list_all_iff)
    show "distinct (map eID (take 3 ns))" using 0 by (simp add: distinct_take flip: take_map)
  qed
  moreover have "ns \<noteq> []" using 0 by auto
  ultimately show ?case using 0 by (simp add: pack_loop_Cons Let_def)
next
  case (Suc k)
  define ms where "ms = take 3 ns"
  define rest where "rest = drop 3 ns"
  have split: "ns = ms @ rest" "length ms = 3" using Suc.prems(3) by (simp_all add: ms_def rest_def)
  have v: "verify_records W L relay server (Some ds) seenIDs nodes (map (Record W) ms) = (nodes @ ms, seenIDs \<union> eID ` set ms)"
    using Suc.prems split(1) by (intro verify_acceptable [OF port]) auto
  have "wait_loop W L relay server (Some ds) (nodes @ ms) (seenIDs \<union> eID ` set ms) (rcvd + 1) tot (map Inr (pack_loop W r t rest)) =
      Finished ((nodes @ ms) @ take (3 * Suc k) rest, None)"
    using Suc.prems split by (intro Suc.IH) auto
  moreover have "ns \<noteq> []" using Suc.prems(3) by auto
  ultimately show ?case
    using Suc.prems(4,5) split(2) v by (simp add: pack_loop_Cons ms_def [symmetric] rest_def [symmetric] Let_def split(1))
qed

lemma wait_pack_all:
  assumes port: "1024 < eUDP server" and ns: "list_all (acceptable W L relay server ds) ns" "distinct (map eID ns)" "length ns \<le> 765"
  shows "waitForNodes W L relay server (Some ds) (map Inr (packNodes W r ns)) = Finished (take 15 ns, None)"
proof (cases "ns = []")
  case True
  then show ?thesis by (simp add: packNodes_def waitForNodes_def min_int_def totalNodesResponseLimit_def Let_def)
next
  case False
  define T where "T = (length ns + 2) div 3"
  have T: "0 < T" "T \<le> 255" "3 * (T - 1) < length ns" "length ns \<le> 3 * T"
  proof -
    have "length ns + 2 = 3 * T + (length ns + 2) mod 3" by (simp add: T_def)
    moreover have "(length ns + 2) mod 3 < 3" "0 < length ns" using False by simp_all
    ultimately show "0 < T" "T \<le> 255" "3 * (T - 1) < length ns" "length ns \<le> 3 * T" using ns(3) by linarith+
  qed
  define k where "k = min T 5 - 1"
  define tot where "tot = min_int (int (unat (of_nat T :: byte))) totalNodesResponseLimit"
  have "unat (of_nat T :: byte) = T" using T(2) by (simp add: unat_of_nat)
  then have tot: "tot = 1 + int k" using T(1) by (simp add: tot_def k_def min_int_def totalNodesResponseLimit_def)
  have t0: "min_int (uint (of_nat T :: byte)) totalNodesResponseLimit = 1 + int k" using tot by (simp add: tot_def)
  have k: "3 * k < length ns" using T by (cases "T \<le> 5") (simp_all add: k_def)
  have first: "wait_loop W L relay server (Some ds) [] {} 0 (-1) (map Inr (pack_loop W r (of_nat T) ns)) =
      wait_loop W L relay server (Some ds) [] {} 0 tot (map Inr (pack_loop W r (of_nat T) ns))"
    using False t0 tot by (simp add: pack_loop_Cons Let_def case_prod_beta)
  have "wait_loop W L relay server (Some ds) [] {} 0 tot (map Inr (pack_loop W r (of_nat T) ns)) = Finished ([] @ take (3 * Suc k) ns, None)"
    using tot by (intro wait_pack [OF port ns(1,2) k]) simp_all
  moreover have "take (3 * Suc k) ns = take 15 ns"
    using T by (simp add: k_def min_def split: if_splits)
  ultimately show ?thesis using False first by (simp add: waitForNodes_def packNodes_def T_def)
qed

lemma take_nodes_spec:
  assumes "take_nodes relay rip limit nodes bn = (full, nodes')" "length nodes < limit"
  shows "\<exists>ms. nodes' = nodes @ ms \<and> set ms \<subseteq> {n \<in> set bn. relay rip (eIP n) = None} \<and> length nodes' \<le> limit \<and>
     (full \<longleftrightarrow> length nodes' = limit)"
  using assms
proof (induction bn arbitrary: nodes)
  case (Cons n bn)
  show ?case
  proof (cases "relay rip (eIP n) = None")
    case False
    then show ?thesis using Cons.IH [of nodes] Cons.prems by auto
  next
    case True
    show ?thesis
    proof (cases "Suc (length nodes) \<ge> limit")
      case full: True
      then have "nodes' = nodes @ [n]" "full" using Cons.prems True by (auto simp: Let_def)
      then show ?thesis using full Cons.prems(2) True by auto
    next
      case False
      then have "take_nodes relay rip limit (nodes @ [n]) bn = (full, nodes')" "length (nodes @ [n]) < limit"
        using Cons.prems(1) True by (auto simp: Let_def)
      from Cons.IH [OF this] obtain ms where "nodes' = nodes @ [n] @ ms" "set ms \<subseteq> {n \<in> set bn. relay rip (eIP n) = None}"
        "length nodes' \<le> limit" "full \<longleftrightarrow> length nodes' = limit" by auto
      then show ?thesis using True by (intro exI [of _ "n # ms"]) auto
    qed
  qed
qed auto

definition servable :: "'s Table \<Rightarrow> (IP \<Rightarrow> IP \<Rightarrow> string option) \<Rightarrow> enode \<Rightarrow> IP \<Rightarrow> enode \<Rightarrow> bool" where
  "servable tab relay me rip n \<longleftrightarrow> relay rip (eIP n) = None \<and> (n = me \<or> n \<in> set (AllNodes tab))"

lemma collect_loop_spec:
  assumes "length (buckets tab) = nBuckets" "length nodes < limit"
  shows "\<exists>ms. collect_loop tab relay me rip limit processed nodes ds = Some (nodes @ ms) \<and>
     length (nodes @ ms) \<le> limit \<and> list_all (servable tab relay me rip) ms"
  using assms(2)
proof (induction ds arbitrary: nodes processed)
  case (Cons d ds)
  show ?case
  proof (cases "d \<in> processed \<or> d > 256")
    case True
    then show ?thesis using Cons.IH [of nodes processed] Cons.prems by auto
  next
    case False
    have "unat d \<le> 256" using False by (simp add: word_le_nat_alt not_less)
    then obtain bi where bi: "bucketAtDistance (unat d) = Some bi" using bucketAtDistance_total by blast
    define bn where "bn = (if d = 0 then [me] else unwrapNodes (entries (buckets tab ! bi)))"
    have "buckets tab ! bi \<in> set (buckets tab)" using bucketAtDistance_less [OF bi] assms(1) by simp
    then have sub: "set bn \<subseteq> insert me (set (AllNodes tab))"
      by (auto simp: bn_def AllNodes_def unwrapNodes_def)
    obtain full nodes' where t: "take_nodes relay rip limit nodes bn = (full, nodes')" by (cases "take_nodes relay rip limit nodes bn") auto
    obtain ms where ms: "nodes' = nodes @ ms" "set ms \<subseteq> {n \<in> set bn. relay rip (eIP n) = None}" "length nodes' \<le> limit"
      "full \<longleftrightarrow> length nodes' = limit" using take_nodes_spec [OF t Cons.prems] by blast
    have ok: "list_all (servable tab relay me rip) ms" using ms(2) sub by (auto simp: list_all_iff servable_def)
    have step: "collect_loop tab relay me rip limit processed nodes (d # ds) =
        (if full then Some nodes' else collect_loop tab relay me rip limit (insert d processed) nodes' ds)"
    proof -
      have get: "(if d = 0 then Some [me] else do { bi \<leftarrow> bucketAtDistance (unat d); Some (unwrapNodes (entries (buckets tab ! bi))) }) = Some bn"
        by (simp add: bi bn_def)
      show ?thesis using False unfolding collect_loop.simps(2) get bind.bind_lunit t by (cases full) simp_all
    qed
    show ?thesis
    proof (cases full)
      case True
      then show ?thesis using step ms ok by auto
    next
      case False
      then have "length nodes' < limit" using ms(3,4) by simp
      from Cons.IH [OF this, of "insert d processed"] show ?thesis
        using step False ms(1) ok by auto
    qed
  qed
qed simp

subsection \<open>Properties\<close>

text \<open>
  C21. A FINDNODE exchange: when a server's handler packs the nodes it collected and the caller accepts each of them,
  \<open>waitForNodes\<close> returns, without an error, the first fifteen nodes in the server's order. The server's limit is
  sixteen nodes in six packets, but the caller stops at five packets, so a full response loses its last node.
\<close>

theorem findnode_exchange:
  assumes "length (buckets tab) = nBuckets" "1024 < eUDP server"
    and "collectTableNodes tab relay server rip ds findnodeResultLimit = Some ns"
    and "list_all (acceptable W L relay server ds) ns" "distinct (map eID ns)"
  shows "length ns \<le> 16 \<and>
     waitForNodes W L relay server (Some ds) (map Inr (packNodes W reqID ns)) = Finished (take 15 ns, None)"
proof -
  have "length ns \<le> 16"
    using collect_loop_spec [OF assms(1), of "[]" findnodeResultLimit relay server rip "{}" ds] assms(3)
    by (auto simp: collectTableNodes_def findnodeResultLimit_def)
  then show ?thesis using wait_pack_all [OF assms(2,4,5)] by simp
qed

theorem findnode_exchange_witness:
  "\<exists>ns. collectTableNodes sample_tab (\<lambda>a b. None) (sample_peer 7) [10, 0, 0, 1] [0] findnodeResultLimit = Some ns \<and>
     waitForNodes sample_wire sample_disc (\<lambda>a b. None) (sample_peer 7) (Some [0]) (map Inr (packNodes sample_wire [1] ns)) =
       Finished ([sample_peer 7], None)"
proof -
  have c: "collectTableNodes sample_tab (\<lambda>a b. None) (sample_peer 7) [10, 0, 0, 1] [0] findnodeResultLimit = Some [sample_peer 7]"
    by (simp add: collectTableNodes_def findnodeResultLimit_def)
  have "list_all (acceptable sample_wire sample_disc (\<lambda>a b. None) (sample_peer 7) [0]) [sample_peer 7]"
    by (simp add: acceptable_def sample_wire_def sample_disc_def) (simp add: sample_peer_def)
  moreover have "1024 < eUDP (sample_peer 7)" "length (buckets sample_tab) = nBuckets"
    by (simp_all add: sample_peer_def sample_tab_def)
  ultimately show ?thesis
    using findnode_exchange [OF _ _ c, of sample_wire sample_disc "[1]"] c by simp
qed

text \<open>
  \<open>collectTableNodes\<close> never panics on any list of requested distances and returns at most the limit, each node
  allowed to be relayed to the requester and either the local node or an entry of the table.
\<close>

theorem collectTableNodes_serves:
  assumes "table_ok L tab" "0 < limit"
  shows "\<exists>ns. collectTableNodes tab relay me rip ds limit = Some ns \<and> length ns \<le> limit \<and>
     list_all (servable tab relay me rip) ns"
  using collect_loop_spec [of tab "[]" limit relay me rip "{}" ds] assms by (auto simp: collectTableNodes_def table_ok_def)

theorem collectTableNodes_serves_witness:
  "\<exists>ns. collectTableNodes sample_tab (\<lambda>a b. None) (sample_peer 7) [] [256, 0, 3, 300] 5 = Some ns \<and> length ns \<le> 5"
proof -
  have "(0 :: nat) < 5" by simp
  from collectTableNodes_serves [OF sample_tab_ok this] show ?thesis by blast
qed

text \<open>
  \<open>lookupDistances\<close> ends after at most two rounds and returns three different distances, first that of the target, then the
  nearest ones below 256 and above zero: at 255 the result is 255, 254, 253, never the 256 its comment announces.
\<close>

theorem lookupDistances_spec:
  assumes "logdist_ok L"
  shows "\<exists>ds. lookupDistances L 3 t d = Some ds \<and> length ds = 3 \<and> distinct ds \<and> hd ds = of_nat (LogDist L t d) \<and>
     (\<forall>x \<in> set ds. x \<le> 256) \<and> (LogDist L t d = 255 \<longrightarrow> ds = [255, 254, 253])"
proof -
  define td where "td = LogDist L t d"
  have td: "td \<le> 256" using assms by (simp add: td_def logdist_ok_def)
  define ns where "ns = (if td = 0 then [0, 1, 2] else if td = 1 then [1, 2, 3] else if td < 255 then [td, td + 1, td - 1] else [td, td - 1, td - 2])"
  have ns: "length ns = 3" "distinct ns" "hd ns = td" "\<forall>x \<in> set ns. x \<le> 256" "ns \<noteq> []" using td by (auto simp: ns_def)
  have inj: "inj_on (of_nat :: nat \<Rightarrow> u64) (set ns)"
  proof (rule inj_onI)
    fix x y
    assume xy: "x \<in> set ns" "y \<in> set ns" "(of_nat x :: u64) = of_nat y"
    have small: "unat (of_nat z :: u64) = z" if "z \<le> 256" for z
      unfolding unat_of_nat by (rule mod_less) (use that in simp)
    have "x \<le> 256" "y \<le> 256" using xy(1,2) ns(4) by blast+
    show "x = y" using arg_cong [OF xy(3), of unat] unfolding small [OF \<open>x \<le> 256\<close>] small [OF \<open>y \<le> 256\<close>] .
  qed
  have le: "(of_nat x :: u64) \<le> 256" if "x \<le> 256" for x
  proof -
    have "unat (of_nat x :: u64) = x" unfolding unat_of_nat by (rule mod_less) (use that in simp)
    then show ?thesis using that by (simp add: word_le_nat_alt)
  qed
  have "lookupDistances L 3 t d = Some (map of_nat ns)"
    using lookupDistances_cases [OF td_def [symmetric] td] by (simp add: ns_def)
  moreover have "distinct (map (of_nat :: nat \<Rightarrow> u64) ns)" using inj ns(2) by (simp add: distinct_map)
  moreover have "td = 255 \<longrightarrow> map (of_nat :: nat \<Rightarrow> u64) ns = [255, 254, 253]" by (simp add: ns_def)
  ultimately show ?thesis
    using ns le td_def by (intro exI [of _ "map of_nat ns"]) (auto simp: hd_map)
qed

theorem lookupDistances_spec_witness:
  "\<exists>ds. lookupDistances sample_disc 3 [1] [2] = Some ds \<and> length ds = 3"
  using lookupDistances_spec [OF sample_logdist, of "[1]" "[2]"] by blast

end
