(* ===== verification/Talk_Ext.thy ===== *)
theory Talk_Ext
  imports Go_Net V5_Msg Base64 "HOL-Library.AList"
begin

text \<open>
  The extension of TALKREQ for long messages (\<^verbatim>\<open>pkg/discover/talk_ext.go\<close>): splitting into packets,
  reassembly, the protocol names, and the handler; and the queue and connection that \<^verbatim>\<open>pkg/portalnet\<close>
  builds on TALKREQ (\<^verbatim>\<open>queue.go\<close>, \<^verbatim>\<open>talk-ext.go\<close>). A Go map of packets is an association list with one entry
  per key. The MD5 digest and \<^verbatim>\<open>json.Unmarshal\<close> are parameters.
\<close>

subsection \<open>Packets and connections\<close>

type_synonym ConnectionId = u64

record TalkExtPacket =
  tId :: ConnectionId
  SeqNum :: int
  pLastSeqNum :: int
  tPacket :: bytes

record TalkExtConnection =
  connId :: ConnectionId
  LastSeqNum :: int
  Packets :: "(int \<times> TalkExtPacket) list"

definition splitMessage :: "ConnectionId \<Rightarrow> bytes \<Rightarrow> TalkExtPacket list" where
  "splitMessage i msg =
     (let n = length msg;
          step = 500;
          size = n div step;
          size = (if size * step < n then size + 1 else size)
      in map (\<lambda>k. let left = k * step;
                      right = (k + 1) * step;
                      right = (if n < right then n else right)
                  in \<lparr>tId = i, SeqNum = int k, pLastSeqNum = int size, tPacket = take (right - left) (drop left msg)\<rparr>)
             [0..<size])"

definition combinePackets :: "TalkExtPacket list \<Rightarrow> bytes" where
  "combinePackets packets = foldl (\<lambda>out packet. out @ tPacket packet) [] packets"

text \<open>A key that is not in the map yields the zero packet; a negative length panics.\<close>

definition no_packet :: TalkExtPacket where
  "no_packet = \<lparr>tId = 0, SeqNum = 0, pLastSeqNum = 0, tPacket = []\<rparr>"

definition constructResponse :: "TalkExtConnection \<Rightarrow> bytes go" where
  "constructResponse c =
     (if LastSeqNum c < 0 then None
      else Some (combinePackets (map (\<lambda>k. case map_of (Packets c) (int k) of None \<Rightarrow> no_packet | Some p \<Rightarrow> p) [0..<nat (LastSeqNum c)])))"

definition completed :: "TalkExtConnection \<Rightarrow> bool" where
  "completed c \<longleftrightarrow> int (length (Packets c)) = LastSeqNum c"

subsection \<open>The wire form\<close>

text \<open>\<^verbatim>\<open>json.MarshalIndent\<close> of a packet: numbers in decimal, bytes in base 64.\<close>

definition json_line :: "string \<Rightarrow> string \<Rightarrow> string" where
  "json_line name val = CHR 0x0A # ''  '' @ CHR 0x22 # name @ CHR 0x22 # '': '' @ val"

definition TalkExtPacketToMessage :: "TalkExtPacket \<Rightarrow> bytes" where
  "TalkExtPacketToMessage p =
     string_bytes (''{'' @ json_line ''Id'' (show_nat (unat (tId p))) @ '','' @ json_line ''SeqNum'' (show_int (SeqNum p)) @ '','' @
       json_line ''LastSeqNum'' (show_int (pLastSeqNum p)) @ '','' @
       json_line ''Packet'' (CHR 0x22 # EncodeToString (tPacket p) @ [CHR 0x22]) @ CHR 0x0A # ''}'')"

text \<open>A message that is not JSON ends the process.\<close>

definition MessageToTalkExtPacket :: "(bytes \<Rightarrow> TalkExtPacket option) \<Rightarrow> bytes \<Rightarrow> TalkExtPacket go" where
  "MessageToTalkExtPacket unmarshal b = unmarshal b"

subsection \<open>Protocol names\<close>

definition TalkExtProtocol :: string where "TalkExtProtocol = ''talk-sctp''"

definition toTalkExtProtocol :: "(bytes \<Rightarrow> bytes) \<Rightarrow> string \<Rightarrow> string" where
  "toTalkExtProtocol md5 proc = proc @ ''-'' @ hex_EncodeToString (take 5 (md5 (string_bytes proc)))"

text \<open>The first part of \<^verbatim>\<open>strings.Split(proc, "-")\<close>.\<close>

definition isTalkExtProtocol :: "(bytes \<Rightarrow> bytes) \<Rightarrow> string \<Rightarrow> bool" where
  "isTalkExtProtocol md5 proc \<longleftrightarrow> toTalkExtProtocol md5 (takeWhile (\<lambda>c. c \<noteq> CHR ''-'') proc) = proc"

subsection \<open>Receiving and requesting\<close>

type_synonym connections = "ConnectionId \<rightharpoonup> TalkExtConnection"

text \<open>The part of \<open>handleTalkExt\<close> that stores a packet; nothing happens when the connection is completed.\<close>

definition store_packet :: "connections \<Rightarrow> TalkExtPacket \<Rightarrow> connections" where
  "store_packet conns packet =
     (case conns (tId packet) of
        Some c \<Rightarrow> conns(tId packet \<mapsto> c\<lparr>Packets := AList.update (SeqNum packet) packet (Packets c)\<rparr>)
      | None \<Rightarrow> conns(tId packet \<mapsto> \<lparr>connId = tId packet, LastSeqNum = pLastSeqNum packet, Packets = [(SeqNum packet, packet)]\<rparr>))"

text \<open>
  \<open>handleTalkExt\<close>: \<open>Inl\<close> the connections after an extended request, to which no response is sent; \<open>Inr\<close> the
  request is passed on to \<open>handleTalkRequest\<close>.
\<close>

definition handleTalkExt ::
  "(bytes \<Rightarrow> bytes) \<Rightarrow> (bytes \<Rightarrow> TalkExtPacket option) \<Rightarrow> connections \<Rightarrow> string \<Rightarrow> bytes \<Rightarrow> (connections + unit) go" where
  "handleTalkExt md5 unmarshal conns protocol message =
     (if isTalkExtProtocol md5 protocol
      then do { packet \<leftarrow> MessageToTalkExtPacket unmarshal message; Some (Inl (store_packet conns packet)) }
      else Some (Inr ()))"

text \<open>
  \<open>TalkRequestExt\<close> up to its first packet: the connection it registers. The number of packets it waits for
  is that of the request; an empty request has no packet to read the numbers from.
\<close>

definition open_request :: "connections \<Rightarrow> ConnectionId \<Rightarrow> bytes \<Rightarrow> (TalkExtPacket list \<times> connections) go" where
  "open_request conns i request =
     (let packets = splitMessage i request
      in case packets of
           [] \<Rightarrow> None
         | p # ps \<Rightarrow> Some (packets, conns(tId p \<mapsto> \<lparr>connId = tId p, LastSeqNum = pLastSeqNum p, Packets = []\<rparr>)))"

text \<open>
  The waiting loop: after each round of arrivals the connection, whose packets are shared with the handler, is
  tested; \<open>None\<close> is the timeout, which ends the process.
\<close>

fun await_response :: "connections \<Rightarrow> ConnectionId \<Rightarrow> TalkExtPacket list list \<Rightarrow> bytes go" where
  "await_response conns i [] =
     (case conns i of Some c \<Rightarrow> if completed c then constructResponse c else None | None \<Rightarrow> None)"
| "await_response conns i (arrivals # later) =
     (case conns i of
        Some c \<Rightarrow> if completed c then constructResponse c else await_response (foldl store_packet conns arrivals) i later
      | None \<Rightarrow> None)"

text \<open>\<open>failed\<close>: one of the TALKREQ calls that carry the packets returned an error, which ends the process.\<close>

definition TalkRequestExt :: "connections \<Rightarrow> ConnectionId \<Rightarrow> bytes \<Rightarrow> bool \<Rightarrow> TalkExtPacket list list \<Rightarrow> bytes go" where
  "TalkRequestExt conns i request failed arrivals =
     do { (packets, conns) \<leftarrow> open_request conns i request;
          if failed then None else await_response conns i arrivals }"

subsection \<open>The connection of portalnet\<close>

type_synonym FifoQueue = "bytes list"

definition Enqueue :: "FifoQueue \<Rightarrow> bytes \<Rightarrow> FifoQueue" where
  "Enqueue arr e = arr @ [e]"

definition Dequeue :: "FifoQueue \<Rightarrow> bytes \<times> FifoQueue" where
  "Dequeue arr = (if length arr > 1 then (arr ! 0, drop 1 arr) else ([], arr))"

text \<open>\<open>Write\<close> sends the data and queues the response; \<open>resp\<close> is what the request returns, or \<open>None\<close> on an error.\<close>

definition FakeConn_Write :: "FifoQueue \<Rightarrow> bytes option \<Rightarrow> (nat \<times> FifoQueue) go" where
  "FakeConn_Write buf resp = map_option (\<lambda>r. (length r, Enqueue buf r)) resp"

text \<open>\<open>Read\<close> copies into the caller's buffer \<open>p\<close> and returns the length of the queue's element.\<close>

definition FakeConn_Read :: "FifoQueue \<Rightarrow> bytes \<Rightarrow> nat \<times> bytes \<times> FifoQueue" where
  "FakeConn_Read buf p =
     (let (b, buf) = Dequeue buf
      in (length b, take (length p) b @ drop (min (length p) (length b)) p, buf))"

subsection \<open>Splitting and combining\<close>

lemma combinePackets_concat: "combinePackets ps = concat (map tPacket ps)"
proof -
  have "foldl (\<lambda>out packet. out @ tPacket packet) a ps = a @ concat (map tPacket ps)" for a
    by (induction ps arbitrary: a) simp_all
  then show ?thesis by (simp add: combinePackets_def)
qed

definition packet_count :: "bytes \<Rightarrow> nat" where
  "packet_count msg = (length msg + 499) div 500"

definition nth_packet :: "ConnectionId \<Rightarrow> bytes \<Rightarrow> nat \<Rightarrow> TalkExtPacket" where
  "nth_packet i msg k = \<lparr>tId = i, SeqNum = int k, pLastSeqNum = int (packet_count msg), tPacket = take 500 (drop (k * 500) msg)\<rparr>"

lemma splitMessage_packets: "splitMessage i msg = map (nth_packet i msg) [0..<packet_count msg]"
proof -
  have size: "(if length msg div 500 * 500 < length msg then length msg div 500 + 1 else length msg div 500) = packet_count msg"
    by (simp add: packet_count_def) linarith
  have "take ((if length msg < (k + 1) * 500 then length msg else (k + 1) * 500) - k * 500) (drop (k * 500) msg) = take 500 (drop (k * 500) msg)" for k
    by simp
  then show ?thesis unfolding splitMessage_def Let_def size by (simp add: nth_packet_def)
qed

lemma concat_chunks: "concat (map (\<lambda>k. take 500 (drop (k * 500) msg)) [0..<n]) = take (n * 500) msg"
proof (induction n)
  case (Suc n)
  have "take (Suc n * 500) msg = take (n * 500) msg @ take 500 (drop (n * 500) msg)"
    unfolding mult_Suc add.commute [of 500] by (rule take_add)
  then show ?case using Suc by simp
qed simp

lemma packet_count_covers: "length msg \<le> packet_count msg * 500"
  unfolding packet_count_def by linarith

lemma combine_split: "combinePackets (splitMessage i msg) = msg"
  using packet_count_covers [of msg]
  by (simp add: combinePackets_concat splitMessage_packets o_def nth_packet_def concat_chunks)

subsection \<open>Reassembly\<close>

text \<open>A connection holds exactly the packets of a message whose numbers are in a set.\<close>

definition holds :: "ConnectionId \<Rightarrow> bytes \<Rightarrow> TalkExtConnection \<Rightarrow> int set \<Rightarrow> bool" where
  "holds i msg c S \<longleftrightarrow> distinct (map fst (Packets c)) \<and>
     map_of (Packets c) = (\<lambda>k. if k \<in> S then Some (nth_packet i msg (nat k)) else None)"

lemma holds_count: "holds i msg c S \<Longrightarrow> length (Packets c) = card S"
proof -
  assume h: "holds i msg c S"
  have "fst ` set (Packets c) = dom (map_of (Packets c))" by (simp add: dom_map_of_conv_image_fst)
  also have "\<dots> = S" using h by (auto simp: holds_def dom_def)
  finally show ?thesis using h distinct_card [of "map fst (Packets c)"] by (simp add: holds_def)
qed

lemma holds_update:
  "holds i msg c S \<Longrightarrow> holds i msg (c\<lparr>Packets := AList.update (int k) (nth_packet i msg k) (Packets c)\<rparr>) (insert (int k) S)"
  by (auto simp: holds_def distinct_update update_conv' fun_eq_iff)

lemma store_holds:
  assumes "conns i = Some c" "holds i msg c S"
  shows "\<exists>c'. store_packet conns (nth_packet i msg k) i = Some c' \<and> holds i msg c' (insert (int k) S) \<and> LastSeqNum c' = LastSeqNum c"
  using assms holds_update [OF assms(2), of k] by (auto simp: store_packet_def nth_packet_def)

lemma store_all_holds:
  assumes "conns i = Some c" "holds i msg c S"
  shows "\<exists>c'. foldl store_packet conns (map (nth_packet i msg) ks) i = Some c' \<and> holds i msg c' (S \<union> int ` set ks) \<and> LastSeqNum c' = LastSeqNum c"
  using assms
proof (induction ks arbitrary: conns c S)
  case (Cons k ks)
  obtain c1 where c1: "store_packet conns (nth_packet i msg k) i = Some c1" "holds i msg c1 (insert (int k) S)" "LastSeqNum c1 = LastSeqNum c"
    using store_holds [of conns i c msg S k] Cons.prems by blast
  from Cons.IH [of "store_packet conns (nth_packet i msg k)" c1 "insert (int k) S"] show ?case using c1 by auto
qed auto

lemma first_packet_holds:
  assumes "conns i = None"
  shows "\<exists>c. store_packet conns (nth_packet i msg k) i = Some c \<and> holds i msg c {int k} \<and> LastSeqNum c = int (packet_count msg)"
  using assms by (auto simp: store_packet_def nth_packet_def holds_def fun_eq_iff)

lemma all_numbers: "set ks \<subseteq> {..<n} \<Longrightarrow> card (int ` set ks) = n \<longleftrightarrow> set ks = {..<n}"
proof -
  assume sub: "set ks \<subseteq> {..<n}"
  have "card (int ` set ks) = card (set ks)" by (rule card_image) (simp add: inj_on_def)
  moreover have "card (set ks) = n \<Longrightarrow> set ks = {..<n}" using card_subset_eq [OF _ sub] by simp
  moreover have "set ks = {..<n} \<Longrightarrow> card (set ks) = n" by simp
  ultimately show ?thesis by argo
qed

lemma response_of_holds:
  assumes "holds i msg c (int ` {..<packet_count msg})" "LastSeqNum c = int (packet_count msg)"
  shows "constructResponse c = Some msg"
proof -
  have "(case map_of (Packets c) (int k) of None \<Rightarrow> no_packet | Some p \<Rightarrow> p) = nth_packet i msg k" if "k < packet_count msg" for k
    using assms(1) that by (auto simp: holds_def)
  then have "map (\<lambda>k. case map_of (Packets c) (int k) of None \<Rightarrow> no_packet | Some p \<Rightarrow> p) [0..<packet_count msg] = splitMessage i msg"
    by (simp add: splitMessage_packets)
  then show ?thesis using assms(2) combine_split [of i msg] by (simp add: constructResponse_def)
qed

lemma packets_numbered: "set ps \<subseteq> set (splitMessage i msg) \<Longrightarrow> \<exists>ks. ps = map (nth_packet i msg) ks \<and> set ks \<subseteq> {..<packet_count msg}"
proof (induction ps)
  case (Cons p ps)
  then obtain ks where ks: "ps = map (nth_packet i msg) ks" "set ks \<subseteq> {..<packet_count msg}" by auto
  moreover obtain k where "k < packet_count msg" "p = nth_packet i msg k" using Cons.prems by (auto simp: splitMessage_packets)
  ultimately show ?case by (intro exI [of _ "k # ks"]) auto
qed simp

lemma nth_packet_inject: "nth_packet i msg k = nth_packet i msg l \<longleftrightarrow> k = l"
  by (auto simp: nth_packet_def)

lemma reassembly:
  assumes "conns i = None" "ps \<noteq> []" "set ps \<subseteq> set (splitMessage i msg)"
  obtains c where "foldl store_packet conns ps i = Some c" "completed c \<longleftrightarrow> set ps = set (splitMessage i msg)"
    "completed c \<Longrightarrow> constructResponse c = Some msg"
proof -
  obtain ks where ks: "ps = map (nth_packet i msg) ks" "set ks \<subseteq> {..<packet_count msg}" using packets_numbered [OF assms(3)] by blast
  then obtain k ls where kl: "ks = k # ls" using assms(2) by (cases ks) auto
  obtain c1 where c1: "store_packet conns (nth_packet i msg k) i = Some c1" "holds i msg c1 {int k}" "LastSeqNum c1 = int (packet_count msg)"
    using first_packet_holds [of conns i msg k] assms(1) by blast
  obtain c where c: "foldl store_packet conns ps i = Some c" "holds i msg c (int ` set ks)" "LastSeqNum c = int (packet_count msg)"
    using store_all_holds [of "store_packet conns (nth_packet i msg k)" i c1 msg "{int k}" ls] c1 by (auto simp: ks(1) kl)
  have "completed c \<longleftrightarrow> set ks = {..<packet_count msg}"
    using holds_count [OF c(2)] c(3) all_numbers [OF ks(2)] by (simp add: completed_def)
  moreover have "set ps = set (splitMessage i msg) \<longleftrightarrow> set ks = {..<packet_count msg}"
  proof -
    have "set ps = nth_packet i msg ` set ks" "set (splitMessage i msg) = nth_packet i msg ` {..<packet_count msg}"
      by (simp_all add: ks(1) splitMessage_packets atLeast0LessThan)
    then show ?thesis by (metis inj_image_eq_iff injI nth_packet_inject)
  qed
  ultimately show thesis
    using that [OF c(1)] response_of_holds [of i msg c] c by auto
qed

subsection \<open>Protocol names\<close>

lemma takeWhile_protocol: "takeWhile (\<lambda>c. c \<noteq> CHR ''-'') (toTalkExtProtocol md5 p) = takeWhile (\<lambda>c. c \<noteq> CHR ''-'') p"
proof (cases "CHR ''-'' \<in> set p")
  case True
  then show ?thesis by (simp add: toTalkExtProtocol_def takeWhile_append1)
next
  case False
  then have "\<forall>c \<in> set p. c \<noteq> CHR ''-''" by metis
  then have tw: "takeWhile (\<lambda>c. c \<noteq> CHR ''-'') p = p" by (simp only: takeWhile_eq_all_conv)
  have "takeWhile (\<lambda>c. c \<noteq> CHR ''-'') (p @ CHR ''-'' # rest) = p" for rest
    using \<open>\<forall>c \<in> set p. c \<noteq> CHR ''-''\<close> by (simp add: takeWhile_append tw)
  then show ?thesis by (simp add: toTalkExtProtocol_def tw)
qed

lemma isTalkExtProtocol_iff:
  assumes "\<And>bs. length (md5 bs) = 16"
  shows "isTalkExtProtocol md5 (toTalkExtProtocol md5 p) \<longleftrightarrow> CHR ''-'' \<notin> set p"
proof -
  define q where "q = takeWhile (\<lambda>c. c \<noteq> CHR ''-'') p"
  have len: "length (hex_EncodeToString bs) = 2 * length bs" for bs
    by (induction bs) (simp_all add: hex_EncodeToString_def)
  have "length (toTalkExtProtocol md5 p) = length p + 11" "length (toTalkExtProtocol md5 q) = length q + 11"
    using assms by (simp_all add: toTalkExtProtocol_def len)
  then have "toTalkExtProtocol md5 q = toTalkExtProtocol md5 p \<longleftrightarrow> q = p"
    by (metis add_right_cancel length_takeWhile_le q_def takeWhile_eq_take take_all)
  also have "\<dots> \<longleftrightarrow> CHR ''-'' \<notin> set p" by (auto simp: q_def takeWhile_eq_all_conv)
  finally show ?thesis by (simp add: isTalkExtProtocol_def takeWhile_protocol q_def)
qed

subsection \<open>The queue\<close>

fun dequeue_all :: "nat \<Rightarrow> FifoQueue \<Rightarrow> bytes list \<times> FifoQueue" where
  "dequeue_all 0 arr = ([], arr)"
| "dequeue_all (Suc k) arr = (let (e, arr) = Dequeue arr; (es, arr) = dequeue_all k arr in (e # es, arr))"

lemma dequeue_all_spec:
  "arr \<noteq> [] \<Longrightarrow> dequeue_all k arr = (take k (butlast arr @ replicate k []), drop (min k (length arr - 1)) arr)"
proof (induction k arbitrary: arr)
  case (Suc k)
  show ?case
  proof (cases "length arr > 1")
    case True
    then obtain a b bs where arr: "arr = a # b # bs" by (cases arr; cases "tl arr") auto
    have "take k (butlast (b # bs) @ replicate k []) = take k (butlast (b # bs) @ [] # replicate k [])"
      by (simp flip: replicate_append_same)
    then show ?thesis using Suc.IH [of "b # bs"] by (simp add: arr Dequeue_def)
  next
    case False
    then obtain a where "arr = [a]" using Suc.prems by (cases arr) auto
    then show ?thesis using Suc.IH [of "[a]"] by (simp add: Dequeue_def)
  qed
qed simp

subsection \<open>Waiting for a response\<close>

lemma await_short:
  assumes "conns i = Some c" "holds i resp c S" "S \<subseteq> int ` {..<packet_count resp}" "packet_count resp < m" "LastSeqNum c = int m"
    and "list_all (\<lambda>ps. set ps \<subseteq> set (splitMessage i resp)) arrivals"
  shows "await_response conns i arrivals = None"
  using assms
proof (induction arrivals arbitrary: conns c S)
  case Nil
  have "card S \<le> packet_count resp"
    using card_mono [OF _ Nil.prems(3)] by (simp add: card_image)
  then show ?case using Nil.prems holds_count [OF Nil.prems(2)] by (simp add: completed_def)
next
  case (Cons ps arrivals)
  have "card S \<le> packet_count resp"
    using card_mono [OF _ Cons.prems(3)] by (simp add: card_image)
  then have c: "\<not> completed c" using Cons.prems(4,5) holds_count [OF Cons.prems(2)] by (simp add: completed_def)
  obtain ks where ks: "ps = map (nth_packet i resp) ks" "set ks \<subseteq> {..<packet_count resp}"
    using packets_numbered [of ps i resp] Cons.prems(6) by auto
  obtain c' where c': "foldl store_packet conns ps i = Some c'" "holds i resp c' (S \<union> int ` set ks)" "LastSeqNum c' = LastSeqNum c"
    using store_all_holds [of conns i c resp S ks] Cons.prems(1,2) by (auto simp: ks(1))
  have "await_response (foldl store_packet conns ps) i arrivals = None"
    using Cons.prems(3-6) c' ks(2) by (intro Cons.IH [of _ c' "S \<union> int ` set ks"]) auto
  then show ?case using c Cons.prems(1) by simp
qed

subsection \<open>Properties\<close>

text \<open>
  C28. Reassembly of a long message: whatever order its packets arrive in and however often each is repeated, the
  connection is completed exactly when every packet of \<open>splitMessage\<close> has arrived, and then \<open>constructResponse\<close> returns
  the message.
\<close>

theorem talk_reassembly:
  assumes "conns i = None" "ps \<noteq> []" "set ps \<subseteq> set (splitMessage i msg)"
  shows "\<exists>c. foldl store_packet conns ps i = Some c \<and> (completed c \<longleftrightarrow> set ps = set (splitMessage i msg)) \<and>
     (completed c \<longrightarrow> constructResponse c = Some msg)"
  using reassembly [of conns i ps msg] assms by metis

lemma sample_split: "splitMessage 7 (replicate 501 1) = [nth_packet 7 (replicate 501 1) 0, nth_packet 7 (replicate 501 1) 1]"
  by (simp add: splitMessage_packets packet_count_def upt_rec)

theorem talk_reassembly_witness:
  "\<exists>c. foldl store_packet Map.empty (rev (splitMessage 7 (replicate 501 1))) 7 = Some c \<and> completed c \<and>
     constructResponse c = Some (replicate 501 1)"
proof -
  have "rev (splitMessage 7 (replicate 501 (1 :: byte))) \<noteq> []" by (simp add: sample_split)
  from talk_reassembly [of Map.empty 7, OF _ this, of "replicate 501 1"] show ?thesis by auto
qed

text \<open>
  \<open>TalkRequestExt\<close> counts the packets of the response by those of the request: a response of fewer packets than the
  request never completes, in whatever rounds it arrives, and the timeout ends the process; an empty request panics.
\<close>

theorem TalkRequestExt_short_response:
  assumes "packet_count resp < packet_count request \<or> request = []"
    and "list_all (\<lambda>ps. set ps \<subseteq> set (splitMessage i resp)) arrivals"
  shows "TalkRequestExt conns i request failed arrivals = None"
proof (cases "request = []")
  case True
  then show ?thesis by (simp add: TalkRequestExt_def open_request_def splitMessage_packets packet_count_def)
next
  case False
  then have "packet_count resp < packet_count request" using assms(1) by simp
  then have pos: "0 < packet_count request" by simp
  then have split: "splitMessage i request = nth_packet i request 0 # map (nth_packet i request) [1..<packet_count request]"
    by (simp add: splitMessage_packets upt_conv_Cons)
  define c where "c = \<lparr>connId = i, LastSeqNum = int (packet_count request), Packets = []\<rparr>"
  have "await_response (conns(i \<mapsto> c)) i arrivals = None"
    using assms(2) \<open>packet_count resp < packet_count request\<close>
    by (intro await_short [of _ i c resp "{}" "packet_count request"]) (simp_all add: c_def holds_def fun_eq_iff)
  then show ?thesis by (simp add: TalkRequestExt_def open_request_def split nth_packet_def c_def)
qed

theorem TalkRequestExt_short_response_witness:
  "TalkRequestExt Map.empty 7 (replicate 501 1) False [splitMessage 7 [1, 2, 3]] = None"
  by (rule TalkRequestExt_short_response [where resp = "[1, 2, 3]"]) (simp_all add: packet_count_def)

text \<open>
  A name made by \<open>toTalkExtProtocol\<close> is recognised by \<open>isTalkExtProtocol\<close> exactly when the protocol has no hyphen; the
  extension's own protocol name has one.
\<close>

theorem talk_protocol_recognised:
  assumes "\<And>bs. length (md5 bs) = 16"
  shows "(isTalkExtProtocol md5 (toTalkExtProtocol md5 p) \<longleftrightarrow> CHR ''-'' \<notin> set p) \<and>
         \<not> isTalkExtProtocol md5 (toTalkExtProtocol md5 TalkExtProtocol)"
  using isTalkExtProtocol_iff [OF assms] by (simp add: TalkExtProtocol_def)

theorem talk_protocol_recognised_witness:
  "isTalkExtProtocol (\<lambda>bs. replicate 16 0) (toTalkExtProtocol (\<lambda>bs. replicate 16 0) ''bbb'')"
  using talk_protocol_recognised [of "\<lambda>bs. replicate 16 0" "''bbb''"] by simp

text \<open>
  The queue of \<open>FakeConn\<close> is first in, first out, but never hands out its last element: of \<open>n\<close> queued responses,
  any number of calls of \<open>Dequeue\<close> yields the first \<open>n - 1\<close> in order and then empty ones, and the last stays in the queue.
\<close>

theorem queue_holds_last:
  assumes "es \<noteq> []"
  shows "dequeue_all k (foldl Enqueue [] es) = (take k (butlast es @ replicate k []), drop (min k (length es - 1)) es)"
proof -
  have "foldl Enqueue arr es = arr @ es" for arr es
    by (induction es arbitrary: arr) (simp_all add: Enqueue_def)
  then show ?thesis using dequeue_all_spec [OF assms] by simp
qed

theorem queue_holds_last_witness: "dequeue_all 2 (foldl Enqueue [] [[1, 2]]) = ([[], []], [[1, 2]])"
  using queue_holds_last [of "[[1, 2]]" 2] by (simp add: numeral_2_eq_2)

end
