(* ===== verification/V5_Dispatch.thy ===== *)
theory V5_Dispatch
  imports V5_Nodes Talk_Ext
begin

text \<open>
  The v5 transport (\<^verbatim>\<open>pkg/discover/v5_udp.go\<close>): calls, the dispatch goroutine that owns them, and the
  packet handlers. A call is a pointer, so the state keeps the calls by address. A call's two channels
  have room for one element each: \<open>cch\<close> and \<open>cerr\<close> hold what was sent on them and not yet received, and
  \<open>outbox\<close> is what the dispatch goroutine is about to send, which blocks it as long as the channel is
  full. Every timer that was started may fire later, also when it was stopped in the meantime. What the
  codec draws from the random source and the clock is the sequence \<open>noise\<close>, consumed one element per use.
\<close>

subsection \<open>State\<close>

record callV5 =
  cnode :: enode
  cpacket :: Packet
  responseType :: byte
  creqid :: bytes
  cch :: "Packet list"
  cerr :: "query_error list"
  cnonce :: Nonce
  handshakeCount :: int
  cchallenge :: "whoareyou option"
  ctimeout :: "nat option"

text \<open>
  \<open>looping\<close> says that the dispatch loop has not returned, \<open>closed\<close> that \<^verbatim>\<open>closeCtx\<close> is done. \<open>answered\<close> and \<open>finished\<close>
  belong to the functions that made the calls: the calls on whose channels they received something, and
  those whose \<^verbatim>\<open>callDone\<close> has returned. \<open>packetsOut\<close> is what was written to the socket and \<open>endpointStatements\<close>
  what the local node was told about its own endpoint.
\<close>

record ('k, 'r, 's) UDPv5 =
  codec :: 'k
  utab :: "'s Table"
  calls :: "nat \<Rightarrow> callV5"
  ncalls :: nat
  ntimers :: nat
  activeCallByNode :: "ID \<rightharpoonup> nat"
  activeCallByAuth :: "Nonce \<rightharpoonup> nat"
  callQueue :: "ID \<Rightarrow> nat list"
  trhandlers :: "string \<rightharpoonup> (ID \<Rightarrow> UDPAddr \<Rightarrow> bytes \<Rightarrow> bytes)"
  TalkExtConnections :: connections
  noise :: "nat \<Rightarrow> 'r"
  packetsOut :: "(UDPAddr \<times> bytes) list"
  endpointStatements :: "(UDPAddr \<times> UDPAddr) list"
  outbox :: "(nat \<times> (query_error + Packet)) list"
  closed :: bool
  looping :: bool
  answered :: "nat set"
  finished :: "nat set"

text \<open>
  The code the transport relies on: its codec, through the two methods of the interface \<open>codecV5\<close>, the
  libraries of the table and of the wire format, the relay check of \<^verbatim>\<open>netutil\<close>, the node database, the MD5
  sum and the JSON decoder.
\<close>

record ('priv, 'pub, 'c, 'k, 'r, 's) udp_lib =
  codecEncode :: "'k \<Rightarrow> ID \<Rightarrow> string \<Rightarrow> Packet \<Rightarrow> whoareyou option \<Rightarrow> 'r \<Rightarrow> ('k \<times> (string + bytes \<times> Nonce)) go"
  codecDecode :: "'k \<Rightarrow> bytes \<Rightarrow> string \<Rightarrow> 'r \<Rightarrow> ('k \<times> ID \<times> enode option \<times> (string + Packet)) go"
  wire :: "('priv, 'pub, 'c) wire_lib"
  disc :: "'s disc_lib"
  checkRelayIP :: "IP \<Rightarrow> IP \<Rightarrow> string option"
  dbNode :: "ID \<Rightarrow> enode option"
  md5 :: "bytes \<Rightarrow> bytes"
  unmarshal :: "bytes \<Rightarrow> TalkExtPacket option"

definition zeroNonce :: Nonce where "zeroNonce = replicate 12 0"

definition upd_call :: "('k, 'r, 's) UDPv5 \<Rightarrow> nat \<Rightarrow> (callV5 \<Rightarrow> callV5) \<Rightarrow> ('k, 'r, 's) UDPv5" where
  "upd_call t c f = t\<lparr>calls := (calls t)(c := f (calls t c))\<rparr>"

definition newUDPv5 ::
  "('priv, 'pub, 'c, 'k, 'r, 's) udp_lib \<Rightarrow> 'k \<Rightarrow> (nat \<Rightarrow> 'r) \<Rightarrow> enode \<Rightarrow> enode list \<Rightarrow> enode list \<Rightarrow> int \<Rightarrow>
   (string + ('k, 'r, 's) UDPv5) go" where
  "newUDPv5 U k ns slf bootnodes queried now =
     do { r \<leftarrow> newTable (disc U) slf bootnodes queried now;
          case r of
            Inl err \<Rightarrow> Some (Inl err)
          | Inr tab \<Rightarrow>
              Some (Inr \<lparr>codec = k, utab = tab,
                calls = (\<lambda>_. \<lparr>cnode = slf, cpacket = Unknown [], responseType = 0, creqid = [], cch = [], cerr = [],
                             cnonce = zeroNonce, handshakeCount = 0, cchallenge = None, ctimeout = None\<rparr>),
                ncalls = 0, ntimers = 0, activeCallByNode = Map.empty, activeCallByAuth = Map.empty, callQueue = (\<lambda>_. []),
                trhandlers = Map.empty, TalkExtConnections = Map.empty, noise = ns, packetsOut = [], endpointStatements = [],
                outbox = [], closed = False, looping = True, answered = {}, finished = {}\<rparr>) }"

definition RegisterTalkHandler :: "('k, 'r, 's) UDPv5 \<Rightarrow> string \<Rightarrow> (ID \<Rightarrow> UDPAddr \<Rightarrow> bytes \<Rightarrow> bytes) \<Rightarrow> ('k, 'r, 's) UDPv5" where
  "RegisterTalkHandler t protocol handler = t\<lparr>trhandlers := (trhandlers t)(protocol \<mapsto> handler)\<rparr>"

subsection \<open>Sending\<close>

text \<open>The error of the socket is dropped by every caller and not represented.\<close>

definition send ::
  "('priv, 'pub, 'c, 'k, 'r, 's) udp_lib \<Rightarrow> ('k, 'r, 's) UDPv5 \<Rightarrow> ID \<Rightarrow> UDPAddr \<Rightarrow> Packet \<Rightarrow> whoareyou option \<Rightarrow>
   (('k, 'r, 's) UDPv5 \<times> Nonce \<times> string option) go" where
  "send U t toID toAddr packet c =
     do { r \<leftarrow> codecEncode U (codec t) toID (UDPAddr_String toAddr) packet c (noise t 0);
          let t = t\<lparr>codec := fst r, noise := (\<lambda>i. noise t (Suc i))\<rparr>;
          case snd r of
            Inl err \<Rightarrow> Some (t, zeroNonce, Some err)
          | Inr (enc, nonce) \<Rightarrow> Some (t\<lparr>packetsOut := packetsOut t @ [(toAddr, enc)]\<rparr>, nonce, None) }"

definition sendResponse ::
  "('priv, 'pub, 'c, 'k, 'r, 's) udp_lib \<Rightarrow> ('k, 'r, 's) UDPv5 \<Rightarrow> ID \<Rightarrow> UDPAddr \<Rightarrow> Packet \<Rightarrow> ('k, 'r, 's) UDPv5 go" where
  "sendResponse U t toID toAddr packet = map_option fst (send U t toID toAddr packet None)"

definition startResponseTimeout :: "('k, 'r, 's) UDPv5 \<Rightarrow> nat \<Rightarrow> ('k, 'r, 's) UDPv5" where
  "startResponseTimeout t c = (upd_call t c (\<lambda>x. x\<lparr>ctimeout := Some (ntimers t)\<rparr>))\<lparr>ntimers := Suc (ntimers t)\<rparr>"

definition sendCall ::
  "('priv, 'pub, 'c, 'k, 'r, 's) udp_lib \<Rightarrow> ('k, 'r, 's) UDPv5 \<Rightarrow> nat \<Rightarrow> ('k, 'r, 's) UDPv5 go" where
  "sendCall U t c =
     (let x = calls t c;
          t = (if cnonce x \<noteq> zeroNonce then t\<lparr>activeCallByAuth := (activeCallByAuth t)(cnonce x := None)\<rparr> else t)
      in do { r \<leftarrow> send U t (eID (cnode x)) (eIP (cnode x), int (eUDP (cnode x))) (cpacket x) (cchallenge x);
              let t = fst r; let newNonce = fst (snd r); let t = upd_call t c (\<lambda>x. x\<lparr>cnonce := newNonce\<rparr>);
              Some (startResponseTimeout (t\<lparr>activeCallByAuth := (activeCallByAuth t)(newNonce \<mapsto> c)\<rparr>) c) })"

definition sendNextCall ::
  "('priv, 'pub, 'c, 'k, 'r, 's) udp_lib \<Rightarrow> ('k, 'r, 's) UDPv5 \<Rightarrow> ID \<Rightarrow> ('k, 'r, 's) UDPv5 go" where
  "sendNextCall U t i =
     (case callQueue t i of
        [] \<Rightarrow> Some t
      | c # queue \<Rightarrow>
          if activeCallByNode t i \<noteq> None then Some t
          else do { t \<leftarrow> sendCall U (t\<lparr>activeCallByNode := (activeCallByNode t)(i \<mapsto> c)\<rparr>) c;
                    Some (t\<lparr>callQueue := (callQueue t)(i := queue)\<rparr>) })"

subsection \<open>Packet handlers\<close>

definition handleCallResponse :: "('k, 'r, 's) UDPv5 \<Rightarrow> ID \<Rightarrow> UDPAddr \<Rightarrow> Packet \<Rightarrow> bool \<times> ('k, 'r, 's) UDPv5" where
  "handleCallResponse t fromID fromAddr p =
     (case activeCallByNode t fromID of
        None \<Rightarrow> (False, t)
      | Some ac \<Rightarrow>
          let x = calls t ac
          in if RequestID p \<noteq> creqid x then (False, t)
             else if \<not> IP_Equal (fst fromAddr) (eIP (cnode x)) \<or> snd fromAddr \<noteq> int (eUDP (cnode x)) then (False, t)
             else if Kind p \<noteq> responseType x then (False, t)
             else (True, (startResponseTimeout t ac)\<lparr>outbox := outbox t @ [(ac, Inr p)]\<rparr>))"

definition udp_getNode :: "('priv, 'pub, 'c, 'k, 'r, 's) udp_lib \<Rightarrow> ('k, 'r, 's) UDPv5 \<Rightarrow> ID \<Rightarrow> enode option go" where
  "udp_getNode U t i =
     do { n \<leftarrow> getNode (disc U) (utab t) i;
          Some (case n of Some n \<Rightarrow> Some n | None \<Rightarrow> dbNode U i) }"

definition handleUnknown ::
  "('priv, 'pub, 'c, 'k, 'r, 's) udp_lib \<Rightarrow> ('k, 'r, 's) UDPv5 \<Rightarrow> Nonce \<Rightarrow> bytes \<Rightarrow> ID \<Rightarrow> UDPAddr \<Rightarrow> ('k, 'r, 's) UDPv5 go" where
  "handleUnknown U t nonce idNonce fromID fromAddr =
     do { n \<leftarrow> udp_getNode U t fromID;
          let challenge = \<lparr>ChallengeData = [], wNonce = nonce, IDNonce = idNonce,
                           RecordSeq = (case n of Some n \<Rightarrow> eSeq n | None \<Rightarrow> 0), wNode = n, sent = 0\<rparr>;
          sendResponse U t fromID fromAddr (Whoareyou challenge) }"

definition errChallengeNoCall :: string where "errChallengeNoCall = ''no matching call''"
definition errChallengeTwice :: string where "errChallengeTwice = ''second handshake''"

definition matchWithCall :: "('k, 'r, 's) UDPv5 \<Rightarrow> ID \<Rightarrow> Nonce \<Rightarrow> string + nat" where
  "matchWithCall t fromID nonce =
     (case activeCallByAuth t nonce of
        None \<Rightarrow> Inl errChallengeNoCall
      | Some c \<Rightarrow> if handshakeCount (calls t c) > 0 then Inl errChallengeTwice else Inr c)"

definition handleWhoareyou ::
  "('priv, 'pub, 'c, 'k, 'r, 's) udp_lib \<Rightarrow> ('k, 'r, 's) UDPv5 \<Rightarrow> whoareyou \<Rightarrow> ID \<Rightarrow> UDPAddr \<Rightarrow> ('k, 'r, 's) UDPv5 go" where
  "handleWhoareyou U t p fromID fromAddr =
     (case matchWithCall t fromID (wNonce p) of
        Inl err \<Rightarrow> Some t
      | Inr c \<Rightarrow>
          sendCall U (upd_call t c (\<lambda>x. x\<lparr>handshakeCount := handshakeCount x + 1,
                                         cchallenge := Some (p\<lparr>wNode := Some (cnode x)\<rparr>)\<rparr>)) c)"

definition handlePing ::
  "('priv, 'pub, 'c, 'k, 'r, 's) udp_lib \<Rightarrow> ('k, 'r, 's) UDPv5 \<Rightarrow> bytes \<Rightarrow> ID \<Rightarrow> UDPAddr \<Rightarrow> ('k, 'r, 's) UDPv5 go" where
  "handlePing U t reqID fromID fromAddr =
     (let remoteIP = (case To4 (fst fromAddr) of Some ip \<Rightarrow> ip | None \<Rightarrow> fst fromAddr)
      in sendResponse U t fromID fromAddr (Pong reqID (eSeq (self (utab t))) remoteIP (of_int (snd fromAddr))))"

fun sendNodes ::
  "('priv, 'pub, 'c, 'k, 'r, 's) udp_lib \<Rightarrow> ('k, 'r, 's) UDPv5 \<Rightarrow> ID \<Rightarrow> UDPAddr \<Rightarrow> Packet list \<Rightarrow> ('k, 'r, 's) UDPv5 go" where
  "sendNodes U t fromID fromAddr [] = Some t"
| "sendNodes U t fromID fromAddr (p # ps) =
     do { t \<leftarrow> sendResponse U t fromID fromAddr p; sendNodes U t fromID fromAddr ps }"

definition handleFindnode ::
  "('priv, 'pub, 'c, 'k, 'r, 's) udp_lib \<Rightarrow> ('k, 'r, 's) UDPv5 \<Rightarrow> bytes \<Rightarrow> u64 list \<Rightarrow> ID \<Rightarrow> UDPAddr \<Rightarrow> ('k, 'r, 's) UDPv5 go" where
  "handleFindnode U t reqID distances fromID fromAddr =
     do { nodes \<leftarrow> collectTableNodes (utab t) (checkRelayIP U) (self (utab t)) (fst fromAddr) distances findnodeResultLimit;
          sendNodes U t fromID fromAddr (packNodes (wire U) reqID nodes) }"

definition handleTalkRequest ::
  "('priv, 'pub, 'c, 'k, 'r, 's) udp_lib \<Rightarrow> ('k, 'r, 's) UDPv5 \<Rightarrow> bytes \<Rightarrow> string \<Rightarrow> bytes \<Rightarrow> ID \<Rightarrow> UDPAddr \<Rightarrow> ('k, 'r, 's) UDPv5 go" where
  "handleTalkRequest U t reqID protocol message fromID fromAddr =
     (let response = (case trhandlers t protocol of None \<Rightarrow> [] | Some handler \<Rightarrow> handler fromID fromAddr message)
      in sendResponse U t fromID fromAddr (TalkResponse reqID response))"

definition handle ::
  "('priv, 'pub, 'c, 'k, 'r, 's) udp_lib \<Rightarrow> ('k, 'r, 's) UDPv5 \<Rightarrow> Packet \<Rightarrow> bytes \<Rightarrow> ID \<Rightarrow> UDPAddr \<Rightarrow> ('k, 'r, 's) UDPv5 go" where
  "handle U t p idNonce fromID fromAddr =
     (case p of
        Unknown nonce \<Rightarrow> handleUnknown U t nonce idNonce fromID fromAddr
      | Whoareyou w \<Rightarrow> handleWhoareyou U t w fromID fromAddr
      | Ping reqID seq \<Rightarrow> handlePing U t reqID fromID fromAddr
      | Pong reqID seq toIP toPort \<Rightarrow>
          (case handleCallResponse t fromID fromAddr p of
             (True, t) \<Rightarrow> Some (t\<lparr>endpointStatements := endpointStatements t @ [(fromAddr, (toIP, uint toPort))]\<rparr>)
           | (False, t) \<Rightarrow> Some t)
      | Findnode reqID distances \<Rightarrow> handleFindnode U t reqID distances fromID fromAddr
      | Nodes reqID tot ns \<Rightarrow> Some (snd (handleCallResponse t fromID fromAddr p))
      | TalkRequest reqID protocol message \<Rightarrow>
          do { r \<leftarrow> handleTalkExt (md5 U) (unmarshal U) (TalkExtConnections t) protocol message;
               case r of
                 Inl conns \<Rightarrow> Some (t\<lparr>TalkExtConnections := conns\<rparr>)
               | Inr _ \<Rightarrow> handleTalkRequest U t reqID protocol message fromID fromAddr }
      | TalkResponse reqID message \<Rightarrow> Some (snd (handleCallResponse t fromID fromAddr p))
      | _ \<Rightarrow> Some t)"

definition handlePacket ::
  "('priv, 'pub, 'c, 'k, 'r, 's) udp_lib \<Rightarrow> ('k, 'r, 's) UDPv5 \<Rightarrow> bytes \<Rightarrow> UDPAddr \<Rightarrow> bytes \<Rightarrow> int \<Rightarrow> ('k, 'r, 's) UDPv5 go" where
  "handlePacket U t rawpacket fromAddr idNonce now =
     do { r \<leftarrow> codecDecode U (codec t) rawpacket (UDPAddr_String fromAddr) (noise t 0);
          case r of (k, fromID, fromNode, res) \<Rightarrow>
            (let t = t\<lparr>codec := k, noise := (\<lambda>i. noise t (Suc i))\<rparr>
             in case res of
                  Inl err \<Rightarrow> Some t
                | Inr packet \<Rightarrow>
                    do { t \<leftarrow> (case fromNode of
                               None \<Rightarrow> Some t
                             | Some n \<Rightarrow>
                                 do { tab \<leftarrow> addSeenNode (disc U) ((utab t)\<lparr>fresh := Suc (fresh (utab t))\<rparr>)
                                              (wrapNode (fresh (utab t)) n) now;
                                      Some (t\<lparr>utab := tab\<rparr>) });
                         handle U t packet idNonce fromID fromAddr }) }"

subsection \<open>Calls and the dispatch loop\<close>

text \<open>The calls of a transport's clients, up to the hand-over to the dispatch loop. \<open>reqID\<close> is drawn at random.\<close>

definition new_call :: "('k, 'r, 's) UDPv5 \<Rightarrow> enode \<Rightarrow> byte \<Rightarrow> Packet \<Rightarrow> bytes \<Rightarrow> query_error list \<Rightarrow> ('k, 'r, 's) UDPv5" where
  "new_call t n rtype packet reqID errs =
     t\<lparr>calls := (calls t)(ncalls t :=
         \<lparr>cnode = n, cpacket = SetRequestID packet reqID, responseType = rtype, creqid = reqID, cch = [], cerr = errs,
          cnonce = zeroNonce, handshakeCount = 0, cchallenge = None, ctimeout = None\<rparr>),
       ncalls := Suc (ncalls t)\<rparr>"

definition dispatch_call ::
  "('priv, 'pub, 'c, 'k, 'r, 's) udp_lib \<Rightarrow> ('k, 'r, 's) UDPv5 \<Rightarrow> nat \<Rightarrow> ('k, 'r, 's) UDPv5 go" where
  "dispatch_call U t c =
     (let i = eID (cnode (calls t c))
      in sendNextCall U (t\<lparr>callQueue := (callQueue t)(i := callQueue t i @ [c])\<rparr>) i)"

definition dispatch_timeout :: "('k, 'r, 's) UDPv5 \<Rightarrow> nat \<Rightarrow> nat \<Rightarrow> ('k, 'r, 's) UDPv5" where
  "dispatch_timeout t c timer =
     (if activeCallByNode t (eID (cnode (calls t c))) = Some c \<and> ctimeout (calls t c) = Some timer
      then t\<lparr>outbox := outbox t @ [(c, Inl errTimeout)]\<rparr> else t)"

definition dispatch_done ::
  "('priv, 'pub, 'c, 'k, 'r, 's) udp_lib \<Rightarrow> ('k, 'r, 's) UDPv5 \<Rightarrow> nat \<Rightarrow> ('k, 'r, 's) UDPv5 go" where
  "dispatch_done U t c =
     (let x = calls t c; i = eID (cnode x)
      in if activeCallByNode t i \<noteq> Some c \<or> ctimeout x = None then None
         else sendNextCall U (t\<lparr>activeCallByAuth := (activeCallByAuth t)(cnonce x := None),
                               activeCallByNode := (activeCallByNode t)(i := None)\<rparr>) i)"

text \<open>The closing branch visits the two maps in any order of their keys.\<close>

fun close_active :: "('k, 'r, 's) UDPv5 \<Rightarrow> ID list \<Rightarrow> ('k, 'r, 's) UDPv5" where
  "close_active t [] = t"
| "close_active t (i # is) =
     (case activeCallByNode t i of
        None \<Rightarrow> close_active t is
      | Some c \<Rightarrow>
          close_active (t\<lparr>outbox := outbox t @ [(c, Inl errClosed)],
                         activeCallByNode := (activeCallByNode t)(i := None),
                         activeCallByAuth := (activeCallByAuth t)(cnonce (calls t c) := None)\<rparr>) is)"

fun close_queues :: "('k, 'r, 's) UDPv5 \<Rightarrow> ID list \<Rightarrow> ('k, 'r, 's) UDPv5" where
  "close_queues t [] = t"
| "close_queues t (i # is) =
     close_queues (t\<lparr>outbox := outbox t @ map (\<lambda>c. (c, Inl errClosed)) (callQueue t i),
                    callQueue := (callQueue t)(i := [])\<rparr>) is"

definition dispatch_close :: "('k, 'r, 's) UDPv5 \<Rightarrow> ID list \<Rightarrow> ID list \<Rightarrow> ('k, 'r, 's) UDPv5" where
  "dispatch_close t queued active = (close_active (close_queues t queued) active)\<lparr>looping := False\<rparr>"

text \<open>
  The events: those the dispatch loop selects (a call, a timeout, a finished call, a packet, the end of
  the context), the completion of one of its sends on a call's channel, the receptions of the clients (in
  their own wait and in the loop of \<open>callDone\<close>), the client that finds the transport closed in \<open>call\<close> or in
  \<open>callDone\<close>, the registration of a handler, and \<open>Close\<close>.
\<close>

datatype event =
    CallIn enode byte Packet bytes
  | TimeoutIn nat nat
  | DoneIn nat
  | PacketIn bytes UDPAddr bytes int
  | Closing "ID list" "ID list"
  | Deliver
  | TakeResponse nat
  | TakeError nat
  | CallRefused enode byte Packet bytes
  | DoneClosed nat
  | Register string "ID \<Rightarrow> UDPAddr \<Rightarrow> bytes \<Rightarrow> bytes"
  | Close

abbreviation idle :: "('k, 'r, 's) UDPv5 \<Rightarrow> bool" where "idle t \<equiv> looping t \<and> outbox t = []"

definition deliver :: "('k, 'r, 's) UDPv5 \<Rightarrow> ('k, 'r, 's) UDPv5" where
  "deliver t =
     (case outbox t of
        [] \<Rightarrow> t
      | (c, Inl err) # msgs \<Rightarrow> (upd_call t c (\<lambda>x. x\<lparr>cerr := cerr x @ [err]\<rparr>))\<lparr>outbox := msgs\<rparr>
      | (c, Inr p) # msgs \<Rightarrow> (upd_call t c (\<lambda>x. x\<lparr>cch := cch x @ [p]\<rparr>))\<lparr>outbox := msgs\<rparr>)"

definition take_response :: "('k, 'r, 's) UDPv5 \<Rightarrow> nat \<Rightarrow> ('k, 'r, 's) UDPv5" where
  "take_response t c = (upd_call t c (\<lambda>x. x\<lparr>cch := tl (cch x)\<rparr>))\<lparr>answered := insert c (answered t)\<rparr>"

definition take_error :: "('k, 'r, 's) UDPv5 \<Rightarrow> nat \<Rightarrow> ('k, 'r, 's) UDPv5" where
  "take_error t c = (upd_call t c (\<lambda>x. x\<lparr>cerr := tl (cerr x)\<rparr>))\<lparr>answered := insert c (answered t)\<rparr>"

fun enabled :: "('k, 'r, 's) UDPv5 \<Rightarrow> event \<Rightarrow> bool" where
  "enabled t (CallIn n rtype packet reqID) \<longleftrightarrow> idle t \<and> length reqID = 8"
| "enabled t (TimeoutIn c timer) \<longleftrightarrow> idle t \<and> c < ncalls t \<and> timer < ntimers t"
| "enabled t (DoneIn c) \<longleftrightarrow> idle t \<and> c \<in> answered t \<and> c \<notin> finished t"
| "enabled t (PacketIn rawpacket fromAddr idNonce now) \<longleftrightarrow> idle t"
| "enabled t (Closing queued active) \<longleftrightarrow>
     idle t \<and> closed t \<and> (\<forall>i. callQueue t i \<noteq> [] \<longrightarrow> i \<in> set queued) \<and> (\<forall>i. activeCallByNode t i \<noteq> None \<longrightarrow> i \<in> set active)"
| "enabled t Deliver \<longleftrightarrow>
     (case outbox t of
        [] \<Rightarrow> False
      | (c, Inl err) # msgs \<Rightarrow> cerr (calls t c) = []
      | (c, Inr p) # msgs \<Rightarrow> cch (calls t c) = [])"
| "enabled t (TakeResponse c) \<longleftrightarrow> cch (calls t c) \<noteq> [] \<and> c \<notin> finished t"
| "enabled t (TakeError c) \<longleftrightarrow> cerr (calls t c) \<noteq> [] \<and> c \<notin> finished t"
| "enabled t (CallRefused n rtype packet reqID) \<longleftrightarrow> closed t \<and> length reqID = 8"
| "enabled t (DoneClosed c) \<longleftrightarrow> closed t \<and> c \<in> answered t \<and> c \<notin> finished t"
| "enabled t (Register protocol handler) \<longleftrightarrow> True"
| "enabled t Close \<longleftrightarrow> True"

fun dispatch_event ::
  "('priv, 'pub, 'c, 'k, 'r, 's) udp_lib \<Rightarrow> ('k, 'r, 's) UDPv5 \<Rightarrow> event \<Rightarrow> ('k, 'r, 's) UDPv5 go" where
  "dispatch_event U t (CallIn n rtype packet reqID) = dispatch_call U (new_call t n rtype packet reqID []) (ncalls t)"
| "dispatch_event U t (TimeoutIn c timer) = Some (dispatch_timeout t c timer)"
| "dispatch_event U t (DoneIn c) = dispatch_done U (t\<lparr>finished := insert c (finished t)\<rparr>) c"
| "dispatch_event U t (PacketIn rawpacket fromAddr idNonce now) = handlePacket U t rawpacket fromAddr idNonce now"
| "dispatch_event U t (Closing queued active) = Some (dispatch_close t queued active)"
| "dispatch_event U t Deliver = Some (deliver t)"
| "dispatch_event U t (TakeResponse c) = Some (take_response t c)"
| "dispatch_event U t (TakeError c) = Some (take_error t c)"
| "dispatch_event U t (CallRefused n rtype packet reqID) = Some (new_call t n rtype packet reqID [errClosed])"
| "dispatch_event U t (DoneClosed c) = Some (t\<lparr>finished := insert c (finished t)\<rparr>)"
| "dispatch_event U t (Register protocol handler) = Some (RegisterTalkHandler t protocol handler)"
| "dispatch_event U t Close = Some (t\<lparr>closed := True\<rparr>)"

subsection \<open>Results of calls\<close>

text \<open>
  What \<^verbatim>\<open>ping\<close>, \<^verbatim>\<open>TalkRequest\<close> and \<^verbatim>\<open>TalkRequest2\<close> make of what arrives on the channels of their call; the type
  assertion on the response panics on any other packet.
\<close>

definition ping_request :: "('k, 'r, 's) UDPv5 \<Rightarrow> byte \<times> Packet" where
  "ping_request t = (PongMsg, Ping [] (eSeq (self (utab t))))"

fun ping_result :: "query_error + Packet \<Rightarrow> (query_error + u64) go" where
  "ping_result (Inl err) = Some (Inl err)"
| "ping_result (Inr (Pong reqID seq toIP toPort)) = Some (Inr seq)"
| "ping_result (Inr p) = None"

definition talk_request :: "string \<Rightarrow> bytes \<Rightarrow> byte \<times> Packet" where
  "talk_request protocol request = (TalkResponseMsg, TalkRequest [] protocol request)"

fun talk_result :: "query_error + Packet \<Rightarrow> (query_error + bytes) go" where
  "talk_result (Inl err) = Some (Inl err)"
| "talk_result (Inr (TalkResponse reqID message)) = Some (Inr message)"
| "talk_result (Inr p) = None"

subsection \<open>Lookups\<close>

text \<open>
  A lookup works on the table of the transport and the counters \<open>db\<close> of failed queries; its random target and the choices of its scheduling
  are arguments. \<open>RandomNodes\<close> waits for a refresh of an empty table first: \<open>refreshed\<close> is the table that the refresh leaves.
\<close>

definition v5_newLookup :: "('k, 'r, 's) UDPv5 \<Rightarrow> (ID \<times> IP \<Rightarrow> int) \<Rightarrow> ID \<Rightarrow> 's lookup" where
  "v5_newLookup t db tgt = newLookup (utab t) db tgt"

definition v5_newRandomLookup :: "('k, 'r, 's) UDPv5 \<Rightarrow> (ID \<times> IP \<Rightarrow> int) \<Rightarrow> ID \<Rightarrow> 's lookup" where
  "v5_newRandomLookup t db random = v5_newLookup t db random"

definition v5_Lookup ::
  "('priv, 'pub, 'c, 'k, 'r, 's) udp_lib \<Rightarrow> ('k, 'r, 's) UDPv5 \<Rightarrow> (ID \<times> IP \<Rightarrow> int) \<Rightarrow> ID \<Rightarrow> choice list \<Rightarrow> enode list go" where
  "v5_Lookup U t db tgt cs = run (disc U) (v5_newLookup t db tgt) cs"

definition v5_lookupRandom ::
  "('priv, 'pub, 'c, 'k, 'r, 's) udp_lib \<Rightarrow> ('k, 'r, 's) UDPv5 \<Rightarrow> (ID \<times> IP \<Rightarrow> int) \<Rightarrow> ID \<Rightarrow> choice list \<Rightarrow> enode list go" where
  "v5_lookupRandom U t db random cs = run (disc U) (v5_newRandomLookup t db random) cs"

definition v5_lookupSelf ::
  "('priv, 'pub, 'c, 'k, 'r, 's) udp_lib \<Rightarrow> ('k, 'r, 's) UDPv5 \<Rightarrow> (ID \<times> IP \<Rightarrow> int) \<Rightarrow> choice list \<Rightarrow> enode list go" where
  "v5_lookupSelf U t db cs = run (disc U) (v5_newLookup t db (eID (self (utab t)))) cs"

definition v5_RandomNodes :: "('k, 'r, 's) UDPv5 \<Rightarrow> (ID \<times> IP \<Rightarrow> int) \<Rightarrow> 's Table \<Rightarrow> 's lookupIterator" where
  "v5_RandomNodes t db refreshed = newLookupIterator (if table_len (utab t) = 0 then refreshed else utab t) db (closed t)"

end
