(* ===== verification/V5_Dispatch_Inv.thy ===== *)
theory V5_Dispatch_Inv
  imports V5_Dispatch V5_Codec_Total
begin

text \<open>
  Invariants of the dispatch loop. The calls' bookkeeping is proved for the code without its codec; the
  codec enters as the interface \<open>transport\<close>, which the codec of \<^verbatim>\<open>v5wire\<close> implements.
\<close>

subsection \<open>The bookkeeping of calls\<close>

abbreviation callID :: "('k, 'r, 's) UDPv5 \<Rightarrow> nat \<Rightarrow> ID" where "callID t c \<equiv> eID (cnode (calls t c))"

abbreviation is_active :: "('k, 'r, 's) UDPv5 \<Rightarrow> nat \<Rightarrow> bool" where
  "is_active t c \<equiv> activeCallByNode t (callID t c) = Some c"

definition answers :: "callV5 \<Rightarrow> Packet \<Rightarrow> bool" where
  "answers x p \<longleftrightarrow> RequestID p = creqid x \<and> Kind p = responseType x"

definition call_ok :: "nat \<Rightarrow> callV5 \<Rightarrow> bool" where
  "call_ok timers x \<longleftrightarrow> list_all (answers x) (cch x) \<and> handshakeCount x \<in> {0, 1} \<and>
     (\<forall>w. cchallenge x = Some w \<longrightarrow> wNode w \<noteq> None) \<and> Kind (cpacket x) \<noteq> WhoareyouPacket \<and>
     (\<forall>timer. ctimeout x = Some timer \<longrightarrow> timer < timers) \<and> length (cch x) \<le> 1 \<and> length (cerr x) \<le> 1"

definition typed :: "('k, 'r, 's) UDPv5 \<Rightarrow> bool" where
  "typed t \<longleftrightarrow> (\<forall>c. call_ok (ntimers t) (calls t c)) \<and> (\<forall>c p. (c, Inr p) \<in> set (outbox t) \<longrightarrow> c < ncalls t \<and> answers (calls t c) p)"

definition active_ok :: "('k, 'r, 's) UDPv5 \<Rightarrow> bool" where
  "active_ok t \<longleftrightarrow> (\<forall>i c. activeCallByNode t i = Some c \<longrightarrow> c < ncalls t \<and> callID t c = i \<and> ctimeout (calls t c) \<noteq> None)"

definition queue_ok :: "ID set \<Rightarrow> ('k, 'r, 's) UDPv5 \<Rightarrow> bool" where
  "queue_ok E t \<longleftrightarrow> (\<forall>i. distinct (callQueue t i) \<and> (callQueue t i \<noteq> [] \<longrightarrow> i \<notin> E \<longrightarrow> activeCallByNode t i \<noteq> None) \<and>
     (\<forall>c \<in> set (callQueue t i). c < ncalls t \<and> callID t c = i \<and> activeCallByNode t i \<noteq> Some c \<and> c \<notin> finished t \<and>
        handshakeCount (calls t c) = 0 \<and> cnonce (calls t c) = zeroNonce))"

definition auth_ok :: "('k, 'r, 's) UDPv5 \<Rightarrow> bool" where
  "auth_ok t \<longleftrightarrow> (\<forall>n c. activeCallByAuth t n = Some c \<longrightarrow>
     c < ncalls t \<and> (is_active t c \<and> cnonce (calls t c) = n \<or> n = zeroNonce \<and> handshakeCount (calls t c) = 1))"

definition contact_ok :: "('k, 'r, 's) UDPv5 \<Rightarrow> bool" where
  "contact_ok t \<longleftrightarrow> (\<forall>c m. (c, m) \<in> set (outbox t) \<longrightarrow> is_active t c) \<and>
     (\<forall>c. cch (calls t c) \<noteq> [] \<or> cerr (calls t c) \<noteq> [] \<or> c \<in> answered t \<longrightarrow> is_active t c \<or> c \<in> finished t) \<and>
     (\<forall>c \<in> finished t. c < ncalls t \<and> (\<not> closed t \<longrightarrow> \<not> is_active t c))"

definition books_ok :: "ID set \<Rightarrow> ('k, 'r, 's) UDPv5 \<Rightarrow> bool" where
  "books_ok E t \<longleftrightarrow> active_ok t \<and> queue_ok E t \<and> auth_ok t \<and> contact_ok t"

lemmas books_defs = books_ok_def active_ok_def queue_ok_def auth_ok_def contact_ok_def

lemma auth_okD:
  "auth_ok t \<Longrightarrow> activeCallByAuth t n = Some c \<Longrightarrow>
   c < ncalls t \<and> (is_active t c \<and> cnonce (calls t c) = n \<or> n = zeroNonce \<and> handshakeCount (calls t c) = 1)"
  unfolding auth_ok_def by blast

lemma active_okD: "active_ok t \<Longrightarrow> activeCallByNode t i = Some c \<Longrightarrow> c < ncalls t \<and> callID t c = i \<and> ctimeout (calls t c) \<noteq> None"
  unfolding active_ok_def by blast

lemma queue_okD:
  "queue_ok E t \<Longrightarrow> c \<in> set (callQueue t i) \<Longrightarrow> c < ncalls t \<and> callID t c = i \<and> activeCallByNode t i \<noteq> Some c \<and> c \<notin> finished t \<and>
     handshakeCount (calls t c) = 0 \<and> cnonce (calls t c) = zeroNonce"
  "queue_ok E t \<Longrightarrow> distinct (callQueue t i)"
  "queue_ok E t \<Longrightarrow> callQueue t i \<noteq> [] \<Longrightarrow> i \<notin> E \<Longrightarrow> activeCallByNode t i \<noteq> None"
  unfolding queue_ok_def by blast+

lemma queue_okI:
  assumes "\<And>i. distinct (callQueue t i)" "\<And>i. callQueue t i \<noteq> [] \<Longrightarrow> i \<notin> E \<Longrightarrow> activeCallByNode t i \<noteq> None"
    and "\<And>i c. c \<in> set (callQueue t i) \<Longrightarrow> c < ncalls t \<and> callID t c = i \<and> activeCallByNode t i \<noteq> Some c \<and> c \<notin> finished t \<and>
          handshakeCount (calls t c) = 0 \<and> cnonce (calls t c) = zeroNonce"
  shows "queue_ok E t"
  unfolding queue_ok_def using assms by blast

lemma contact_okD:
  "contact_ok t \<Longrightarrow> (c, m) \<in> set (outbox t) \<Longrightarrow> is_active t c"
  "contact_ok t \<Longrightarrow> cch (calls t c) \<noteq> [] \<or> cerr (calls t c) \<noteq> [] \<or> c \<in> answered t \<Longrightarrow> is_active t c \<or> c \<in> finished t"
  "contact_ok t \<Longrightarrow> c \<in> finished t \<Longrightarrow> c < ncalls t"
  "contact_ok t \<Longrightarrow> c \<in> finished t \<Longrightarrow> \<not> closed t \<Longrightarrow> \<not> is_active t c"
  unfolding contact_ok_def by blast+

text \<open>What \<open>sendCall\<close> does besides sending.\<close>

definition mark_sent :: "('k, 'r, 's) UDPv5 \<Rightarrow> nat \<Rightarrow> Nonce \<Rightarrow> ('k, 'r, 's) UDPv5" where
  "mark_sent t c n =
     t\<lparr>calls := (calls t)(c := (calls t c)\<lparr>cnonce := n, ctimeout := Some (ntimers t)\<rparr>),
       ntimers := Suc (ntimers t),
       activeCallByAuth := (if cnonce (calls t c) \<noteq> zeroNonce then (activeCallByAuth t)(cnonce (calls t c) := None)
                            else activeCallByAuth t)(n \<mapsto> c)\<rparr>"

lemma call_ok_Suc: "call_ok k x \<Longrightarrow> call_ok (Suc k) x"
  unfolding call_ok_def by (metis less_SucI)

lemma typed_mark_sent: "typed t \<Longrightarrow> typed (mark_sent t c n)"
  unfolding typed_def mark_sent_def by (auto simp: call_ok_def answers_def list_all_iff intro: less_SucI)

lemma auth_ok_mark_sent:
  assumes "auth_ok t" "is_active t c" "c < ncalls t" "cnonce (calls t c) = zeroNonce \<longrightarrow> activeCallByAuth t zeroNonce = Some c \<longrightarrow> handshakeCount (calls t c) = 1"
  shows "auth_ok (mark_sent t c n)"
  using assms unfolding auth_ok_def mark_sent_def by (auto split: if_splits) metis+

lemma active_ok_mark_sent: "active_ok t \<Longrightarrow> active_ok (mark_sent t c n)"
  unfolding active_ok_def mark_sent_def by (auto split: if_splits)

lemma contact_ok_mark_sent: "contact_ok t \<Longrightarrow> contact_ok (mark_sent t c n)"
  unfolding contact_ok_def mark_sent_def by (auto split: if_splits)

lemma queue_ok_mark_sent: "queue_ok E t \<Longrightarrow> is_active t c \<Longrightarrow> queue_ok E (mark_sent t c n)"
  unfolding queue_ok_def mark_sent_def by (auto split: if_splits)

text \<open>The next call of a queue becomes the active one.\<close>

definition activate :: "('k, 'r, 's) UDPv5 \<Rightarrow> ID \<Rightarrow> nat \<Rightarrow> nat list \<Rightarrow> Nonce \<Rightarrow> ('k, 'r, 's) UDPv5" where
  "activate t i c q n = (mark_sent (t\<lparr>activeCallByNode := (activeCallByNode t)(i \<mapsto> c)\<rparr>) c n)\<lparr>callQueue := (callQueue t)(i := q)\<rparr>"

lemma books_ok_activate:
  assumes ok: "books_ok {i} t" and free: "activeCallByNode t i = None" and q: "callQueue t i = c # q"
  shows "books_ok {} (activate t i c q n)"
proof -
  define t1 where "t1 = t\<lparr>activeCallByNode := (activeCallByNode t)(i \<mapsto> c), callQueue := (callQueue t)(i := q)\<rparr>"
  have c: "c < ncalls t" "callID t c = i" "handshakeCount (calls t c) = 0" "cnonce (calls t c) = zeroNonce" "c \<notin> finished t"
    "c \<notin> set q" "distinct q"
    using ok q by (auto simp: books_ok_def queue_ok_def dest: spec [of _ i])
  have no_auth: "activeCallByAuth t m \<noteq> Some c" for m
    using ok c free unfolding books_ok_def auth_ok_def by (metis option.distinct(1) zero_neq_one)
  have auth: "auth_ok t1"
    unfolding auth_ok_def
  proof (intro allI impI)
    fix m d
    assume "activeCallByAuth t1 m = Some d"
    then have "activeCallByAuth t m = Some d" by (simp add: t1_def)
    moreover from this have "d \<noteq> c" using no_auth by blast
    ultimately show "d < ncalls t1 \<and> (is_active t1 d \<and> cnonce (calls t1 d) = m \<or> m = zeroNonce \<and> handshakeCount (calls t1 d) = 1)"
      using ok free auth_okD [of t m d] by (auto simp: books_ok_def t1_def)
  qed
  have contact: "contact_ok t1"
    using ok free c unfolding books_ok_def contact_ok_def t1_def by (auto split: if_splits)
  have queue: "queue_ok {} t1"
  proof (rule queue_okI)
    fix j d
    assume d: "d \<in> set (callQueue t1 j)"
    then have "d \<in> set (callQueue t j)" "d \<noteq> c \<or> j \<noteq> i" using q c(6) by (auto simp: t1_def split: if_splits)
    then show "d < ncalls t1 \<and> callID t1 d = j \<and> activeCallByNode t1 j \<noteq> Some d \<and> d \<notin> finished t1 \<and>
        handshakeCount (calls t1 d) = 0 \<and> cnonce (calls t1 d) = zeroNonce"
      using ok queue_okD(1) [of "{i}" t d j] c(2) by (auto simp: books_ok_def t1_def)
  next
    show "distinct (callQueue t1 j)" for j
      using ok c(7) queue_okD(2) [of "{i}" t j] by (simp add: books_ok_def t1_def)
    show "activeCallByNode t1 j \<noteq> None" if "callQueue t1 j \<noteq> []" for j
      using ok that queue_okD(3) [of "{i}" t j] by (auto simp: books_ok_def t1_def split: if_splits)
  qed
  have act: "active_ok (mark_sent t1 c n)"
    using ok c unfolding books_ok_def active_ok_def t1_def mark_sent_def by (auto split: if_splits)
  have "activate t i c q n = mark_sent t1 c n" by (simp add: activate_def t1_def mark_sent_def)
  moreover have "is_active t1 c" "c < ncalls t1" "activeCallByAuth t1 zeroNonce \<noteq> Some c"
    using c no_auth by (simp_all add: t1_def)
  ultimately show ?thesis
    using act queue_ok_mark_sent [OF queue] auth_ok_mark_sent [OF auth] contact_ok_mark_sent [OF contact]
    by (simp add: books_ok_def)
qed

lemma typed_activate: "typed t \<Longrightarrow> typed (activate t i c q n)"
  using typed_mark_sent [of "t\<lparr>activeCallByNode := (activeCallByNode t)(i \<mapsto> c)\<rparr>" c n] by (simp add: activate_def typed_def)

definition enqueue :: "('k, 'r, 's) UDPv5 \<Rightarrow> nat \<Rightarrow> ('k, 'r, 's) UDPv5" where
  "enqueue t c = t\<lparr>callQueue := (callQueue t)(callID t c := callQueue t (callID t c) @ [c])\<rparr>"

lemma typed_new_call:
  assumes "typed t" "Kind packet \<noteq> WhoareyouPacket" "length errs \<le> 1"
  shows "typed (new_call t n rtype packet reqID errs)"
proof -
  have "Kind (SetRequestID packet reqID) \<noteq> WhoareyouPacket" using assms(2) by (cases packet) simp_all
  then show ?thesis using assms(1,3) by (fastforce simp: typed_def new_call_def call_ok_def)
qed

lemma books_ok_new_call:
  assumes ok: "books_ok {} t"
  shows "books_ok {eID n} (enqueue (new_call t n rtype packet reqID []) (ncalls t))" (is "books_ok _ ?t")
proof -
  define c where "c = ncalls t"
  have A: "active_ok t" and Q: "queue_ok {} t" and N: "auth_ok t" and C: "contact_ok t" using ok by (simp_all add: books_ok_def)
  have old: "d < ncalls t \<Longrightarrow> calls ?t d = calls t d" for d by (simp add: enqueue_def new_call_def)
  have same: "activeCallByNode ?t = activeCallByNode t" "activeCallByAuth ?t = activeCallByAuth t" "finished ?t = finished t"
    "answered ?t = answered t" "outbox ?t = outbox t" "closed ?t = closed t" "ncalls ?t = Suc (ncalls t)"
    by (simp_all add: enqueue_def new_call_def)
  have new: "calls ?t c = \<lparr>cnode = n, cpacket = SetRequestID packet reqID, responseType = rtype, creqid = reqID, cch = [], cerr = [],
          cnonce = zeroNonce, handshakeCount = 0, cchallenge = None, ctimeout = None\<rparr>"
    "callQueue ?t = (callQueue t)(eID n := callQueue t (eID n) @ [c])"
    by (simp_all add: enqueue_def new_call_def c_def)
  have not: "activeCallByNode t j \<noteq> Some c" "c \<notin> finished t" for j
    using active_okD [OF A, of j c] contact_okD(3) [OF C, of c] by (auto simp: c_def)
  then have unanswered: "c \<notin> answered t" using contact_okD(2) [OF C, of c] by blast
  have act: "active_ok ?t"
    unfolding active_ok_def using active_okD [OF A] old same less_SucI by presburger
  have auth: "auth_ok ?t"
    unfolding auth_ok_def using auth_okD [OF N] old same less_SucI by presburger
  have queue: "queue_ok {eID n} ?t"
  proof (rule queue_okI)
    fix i d
    assume "d \<in> set (callQueue ?t i)"
    then have "d \<in> set (callQueue t i) \<or> d = c \<and> i = eID n" by (auto simp: new(2) split: if_splits)
    then show "d < ncalls ?t \<and> callID ?t d = i \<and> activeCallByNode ?t i \<noteq> Some d \<and> d \<notin> finished ?t \<and>
        handshakeCount (calls ?t d) = 0 \<and> cnonce (calls ?t d) = zeroNonce"
      using queue_okD(1) [OF Q, of d i] not old [of d] new(1) same c_def by auto
  next
    have "c \<notin> set (callQueue t (eID n))" using queue_okD(1) [OF Q, of c] c_def by blast
    then show "distinct (callQueue ?t i)" for i using queue_okD(2) [OF Q] by (simp add: new(2))
    show "activeCallByNode ?t i \<noteq> None" if "callQueue ?t i \<noteq> []" "i \<notin> {eID n}" for i
      using queue_okD(3) [OF Q, of i] that by (simp add: new(2) same)
  qed
  have "contact_ok ?t"
    unfolding contact_ok_def
  proof (intro conjI allI impI ballI)
    fix d
    show "is_active ?t d" if "(d, m) \<in> set (outbox ?t)" for m
      using contact_okD(1) [OF C, of d m] that same old [of d] active_okD [OF A, of "callID t d" d] by simp
    show "is_active ?t d \<or> d \<in> finished ?t" if "cch (calls ?t d) \<noteq> [] \<or> cerr (calls ?t d) \<noteq> [] \<or> d \<in> answered ?t"
    proof (cases "d = c")
      case True
      then show ?thesis using that new(1) unanswered same by simp
    next
      case False
      then have "calls ?t d = calls t d" by (simp add: enqueue_def new_call_def c_def)
      then show ?thesis using contact_okD(2) [OF C, of d] that same by simp
    qed
    show "d < ncalls ?t" if "d \<in> finished ?t" using contact_okD(3) [OF C, of d] that same by simp
    show "\<not> is_active ?t d" if "d \<in> finished ?t" "\<not> closed ?t"
      using contact_okD(3,4) [OF C, of d] that same old [of d] by simp
  qed
  then show ?thesis using act auth queue by (simp add: books_ok_def)
qed

lemma books_ok_done:
  assumes ok: "books_ok {} t" and c: "is_active t c" and out: "outbox t = []"
  shows "books_ok {callID t c} (t\<lparr>finished := insert c (finished t), activeCallByAuth := (activeCallByAuth t)(cnonce (calls t c) := None),
           activeCallByNode := (activeCallByNode t)(callID t c := None)\<rparr>)" (is "books_ok _ ?t")
proof -
  have A: "active_ok t" and Q: "queue_ok {} t" and N: "auth_ok t" and C: "contact_ok t" using ok by (simp_all add: books_ok_def)
  have other: "is_active ?t d \<longleftrightarrow> is_active t d \<and> d \<noteq> c" for d using c by auto
  have "active_ok ?t" using A by (auto simp: active_ok_def)
  moreover have "queue_ok {callID t c} ?t"
  proof (rule queue_okI)
    show "d < ncalls ?t \<and> callID ?t d = i \<and> activeCallByNode ?t i \<noteq> Some d \<and> d \<notin> finished ?t \<and>
        handshakeCount (calls ?t d) = 0 \<and> cnonce (calls ?t d) = zeroNonce" if "d \<in> set (callQueue ?t i)" for i d
      using queue_okD(1) [OF Q, of d i] that c by auto
    show "distinct (callQueue ?t i)" for i using queue_okD(2) [OF Q] by simp
    show "activeCallByNode ?t i \<noteq> None" if "callQueue ?t i \<noteq> []" "i \<notin> {callID t c}" for i
      using queue_okD(3) [OF Q, of i] that by simp
  qed
  moreover have "auth_ok ?t"
    unfolding auth_ok_def
  proof (intro allI impI)
    fix n d
    assume "activeCallByAuth ?t n = Some d"
    then have n: "activeCallByAuth t n = Some d" "n \<noteq> cnonce (calls t c)" by (auto split: if_splits)
    then show "d < ncalls ?t \<and> (is_active ?t d \<and> cnonce (calls ?t d) = n \<or> n = zeroNonce \<and> handshakeCount (calls ?t d) = 1)"
      using auth_okD [OF N n(1)] unfolding other by auto
  qed
  moreover have "contact_ok ?t"
    unfolding contact_ok_def
  proof (intro conjI allI impI ballI)
    fix d
    show "is_active ?t d" if "(d, m) \<in> set (outbox ?t)" for m using that out by simp
    show "is_active ?t d \<or> d \<in> finished ?t" if "cch (calls ?t d) \<noteq> [] \<or> cerr (calls ?t d) \<noteq> [] \<or> d \<in> answered ?t"
      using contact_okD(2) [OF C, of d] that unfolding other by auto
    show "d < ncalls ?t" if "d \<in> finished ?t" using contact_okD(3) [OF C, of d] active_okD [OF A c] that by auto
    show "\<not> is_active ?t d" if "d \<in> finished ?t" "\<not> closed ?t"
      using contact_okD(4) [OF C, of d] that unfolding other by auto
  qed
  ultimately show ?thesis by (simp add: books_ok_def)
qed

text \<open>Changes that leave the maps and the call's identity alone.\<close>

lemma books_ok_same:
  assumes ok: "books_ok E t"
    and maps: "activeCallByNode t' = activeCallByNode t" "activeCallByAuth t' = activeCallByAuth t" "callQueue t' = callQueue t"
      "ncalls t' = ncalls t" "closed t' = closed t" "finished t' = finished t"
    and call: "\<And>c. cnode (calls t' c) = cnode (calls t c) \<and> cnonce (calls t' c) = cnonce (calls t c) \<and>
        handshakeCount (calls t' c) = handshakeCount (calls t c) \<and> (ctimeout (calls t c) \<noteq> None \<longrightarrow> ctimeout (calls t' c) \<noteq> None)"
    and out: "\<And>c m. (c, m) \<in> set (outbox t') \<Longrightarrow> is_active t c"
    and got: "\<And>c. cch (calls t' c) \<noteq> [] \<or> cerr (calls t' c) \<noteq> [] \<or> c \<in> answered t' \<Longrightarrow> is_active t c \<or> c \<in> finished t"
  shows "books_ok E t'"
proof -
  have A: "active_ok t" and Q: "queue_ok E t" and N: "auth_ok t" and C: "contact_ok t" using ok by (simp_all add: books_ok_def)
  have "active_ok t'" unfolding active_ok_def using active_okD [OF A] maps call by metis
  moreover have "queue_ok E t'"
  proof (rule queue_okI)
    show "c < ncalls t' \<and> callID t' c = i \<and> activeCallByNode t' i \<noteq> Some c \<and> c \<notin> finished t' \<and>
        handshakeCount (calls t' c) = 0 \<and> cnonce (calls t' c) = zeroNonce" if "c \<in> set (callQueue t' i)" for i c
      using queue_okD(1) [OF Q, of c i] that maps call by auto
  qed (use queue_okD(2,3) [OF Q] maps in simp_all)
  moreover have "auth_ok t'" using N maps call by (simp add: auth_ok_def)
  moreover have "contact_ok t'"
    unfolding contact_ok_def
  proof (intro conjI allI impI ballI)
    fix c
    have a: "is_active t' c \<longleftrightarrow> is_active t c" using maps call by simp
    show "is_active t' c" if "(c, m) \<in> set (outbox t')" for m using out [OF that] unfolding a .
    show "is_active t' c \<or> c \<in> finished t'" if "cch (calls t' c) \<noteq> [] \<or> cerr (calls t' c) \<noteq> [] \<or> c \<in> answered t'"
      using got [OF that] maps unfolding a by simp
    show "c < ncalls t'" if "c \<in> finished t'" using contact_okD(3) [OF C, of c] that maps by simp
    show "\<not> is_active t' c" if "c \<in> finished t'" "\<not> closed t'" using contact_okD(4) [OF C, of c] that maps unfolding a by simp
  qed
  ultimately show ?thesis by (simp add: books_ok_def)
qed

lemma books_ok_contact: "books_ok E t \<Longrightarrow> contact_ok t"
  by (simp add: books_ok_def)

lemma books_ok_timeout:
  assumes "books_ok {} t"
  shows "books_ok {} (dispatch_timeout t c timer)"
  using assms by (auto simp: dispatch_timeout_def intro!: books_ok_same [OF assms] dest: contact_okD [OF books_ok_contact])

lemma typed_timeout: "typed t \<Longrightarrow> typed (dispatch_timeout t c timer)"
  by (auto simp: dispatch_timeout_def typed_def)

lemma handleCallResponse_cases:
  assumes "books_ok {} t" "typed t" "handleCallResponse t fromID fromAddr p = (b, t')"
  shows "books_ok {} t' \<and> typed t'"
proof (cases b)
  case False
  then have "t' = t" using assms(3) by (auto simp: handleCallResponse_def Let_def split: option.splits if_splits)
  then show ?thesis using assms by simp
next
  case True
  then obtain c where c: "activeCallByNode t fromID = Some c" "answers (calls t c) p"
    "t' = (startResponseTimeout t c)\<lparr>outbox := outbox t @ [(c, Inr p)]\<rparr>"
    using assms(3) by (auto simp: handleCallResponse_def answers_def Let_def split: option.splits if_splits)
  have a: "is_active t c" using active_okD [of t fromID c] c(1) assms(1) by (simp add: books_ok_def)
  have "books_ok {} t'"
    unfolding c(3)
  proof (rule books_ok_same [OF assms(1)])
    show "is_active t d" if "(d, m) \<in> set (outbox ((startResponseTimeout t c)\<lparr>outbox := outbox t @ [(c, Inr p)]\<rparr>))" for d m
      using that a contact_okD(1) [OF books_ok_contact [OF assms(1)], of d m] by auto
    show "is_active t d \<or> d \<in> finished t"
      if "cch (calls ((startResponseTimeout t c)\<lparr>outbox := outbox t @ [(c, Inr p)]\<rparr>) d) \<noteq> [] \<or>
          cerr (calls ((startResponseTimeout t c)\<lparr>outbox := outbox t @ [(c, Inr p)]\<rparr>) d) \<noteq> [] \<or>
          d \<in> answered ((startResponseTimeout t c)\<lparr>outbox := outbox t @ [(c, Inr p)]\<rparr>)" for d
      using that contact_okD(2) [OF books_ok_contact [OF assms(1)], of d]
      by (auto simp: startResponseTimeout_def upd_call_def split: if_splits)
  qed (simp_all add: startResponseTimeout_def upd_call_def)
  moreover have "typed t'"
    using assms(2) c(2,3) active_okD [of t fromID c] c(1) assms(1) unfolding typed_def books_ok_def
    by (auto simp: startResponseTimeout_def upd_call_def call_ok_def answers_def list_all_iff intro: less_SucI)
  ultimately show ?thesis by simp
qed

lemma books_ok_deliver:
  assumes "books_ok {} t"
  shows "books_ok {} (deliver t)"
proof (rule books_ok_same [OF assms])
  note C = books_ok_contact [OF assms]
  show "is_active t c" if "(c, m) \<in> set (outbox (deliver t))" for c m
    using that contact_okD(1) [OF C, of c m] by (auto simp: deliver_def upd_call_def split: list.splits sum.splits prod.splits)
  show "is_active t c \<or> c \<in> finished t"
    if "cch (calls (deliver t) c) \<noteq> [] \<or> cerr (calls (deliver t) c) \<noteq> [] \<or> c \<in> answered (deliver t)" for c
    using that contact_okD(1,2) [OF C, of c]
    by (auto simp: deliver_def upd_call_def split: list.splits sum.splits prod.splits if_splits)
qed (auto simp: deliver_def upd_call_def split: list.splits sum.splits prod.splits)

lemma typed_deliver: "typed t \<Longrightarrow> enabled t Deliver \<Longrightarrow> typed (deliver t)"
  unfolding typed_def
  by (auto simp: deliver_def upd_call_def call_ok_def answers_def list_all_iff split: list.splits sum.splits prod.splits)

lemma books_ok_take:
  assumes "books_ok {} t"
  shows "cch (calls t c) \<noteq> [] \<Longrightarrow> books_ok {} (take_response t c)" "cerr (calls t c) \<noteq> [] \<Longrightarrow> books_ok {} (take_error t c)"
proof -
  note C = books_ok_contact [OF assms]
  have got: "is_active t d \<or> d \<in> finished t"
    if "cch (calls t c) \<noteq> [] \<or> cerr (calls t c) \<noteq> []" "d = c \<or> cch (calls t d) \<noteq> [] \<or> cerr (calls t d) \<noteq> [] \<or> d \<in> answered t" for d
    using that contact_okD(2) [OF C, of d] by blast
  show "books_ok {} (take_response t c)" if "cch (calls t c) \<noteq> []"
  proof (rule books_ok_same [OF assms])
    show "is_active t d \<or> d \<in> finished t"
      if "cch (calls (take_response t c) d) \<noteq> [] \<or> cerr (calls (take_response t c) d) \<noteq> [] \<or> d \<in> answered (take_response t c)" for d
      using that \<open>cch (calls t c) \<noteq> []\<close> by (intro got) (auto simp: take_response_def upd_call_def split: if_splits)
  qed (use contact_okD(1) [OF C] in \<open>auto simp: take_response_def upd_call_def\<close>)
  show "books_ok {} (take_error t c)" if "cerr (calls t c) \<noteq> []"
  proof (rule books_ok_same [OF assms])
    show "is_active t d \<or> d \<in> finished t"
      if "cch (calls (take_error t c) d) \<noteq> [] \<or> cerr (calls (take_error t c) d) \<noteq> [] \<or> d \<in> answered (take_error t c)" for d
      using that \<open>cerr (calls t c) \<noteq> []\<close> by (intro got) (auto simp: take_error_def upd_call_def split: if_splits)
  qed (use contact_okD(1) [OF C] in \<open>auto simp: take_error_def upd_call_def\<close>)
qed

lemma in_tlD: "x \<in> set (tl xs) \<Longrightarrow> x \<in> set xs"
  by (cases xs) simp_all

lemma typed_take: "typed t \<Longrightarrow> typed (take_response t c)" "typed t \<Longrightarrow> typed (take_error t c)"
  unfolding typed_def
  by (auto simp: take_response_def take_error_def upd_call_def call_ok_def answers_def list_all_iff dest!: in_tlD)

lemma books_ok_closed:
  assumes "books_ok {} t"
  shows "books_ok {} (t\<lparr>closed := True\<rparr>)"
    and "closed t \<Longrightarrow> c \<in> answered t \<Longrightarrow> books_ok {} (t\<lparr>finished := insert c (finished t)\<rparr>)"
proof -
  have A: "active_ok t" and Q: "queue_ok {} t" and N: "auth_ok t" and C: "contact_ok t" using assms by (simp_all add: books_ok_def)
  show "books_ok {} (t\<lparr>closed := True\<rparr>)"
  proof -
    have "queue_ok {} (t\<lparr>closed := True\<rparr>)" using queue_okD [OF Q] by (intro queue_okI) simp_all
    moreover have "contact_ok (t\<lparr>closed := True\<rparr>)" using contact_okD [OF C] by (simp add: contact_ok_def)
    ultimately show ?thesis using A N by (simp add: books_ok_def active_ok_def auth_ok_def)
  qed
  assume c: "closed t" "c \<in> answered t"
  have c': "is_active t c \<or> c \<in> finished t" using contact_okD(2) [OF C, of c] c by simp
  then have "c < ncalls t" using active_okD [OF A, of _ c] contact_okD(3) [OF C] by blast
  moreover have "c \<notin> set (callQueue t i)" for i using queue_okD(1) [OF Q, of c i] c' by blast
  ultimately have "queue_ok {} (t\<lparr>finished := insert c (finished t)\<rparr>)" "contact_ok (t\<lparr>finished := insert c (finished t)\<rparr>)"
    using queue_okD [OF Q] C c(1) unfolding contact_ok_def by (auto intro!: queue_okI)
  then show "books_ok {} (t\<lparr>finished := insert c (finished t)\<rparr>)"
    using A N by (simp add: books_ok_def active_ok_def auth_ok_def)
qed

end
