(* ===== verification/V5_Transport.thy ===== *)
theory V5_Transport
  imports V5_Dispatch_Inv
begin

text \<open>
  The v5 transport over any codec that never panics: the dispatch loop never panics, answers reach the calls
  they belong to, each node's calls are made one after the other in the order in which they were asked for,
  and no call waits forever.
\<close>

subsection \<open>The codec's interface\<close>

definition env_ok :: "('priv, 'pub, 'c, 'k, 'r, 's) udp_lib \<Rightarrow> ('k \<Rightarrow> bool) \<Rightarrow> ('r \<Rightarrow> bool) \<Rightarrow> ('k, 'r, 's) UDPv5 \<Rightarrow> bool" where
  "env_ok U good r_ok t \<longleftrightarrow> good (codec t) \<and> (\<forall>i. r_ok (noise t i)) \<and> logdist_ok (disc U) \<and> table_ok (disc U) (utab t)"

text \<open>The calls an address stands for, the active one first.\<close>

definition lane :: "('k, 'r, 's) UDPv5 \<Rightarrow> ID \<Rightarrow> nat list" where
  "lane t i = (case activeCallByNode t i of None \<Rightarrow> [] | Some c \<Rightarrow> [c]) @ callQueue t i"

definition same_books :: "('k, 'r, 's) UDPv5 \<Rightarrow> ('k, 'r, 's) UDPv5 \<Rightarrow> bool" where
  "same_books t t' \<longleftrightarrow> calls t' = calls t \<and> ncalls t' = ncalls t \<and> ntimers t' = ntimers t \<and>
     activeCallByNode t' = activeCallByNode t \<and> activeCallByAuth t' = activeCallByAuth t \<and> callQueue t' = callQueue t \<and>
     outbox t' = outbox t \<and> closed t' = closed t \<and> looping t' = looping t \<and> answered t' = answered t \<and> finished t' = finished t"

lemma same_books_inv:
  assumes "same_books t t'"
  shows "books_ok E t' = books_ok E t" "typed t' = typed t" "lane t' = lane t"
  using assms
  by (simp_all add: same_books_def books_ok_def active_ok_def queue_ok_def auth_ok_def contact_ok_def typed_def lane_def fun_eq_iff)

lemma same_books_refl [simp]: "same_books t t"
  by (simp add: same_books_def)

lemma same_books_trans: "same_books t t' \<Longrightarrow> same_books t' t'' \<Longrightarrow> same_books t t''"
  by (simp add: same_books_def)

lemma books_ok_weaken:
  assumes "books_ok {i} t" "callQueue t i = [] \<or> activeCallByNode t i \<noteq> None"
  shows "books_ok {} t"
proof -
  have Q: "queue_ok {i} t" using assms(1) by (simp add: books_ok_def)
  have "activeCallByNode t j \<noteq> None" if "callQueue t j \<noteq> []" for j
    using queue_okD(3) [OF Q that] assms(2) that by (cases "j = i") auto
  then have "queue_ok {} t" using queue_okD(1,2) [OF Q] by (intro queue_okI) auto
  then show ?thesis using assms(1) by (simp add: books_ok_def)
qed

text \<open>What the handlers keep: the state stays sound and no call is added to or taken off a lane.\<close>

definition keeps ::
  "('priv, 'pub, 'c, 'k, 'r, 's) udp_lib \<Rightarrow> ('k \<Rightarrow> bool) \<Rightarrow> ('r \<Rightarrow> bool) \<Rightarrow> ('k, 'r, 's) UDPv5 \<Rightarrow> ('k, 'r, 's) UDPv5 \<Rightarrow> bool" where
  "keeps U good r_ok t t' \<longleftrightarrow> env_ok U good r_ok t' \<and> typed t' \<and> books_ok {} t' \<and> lane t' = lane t \<and>
     looping t' = looping t \<and> closed t' = closed t \<and> ncalls t' = ncalls t"

lemma keeps_same_books:
  "same_books t t' \<Longrightarrow> env_ok U good r_ok t' \<Longrightarrow> typed t \<Longrightarrow> books_ok {} t \<Longrightarrow> keeps U good r_ok t t'"
  by (simp add: keeps_def same_books_inv) (simp add: same_books_def)

lemma sendable_None: "Kind p \<noteq> WhoareyouPacket \<Longrightarrow> sendable p None"
  by (cases p) (simp_all add: sendable_def)

lemma pack_loop_Nodes: "p \<in> set (pack_loop W reqID tot ns) \<Longrightarrow> Kind p = NodesMsg"
  by (induction W reqID tot ns rule: pack_loop.induct) (auto simp: pack_loop.simps Let_def)

lemma packNodes_sendable: "list_all (\<lambda>p. sendable p None) (packNodes W reqID ns)"
proof -
  have "Kind p = NodesMsg" if "p \<in> set (packNodes W reqID ns)" for p
    using that pack_loop_Nodes by (auto simp: packNodes_def split: if_splits)
  then show ?thesis unfolding list_all_iff by (intro ballI sendable_None) (simp add: msg_kinds)
qed

text \<open>A message for the talk extension must be one that the JSON decoder accepts: any other ends the process.\<close>

definition talk_ok :: "('priv, 'pub, 'c, 'k, 'r, 's) udp_lib \<Rightarrow> Packet \<Rightarrow> bool" where
  "talk_ok U p \<longleftrightarrow> (\<forall>reqID protocol message. p = TalkRequest reqID protocol message \<longrightarrow>
     isTalkExtProtocol (md5 U) protocol \<longrightarrow> unmarshal U message \<noteq> None)"

subsection \<open>Events\<close>

text \<open>
  The functions that make calls never pass a WHOAREYOU packet. A call that \<open>call\<close> refuses because the transport is closed is
  considered only once the dispatch loop has returned: before that it would add a call with its error that the loop never sees, and changes
  nothing the loop reads.
\<close>

fun udp_event_ok :: "('priv, 'pub, 'c, 'k, 'r, 's) udp_lib \<Rightarrow> ('k, 'r, 's) UDPv5 \<Rightarrow> event \<Rightarrow> bool" where
  "udp_event_ok U t (CallIn n rtype packet reqID) \<longleftrightarrow> Kind packet \<noteq> WhoareyouPacket"
| "udp_event_ok U t (CallRefused n rtype packet reqID) \<longleftrightarrow> \<not> looping t \<and> Kind packet \<noteq> WhoareyouPacket"
| "udp_event_ok U t (PacketIn rawpacket fromAddr idNonce now) \<longleftrightarrow>
     (\<forall>k i n p. codecDecode U (codec t) rawpacket (UDPAddr_String fromAddr) (noise t 0) = Some (k, i, n, Inr p) \<longrightarrow> talk_ok U p)"
| "udp_event_ok U t e \<longleftrightarrow> True"

text \<open>The specification: every node has a queue of calls, to which a call is added and from whose front one is taken.\<close>

fun lane_event :: "('k, 'r, 's) UDPv5 \<Rightarrow> event \<Rightarrow> (ID \<Rightarrow> nat list) \<Rightarrow> ID \<Rightarrow> nat list" where
  "lane_event t (CallIn n rtype packet reqID) lanes = lanes(eID n := lanes (eID n) @ [ncalls t])"
| "lane_event t (DoneIn c) lanes = lanes(callID t c := tl (lanes (callID t c)))"
| "lane_event t (Closing queued active) lanes = (\<lambda>i. [])"
| "lane_event t e lanes = lanes"

definition sound_state ::
  "('priv, 'pub, 'c, 'k, 'r, 's) udp_lib \<Rightarrow> ('k \<Rightarrow> bool) \<Rightarrow> ('r \<Rightarrow> bool) \<Rightarrow> ('k, 'r, 's) UDPv5 \<Rightarrow> bool" where
  "sound_state U good r_ok t \<longleftrightarrow> env_ok U good r_ok t \<and> typed t \<and> (looping t \<longrightarrow> books_ok {} t)"

lemma keeps_sound: "keeps U good r_ok t t' \<Longrightarrow> sound_state U good r_ok t'"
  by (simp add: keeps_def sound_state_def)

lemma lane_enqueue:
  "lane (enqueue (new_call t n rtype packet reqID []) (ncalls t)) = (lane t)(eID n := lane t (eID n) @ [ncalls t])"
  by (auto simp: lane_def enqueue_def new_call_def fun_eq_iff split: option.splits)

lemma close_queues_maps:
  "callQueue (close_queues t is) = (\<lambda>i. if i \<in> set is then [] else callQueue t i) \<and>
   activeCallByNode (close_queues t is) = activeCallByNode t \<and>
   codec (close_queues t is) = codec t \<and> noise (close_queues t is) = noise t \<and> utab (close_queues t is) = utab t"
  by (induction "is" arbitrary: t) (auto simp: fun_eq_iff)

lemma close_active_maps:
  "activeCallByNode (close_active t is) = (\<lambda>i. if i \<in> set is then None else activeCallByNode t i) \<and>
   callQueue (close_active t is) = callQueue t \<and>
   codec (close_active t is) = codec t \<and> noise (close_active t is) = noise t \<and> utab (close_active t is) = utab t"
  by (induction "is" arbitrary: t) (auto simp: fun_eq_iff split: option.split)

lemma typed_close: "typed t \<Longrightarrow> typed (dispatch_close t queued active)"
proof -
  have q: "typed t \<Longrightarrow> typed (close_queues t is)" for "is" and t :: "('k, 'r, 's) UDPv5"
    by (induction t "is" rule: close_queues.induct) (auto simp: typed_def)
  have a: "typed t \<Longrightarrow> typed (close_active t is)" for "is" and t :: "('k, 'r, 's) UDPv5"
    by (induction t "is" rule: close_active.induct) (auto simp: typed_def split: option.split)
  show "typed t \<Longrightarrow> typed (dispatch_close t queued active)"
    using a [OF q] by (simp add: dispatch_close_def typed_def)
qed

definition udp_step ::
  "('priv, 'pub, 'c, 'k, 'r, 's) udp_lib \<Rightarrow> ('k, 'r, 's) UDPv5 option \<Rightarrow> event \<Rightarrow> ('k, 'r, 's) UDPv5 option" where
  "udp_step U s e = Option.bind s (\<lambda>t. dispatch_event U t e)"

definition occurs :: "('priv, 'pub, 'c, 'k, 'r, 's) udp_lib \<Rightarrow> ('k, 'r, 's) UDPv5 option \<Rightarrow> event \<Rightarrow> bool" where
  "occurs U s e \<longleftrightarrow> (\<exists>t. s = Some t \<and> enabled t e \<and> udp_event_ok U t e)"

abbreviation udp_run ::
  "('priv, 'pub, 'c, 'k, 'r, 's) udp_lib \<Rightarrow> ('k, 'r, 's) UDPv5 \<Rightarrow> event list \<Rightarrow> ('k, 'r, 's) UDPv5 option" where
  "udp_run U t es \<equiv> foldl (udp_step U) (Some t) es"

abbreviation possible :: "('priv, 'pub, 'c, 'k, 'r, 's) udp_lib \<Rightarrow> ('k, 'r, 's) UDPv5 \<Rightarrow> event list \<Rightarrow> bool" where
  "possible U t es \<equiv> run_ok (udp_step U) (occurs U) (Some t) es"

lemma lane_active:
  assumes "books_ok {} t"
  shows "activeCallByNode t i = (case lane t i of [] \<Rightarrow> None | c # q \<Rightarrow> Some c)"
    and "callQueue t i = tl (lane t i)" and "distinct (lane t i)"
proof -
  have Q: "queue_ok {} t" using assms by (simp add: books_ok_def)
  have "activeCallByNode t i = None \<Longrightarrow> callQueue t i = []" using queue_okD(3) [OF Q, of i] by auto
  moreover have "c \<notin> set (callQueue t i)" if "activeCallByNode t i = Some c" for c
    using queue_okD(1) [OF Q, of c i] that by auto
  ultimately show "activeCallByNode t i = (case lane t i of [] \<Rightarrow> None | c # q \<Rightarrow> Some c)" "callQueue t i = tl (lane t i)" "distinct (lane t i)"
    using queue_okD(2) [OF Q, of i] by (auto simp: lane_def split: option.split)
qed

lemma run_one: "enabled t e \<Longrightarrow> udp_event_ok U t e \<Longrightarrow> dispatch_event U t e = Some t' \<Longrightarrow>
    possible U t (e # es) = possible U t' es \<and> udp_run U t (e # es) = udp_run U t' es"
  by (simp add: udp_step_def occurs_def)

text \<open>The events of the timers, of the loop and of the clients that wait for it, which need no peer and no new call.\<close>

fun unaided :: "event \<Rightarrow> bool" where
  "unaided (TimeoutIn c timer) = True"
| "unaided (DoneIn c) = True"
| "unaided Deliver = True"
| "unaided (TakeResponse c) = True"
| "unaided (TakeError c) = True"
| "unaided e = False"

locale transport =
  fixes U :: "('priv, 'pub, 'c, 'k, 'r, 's) udp_lib" and good :: "'k \<Rightarrow> bool" and r_ok :: "'r \<Rightarrow> bool"
  assumes Encode_returns: "good k \<Longrightarrow> r_ok r \<Longrightarrow> sendable p ch \<Longrightarrow> \<exists>k' x. codecEncode U k i a p ch r = Some (k', x) \<and> good k'"
    and Decode_returns: "good k \<Longrightarrow> r_ok r \<Longrightarrow> \<exists>k' i n x. codecDecode U k raw a r = Some (k', i, n, x) \<and> good k'"
begin

lemma send_returns:
  assumes "env_ok U good r_ok t" "sendable p ch"
  shows "\<exists>k nz w n e. send U t i a p ch = Some (t\<lparr>codec := k, noise := nz, packetsOut := w\<rparr>, n, e) \<and> good k \<and> (\<forall>j. r_ok (nz j))"
proof -
  obtain k x where k: "codecEncode U (codec t) i (UDPAddr_String a) p ch (noise t 0) = Some (k, x)" "good k"
    using Encode_returns [of "codec t" "noise t 0" p ch i "UDPAddr_String a"] assms by (auto simp: env_ok_def)
  have "send U t i a p ch =
      Some (t\<lparr>codec := k, noise := \<lambda>j. noise t (Suc j),
               packetsOut := (case x of Inl _ \<Rightarrow> packetsOut t | Inr (enc, n) \<Rightarrow> packetsOut t @ [(a, enc)])\<rparr>,
            (case x of Inl _ \<Rightarrow> zeroNonce | Inr (enc, n) \<Rightarrow> n), (case x of Inl err \<Rightarrow> Some err | Inr _ \<Rightarrow> None))"
    using k(1) by (cases x) (auto simp: send_def)
  moreover have "\<forall>j. r_ok (noise t (Suc j))" using assms(1) by (simp add: env_ok_def)
  ultimately show ?thesis using k(2) by blast
qed

lemma sendResponse_returns:
  assumes "env_ok U good r_ok t" "sendable p None"
  shows "\<exists>t'. sendResponse U t i a p = Some t' \<and> env_ok U good r_ok t' \<and> same_books t t'"
  using send_returns [OF assms, of i a] assms(1)
  by (auto simp: sendResponse_def env_ok_def same_books_def)

lemma sendNodes_returns:
  assumes "env_ok U good r_ok t" "list_all (\<lambda>p. sendable p None) ps"
  shows "\<exists>t'. sendNodes U t i a ps = Some t' \<and> env_ok U good r_ok t' \<and> same_books t t'"
  using assms
proof (induction ps arbitrary: t)
  case (Cons p ps)
  obtain t1 where t1: "sendResponse U t i a p = Some t1" "env_ok U good r_ok t1" "same_books t t1"
    using sendResponse_returns [OF Cons.prems(1), of p i a] Cons.prems(2) by auto
  obtain t2 where "sendNodes U t1 i a ps = Some t2" "env_ok U good r_ok t2" "same_books t1 t2"
    using Cons.IH [OF t1(2)] Cons.prems(2) by auto
  then show ?case using t1 same_books_trans by auto
qed simp

lemma sendCall_returns:
  assumes "env_ok U good r_ok t" "call_ok k (calls t c)"
  shows "\<exists>t' n. sendCall U t c = Some t' \<and> env_ok U good r_ok t' \<and> same_books (mark_sent t c n) t'"
proof -
  let ?x = "calls t c"
  define t1 where "t1 = (if cnonce ?x \<noteq> zeroNonce then t\<lparr>activeCallByAuth := (activeCallByAuth t)(cnonce ?x := None)\<rparr> else t)"
  have t1: "env_ok U good r_ok t1" using assms(1) by (simp add: t1_def env_ok_def)
  have "\<forall>w. cpacket ?x \<noteq> Whoareyou w" using assms(2) by (auto simp: call_ok_def)
  then have "sendable (cpacket ?x) (cchallenge ?x)" using assms(2) by (auto simp: sendable_def call_ok_def)
  from send_returns [OF t1 this, of "eID (cnode ?x)" "(eIP (cnode ?x), int (eUDP (cnode ?x)))"]
  obtain k nz w n e where s: "send U t1 (eID (cnode ?x)) (eIP (cnode ?x), int (eUDP (cnode ?x))) (cpacket ?x) (cchallenge ?x) =
      Some (t1\<lparr>codec := k, noise := nz, packetsOut := w\<rparr>, n, e)" "good k" "\<forall>j. r_ok (nz j)" by blast
  show ?thesis
    using s assms(1) unfolding t1_def
    by (intro exI [of _ "(mark_sent t c n)\<lparr>codec := k, noise := nz, packetsOut := w\<rparr>"] exI [of _ n])
      (auto simp: sendCall_def mark_sent_def startResponseTimeout_def upd_call_def env_ok_def same_books_def Let_def)
qed

lemma sendNextCall_returns:
  assumes "env_ok U good r_ok t" "typed t" "books_ok {i} t"
  shows "\<exists>t'. sendNextCall U t i = Some t' \<and> keeps U good r_ok t t' \<and> outbox t' = outbox t"
proof (cases "callQueue t i = [] \<or> activeCallByNode t i \<noteq> None")
  case True
  then have "sendNextCall U t i = Some t" by (auto simp: sendNextCall_def split: list.split)
  then show ?thesis using assms books_ok_weaken [OF assms(3) True] by (simp add: keeps_def)
next
  case False
  then obtain c q where q: "callQueue t i = c # q" "activeCallByNode t i = None" by (cases "callQueue t i") auto
  define t1 where "t1 = t\<lparr>activeCallByNode := (activeCallByNode t)(i \<mapsto> c)\<rparr>"
  have "env_ok U good r_ok t1" "call_ok (ntimers t) (calls t1 c)" using assms(1,2) by (simp_all add: t1_def env_ok_def typed_def)
  from sendCall_returns [OF this] obtain t2 n where t2: "sendCall U t1 c = Some t2" "env_ok U good r_ok t2" "same_books (mark_sent t1 c n) t2"
    by blast
  define t' where "t' = t2\<lparr>callQueue := (callQueue t2)(i := q)\<rparr>"
  have same: "same_books (activate t i c q n) t'"
    using t2(3) by (simp add: same_books_def activate_def t1_def t'_def mark_sent_def)
  have "sendNextCall U t i = Some t'" using q t2(1) by (simp add: sendNextCall_def t1_def t'_def)
  moreover have "env_ok U good r_ok t'" using t2(2) by (simp add: t'_def env_ok_def)
  moreover have "typed t'" "books_ok {} t'"
    using same_books_inv(1,2) [OF same] typed_activate [OF assms(2)] books_ok_activate [OF assms(3) q(2,1)] by simp_all
  moreover have "lane t' = lane t"
    unfolding same_books_inv(3) [OF same] using q by (auto simp: lane_def activate_def mark_sent_def)
  moreover have "looping t' = looping t" "outbox t' = outbox t" "closed t' = closed t" "ncalls t' = ncalls t"
    using same by (simp_all add: same_books_def activate_def mark_sent_def)
  ultimately show ?thesis by (simp add: keeps_def)
qed

lemma handleWhoareyou_returns:
  assumes "env_ok U good r_ok t" "typed t" "books_ok {} t"
  shows "\<exists>t'. handleWhoareyou U t w i a = Some t' \<and> keeps U good r_ok t t'"
proof (cases "matchWithCall t i (wNonce w)")
  case (Inl err)
  then show ?thesis using assms by (simp add: handleWhoareyou_def keeps_def)
next
  case (Inr c)
  then have c: "activeCallByAuth t (wNonce w) = Some c" "\<not> handshakeCount (calls t c) > 0"
    by (auto simp: matchWithCall_def split: option.splits if_splits)
  have A: "active_ok t" and Q: "queue_ok {} t" and N: "auth_ok t" and C: "contact_ok t" using assms(3) by (simp_all add: books_ok_def)
  have act: "is_active t c" "c < ncalls t" using auth_okD [OF N c(1)] c(2) by auto
  define t1 where "t1 = upd_call t c (\<lambda>x. x\<lparr>handshakeCount := handshakeCount x + 1, cchallenge := Some (w\<lparr>wNode := Some (cnode x)\<rparr>)\<rparr>)"
  have hc: "handshakeCount (calls t c) = 0" using assms(2) c(2) by (auto simp: typed_def call_ok_def)
  have t1: "env_ok U good r_ok t1" "typed t1"
    using assms(1,2) hc unfolding typed_def by (auto simp: t1_def upd_call_def env_ok_def call_ok_def answers_def list_all_iff)
  have "active_ok t1" using A by (auto simp: active_ok_def t1_def upd_call_def)
  moreover have "queue_ok {} t1"
  proof (rule queue_okI)
    show "d < ncalls t1 \<and> callID t1 d = j \<and> activeCallByNode t1 j \<noteq> Some d \<and> d \<notin> finished t1 \<and>
        handshakeCount (calls t1 d) = 0 \<and> cnonce (calls t1 d) = zeroNonce" if "d \<in> set (callQueue t1 j)" for j d
      using queue_okD(1) [OF Q, of d j] that act(1) by (auto simp: t1_def upd_call_def)
  qed (use queue_okD(2,3) [OF Q] in \<open>simp_all add: t1_def upd_call_def\<close>)
  moreover have "auth_ok t1" using N act hc by (auto simp: auth_ok_def t1_def upd_call_def)
  moreover have "contact_ok t1" using C by (auto simp: contact_ok_def t1_def upd_call_def)
  ultimately have b1: "active_ok t1" "queue_ok {} t1" "auth_ok t1" "contact_ok t1" by simp_all
  have c1: "is_active t1 c" "c < ncalls t1" "handshakeCount (calls t1 c) = 1" using act hc by (simp_all add: t1_def upd_call_def)
  have b2: "books_ok {} (mark_sent t1 c n)" for n
    using active_ok_mark_sent [OF b1(1)] queue_ok_mark_sent [OF b1(2) c1(1)] auth_ok_mark_sent [OF b1(3) c1(1,2)]
      contact_ok_mark_sent [OF b1(4)] c1(3) by (simp add: books_ok_def)
  have "call_ok (ntimers t1) (calls t1 c)" using t1(2) by (simp add: typed_def)
  from sendCall_returns [OF t1(1) this] obtain t' n where t': "sendCall U t1 c = Some t'" "env_ok U good r_ok t'" "same_books (mark_sent t1 c n) t'"
    by blast
  have "handleWhoareyou U t w i a = Some t'" using Inr t'(1) by (simp add: handleWhoareyou_def t1_def)
  moreover have "lane t' = lane t" "looping t' = looping t" "closed t' = closed t" "ncalls t' = ncalls t"
    unfolding same_books_inv(3) [OF t'(3)] using t'(3) by (auto simp: same_books_def lane_def mark_sent_def t1_def upd_call_def)
  ultimately show ?thesis
    using t'(2) b2 [of n] typed_mark_sent [OF t1(2), of c n] same_books_inv(1,2) [OF t'(3)] by (simp add: keeps_def)
qed

lemma response_keeps:
  assumes "env_ok U good r_ok t" "typed t" "books_ok {} t" "sendable p None"
  shows "\<exists>t'. sendResponse U t i a p = Some t' \<and> keeps U good r_ok t t'"
  using sendResponse_returns [OF assms(1,4), of i a] keeps_same_books assms(2,3) by blast

lemma handleUnknown_returns:
  assumes "env_ok U good r_ok t" "typed t" "books_ok {} t"
  shows "\<exists>t'. handleUnknown U t nonce idNonce i a = Some t' \<and> keeps U good r_ok t t'"
proof -
  obtain bi where "bucket_index (disc U) (utab t) i = Some bi"
    using bucket_index_total [of "disc U" "utab t" i] assms(1) by (auto simp: env_ok_def)
  then obtain n where n: "udp_getNode U t i = Some n" by (simp add: udp_getNode_def getNode_def)
  define w where "w = \<lparr>ChallengeData = [], wNonce = nonce, IDNonce = idNonce, RecordSeq = (case n of Some n \<Rightarrow> eSeq n | None \<Rightarrow> 0), wNode = n, sent = 0\<rparr>"
  have "sendable (Whoareyou w) None" by (auto simp: sendable_def w_def split: option.splits)
  from response_keeps [OF assms this, of i a] show ?thesis using n by (simp add: handleUnknown_def w_def)
qed

lemma handleFindnode_returns:
  assumes "env_ok U good r_ok t" "typed t" "books_ok {} t"
  shows "\<exists>t'. handleFindnode U t reqID ds i a = Some t' \<and> keeps U good r_ok t t'"
proof -
  obtain ns where "collectTableNodes (utab t) (checkRelayIP U) (self (utab t)) (fst a) ds findnodeResultLimit = Some ns"
    using collect_loop_spec [of "utab t" "[]" findnodeResultLimit "checkRelayIP U" "self (utab t)" "fst a" "{}" ds] assms(1)
    by (auto simp: collectTableNodes_def env_ok_def table_ok_def findnodeResultLimit_def)
  then show ?thesis
    using sendNodes_returns [OF assms(1) packNodes_sendable, of i a "wire U" reqID ns] keeps_same_books assms(2,3)
    by (auto simp: handleFindnode_def)
qed

lemma response_handled:
  assumes "env_ok U good r_ok t" "typed t" "books_ok {} t"
  shows "keeps U good r_ok t (snd (handleCallResponse t i a p))"
proof -
  obtain b t' where b: "handleCallResponse t i a p = (b, t')" by fastforce
  have "env_ok U good r_ok t'" "lane t' = lane t" "looping t' = looping t" "closed t' = closed t" "ncalls t' = ncalls t"
    using b assms(1)
    by (auto simp: handleCallResponse_def startResponseTimeout_def upd_call_def env_ok_def lane_def Let_def fun_eq_iff
        split: option.splits if_splits)
  then show ?thesis using handleCallResponse_cases [OF assms(3,2) b] b by (simp add: keeps_def)
qed

lemma handleTalk_returns:
  assumes "env_ok U good r_ok t" "typed t" "books_ok {} t" "talk_ok U (TalkRequest reqID protocol message)"
  shows "\<exists>t'. handle U t (TalkRequest reqID protocol message) idNonce i a = Some t' \<and> keeps U good r_ok t t'"
proof (cases "isTalkExtProtocol (md5 U) protocol")
  case True
  then obtain pk where "unmarshal U message = Some pk" using assms(4) by (auto simp: talk_ok_def)
  then have "handle U t (TalkRequest reqID protocol message) idNonce i a =
      Some (t\<lparr>TalkExtConnections := store_packet (TalkExtConnections t) pk\<rparr>)"
    using True by (simp add: handle_def handleTalkExt_def MessageToTalkExtPacket_def)
  moreover have "keeps U good r_ok t (t\<lparr>TalkExtConnections := store_packet (TalkExtConnections t) pk\<rparr>)"
    using assms by (intro keeps_same_books) (simp_all add: same_books_def env_ok_def)
  ultimately show ?thesis by blast
next
  case False
  then show ?thesis
    using response_keeps [OF assms(1-3) sendable_None, of _ i a]
    by (simp add: handle_def handleTalkExt_def handleTalkRequest_def Let_def msg_kinds)
qed

lemma keeps_statement: "keeps U good r_ok t t' \<Longrightarrow> keeps U good r_ok t (t'\<lparr>endpointStatements := es\<rparr>)"
  using same_books_inv [of t' "t'\<lparr>endpointStatements := es\<rparr>"] by (simp add: keeps_def same_books_def env_ok_def)

lemma handle_returns:
  assumes "env_ok U good r_ok t" "typed t" "books_ok {} t" "talk_ok U p"
  shows "\<exists>t'. handle U t p idNonce i a = Some t' \<and> keeps U good r_ok t t'"
proof -
  note ok = assms(1-3)
  have self: "keeps U good r_ok t t" using ok by (simp add: keeps_def)
  note resp = response_handled [OF ok, of i a p]
  show ?thesis
  proof (cases p)
    case (Unknown nonce)
    then show ?thesis using handleUnknown_returns [OF ok] by (simp add: handle_def)
  next
    case (Whoareyou w)
    then show ?thesis using handleWhoareyou_returns [OF ok] by (simp add: handle_def)
  next
    case (Ping reqID seq)
    then show ?thesis using response_keeps [OF ok sendable_None] by (simp add: handle_def handlePing_def Let_def msg_kinds)
  next
    case (Pong reqID seq ip port)
    obtain b t' where b: "handleCallResponse t i a p = (b, t')" by fastforce
    then show ?thesis
      using Pong resp keeps_statement [of t t'] by (cases b) (simp_all add: handle_def)
  next
    case (Findnode reqID ds)
    then show ?thesis using handleFindnode_returns [OF ok] by (simp add: handle_def)
  next
    case (TalkRequest reqID protocol message)
    then show ?thesis using handleTalk_returns [OF ok] assms(4) by simp
  qed (use self resp in \<open>simp_all add: handle_def\<close>)
qed

lemma handlePacket_returns:
  assumes "env_ok U good r_ok t" "typed t" "books_ok {} t" "udp_event_ok U t (PacketIn raw a idNonce now)"
  shows "\<exists>t'. handlePacket U t raw a idNonce now = Some t' \<and> keeps U good r_ok t t'"
proof -
  obtain k i n x where d: "codecDecode U (codec t) raw (UDPAddr_String a) (noise t 0) = Some (k, i, n, x)" "good k"
    using Decode_returns [of "codec t" "noise t 0" raw "UDPAddr_String a"] assms(1) by (auto simp: env_ok_def)
  define t1 where "t1 = t\<lparr>codec := k, noise := (\<lambda>i. noise t (Suc i))\<rparr>"
  have t1: "env_ok U good r_ok t1" "same_books t t1" using assms(1) d(2) by (simp_all add: t1_def env_ok_def same_books_def)
  show ?thesis
  proof (cases x)
    case (Inl err)
    then show ?thesis
      using d t1 keeps_same_books [OF t1(2,1) assms(2,3)] by (simp add: handlePacket_def t1_def)
  next
    case (Inr p)
    have tab0: "table_ok (disc U) ((utab t1)\<lparr>fresh := Suc (fresh (utab t1))\<rparr>)"
      using t1(1) table_okI_shape [of "disc U" "utab t1" "(utab t1)\<lparr>fresh := Suc (fresh (utab t1))\<rparr>"]
      by (simp add: env_ok_def shape_def)
    have "\<exists>t2. (case n of None \<Rightarrow> Some t1 | Some n \<Rightarrow>
        do { tab \<leftarrow> addSeenNode (disc U) ((utab t1)\<lparr>fresh := Suc (fresh (utab t1))\<rparr>) (wrapNode (fresh (utab t1)) n) now;
             Some (t1\<lparr>utab := tab\<rparr>) }) = Some t2 \<and> env_ok U good r_ok t2 \<and> same_books t1 t2"
    proof (cases n)
      case (Some m)
      obtain tab where "addSeenNode (disc U) ((utab t1)\<lparr>fresh := Suc (fresh (utab t1))\<rparr>) (wrapNode (fresh (utab t1)) m) now = Some tab"
        "table_ok (disc U) tab"
        using addSeenNode_ok [OF tab0, of "wrapNode (fresh (utab t1)) m" now] t1(1) by (auto simp: env_ok_def)
      then show ?thesis using Some t1(1) by (simp add: env_ok_def same_books_def)
    qed (use t1 in simp)
    then obtain t2 where t2: "(case n of None \<Rightarrow> Some t1 | Some n \<Rightarrow>
        do { tab \<leftarrow> addSeenNode (disc U) ((utab t1)\<lparr>fresh := Suc (fresh (utab t1))\<rparr>) (wrapNode (fresh (utab t1)) n) now;
             Some (t1\<lparr>utab := tab\<rparr>) }) = Some t2" "env_ok U good r_ok t2" "same_books t1 t2" by blast
    have same: "same_books t t2" using same_books_trans t1(2) t2(3) by blast
    have "typed t2" "books_ok {} t2" using same_books_inv [OF same] assms(2,3) by simp_all
    moreover have "talk_ok U p" using assms(4) d(1) Inr by simp
    ultimately obtain t' where t': "handle U t2 p idNonce i a = Some t'" "keeps U good r_ok t2 t'"
      using handle_returns [OF t2(2)] by blast
    have "handlePacket U t raw a idNonce now = Some t'"
      using d(1) Inr t2(1) t'(1) by (simp add: handlePacket_def t1_def [symmetric])
    moreover have "keeps U good r_ok t t'" using t'(2) same_books_inv(3) [OF same] same by (simp add: keeps_def same_books_def)
    ultimately show ?thesis by blast
  qed
qed

lemma call_returns:
  assumes "sound_state U good r_ok t" "looping t" "Kind packet \<noteq> WhoareyouPacket"
  shows "\<exists>t'. dispatch_event U t (CallIn n rtype packet reqID) = Some t' \<and> sound_state U good r_ok t' \<and>
     lane t' = lane_event t (CallIn n rtype packet reqID) (lane t) \<and> looping t' \<and> outbox t' = outbox t \<and> closed t' = closed t \<and>
     ncalls t' = Suc (ncalls t)"
proof -
  let ?t = "enqueue (new_call t n rtype packet reqID []) (ncalls t)"
  have ok: "env_ok U good r_ok t" "typed t" "books_ok {} t" using assms(1,2) by (simp_all add: sound_state_def)
  have "env_ok U good r_ok ?t" using ok(1) by (simp add: env_ok_def enqueue_def new_call_def)
  moreover have "typed ?t" using typed_new_call [OF ok(2) assms(3)] by (simp add: typed_def enqueue_def)
  ultimately obtain t' where t': "sendNextCall U ?t (eID n) = Some t'" "keeps U good r_ok ?t t'" "outbox t' = outbox ?t"
    using sendNextCall_returns [OF _ _ books_ok_new_call [OF ok(3)]] by blast
  have "dispatch_event U t (CallIn n rtype packet reqID) = Some t'"
    using t'(1) by (simp add: dispatch_call_def enqueue_def Let_def) (simp add: new_call_def)
  moreover have "looping ?t" "outbox ?t = outbox t" "closed ?t = closed t" "ncalls ?t = Suc (ncalls t)" using assms(2) by (simp_all add: enqueue_def new_call_def)
  ultimately show ?thesis using t'(2,3) keeps_sound [OF t'(2)] unfolding keeps_def lane_enqueue by auto
qed

lemma done_returns:
  assumes "sound_state U good r_ok t" "enabled t (DoneIn c)"
  shows "\<exists>t'. dispatch_event U t (DoneIn c) = Some t' \<and> sound_state U good r_ok t' \<and>
     lane t' = lane_event t (DoneIn c) (lane t) \<and> looping t' \<and> lane t (callID t c) = c # callQueue t (callID t c) \<and>
     outbox t' = outbox t \<and> closed t' = closed t"
proof -
  have ok: "env_ok U good r_ok t" "typed t" "books_ok {} t" using assms by (simp_all add: sound_state_def)
  have act: "is_active t c" using contact_okD(2) [OF books_ok_contact [OF ok(3)], of c] assms(2) by simp
  have timer: "ctimeout (calls t c) \<noteq> None" using active_okD [of t _ c, OF _ act] ok(3) by (simp add: books_ok_def)
  let ?t = "t\<lparr>finished := insert c (finished t), activeCallByAuth := (activeCallByAuth t)(cnonce (calls t c) := None),
           activeCallByNode := (activeCallByNode t)(callID t c := None)\<rparr>"
  have "env_ok U good r_ok ?t" "typed ?t" using ok(1,2) by (simp_all add: env_ok_def typed_def)
  then obtain t' where t': "sendNextCall U ?t (callID t c) = Some t'" "keeps U good r_ok ?t t'" "outbox t' = outbox ?t"
    using sendNextCall_returns [OF _ _ books_ok_done [OF ok(3) act]] assms(2) by auto
  have "dispatch_event U t (DoneIn c) = Some t'" using t'(1) act timer by (simp add: dispatch_done_def Let_def)
  moreover have "lane ?t = lane_event t (DoneIn c) (lane t)" "lane t (callID t c) = c # callQueue t (callID t c)"
    using act by (auto simp: lane_def fun_eq_iff)
  ultimately show ?thesis using t'(2,3) keeps_sound [OF t'(2)] assms(2) unfolding keeps_def by auto
qed

lemma event_returns:
  assumes "sound_state U good r_ok t" "enabled t e" "udp_event_ok U t e"
  shows "\<exists>t'. dispatch_event U t e = Some t' \<and> sound_state U good r_ok t' \<and> (looping t \<longrightarrow> lane t' = lane_event t e (lane t))"
proof -
  have ok: "env_ok U good r_ok t" "typed t" "looping t \<longrightarrow> books_ok {} t" using assms(1) by (simp_all add: sound_state_def)
  show ?thesis
  proof (cases e)
    case (CallIn n rtype packet reqID)
    then have "looping t" "Kind packet \<noteq> WhoareyouPacket" using assms(2,3) by simp_all
    from call_returns [OF assms(1) this, of n rtype reqID] show ?thesis unfolding CallIn by blast
  next
    case (DoneIn c)
    then show ?thesis using done_returns [OF assms(1), of c] assms(2) by auto
  next
    case (PacketIn raw a idNonce now)
    then have "books_ok {} t" "udp_event_ok U t (PacketIn raw a idNonce now)" using assms(2,3) ok(3) by simp_all
    from handlePacket_returns [OF ok(1,2) this] obtain t' where t': "dispatch_event U t e = Some t'" "keeps U good r_ok t t'"
      using PacketIn by auto
    then show ?thesis using PacketIn keeps_sound [OF t'(2)] unfolding keeps_def by auto
  next
    case (Closing queued active)
    have "lane (dispatch_close t queued active) = (\<lambda>i. [])"
      using assms(2) Closing close_queues_maps [of t queued] close_active_maps [of "close_queues t queued" active]
      by (auto simp: dispatch_close_def lane_def fun_eq_iff split: option.split)
    moreover have "sound_state U good r_ok (dispatch_close t queued active)"
      using ok(1) typed_close [OF ok(2), of queued active] close_queues_maps [of t queued] close_active_maps [of "close_queues t queued" active]
      unfolding sound_state_def by (simp add: dispatch_close_def env_ok_def)
    ultimately show ?thesis using Closing by simp
  next
    case (TimeoutIn c timer)
    have "lane (dispatch_timeout t c timer) = lane t" "env_ok U good r_ok (dispatch_timeout t c timer)"
      "looping (dispatch_timeout t c timer) = looping t"
      using ok(1) by (auto simp: dispatch_timeout_def lane_def env_ok_def fun_eq_iff)
    then show ?thesis using TimeoutIn ok books_ok_timeout [of t c timer] typed_timeout [of t c timer] by (simp add: sound_state_def)
  next
    case Deliver
    have "lane (deliver t) = lane t" "env_ok U good r_ok (deliver t)" "looping (deliver t) = looping t"
      using ok(1) by (auto simp: deliver_def upd_call_def lane_def env_ok_def fun_eq_iff split: list.split sum.split)
    then show ?thesis using Deliver ok assms(2) books_ok_deliver [of t] typed_deliver [of t] by (simp add: sound_state_def)
  next
    case (TakeResponse c)
    have "lane (take_response t c) = lane t" "env_ok U good r_ok (take_response t c)" "looping (take_response t c) = looping t"
      using ok(1) by (auto simp: take_response_def upd_call_def lane_def env_ok_def fun_eq_iff)
    then show ?thesis using TakeResponse assms(2) ok books_ok_take(1) [of t c] typed_take(1) [of t c] by (auto simp: sound_state_def)
  next
    case (TakeError c)
    have "lane (take_error t c) = lane t" "env_ok U good r_ok (take_error t c)" "looping (take_error t c) = looping t"
      using ok(1) by (auto simp: take_error_def upd_call_def lane_def env_ok_def fun_eq_iff)
    then show ?thesis using TakeError assms(2) ok books_ok_take(2) [of t c] typed_take(2) [of t c] by (auto simp: sound_state_def)
  next
    case (CallRefused n rtype packet reqID)
    then show ?thesis
      using assms(3) ok typed_new_call [OF ok(2), of packet "[errClosed]" n rtype reqID]
      by (simp add: sound_state_def) (simp add: env_ok_def new_call_def)
  next
    case (DoneClosed c)
    then show ?thesis
      using assms(2) ok books_ok_closed(2) [of t c] by (auto simp: sound_state_def env_ok_def typed_def lane_def fun_eq_iff)
  next
    case (Register protocol handler)
    then show ?thesis
      using ok same_books_inv [of t "RegisterTalkHandler t protocol handler"]
      by (simp add: sound_state_def same_books_def RegisterTalkHandler_def) (simp add: env_ok_def)
  next
    case Close
    then show ?thesis
      using ok books_ok_closed(1) [of t] by (auto simp: sound_state_def env_ok_def typed_def lane_def fun_eq_iff)
  qed
qed

lemma never_stuck:
  assumes "sound_state U good r_ok t" "looping t" "\<not> closed t" "outbox t = (c, m) # ms"
  shows "enabled t Deliver \<or> enabled t (TakeResponse c) \<or> enabled t (TakeError c)"
proof -
  have C: "contact_ok t" using assms(1,2) by (simp add: sound_state_def books_ok_def)
  have "is_active t c" using contact_okD(1) [OF C, of c m] assms(4) by simp
  then have "c \<notin> finished t" using contact_okD(4) [OF C, of c] assms(3) by blast
  then show ?thesis using assms(4) by (cases m) auto
qed

lemma room_made:
  assumes ok: "sound_state U good r_ok t" "looping t" "\<not> closed t" and ob: "outbox t = (c, m) # ms"
  shows "\<exists>es t'. length es \<le> 1 \<and> list_all unaided es \<and> possible U t es \<and> udp_run U t es = Some t' \<and> sound_state U good r_ok t' \<and>
     looping t' \<and> \<not> closed t' \<and> outbox t' = outbox t \<and> lane t' = lane t \<and> enabled t' Deliver"
proof (cases "enabled t Deliver")
  case True
  then show ?thesis using assms by (intro exI [of _ "[]"] exI [of _ t]) simp
next
  case False
  have C: "contact_ok t" "typed t" using ok by (simp_all add: sound_state_def books_ok_def)
  have "is_active t c" using contact_okD(1) [OF C(1), of c m] ob by simp
  then have nf: "c \<notin> finished t" using contact_okD(4) [OF C(1), of c] ok(3) by blast
  have "tl xs = []" if "length xs \<le> 1" for xs :: "'z list" using that by (cases xs) auto
  moreover have "length (cch (calls t c)) \<le> 1" "length (cerr (calls t c)) \<le> 1" using C(2) by (simp_all add: typed_def call_ok_def)
  ultimately have one: "tl (cch (calls t c)) = []" "tl (cerr (calls t c)) = []" by simp_all
  define e where "e = (case m of Inl err \<Rightarrow> TakeError c | Inr p \<Rightarrow> TakeResponse c)"
  have e: "enabled t e" "udp_event_ok U t e" "unaided e" using False ob nf by (auto simp: e_def split: sum.splits)
  obtain t1 where t1: "dispatch_event U t e = Some t1" "sound_state U good r_ok t1" "lane t1 = lane t"
    using event_returns [OF ok(1) e(1,2)] ok(2) by (auto simp: e_def split: sum.splits)
  then have "t1 = (case m of Inl err \<Rightarrow> take_error t c | Inr p \<Rightarrow> take_response t c)" by (simp add: e_def split: sum.splits)
  then have "looping t1" "\<not> closed t1" "outbox t1 = outbox t" "enabled t1 Deliver"
    using ok(2,3) ob one by (auto simp: take_error_def take_response_def upd_call_def split: sum.splits)
  then show ?thesis
    using e(3) t1(2,3) run_one [OF e(1,2) t1(1), of "[]"] by (intro exI [of _ "[e]"] exI [of _ t1]) simp
qed

text \<open>What one event does to the calls of a node, as long as the transport is open: nothing is dropped or overtaken.\<close>

lemma open_lane:
  assumes ok: "sound_state U good r_ok t" and l: "looping t" "\<not> closed t" and e: "enabled t e" "udp_event_ok U t e"
    and t': "dispatch_event U t e = Some t'"
  shows "lane t' i = lane t i \<or> (\<exists>d. lane t' i = lane t i @ [d]) \<or> (\<exists>c. e = DoneIn c \<and> lane t i = c # lane t' i)"
proof -
  have ev: "lane t' = lane_event t e (lane t)" using event_returns [OF ok e] t' l(1) by auto
  show ?thesis
  proof (cases e)
    case (DoneIn c)
    then show ?thesis using ev done_returns [OF ok, of c] e(1) by auto
  next
    case (Closing queued active)
    then show ?thesis using e(1) l(2) by simp
  qed (use ev in auto)
qed

text \<open>
  A message for a client can always be delivered, after the client has made room for it, and the active call of a node
  can always be brought to its end: it times out, the client receives the error and is done. None of these events
  needs a packet.
\<close>

lemma drains:
  "sound_state U good r_ok t \<Longrightarrow> looping t \<Longrightarrow> \<not> closed t \<Longrightarrow>
   \<exists>es t'. length es \<le> 2 * length (outbox t) \<and> list_all unaided es \<and> possible U t es \<and> udp_run U t es = Some t' \<and>
     sound_state U good r_ok t' \<and> idle t' \<and> \<not> closed t' \<and> lane t' = lane t"
proof (induction "length (outbox t)" arbitrary: t)
  case 0
  then show ?case by (intro exI [of _ "[]"] exI [of _ t]) simp
next
  case (Suc k)
  obtain c m ms where ob: "outbox t = (c, m) # ms" using Suc.hyps(2) by (cases "outbox t") auto
  obtain es0 t0 where t0: "length es0 \<le> 1" "list_all unaided es0" "possible U t es0" "udp_run U t es0 = Some t0" "sound_state U good r_ok t0"
    "looping t0" "\<not> closed t0" "outbox t0 = outbox t" "lane t0 = lane t" "enabled t0 Deliver"
    using room_made [OF Suc.prems ob] by blast
  obtain t1 where t1: "dispatch_event U t0 Deliver = Some t1" "sound_state U good r_ok t1" "lane t1 = lane t0"
    using event_returns [OF t0(5,10)] t0(6) by auto
  have "t1 = deliver t0" using t1(1) by simp
  then have d: "outbox t1 = ms" "looping t1" "\<not> closed t1"
    using ob t0(6-8) by (cases m; simp add: deliver_def upd_call_def)+
  have k: "k = length (outbox t1)" using Suc.hyps(2) ob d(1) by simp
  obtain es t' where es: "length es \<le> 2 * length (outbox t1)" "list_all unaided es" "possible U t1 es" "udp_run U t1 es = Some t'"
    "sound_state U good r_ok t'" "idle t'" "\<not> closed t'" "lane t' = lane t1"
    using Suc.hyps(1) [OF k t1(2) d(2,3)] by blast
  have "possible U t (es0 @ Deliver # es)" "udp_run U t (es0 @ Deliver # es) = Some t'"
    using t0(3,4) run_one [OF t0(10) _ t1(1), of es] es(3,4) by (simp_all add: run_ok_append)
  then show ?case
    using t0(1,2,9) t1(3) es ob d(1) by (intro exI [of _ "es0 @ Deliver # es"] exI [of _ t']) simp
qed

lemma active_ends:
  assumes ok: "sound_state U good r_ok t" and idle: "idle t" and op: "\<not> closed t" and a: "activeCallByNode t i = Some a"
  shows "\<exists>es t'. length es \<le> 3 \<and> list_all unaided es \<and> possible U t es \<and> udp_run U t es = Some t' \<and> enabled t' (DoneIn a) \<and>
     lane t' = lane t \<and> sound_state U good r_ok t' \<and> callID t' a = i \<and> closed t' = closed t"
proof -
  have books: "books_ok {} t" "typed t" using ok idle by (simp_all add: sound_state_def)
  have a': "a < ncalls t" "callID t a = i" "ctimeout (calls t a) \<noteq> None"
    using active_okD [of t i a] a books(1) by (simp_all add: books_ok_def)
  obtain tm where tm: "ctimeout (calls t a) = Some tm" using a'(3) by blast
  have "call_ok (ntimers t) (calls t a)" using books(2) by (simp add: typed_def)
  then have lt: "tm < ntimers t" using tm by (simp add: call_ok_def)
  have nf: "a \<notin> finished t" using contact_okD(4) [OF books_ok_contact [OF books(1)], of a] op a a'(2) by auto
  show ?thesis
  proof (cases "cerr (calls t a) = []")
    case False
    have e: "enabled t (TakeError a)" using False nf by simp
    obtain t1 where t1: "dispatch_event U t (TakeError a) = Some t1" "sound_state U good r_ok t1" "lane t1 = lane t"
      using event_returns [OF ok e] idle by auto
    then have "t1 = take_error t a" by simp
    then have "enabled t1 (DoneIn a)" "callID t1 a = i" "closed t1 = closed t" using idle nf a'(2) by (simp_all add: take_error_def upd_call_def)
    then show ?thesis
      using run_one [OF e _ t1(1), of "[]"] t1(2,3) by (intro exI [of _ "[TakeError a]"] exI [of _ t1]) simp
  next
    case True
    have e1: "enabled t (TimeoutIn a tm)" using idle a'(1) lt by simp
    obtain t1 where t1: "dispatch_event U t (TimeoutIn a tm) = Some t1" "sound_state U good r_ok t1" "lane t1 = lane t"
      using event_returns [OF ok e1] idle by auto
    then have s1: "t1 = t\<lparr>outbox := [(a, Inl errTimeout)]\<rparr>" using a a'(2) tm idle by (simp add: dispatch_timeout_def)
    have e2: "enabled t1 Deliver" "looping t1" using True s1 idle by simp_all
    obtain t2 where t2: "dispatch_event U t1 Deliver = Some t2" "sound_state U good r_ok t2" "lane t2 = lane t1"
      using event_returns [OF t1(2) e2(1)] e2(2) by auto
    then have s2: "t2 = (upd_call t1 a (\<lambda>x. x\<lparr>cerr := cerr x @ [errTimeout]\<rparr>))\<lparr>outbox := []\<rparr>" using s1 by (simp add: deliver_def)
    have e3: "enabled t2 (TakeError a)" "looping t2" using s2 s1 nf idle by (simp_all add: upd_call_def)
    obtain t3 where t3: "dispatch_event U t2 (TakeError a) = Some t3" "sound_state U good r_ok t3" "lane t3 = lane t2"
      using event_returns [OF t2(2) e3(1)] e3(2) by auto
    then have "t3 = take_error t2 a" by simp
    then have "enabled t3 (DoneIn a)" "callID t3 a = i" "closed t3 = closed t"
      using s2 s1 idle nf a'(2) by (simp_all add: take_error_def upd_call_def)
    then show ?thesis
      using run_one [OF e1 _ t1(1), of "[Deliver, TakeError a]"] run_one [OF e2(1) _ t2(1), of "[TakeError a]"]
        run_one [OF e3(1) _ t3(1), of "[]"] t1(3) t2(3) t3(2,3)
      by (intro exI [of _ "[TimeoutIn a tm, Deliver, TakeError a]"] exI [of _ t3]) simp
  qed
qed

lemma queue_moves:
  assumes ok: "sound_state U good r_ok t" and idle: "idle t" and op: "\<not> closed t" and q: "callQueue t i = c # q"
  shows "\<exists>es t'. length es \<le> 4 \<and> list_all unaided es \<and> possible U t es \<and> udp_run U t es = Some t' \<and>
     activeCallByNode t' i = Some c \<and> callQueue t' i = q \<and> sound_state U good r_ok t' \<and> idle t' \<and> \<not> closed t'"
proof -
  have books: "books_ok {} t" using ok idle by (simp add: sound_state_def)
  obtain a where a: "activeCallByNode t i = Some a" using books queue_okD(3) [of "{}" t i] q by (auto simp: books_ok_def)
  then have lane: "lane t i = a # c # q" using q by (simp add: lane_def)
  obtain es t1 where t1: "length es \<le> 3" "list_all unaided es" "possible U t es" "udp_run U t es = Some t1" "enabled t1 (DoneIn a)"
    "lane t1 = lane t" "sound_state U good r_ok t1" "callID t1 a = i" "closed t1 = closed t"
    using active_ends [OF ok idle op a] by blast
  obtain t' where t': "dispatch_event U t1 (DoneIn a) = Some t'" "sound_state U good r_ok t'" "lane t' = lane_event t1 (DoneIn a) (lane t1)"
    "looping t'" "outbox t' = outbox t1" "closed t' = closed t1"
    using done_returns [OF t1(7,5)] by blast
  have "lane t' i = c # q" using t'(3) t1(6,8) lane by simp
  moreover have "books_ok {} t'" using t'(2,4) by (simp add: sound_state_def)
  ultimately have "activeCallByNode t' i = Some c" "callQueue t' i = q" using lane_active(1,2) [of t' i] by simp_all
  moreover have "possible U t (es @ [DoneIn a])" "udp_run U t (es @ [DoneIn a]) = Some t'"
    using t1(3,4,5) t'(1) by (simp_all add: run_ok_append occurs_def udp_step_def)
  ultimately show ?thesis using t1(1,2,5,9) t' op by (intro exI [of _ "es @ [DoneIn a]"] exI [of _ t']) simp
qed

lemma queue_reaches:
  "sound_state U good r_ok t \<Longrightarrow> idle t \<Longrightarrow> \<not> closed t \<Longrightarrow> callQueue t i = before @ c # q \<Longrightarrow>
   \<exists>es t'. length es \<le> 4 * Suc (length before) \<and> list_all unaided es \<and> possible U t es \<and> udp_run U t es = Some t' \<and>
     activeCallByNode t' i = Some c \<and> callQueue t' i = q"
proof (induction before arbitrary: t)
  case Nil
  then show ?case using queue_moves [of t i c q] by auto
next
  case (Cons b before)
  obtain es1 t1 where t1: "length es1 \<le> 4" "list_all unaided es1" "possible U t es1" "udp_run U t es1 = Some t1" "callQueue t1 i = before @ c # q"
    "sound_state U good r_ok t1" "idle t1" "\<not> closed t1"
    using queue_moves [OF Cons.prems(1-3), of i b "before @ c # q"] Cons.prems(4) by auto
  obtain es t' where "length es \<le> 4 * Suc (length before)" "list_all unaided es" "possible U t1 es" "udp_run U t1 es = Some t'"
    "activeCallByNode t' i = Some c" "callQueue t' i = q"
    using Cons.IH [OF t1(6-8,5)] by blast
  then show ?case
    using t1 by (intro exI [of _ "es1 @ es"] exI [of _ t']) (simp add: run_ok_append)
qed

lemma waiting_reaches:
  assumes "sound_state U good r_ok t" "looping t" "\<not> closed t" "callQueue t i = before @ c # q"
  shows "\<exists>es t'. length es \<le> 2 * length (outbox t) + 4 * Suc (length before) \<and> list_all unaided es \<and> possible U t es \<and>
     udp_run U t es = Some t' \<and> activeCallByNode t' i = Some c \<and> callQueue t' i = q"
proof -
  obtain es1 t1 where t1: "length es1 \<le> 2 * length (outbox t)" "list_all unaided es1" "possible U t es1" "udp_run U t es1 = Some t1"
    "sound_state U good r_ok t1" "idle t1" "\<not> closed t1" "lane t1 = lane t"
    using drains [OF assms(1-3)] by blast
  have "books_ok {} t" "books_ok {} t1" using assms(1,2) t1(5,6) by (simp_all add: sound_state_def)
  then have "callQueue t1 i = before @ c # q" using lane_active(2) [of t i] lane_active(2) [of t1 i] t1(8) assms(4) by simp
  from queue_reaches [OF t1(5-7) this] obtain es t' where "length es \<le> 4 * Suc (length before)" "list_all unaided es" "possible U t1 es"
    "udp_run U t1 es = Some t'" "activeCallByNode t' i = Some c" "callQueue t' i = q" by blast
  then show ?thesis using t1(1-4) by (intro exI [of _ "es1 @ es"] exI [of _ t']) (simp add: run_ok_append)
qed

end

sublocale transport \<subseteq> runs: event_machine "udp_step U" "occurs U" "\<lambda>s. \<exists>t. s = Some t \<and> sound_state U good r_ok t"
proof
  fix s e
  assume "\<exists>t. s = Some t \<and> sound_state U good r_ok t" "occurs U s e"
  then obtain t where t: "s = Some t" "sound_state U good r_ok t" "enabled t e" "udp_event_ok U t e" by (auto simp: occurs_def)
  from event_returns [OF t(2-4)] t(1) show "\<exists>t. udp_step U s e = Some t \<and> sound_state U good r_ok t"
    by (auto simp: udp_step_def)
qed

context transport
begin

lemma run_returns:
  assumes "sound_state U good r_ok t0" "possible U t0 es"
  shows "\<exists>t. udp_run U t0 es = Some t \<and> sound_state U good r_ok t"
  using runs.inv_run [OF _ assms(2)] assms(1) by blast

end

lemma newUDPv5_sound:
  assumes "newUDPv5 U k ns slf bootnodes queried now = Some (Inr t)" "good k" "\<And>i. r_ok (ns i)" "logdist_ok (disc U)"
  shows "sound_state U good r_ok t \<and> idle t \<and> \<not> closed t \<and> lane t = (\<lambda>i. []) \<and> ncalls t = 0"
proof -
  obtain tab where tab: "newTable (disc U) slf bootnodes queried now = Some (Inr tab)" "codec t = k" "noise t = ns" "utab t = tab"
    "looping t" "outbox t = []" "\<not> closed t" "ncalls t = 0" "activeCallByNode t = Map.empty" "activeCallByAuth t = Map.empty" "callQueue t = (\<lambda>_. [])"
    "answered t = {}" "finished t = {}"
    "\<And>c. calls t c = \<lparr>cnode = slf, cpacket = Unknown [], responseType = 0, creqid = [], cch = [], cerr = [],
                             cnonce = zeroNonce, handshakeCount = 0, cchallenge = None, ctimeout = None\<rparr>"
    using assms(1) by (auto simp: newUDPv5_def split: bind_splits sum.splits)
  have "table_ok (disc U) tab" using newTable_ok [OF assms(4), of slf bootnodes queried now] tab(1) by auto
  then have "env_ok U good r_ok t" using assms(2-4) tab by (simp add: env_ok_def)
  moreover have "typed t" using tab by (simp add: typed_def call_ok_def msg_kinds)
  moreover have "books_ok {} t" using tab by (simp add: books_ok_def active_ok_def queue_ok_def auth_ok_def contact_ok_def)
  ultimately show ?thesis using tab by (simp add: sound_state_def lane_def fun_eq_iff)
qed

subsection \<open>The transport with the codec of v5wire\<close>

definition v5_udp ::
  "('priv, 'pub, 'c) wire_lib \<Rightarrow> 's disc_lib \<Rightarrow> (IP \<Rightarrow> IP \<Rightarrow> string option) \<Rightarrow> (ID \<Rightarrow> enode option) \<Rightarrow> (bytes \<Rightarrow> bytes) \<Rightarrow>
   (bytes \<Rightarrow> TalkExtPacket option) \<Rightarrow> ('priv, 'pub, 'c, ('priv, 'c) Codec, 'priv entropy \<times> int, 's) udp_lib" where
  "v5_udp W D relay db h u =
     \<lparr>codecEncode = (\<lambda>k i a p ch r. Encode W k i a p ch (fst r) (snd r)), codecDecode = (\<lambda>k raw a r. Decode W k raw a (snd r)),
      wire = W, disc = D, checkRelayIP = relay, dbNode = db, md5 = h, unmarshal = u\<rparr>"

definition good_codec :: "('priv, 'pub, 'c) wire_lib \<Rightarrow> ('c \<Rightarrow> sessionID \<rightharpoonup> nat) \<Rightarrow> ('priv, 'c) Codec \<Rightarrow> bool" where
  "good_codec W look k \<longleftrightarrow> wire_ok W look \<and> codec_ok look k \<and> node_record_ok W (localnode k) (privkey k)"

interpretation v5: transport "v5_udp W D relay db h u" "good_codec W look" "\<lambda>r. entropy_ok W (fst r)"
proof
  show "\<exists>k' x. codecEncode (v5_udp W D relay db h u) k i a p ch r = Some (k', x) \<and> good_codec W look k'"
    if "good_codec W look k" "entropy_ok W (fst r)" "sendable p ch" for k r p ch i a
    using Encode_total [of W look k "fst r" p ch i a "snd r"] that by (auto simp: good_codec_def v5_udp_def)
  show "\<exists>k' i n x. codecDecode (v5_udp W D relay db h u) k raw a r = Some (k', i, n, x) \<and> good_codec W look k'"
    if "good_codec W look k" "entropy_ok W (fst r)" for k r raw a
  proof -
    have "ScalarMult W pub priv \<noteq> None" for pub priv using that(1) by (simp add: good_codec_def wire_ok_def)
    then obtain k' i n x where d: "Decode W k raw a (snd r) = Some (k', i, n, x)" using Decode_defined by blast
    then show ?thesis
      using Decode_keeps [of W look k raw a "snd r" k' i n x] that(1) by (auto simp: good_codec_def v5_udp_def)
  qed
qed

lemma NewCodec_good:
  "wire_ok W look \<Longrightarrow> node_record_ok W ln key \<Longrightarrow> good_codec W look (NewCodec W ln key)"
  by (simp add: good_codec_def codec_ok_def NewCodec_def NewSessionCache_def wire_ok_def lru_ok_def)

end
