(* ===== verification/V5_Transport_Props.thy ===== *)
theory V5_Transport_Props
  imports V5_Transport
begin

text \<open>
  The properties of the v5 transport, for every run of its dispatch loop and its clients, with the codec of
  \<^verbatim>\<open>v5wire\<close> in the first four of them.
\<close>

subsection \<open>Runs of a started transport\<close>

definition v5_started ::
  "('priv, 'pub, 'c) wire_lib \<Rightarrow> ('c \<Rightarrow> sessionID \<rightharpoonup> nat) \<Rightarrow> 's disc_lib \<Rightarrow> (IP \<Rightarrow> IP \<Rightarrow> string option) \<Rightarrow> (ID \<Rightarrow> enode option) \<Rightarrow>
   (bytes \<Rightarrow> bytes) \<Rightarrow> (bytes \<Rightarrow> TalkExtPacket option) \<Rightarrow> (('priv, 'c) Codec, 'priv entropy \<times> int, 's) UDPv5 \<Rightarrow> bool" where
  "v5_started W look D relay db h u t \<longleftrightarrow> wire_ok W look \<and> logdist_ok D \<and>
     (\<exists>ln key ns slf bootnodes queried now. node_record_ok W ln key \<and> (\<forall>i. entropy_ok W (fst (ns i))) \<and>
        newUDPv5 (v5_udp W D relay db h u) (NewCodec W ln key) ns slf bootnodes queried now = Some (Inr t))"

lemma v5_udp_disc [simp]: "disc (v5_udp W D relay db h u) = D"
  by (simp add: v5_udp_def)

lemma started_sound:
  assumes "v5_started W look D relay db h u t"
  shows "sound_state (v5_udp W D relay db h u) (good_codec W look) (\<lambda>r. entropy_ok W (fst r)) t \<and> idle t \<and> \<not> closed t \<and>
     lane t = (\<lambda>i. []) \<and> ncalls t = 0"
proof -
  obtain ln key ns slf bootnodes queried now where s: "wire_ok W look" "logdist_ok D" "node_record_ok W ln key"
    "\<forall>i. entropy_ok W (fst (ns i))"
    "newUDPv5 (v5_udp W D relay db h u) (NewCodec W ln key) ns slf bootnodes queried now = Some (Inr t)"
    using assms unfolding v5_started_def by blast
  show ?thesis
    by (rule newUDPv5_sound [OF s(5)]) (use s NewCodec_good in auto)
qed

lemma run_sound:
  assumes "v5_started W look D relay db h u t0" "possible (v5_udp W D relay db h u) t0 es"
  shows "\<exists>t. udp_run (v5_udp W D relay db h u) t0 es = Some t \<and>
     sound_state (v5_udp W D relay db h u) (good_codec W look) (\<lambda>r. entropy_ok W (fst r)) t"
  using v5.run_returns [OF _ assms(2)] started_sound [OF assms(1)] by blast

text \<open>A transport of a node that does not know anybody.\<close>

abbreviation sample_udp :: "(nat, nat, (sessionID \<times> nat) list, (nat, (sessionID \<times> nat) list) Codec, nat entropy \<times> int, (IP \<Rightarrow> nat) \<times> nat) udp_lib" where
  "sample_udp \<equiv> v5_udp sample_wire sample_disc (\<lambda>a b. None) (\<lambda>i. None) (\<lambda>bs. replicate 16 0) (\<lambda>bs. None)"

lemma sample_started: "\<exists>t. v5_started sample_wire map_of sample_disc (\<lambda>a b. None) (\<lambda>i. None) (\<lambda>bs. replicate 16 0) (\<lambda>bs. None) t"
proof -
  obtain tab where tab: "newTable sample_disc (sample_peer 1) [] [] 0 = Some (Inr tab)" using sample_newTable by blast
  have "wire_ok sample_wire map_of"
    using sample_laws sample_lru by (simp add: wire_ok_def) (simp add: sample_wire_def)
  moreover have "entropy_ok sample_wire sample_entropy"
    by (simp add: entropy_ok_def sample_entropy_def sample_wire_def)
  moreover have ex: "\<exists>t. newUDPv5 sample_udp (NewCodec sample_wire (sample_peer 1) (unat (1 :: byte))) (\<lambda>i. (sample_entropy, 0)) (sample_peer 1) [] [] 0 = Some (Inr t)"
    using tab by (simp add: newUDPv5_def)
  then obtain t where t: "newUDPv5 sample_udp (NewCodec sample_wire (sample_peer 1) (unat (1 :: byte))) (\<lambda>i. (sample_entropy, 0)) (sample_peer 1) [] [] 0 = Some (Inr t)"
    by blast
  ultimately have "v5_started sample_wire map_of sample_disc (\<lambda>a b. None) (\<lambda>i. None) (\<lambda>bs. replicate 16 0) (\<lambda>bs. None) t"
    unfolding v5_started_def using sample_logdist sample_peer_record [of 1]
    by (intro conjI exI [of _ "sample_peer 1"] exI [of _ "unat (1 :: byte)"] exI [of _ "\<lambda>i. (sample_entropy, 0)"] exI) simp_all
  then show ?thesis by blast
qed

text \<open>Two calls to the same node: the first is active and the second waits.\<close>

definition two_calls :: "event list" where
  "two_calls = [CallIn (sample_peer 2) PongMsg (Ping [] 7) (replicate 8 1), CallIn (sample_peer 2) NodesMsg (Findnode [] [0]) (replicate 8 2)]"

lemma sample_two_calls:
  assumes "v5_started W look D relay db h u t0"
  shows "possible (v5_udp W D relay db h u) t0 two_calls \<and>
    (\<exists>t. udp_run (v5_udp W D relay db h u) t0 two_calls = Some t \<and> idle t \<and> \<not> closed t \<and>
       activeCallByNode t (eID (sample_peer 2)) = Some 0 \<and> callQueue t (eID (sample_peer 2)) = [1])"
proof -
  let ?U = "v5_udp W D relay db h u" and ?S = "sound_state (v5_udp W D relay db h u) (good_codec W look) (\<lambda>r. entropy_ok W (fst r))"
  let ?e1 = "CallIn (sample_peer 2) PongMsg (Ping [] 7) (replicate 8 1)"
  let ?e2 = "CallIn (sample_peer 2) NodesMsg (Findnode [] [0]) (replicate 8 2)"
  have t0: "?S t0" "idle t0" "\<not> closed t0" "lane t0 = (\<lambda>i. [])" "ncalls t0 = 0" using started_sound [OF assms] by simp_all
  have k: "Kind (Ping [] 7) \<noteq> WhoareyouPacket" "Kind (Findnode [] [0]) \<noteq> WhoareyouPacket" by (simp_all add: msg_kinds)
  obtain t1 where t1: "dispatch_event ?U t0 ?e1 = Some t1" "?S t1" "lane t1 = lane_event t0 ?e1 (lane t0)" "looping t1"
    "outbox t1 = outbox t0" "closed t1 = closed t0" "ncalls t1 = Suc (ncalls t0)"
    using v5.call_returns [OF t0(1) _ k(1), of "sample_peer 2" PongMsg "replicate 8 1"] t0(2) by blast
  obtain t2 where t2: "dispatch_event ?U t1 ?e2 = Some t2" "?S t2" "lane t2 = lane_event t1 ?e2 (lane t1)" "looping t2"
    "outbox t2 = outbox t1" "closed t2 = closed t1"
    using v5.call_returns [OF t1(2) _ k(2), of "sample_peer 2" NodesMsg "replicate 8 2"] t1(4) by blast
  have "lane t2 (eID (sample_peer 2)) = [0, 1]" using t1(3,7) t2(3) t0(4,5) by simp
  moreover have "books_ok {} t2" using t2(2,4) by (simp add: sound_state_def)
  ultimately have "activeCallByNode t2 (eID (sample_peer 2)) = Some 0" "callQueue t2 (eID (sample_peer 2)) = [1]"
    using lane_active(1,2) [of t2 "eID (sample_peer 2)"] by simp_all
  moreover have e: "enabled t0 ?e1" "enabled t1 ?e2" using t0(2) t1(4,5) by simp_all
  ultimately show ?thesis
    using run_one [OF e(1) _ t1(1), of "[?e2]"] run_one [OF e(2) _ t2(1), of "[]"] k t0(2,3) t1(5,6) t2(4,5,6)
    unfolding two_calls_def by simp
qed

subsection \<open>A transport whose closing loop cannot return\<close>

definition wedged :: "nat \<Rightarrow> ('k, 'r, 's) UDPv5 \<Rightarrow> bool" where
  "wedged c t \<longleftrightarrow> \<not> looping t \<and> c < ncalls t \<and> c \<in> finished t \<and> cerr (calls t c) \<noteq> [] \<and> (c, Inl errClosed) \<in> set (outbox t)"

lemma wedged_event:
  assumes "wedged c t" "enabled t e"
  shows "\<exists>t'. dispatch_event U t e = Some t' \<and> wedged c t'"
proof (cases e)
  case Deliver
  then show ?thesis
    using assms by (auto simp: wedged_def deliver_def upd_call_def split: list.splits sum.splits prod.splits)
qed (use assms in \<open>auto simp: wedged_def take_response_def take_error_def upd_call_def new_call_def RegisterTalkHandler_def\<close>)

interpretation wedge: event_machine "udp_step U" "occurs U" "\<lambda>s. \<exists>t. s = Some t \<and> wedged c t"
proof
  show "\<exists>t. udp_step U s e = Some t \<and> wedged c t" if "\<exists>t. s = Some t \<and> wedged c t" "occurs U s e" for s e
    using that wedged_event [of c _ e U] by (auto simp: udp_step_def occurs_def)
qed

lemma close_queues_calls:
  "calls (close_queues t is) = calls t \<and> ncalls (close_queues t is) = ncalls t \<and> finished (close_queues t is) = finished t \<and>
   set (outbox t) \<subseteq> set (outbox (close_queues t is))"
  by (induction t "is" rule: close_queues.induct) auto

lemma close_active_calls:
  "calls (close_active t is) = calls t \<and> ncalls (close_active t is) = ncalls t \<and> finished (close_active t is) = finished t \<and>
   set (outbox t) \<subseteq> set (outbox (close_active t is)) \<and>
   (\<forall>i c. activeCallByNode t i = Some c \<longrightarrow> i \<in> set is \<longrightarrow> (c, Inl errClosed) \<in> set (outbox (close_active t is)))"
proof (induction t "is" rule: close_active.induct)
  case (2 t i "is")
  show ?case
  proof (cases "activeCallByNode t i")
    case None
    then show ?thesis using 2(1) [OF None] by auto
  next
    case (Some d)
    let ?t = "t\<lparr>outbox := outbox t @ [(d, Inl errClosed)], activeCallByNode := (activeCallByNode t)(i := None),
        activeCallByAuth := (activeCallByAuth t)(cnonce (calls t d) := None)\<rparr>"
    note IH = 2(2) [OF Some]
    have "(c, Inl errClosed) \<in> set (outbox (close_active ?t is))" if "activeCallByNode t j = Some c" "j = i \<or> j \<in> set is" for j c
    proof (cases "j = i")
      case True
      then show ?thesis using that(1) Some IH by auto
    next
      case False
      then have "activeCallByNode ?t j = Some c" "j \<in> set is" using that by simp_all
      then show ?thesis using IH by blast
    qed
    then show ?thesis using Some IH by auto
  qed
qed simp

subsection \<open>A codec without encryption\<close>

text \<open>
  The transport accepts any implementation of \<open>codecV5\<close>, and its tests use one that does not encrypt. This one
  encodes to nothing and decodes every packet to a given message of a given node.
\<close>

definition plain_udp :: "ID \<Rightarrow> Packet \<Rightarrow> (nat, nat, (sessionID \<times> nat) list, unit, unit, (IP \<Rightarrow> nat) \<times> nat) udp_lib" where
  "plain_udp i p =
     \<lparr>codecEncode = (\<lambda>k j a q ch r. Some ((), Inr ([], replicate 12 1))), codecDecode = (\<lambda>k raw a r. Some ((), i, None, Inr p)),
      wire = sample_wire, disc = sample_disc, checkRelayIP = (\<lambda>a b. None), dbNode = (\<lambda>i. None), md5 = (\<lambda>bs. replicate 16 0),
      unmarshal = (\<lambda>bs. None)\<rparr>"

interpretation plain: transport "plain_udp i p" "\<lambda>k. True" "\<lambda>r. True"
  by unfold_locales (simp_all add: plain_udp_def)

lemma plain_started: "\<exists>t. newUDPv5 (plain_udp i p) () (\<lambda>_. ()) (sample_peer 1) [] [] 0 = Some (Inr t)"
  using sample_newTable [of "sample_peer 1" 0] by (auto simp: newUDPv5_def plain_udp_def)

text \<open>A response arrives at the moment its call times out: both channels of the call are full.\<close>

abbreviation late_udp :: "(nat, nat, (sessionID \<times> nat) list, unit, unit, (IP \<Rightarrow> nat) \<times> nat) udp_lib" where
  "late_udp \<equiv> plain_udp (eID (sample_peer 2)) (Pong (replicate 8 1) 7 [] 0)"

definition late_response :: "event list" where
  "late_response = [CallIn (sample_peer 2) PongMsg (Ping [] 7) (replicate 8 1), TimeoutIn 0 0, Deliver,
     PacketIn [] (eIP (sample_peer 2), int (eUDP (sample_peer 2))) [] 0, Deliver]"

lemma late_response_run:
  assumes "newUDPv5 late_udp () (\<lambda>_. ()) (sample_peer 1) [] [] 0 = Some (Inr t0)"
  shows "possible late_udp t0 late_response \<and>
    (\<exists>t. udp_run late_udp t0 late_response = Some t \<and> idle t \<and> ncalls t = 1 \<and> finished t = {} \<and> cch (calls t 0) = [Pong (replicate 8 1) 7 [] 0] \<and>
       cerr (calls t 0) = [errTimeout] \<and> responseType (calls t 0) = PongMsg \<and> cnode (calls t 0) = sample_peer 2 \<and>
       activeCallByNode t = [eID (sample_peer 2) \<mapsto> 0] \<and> callQueue t = (\<lambda>_. []))"
proof -
  obtain tab where t0: "t0 = \<lparr>codec = (), utab = tab,
                calls = (\<lambda>_. \<lparr>cnode = sample_peer 1, cpacket = Unknown [], responseType = 0, creqid = [], cch = [], cerr = [],
                             cnonce = zeroNonce, handshakeCount = 0, cchallenge = None, ctimeout = None\<rparr>),
                ncalls = 0, ntimers = 0, activeCallByNode = Map.empty, activeCallByAuth = Map.empty, callQueue = (\<lambda>_. []),
                trhandlers = Map.empty, TalkExtConnections = Map.empty, noise = (\<lambda>_. ()), packetsOut = [], endpointStatements = [],
                outbox = [], closed = False, looping = True, answered = {}, finished = {}\<rparr>"
    using assms by (auto simp: newUDPv5_def split: bind_splits sum.splits)
  have p: "codecEncode late_udp k j a q ch r = Some ((), Inr ([], replicate 12 1))"
    "codecDecode late_udp k raw a r = Some ((), eID (sample_peer 2), None, Inr (Pong (replicate 8 1) 7 [] 0))" for k j a q ch r raw
    by (simp_all add: plain_udp_def)
  show ?thesis
    by (simp add: late_response_def t0 udp_step_def occurs_def dispatch_call_def new_call_def sendNextCall_def sendCall_def send_def p
        startResponseTimeout_def upd_call_def dispatch_timeout_def deliver_def handlePacket_def handle_def handleCallResponse_def
        IP_Equal_def talk_ok_def Let_def msg_kinds) (simp add: fun_eq_iff)
qed

subsection \<open>Properties\<close>

text \<open>
  C3. The dispatch loop of a started transport, in every order of calls, packets, timeouts and client actions: it never
  panics and never finds a finished call inactive, as long as messages for the talk extension are well formed and no call
  is refused before the loop ends; every active call is one to its node, a node with waiting calls has an active
  one, a call takes part in at most one handshake, a challenge can only be answered by resending the active call that it names,
  and the node table keeps its invariant.
\<close>

theorem transport_safe:
  assumes "v5_started W look D relay db h u t0" "possible (v5_udp W D relay db h u) t0 es"
  shows "\<exists>t. udp_run (v5_udp W D relay db h u) t0 es = Some t \<and> table_ok D (utab t) \<and> (\<forall>c. handshakeCount (calls t c) \<le> 1) \<and>
     (looping t \<longrightarrow> (\<forall>i c. activeCallByNode t i = Some c \<longrightarrow> eID (cnode (calls t c)) = i) \<and>
        (\<forall>i. callQueue t i \<noteq> [] \<longrightarrow> activeCallByNode t i \<noteq> None) \<and>
        (\<forall>i n c. matchWithCall t i n = Inr c \<longrightarrow> activeCallByNode t (eID (cnode (calls t c))) = Some c \<and> cnonce (calls t c) = n))"
proof -
  obtain t where t: "udp_run (v5_udp W D relay db h u) t0 es = Some t"
    "sound_state (v5_udp W D relay db h u) (good_codec W look) (\<lambda>r. entropy_ok W (fst r)) t"
    using run_sound [OF assms] by blast
  have "handshakeCount (calls t c) \<le> 1" for c
    using t(2) by (auto simp: sound_state_def typed_def call_ok_def dest: spec [of _ c])
  moreover have "is_active t c \<and> cnonce (calls t c) = n" if "looping t" "matchWithCall t i n = Inr c" for i n c
    using t(2) that auth_okD [of t n c]
    by (auto simp: sound_state_def books_ok_def matchWithCall_def split: option.splits if_splits)
  moreover have "callID t c = i" if "looping t" "activeCallByNode t i = Some c" for i c
    using t(2) that active_okD [of t i c] by (simp add: sound_state_def books_ok_def)
  moreover have "activeCallByNode t i \<noteq> None" if "looping t" "callQueue t i \<noteq> []" for i
    using t(2) that queue_okD(3) [of "{}" t i] by (simp add: sound_state_def books_ok_def)
  ultimately show ?thesis using t by (auto simp: sound_state_def env_ok_def)
qed

theorem transport_safe_witness:
  "\<exists>t0 t. udp_run sample_udp t0 two_calls = Some t \<and> table_ok sample_disc (utab t)"
proof -
  obtain t0 where t0: "v5_started sample_wire map_of sample_disc (\<lambda>a b. None) (\<lambda>i. None) (\<lambda>bs. replicate 16 0) (\<lambda>bs. None) t0"
    using sample_started by blast
  from transport_safe [OF t0] sample_two_calls [OF t0] show ?thesis by blast
qed

text \<open>
  C10. The transport refines one first-in first-out queue of calls per node: a call is added at the end of its node's queue, a
  finished call is always the first of its queue and leaves it, closing empties the queues and nothing else changes
  them; the active call of a node is the first of its queue, so that at most one call per node is on the network and calls are made
  in the order in which they were asked for.
\<close>

theorem calls_in_order:
  assumes "v5_started W look D relay db h u t0" "possible (v5_udp W D relay db h u) t0 (es @ [e])"
  shows "\<exists>t t'. udp_run (v5_udp W D relay db h u) t0 es = Some t \<and> dispatch_event (v5_udp W D relay db h u) t e = Some t' \<and>
     (looping t \<longrightarrow> lane t' = lane_event t e (lane t) \<and>
        (\<forall>i. activeCallByNode t i = (case lane t i of [] \<Rightarrow> None | c # q \<Rightarrow> Some c) \<and> distinct (lane t i)) \<and>
        (\<forall>c. e = DoneIn c \<longrightarrow> lane t (eID (cnode (calls t c))) = c # callQueue t (eID (cnode (calls t c)))))"
proof -
  let ?S = "sound_state (v5_udp W D relay db h u) (good_codec W look) (\<lambda>r. entropy_ok W (fst r))"
  have es: "possible (v5_udp W D relay db h u) t0 es" "occurs (v5_udp W D relay db h u) (udp_run (v5_udp W D relay db h u) t0 es) e"
    using assms(2) by (simp_all add: run_ok_append)
  obtain t where t: "udp_run (v5_udp W D relay db h u) t0 es = Some t" "?S t" using run_sound [OF assms(1) es(1)] by blast
  have e: "enabled t e" "udp_event_ok (v5_udp W D relay db h u) t e" using es(2) t(1) by (simp_all add: occurs_def)
  obtain t' where t': "dispatch_event (v5_udp W D relay db h u) t e = Some t'" "looping t \<longrightarrow> lane t' = lane_event t e (lane t)"
    using v5.event_returns [OF t(2) e] by blast
  have "books_ok {} t" if "looping t" using t(2) that by (simp add: sound_state_def)
  moreover have "lane t (callID t c) = c # callQueue t (callID t c)" if "e = DoneIn c" for c
    using v5.done_returns [OF t(2), of c] e(1) that by blast
  ultimately show ?thesis using t(1) t' lane_active(1,3) by blast
qed

theorem calls_in_order_witness:
  "\<exists>t0 t t'. udp_run sample_udp t0 (butlast two_calls) = Some t \<and>
     dispatch_event sample_udp t (last two_calls) = Some t' \<and> (looping t \<longrightarrow> lane t' = lane_event t (last two_calls) (lane t))"
proof -
  obtain t0 where t0: "v5_started sample_wire map_of sample_disc (\<lambda>a b. None) (\<lambda>i. None) (\<lambda>bs. replicate 16 0) (\<lambda>bs. None) t0"
    using sample_started by blast
  have "butlast two_calls @ [last two_calls] = two_calls" by (simp add: two_calls_def)
  then have "possible sample_udp t0 (butlast two_calls @ [last two_calls])" using sample_two_calls [OF t0] by simp
  from calls_in_order [OF t0 this] show ?thesis by blast
qed

text \<open>
  C15. No deadlock and no overtaking while the transport is open. In every state it reaches: whenever the loop waits to send on a
  call's channel there is room or the call's client can receive; every event that can happen next leaves the calls of a node as they
  are, adds one at the end, or ends the first of them, so that no waiting call is dropped or overtaken; and wherever a call
  stands in the queue of a node, there is a continuation of timeouts, deliveries, receptions and ended calls alone, with no packet of a
  peer, at most two events for each message the loop is sending and four for each call up to this one, that makes it the active call.
\<close>

theorem transport_progress:
  assumes "v5_started W look D relay db h u t0" "possible (v5_udp W D relay db h u) t0 es"
    and "udp_run (v5_udp W D relay db h u) t0 es = Some t" "looping t" "\<not> closed t"
  shows "(\<forall>c m ms. outbox t = (c, m) # ms \<longrightarrow> enabled t Deliver \<or> enabled t (TakeResponse c) \<or> enabled t (TakeError c)) \<and>
     (\<forall>e t' i. possible (v5_udp W D relay db h u) t [e] \<longrightarrow> udp_run (v5_udp W D relay db h u) t [e] = Some t' \<longrightarrow>
        lane t' i = lane t i \<or> (\<exists>d. lane t' i = lane t i @ [d]) \<or> (\<exists>c. e = DoneIn c \<and> lane t i = c # lane t' i)) \<and>
     (\<forall>i before c q. callQueue t i = before @ c # q \<longrightarrow>
        (\<exists>es' t'. length es' \<le> 2 * length (outbox t) + 4 * Suc (length before) \<and> list_all unaided es' \<and>
           possible (v5_udp W D relay db h u) t es' \<and> udp_run (v5_udp W D relay db h u) t es' = Some t' \<and>
           activeCallByNode t' i = Some c \<and> callQueue t' i = q))"
proof -
  have S: "sound_state (v5_udp W D relay db h u) (good_codec W look) (\<lambda>r. entropy_ok W (fst r)) t"
    using run_sound [OF assms(1,2)] assms(3) by simp
  have "lane t' i = lane t i \<or> (\<exists>d. lane t' i = lane t i @ [d]) \<or> (\<exists>c. e = DoneIn c \<and> lane t i = c # lane t' i)"
    if "possible (v5_udp W D relay db h u) t [e]" "udp_run (v5_udp W D relay db h u) t [e] = Some t'" for e t' i
    using v5.open_lane [OF S assms(4,5), of e t' i] that by (simp add: occurs_def udp_step_def)
  then show ?thesis using v5.never_stuck [OF S assms(4,5)] v5.waiting_reaches [OF S assms(4,5)] by blast
qed

theorem transport_progress_witness:
  "\<exists>t es t'. callQueue t (eID (sample_peer 2)) = [1] \<and> possible sample_udp t es \<and> udp_run sample_udp t es = Some t' \<and>
     activeCallByNode t' (eID (sample_peer 2)) = Some 1"
proof -
  obtain t0 where t0: "v5_started sample_wire map_of sample_disc (\<lambda>a b. None) (\<lambda>i. None) (\<lambda>bs. replicate 16 0) (\<lambda>bs. None) t0"
    using sample_started by blast
  obtain t where t: "udp_run sample_udp t0 two_calls = Some t" "idle t" "\<not> closed t" "callQueue t (eID (sample_peer 2)) = [1]"
    and p: "possible sample_udp t0 two_calls" using sample_two_calls [OF t0] by blast
  have "callQueue t (eID (sample_peer 2)) = [] @ 1 # []" using t(4) by simp
  then show ?thesis using transport_progress [OF t0 p t(1) _ t(3)] t(2,4) by blast
qed

text \<open>
  C27. Responses have the type their callers assert: what waits in the channel of a call answers its request ID and is of
  the type it expects, so the type assertions of \<open>ping\<close>, \<open>TalkRequest\<close> and \<open>waitForNodes\<close> never panic.
\<close>

theorem responses_typed:
  assumes "transport U good r_ok" "newUDPv5 U k ns slf bootnodes queried now = Some (Inr t0)" "good k" "\<And>i. r_ok (ns i)" "logdist_ok (disc U)"
    and "possible U t0 es" "udp_run U t0 es = Some t" "p \<in> set (cch (calls t c))"
  shows "RequestID p = creqid (calls t c) \<and> (responseType (calls t c) = PongMsg \<longrightarrow> ping_result (Inr p) \<noteq> None) \<and>
     (responseType (calls t c) = TalkResponseMsg \<longrightarrow> talk_result (Inr p) \<noteq> None) \<and>
     (responseType (calls t c) = NodesMsg \<longrightarrow> (\<exists>reqID tot ns. p = Nodes reqID tot ns))"
proof -
  have "sound_state U good r_ok t0" using newUDPv5_sound [of U k ns slf bootnodes queried now t0 good r_ok] assms(2-5) by blast
  then have "typed t" using transport.run_returns [OF assms(1) _ assms(6)] assms(7) by (auto simp: sound_state_def)
  then have "RequestID p = creqid (calls t c)" "Kind p = responseType (calls t c)"
    using assms(8) by (auto simp: typed_def call_ok_def answers_def list_all_iff)
  then show ?thesis by (cases p) (auto simp: msg_kinds)
qed

theorem responses_typed_witness:
  "\<exists>t. cch (calls t 0) = [Pong (replicate 8 1) 7 [] 0] \<and> responseType (calls t 0) = PongMsg \<and>
     (\<exists>t0. udp_run late_udp t0 late_response = Some t) \<and> ping_result (Inr (Pong (replicate 8 1) 7 [] 0)) \<noteq> None"
proof -
  obtain t0 where t0: "newUDPv5 late_udp () (\<lambda>_. ()) (sample_peer 1) [] [] 0 = Some (Inr t0)" using plain_started by blast
  obtain t where t: "udp_run late_udp t0 late_response = Some t" "cch (calls t 0) = [Pong (replicate 8 1) 7 [] 0]"
    "responseType (calls t 0) = PongMsg" and p: "possible late_udp t0 late_response" using late_response_run [OF t0] by blast
  have "logdist_ok (disc late_udp)" using sample_logdist by (simp add: plain_udp_def)
  from responses_typed [OF plain.transport_axioms t0 _ _ this p t(1), of "Pong (replicate 8 1) 7 [] 0" 0] t show ?thesis by auto
qed

text \<open>
  C35. Closing can block for ever: when a call is active whose client took a response and left \<open>callDone\<close> because the transport
  is closed, while an error still waits in the call's channel, the loop's final error for that call finds the channel full and nobody
  receives from it any more. Whatever happens afterwards, the loop never returns, and neither does \<open>Close\<close>, which waits for it.
\<close>

theorem close_blocks:
  assumes "enabled t (Closing queued active)" "activeCallByNode t i = Some c" "c < ncalls t" "c \<in> finished t" "cerr (calls t c) \<noteq> []"
    and "possible U (dispatch_close t queued active) es"
  shows "\<exists>t'. udp_run U (dispatch_close t queued active) es = Some t' \<and> \<not> looping t' \<and> outbox t' \<noteq> []"
proof -
  have "i \<in> set active" using assms(1,2) by simp
  then have "wedged c (dispatch_close t queued active)"
    using assms(2-5) close_queues_calls [of t queued] close_active_calls [of "close_queues t queued" active] close_queues_maps [of t queued]
    by (auto simp: wedged_def dispatch_close_def)
  then show ?thesis using wedge.inv_run [of "Some (dispatch_close t queued active)" c U es] assms(6) by (auto simp: wedged_def)
qed

theorem close_blocks_witness:
  "\<exists>t0 t t'. newUDPv5 late_udp () (\<lambda>_. ()) (sample_peer 1) [] [] 0 = Some (Inr t0) \<and>
     possible late_udp t0 (late_response @ [TakeResponse 0, Close, DoneClosed 0]) \<and>
     udp_run late_udp t0 (late_response @ [TakeResponse 0, Close, DoneClosed 0]) = Some t \<and>
     udp_run late_udp (dispatch_close t [] [eID (sample_peer 2)]) [] = Some t' \<and> \<not> looping t' \<and> outbox t' \<noteq> []"
proof -
  obtain t0 where t0: "newUDPv5 late_udp () (\<lambda>_. ()) (sample_peer 1) [] [] 0 = Some (Inr t0)" using plain_started by blast
  obtain t where t: "udp_run late_udp t0 late_response = Some t" "idle t" "ncalls t = 1" "finished t = {}" "cch (calls t 0) = [Pong (replicate 8 1) 7 [] 0]"
    "cerr (calls t 0) = [errTimeout]" "activeCallByNode t = [eID (sample_peer 2) \<mapsto> 0]" "callQueue t = (\<lambda>_. [])"
    and p: "possible late_udp t0 late_response" using late_response_run [OF t0] by blast
  define t1 where "t1 = (take_response t 0)\<lparr>closed := True, finished := {0}\<rparr>"
  have run: "possible late_udp t0 (late_response @ [TakeResponse 0, Close, DoneClosed 0])"
    "udp_run late_udp t0 (late_response @ [TakeResponse 0, Close, DoneClosed 0]) = Some t1"
    using p t by (simp_all add: run_ok_append occurs_def udp_step_def t1_def take_response_def upd_call_def)
  have "enabled t1 (Closing [] [eID (sample_peer 2)])" "activeCallByNode t1 (eID (sample_peer 2)) = Some 0" "0 < ncalls t1" "0 \<in> finished t1"
    "cerr (calls t1 0) \<noteq> []"
    using t by (simp_all add: t1_def take_response_def upd_call_def)
  from close_blocks [OF this, of late_udp "[]"] t0 run show ?thesis by auto
qed

text \<open>
  C34. A packet ends the process exactly when it is a talk request for an extended protocol whose message is not valid JSON: no other
  packet of any peer does, but any peer with a session can send that one.
\<close>

theorem packet_ends_process:
  assumes "transport U good r_ok" "sound_state U good r_ok t" "idle t"
    and "codecDecode U (codec t) rawpacket (UDPAddr_String fromAddr) (noise t 0) = Some (k, i, n, Inr p)"
  shows "dispatch_event U t (PacketIn rawpacket fromAddr idNonce now) = None \<longleftrightarrow>
     (\<exists>reqID protocol message. p = TalkRequest reqID protocol message \<and> isTalkExtProtocol (md5 U) protocol \<and> unmarshal U message = None)"
proof (cases "talk_ok U p")
  case True
  then have "udp_event_ok U t (PacketIn rawpacket fromAddr idNonce now)" using assms(4) by auto
  then have "dispatch_event U t (PacketIn rawpacket fromAddr idNonce now) \<noteq> None"
    using transport.event_returns [OF assms(1,2), of "PacketIn rawpacket fromAddr idNonce now"] assms(3) by auto
  then show ?thesis using True by (auto simp: talk_ok_def)
next
  case False
  then obtain reqID protocol message where p: "p = TalkRequest reqID protocol message" "isTalkExtProtocol (md5 U) protocol" "unmarshal U message = None"
    by (auto simp: talk_ok_def)
  have "handle U t2 p idNonce i fromAddr = None" for t2
    using p by (simp add: handle_def handleTalkExt_def MessageToTalkExtPacket_def)
  then have "dispatch_event U t (PacketIn rawpacket fromAddr idNonce now) = None"
    using assms(4) by (auto simp: handlePacket_def Let_def split: option.splits bind_splits)
  then show ?thesis using p by blast
qed

abbreviation talk_udp :: "(nat, nat, (sessionID \<times> nat) list, unit, unit, (IP \<Rightarrow> nat) \<times> nat) udp_lib" where
  "talk_udp \<equiv> plain_udp [2] (TalkRequest [1] (toTalkExtProtocol (\<lambda>bs. replicate 16 0) ''bbb'') [1, 2, 3])"

theorem packet_ends_process_witness:
  "\<exists>t0. newUDPv5 talk_udp () (\<lambda>_. ()) (sample_peer 1) [] [] 0 = Some (Inr t0) \<and> dispatch_event talk_udp t0 (PacketIn [] ([10, 0, 0, 1], 30303) [] 0) = None"
proof -
  obtain t0 where t0: "newUDPv5 talk_udp () (\<lambda>_. ()) (sample_peer 1) [] [] 0 = Some (Inr t0)" using plain_started by blast
  have "logdist_ok (disc talk_udp)" using sample_logdist by (simp add: plain_udp_def)
  then have s: "sound_state talk_udp (\<lambda>k. True) (\<lambda>r. True) t0" "idle t0"
    using newUDPv5_sound [OF t0, of "\<lambda>k. True" "\<lambda>r. True"] by simp_all
  have "isTalkExtProtocol (\<lambda>bs. replicate 16 0) (toTalkExtProtocol (\<lambda>bs. replicate 16 0) ''bbb'')"
    using isTalkExtProtocol_iff [of "\<lambda>bs. replicate 16 0" "''bbb''"] by simp
  then show ?thesis
    using t0 packet_ends_process [OF plain.transport_axioms s, of "[]" "([10, 0, 0, 1], 30303)" "()" "[2]" None _ "[]" 0]
    by (simp add: plain_udp_def)
qed

end
