(* ===== verification/Udp_Socket.thy ===== *)
theory Udp_Socket
  imports Go_Net
begin

text \<open>
  What the read loops of both transports share: the receive buffer of the loop, which every datagram overwrites, and the packets that
  they hand over, whose data is not a copy but a slice of that buffer.
\<close>

definition maxPacketSize :: nat where "maxPacketSize = 1280"

text \<open>\<^verbatim>\<open>ReadFromUDP\<close> of the standard library: a datagram that is longer than the buffer loses its end.\<close>

definition ReadFromUDP :: "bytes \<Rightarrow> bytes \<Rightarrow> nat \<times> bytes" where
  "ReadFromUDP buf datagram =
     (let nbytes = min (length datagram) (length buf) in (nbytes, take nbytes datagram @ drop nbytes buf))"

text \<open>\<open>Data\<close> is the length of a slice that starts at the beginning of the buffer.\<close>

record ReadPacket =
  Data :: nat
  Addr :: UDPAddr

definition content :: "bytes \<Rightarrow> ReadPacket \<Rightarrow> bytes \<times> UDPAddr" where
  "content buf p = (take (Data p) buf, Addr p)"

lemma ReadFromUDP_length [simp]: "length (snd (ReadFromUDP buf datagram)) = length buf"
  by (simp add: ReadFromUDP_def Let_def)

lemma ReadFromUDP_fst: "fst (ReadFromUDP buf datagram) = min (length datagram) (length buf)"
  by (simp add: ReadFromUDP_def Let_def)

lemma ReadFromUDP_content:
  "content (snd (ReadFromUDP buf datagram)) \<lparr>Data = fst (ReadFromUDP buf datagram), Addr = from\<rparr> = (take (length buf) datagram, from)"
  by (simp add: content_def ReadFromUDP_def Let_def min_def)

text \<open>What a slice of an earlier packet shows after another datagram was read.\<close>

lemma ReadFromUDP_overwrites:
  assumes "Data p \<le> length buf"
  shows "content (snd (ReadFromUDP buf datagram)) p =
    (take (Data p) datagram @ take (Data p - length datagram) (drop (length datagram) buf), Addr p)"
proof (cases "length datagram \<le> length buf")
  case True
  then show ?thesis by (simp add: content_def ReadFromUDP_def Let_def)
next
  case False
  then show ?thesis using assms by (simp add: content_def ReadFromUDP_def Let_def min_def)
qed

end
