(* ===== verification/V5_Read.thy ===== *)
theory V5_Read
  imports V5_Transport_Props Udp_Socket
begin

text \<open>
  The goroutines of a v5 transport that is listening (\<^verbatim>\<open>ListenV5\<close>, \<^verbatim>\<open>readLoop\<close>, \<^verbatim>\<open>dispatch\<close> and \<^verbatim>\<open>Close\<close> of
  \<^verbatim>\<open>pkg/discover/v5_udp.go\<close>): the reader and the dispatch loop hand each other the receive buffer over two channels with room for one
  element each. The steps of the goroutines interleave; the dispatch loop's own work is the machine of \<^verbatim>\<open>V5_Dispatch\<close>.
\<close>

subsection \<open>State\<close>

text \<open>Where the reader is: at the range over \<open>readNextCh\<close>, in \<^verbatim>\<open>ReadFromUDP\<close>, in \<open>dispatchReadPacket\<close>, or returned.\<close>

datatype reader = Ranging | Reading | Dispatching ReadPacket | ReaderDone

text \<open>Where the dispatch loop is: at its select, with a packet in hand, before the send that arms the next read, or returned.\<close>

datatype dispatcher = Selecting | Handling ReadPacket | Arming | LoopDone

text \<open>Where the first call of \<open>Close\<close> is; \<^verbatim>\<open>closeOnce\<close> makes the others wait for it.\<close>

datatype closer = Open | Cancelled | ConnClosed | Waited

record ('k, 'r, 's) v5_node =
  udp :: "('k, 'r, 's) UDPv5"
  rbuf :: bytes
  readNextCh :: nat
  readNextClosed :: bool
  packetInCh :: "ReadPacket list"
  reader_at :: reader
  dispatch_at :: dispatcher
  close_at :: closer

definition listening :: "('k, 'r, 's) UDPv5 \<Rightarrow> ('k, 'r, 's) v5_node" where
  "listening t = \<lparr>udp = t, rbuf = replicate maxPacketSize 0, readNextCh = 0, readNextClosed = False, packetInCh = [],
     reader_at = Ranging, dispatch_at = Arming, close_at = Open\<rparr>"

definition ListenV5 ::
  "('priv, 'pub, 'c, 'k, 'r, 's) udp_lib \<Rightarrow> 'k \<Rightarrow> (nat \<Rightarrow> 'r) \<Rightarrow> enode \<Rightarrow> enode list \<Rightarrow> enode list \<Rightarrow> int \<Rightarrow>
   (string + ('k, 'r, 's) v5_node) go" where
  "ListenV5 U k ns slf bootnodes queried now =
     do { r \<leftarrow> newUDPv5 U k ns slf bootnodes queried now;
          Some (case r of Inl err \<Rightarrow> Inl err | Inr t \<Rightarrow> Inr (listening t)) }"

subsection \<open>Steps\<close>

text \<open>
  \<open>Inner e\<close> is an event of the dispatch machine that involves neither a packet nor the end of the loop. The dispatch loop receives a
  packet, handles it, and arms the next read; or it ends. The reader receives a token, or finds its channel closed; its read
  returns a datagram, a temporary or another error; it hands the packet over, or finds the context done. \<open>Close\<close> cancels the
  context, closes the connection and waits for both goroutines.
\<close>

datatype node_event =
    Inner event
  | PacketTaken
  | PacketHandled bytes int
  | ReadArmed
  | LoopEnds "ID list" "ID list"
  | ReadToken
  | RangeEnds
  | ReadDatagram bytes UDPAddr
  | ReadTemporary
  | ReadFails
  | PacketSent
  | PacketDropped
  | CloseCancel
  | CloseConn
  | CloseWait

fun loop_event :: "event \<Rightarrow> bool" where
  "loop_event (CallIn n rtype packet reqID) = True"
| "loop_event (TimeoutIn c timer) = True"
| "loop_event (DoneIn c) = True"
| "loop_event e = False"

fun inner_event :: "event \<Rightarrow> bool" where
  "inner_event (PacketIn rawpacket fromAddr idNonce now) = False"
| "inner_event (Closing queued active) = False"
| "inner_event Close = False"
| "inner_event e = True"

fun node_enabled :: "('k, 'r, 's) v5_node \<Rightarrow> node_event \<Rightarrow> bool" where
  "node_enabled s (Inner e) \<longleftrightarrow> inner_event e \<and> enabled (udp s) e \<and> (loop_event e \<longrightarrow> dispatch_at s = Selecting)"
| "node_enabled s PacketTaken \<longleftrightarrow> dispatch_at s = Selecting \<and> idle (udp s) \<and> packetInCh s \<noteq> []"
| "node_enabled s (PacketHandled idNonce now) \<longleftrightarrow> (\<exists>p. dispatch_at s = Handling p) \<and> idle (udp s)"
| "node_enabled s ReadArmed \<longleftrightarrow> dispatch_at s = Arming \<and> idle (udp s) \<and> (readNextClosed s \<or> readNextCh s < 1)"
| "node_enabled s (LoopEnds queued active) \<longleftrightarrow> dispatch_at s = Selecting \<and> enabled (udp s) (Closing queued active)"
| "node_enabled s ReadToken \<longleftrightarrow> reader_at s = Ranging \<and> readNextCh s > 0"
| "node_enabled s RangeEnds \<longleftrightarrow> reader_at s = Ranging \<and> readNextCh s = 0 \<and> readNextClosed s"
| "node_enabled s (ReadDatagram datagram from) \<longleftrightarrow> reader_at s = Reading \<and> close_at s \<in> {Open, Cancelled}"
| "node_enabled s ReadTemporary \<longleftrightarrow> reader_at s = Reading"
| "node_enabled s ReadFails \<longleftrightarrow> reader_at s = Reading"
| "node_enabled s PacketSent \<longleftrightarrow> (\<exists>p. reader_at s = Dispatching p) \<and> length (packetInCh s) < 1"
| "node_enabled s PacketDropped \<longleftrightarrow> (\<exists>p. reader_at s = Dispatching p) \<and> closed (udp s)"
| "node_enabled s CloseCancel \<longleftrightarrow> close_at s = Open"
| "node_enabled s CloseConn \<longleftrightarrow> close_at s = Cancelled"
| "node_enabled s CloseWait \<longleftrightarrow> close_at s = ConnClosed \<and> reader_at s = ReaderDone \<and> dispatch_at s = LoopDone \<and> outbox (udp s) = []"

text \<open>The events of the dispatch machine that a step takes: at most one.\<close>

fun dispatched :: "('k, 'r, 's) v5_node \<Rightarrow> node_event \<Rightarrow> event list" where
  "dispatched s (Inner e) = [e]"
| "dispatched s (PacketHandled idNonce now) =
     (case dispatch_at s of
        Handling p \<Rightarrow> [PacketIn (fst (content (rbuf s) p)) (snd (content (rbuf s) p)) idNonce now]
      | _ \<Rightarrow> [])"
| "dispatched s (LoopEnds queued active) = [Closing queued active]"
| "dispatched s CloseCancel = [Close]"
| "dispatched s _ = []"

text \<open>
  The rest of the step; \<open>None\<close> is the panic of a send on a closed channel and of closing a channel twice. The reader's buffer is
  written by \<^verbatim>\<open>ReadFromUDP\<close> and read again when the packet is handled.
\<close>

fun node_local :: "('k, 'r, 's) v5_node \<Rightarrow> node_event \<Rightarrow> ('k, 'r, 's) v5_node go" where
  "node_local s PacketTaken = Some (s\<lparr>dispatch_at := Handling (hd (packetInCh s)), packetInCh := tl (packetInCh s)\<rparr>)"
| "node_local s (PacketHandled idNonce now) = Some (s\<lparr>dispatch_at := Arming\<rparr>)"
| "node_local s ReadArmed =
     (if readNextClosed s then None else Some (s\<lparr>readNextCh := readNextCh s + 1, dispatch_at := Selecting\<rparr>))"
| "node_local s (LoopEnds queued active) =
     (if readNextClosed s then None else Some (s\<lparr>readNextClosed := True, dispatch_at := LoopDone\<rparr>))"
| "node_local s ReadToken = Some (s\<lparr>readNextCh := readNextCh s - 1, reader_at := Reading\<rparr>)"
| "node_local s RangeEnds = Some (s\<lparr>reader_at := ReaderDone\<rparr>)"
| "node_local s (ReadDatagram datagram from) =
     Some (s\<lparr>rbuf := snd (ReadFromUDP (rbuf s) datagram),
             reader_at := Dispatching \<lparr>Data = fst (ReadFromUDP (rbuf s) datagram), Addr = from\<rparr>\<rparr>)"
| "node_local s ReadTemporary = Some (s\<lparr>reader_at := Ranging\<rparr>)"
| "node_local s ReadFails = Some (s\<lparr>reader_at := ReaderDone\<rparr>)"
| "node_local s PacketSent =
     Some (case reader_at s of
             Dispatching p \<Rightarrow> s\<lparr>packetInCh := packetInCh s @ [p], reader_at := Ranging\<rparr>
           | _ \<Rightarrow> s)"
| "node_local s PacketDropped = Some (s\<lparr>reader_at := Ranging\<rparr>)"
| "node_local s CloseCancel = Some (s\<lparr>close_at := Cancelled\<rparr>)"
| "node_local s CloseConn = Some (s\<lparr>close_at := ConnClosed\<rparr>)"
| "node_local s CloseWait = Some (s\<lparr>close_at := Waited\<rparr>)"
| "node_local s (Inner e) = Some s"

definition node_step ::
  "('priv, 'pub, 'c, 'k, 'r, 's) udp_lib \<Rightarrow> ('k, 'r, 's) v5_node option \<Rightarrow> node_event \<Rightarrow> ('k, 'r, 's) v5_node option" where
  "node_step U x e =
     do { s \<leftarrow> x;
          t \<leftarrow> foldl (udp_step U) (Some (udp s)) (dispatched s e);
          s \<leftarrow> node_local s e;
          Some (s\<lparr>udp := t\<rparr>) }"

definition node_occurs ::
  "('priv, 'pub, 'c, 'k, 'r, 's) udp_lib \<Rightarrow> ('k, 'r, 's) v5_node option \<Rightarrow> node_event \<Rightarrow> bool" where
  "node_occurs U x e \<longleftrightarrow> (\<exists>s. x = Some s \<and> node_enabled s e \<and> list_all (udp_event_ok U (udp s)) (dispatched s e))"

abbreviation node_run ::
  "('priv, 'pub, 'c, 'k, 'r, 's) udp_lib \<Rightarrow> ('k, 'r, 's) v5_node \<Rightarrow> node_event list \<Rightarrow> ('k, 'r, 's) v5_node option" where
  "node_run U s es \<equiv> foldl (node_step U) (Some s) es"

abbreviation node_possible :: "('priv, 'pub, 'c, 'k, 'r, 's) udp_lib \<Rightarrow> ('k, 'r, 's) v5_node \<Rightarrow> node_event list \<Rightarrow> bool" where
  "node_possible U s es \<equiv> run_ok (node_step U) (node_occurs U) (Some s) es"

primrec node_trace ::
  "('priv, 'pub, 'c, 'k, 'r, 's) udp_lib \<Rightarrow> ('k, 'r, 's) v5_node option \<Rightarrow> node_event list \<Rightarrow> event list" where
  "node_trace U x [] = []"
| "node_trace U x (e # es) = (case x of None \<Rightarrow> [] | Some s \<Rightarrow> dispatched s e) @ node_trace U (node_step U x e) es"

text \<open>The packets that the loop handles, and those that the socket delivers.\<close>

fun packet_of :: "event \<Rightarrow> (bytes \<times> UDPAddr) list" where
  "packet_of (PacketIn rawpacket fromAddr idNonce now) = [(rawpacket, fromAddr)]"
| "packet_of e = []"

fun received_by :: "node_event \<Rightarrow> (bytes \<times> UDPAddr) list" where
  "received_by (ReadDatagram datagram from) = [(take maxPacketSize datagram, from)]"
| "received_by e = []"

definition packets :: "event list \<Rightarrow> (bytes \<times> UDPAddr) list" where "packets es = concat (map packet_of es)"
definition datagrams :: "node_event list \<Rightarrow> (bytes \<times> UDPAddr) list" where "datagrams es = concat (map received_by es)"

lemma packets_simps [simp]: "packets [] = []" "packets (es @ fs) = packets es @ packets fs" "packets (e # es) = packet_of e @ packets es"
  by (simp_all add: packets_def)

lemma datagrams_simps [simp]: "datagrams [] = []" "datagrams (es @ fs) = datagrams es @ datagrams fs" "datagrams (e # es) = received_by e @ datagrams es"
  by (simp_all add: datagrams_def)

subsection \<open>Functions of the transport's clients\<close>

text \<open>
  The local node, and the requests made of a call and of what arrives on its channels: \<open>Ping\<close> drops the sequence number, \<open>findnode\<close> waits for
  the packets of the response, \<open>TalkRequest2\<close> is a talk request, and \<open>callTalkExt\<close> makes a call like \<open>call\<close>; \<open>refused\<close> says that its
  select found the context done.
\<close>

definition v5_Self :: "('k, 'r, 's) UDPv5 \<Rightarrow> enode" where "v5_Self t = self (utab t)"

definition v5_Ping :: "query_error + Packet \<Rightarrow> query_error option go" where
  "v5_Ping r = map_option (\<lambda>x. case x of Inl err \<Rightarrow> Some err | Inr seq \<Rightarrow> None) (ping_result r)"

definition findnode_request :: "u64 list \<Rightarrow> byte \<times> Packet" where
  "findnode_request distances = (NodesMsg, Findnode [] distances)"

definition v5_findnode ::
  "('priv, 'pub, 'c, 'k, 'r, 's) udp_lib \<Rightarrow> enode \<Rightarrow> u64 list \<Rightarrow> (string + Packet) list \<Rightarrow> (enode list \<times> string option) waited" where
  "v5_findnode U n distances inputs = waitForNodes (wire U) (disc U) (checkRelayIP U) n (Some distances) inputs"

definition talk2_request :: "string \<Rightarrow> bytes \<Rightarrow> byte \<times> Packet" where
  "talk2_request protocol request = (TalkResponseMsg, TalkRequest [] protocol request)"

fun talk2_result :: "query_error + Packet \<Rightarrow> (query_error + bytes) go" where
  "talk2_result (Inl err) = Some (Inl err)"
| "talk2_result (Inr (TalkResponse reqID message)) = Some (Inr message)"
| "talk2_result (Inr p) = None"

definition callTalkExt :: "('k, 'r, 's) UDPv5 \<Rightarrow> enode \<Rightarrow> byte \<Rightarrow> Packet \<Rightarrow> bytes \<Rightarrow> bool \<Rightarrow> ('k, 'r, 's) UDPv5" where
  "callTalkExt t n rtype packet reqID refused = new_call t n rtype packet reqID (if refused then [errClosed] else [])"

subsection \<open>The hand-over of the buffer\<close>

text \<open>
  The right to use the buffer is in one place at a time, or lost: with the dispatch loop that is about to arm the next read, in
  \<open>readNextCh\<close>, with the reader, or with a packet on its way. The packets on their way are the last ones received.
\<close>

definition pending_packets :: "('k, 'r, 's) v5_node \<Rightarrow> ReadPacket list" where
  "pending_packets s = (case dispatch_at s of Handling p \<Rightarrow> [p] | _ \<Rightarrow> []) @ packetInCh s @
     (case reader_at s of Dispatching p \<Rightarrow> [p] | _ \<Rightarrow> [])"

definition turns :: "('k, 'r, 's) v5_node \<Rightarrow> nat" where
  "turns s = of_bool (dispatch_at s = Arming) + readNextCh s + of_bool (reader_at s = Reading) + length (pending_packets s)"

definition handed_over :: "('k, 'r, 's) v5_node \<Rightarrow> (bytes \<times> UDPAddr) list \<Rightarrow> (bytes \<times> UDPAddr) list \<Rightarrow> bool" where
  "handed_over s handled got \<longleftrightarrow>
     turns s \<le> 1 \<and> length (rbuf s) = maxPacketSize \<and> (readNextClosed s \<longleftrightarrow> dispatch_at s = LoopDone) \<and>
     (\<exists>dropped. got = handled @ map (content (rbuf s)) (pending_packets s) @ dropped \<and>
        (dropped \<noteq> [] \<longrightarrow> turns s = 0 \<and> length dropped = 1))"

lemma handed_over_start: "handed_over (listening t) [] []"
  by (simp add: handed_over_def listening_def turns_def pending_packets_def)

lemma turns_udp [simp]: "turns (s\<lparr>udp := t\<rparr>) = turns s"
  by (simp add: turns_def pending_packets_def)

lemma handed_over_udp [simp]: "handed_over (s\<lparr>udp := t\<rparr>) = handed_over s"
  by (simp add: handed_over_def turns_def pending_packets_def fun_eq_iff)

lemma token_waiting:
  assumes "turns s \<le> 1" "0 < readNextCh s"
  shows "readNextCh s = 1" "pending_packets s = []" "dispatch_at s \<noteq> Arming"
proof -
  have "readNextCh s = 1" "length (pending_packets s) = 0" "of_bool (dispatch_at s = Arming) = (0 :: nat)"
    using assms unfolding turns_def by linarith+
  then show "readNextCh s = 1" "pending_packets s = []" "dispatch_at s \<noteq> Arming" by simp_all
qed

lemma local_handed_over:
  assumes "handed_over s handled got" "node_enabled s e"
  shows "\<exists>s'. node_local s e = Some s' \<and> handed_over s' (handled @ packets (dispatched s e)) (got @ received_by e)"
proof (cases e)
  case (Inner x)
  then show ?thesis using assms by (cases x) simp_all
next
  case (ReadDatagram datagram "from")
  then have "reader_at s = Reading" using assms(2) by simp
  then have "dispatch_at s \<noteq> Arming" "readNextCh s = 0" "pending_packets s = []"
    using assms(1) by (auto simp: handed_over_def turns_def)
  then show ?thesis using assms(1) ReadDatagram \<open>reader_at s = Reading\<close> 
    by (auto simp: handed_over_def turns_def pending_packets_def ReadFromUDP_content split: dispatcher.splits)
next
  case PacketTaken
  then obtain p ps where "packetInCh s = p # ps" using assms(2) by (cases "packetInCh s") auto
  then show ?thesis using assms PacketTaken
    by (auto simp: handed_over_def turns_def pending_packets_def split: reader.splits)
next
  case ReadToken
  then have "turns s \<le> 1" "0 < readNextCh s" using assms by (simp_all add: handed_over_def)
  note w = token_waiting [OF this]
  show ?thesis using assms ReadToken w
    by (auto simp: handed_over_def turns_def pending_packets_def split: dispatcher.splits)
qed (use assms in \<open>auto simp: handed_over_def turns_def pending_packets_def split: dispatcher.splits reader.splits\<close>)

lemma handed_over_step:
  assumes "handed_over s handled got" "node_occurs U (Some s) e"
  shows "run_ok (udp_step U) (occurs U) (Some (udp s)) (dispatched s e)"
    and "map_option udp (node_step U (Some s) e) = udp_run U (udp s) (dispatched s e)"
    and "node_step U (Some s) e = Some s' \<Longrightarrow> handed_over s' (handled @ packets (dispatched s e)) (got @ received_by e)"
proof -
  have e: "node_enabled s e" "list_all (udp_event_ok U (udp s)) (dispatched s e)" using assms(2) by (simp_all add: node_occurs_def)
  then show "run_ok (udp_step U) (occurs U) (Some (udp s)) (dispatched s e)"
    by (cases e) (auto simp: occurs_def split: dispatcher.splits)
  obtain s1 where s1: "node_local s e = Some s1" "handed_over s1 (handled @ packets (dispatched s e)) (got @ received_by e)"
    using local_handed_over [OF assms(1) e(1)] by blast
  show "map_option udp (node_step U (Some s) e) = udp_run U (udp s) (dispatched s e)"
    using s1(1) by (cases "udp_run U (udp s) (dispatched s e)") (simp_all add: node_step_def)
  show "node_step U (Some s) e = Some s' \<Longrightarrow> handed_over s' (handled @ packets (dispatched s e)) (got @ received_by e)"
    using s1 by (auto simp: node_step_def bind_eq_Some_conv)
qed

lemma node_stuck: "run_ok (node_step U) (node_occurs U) None es \<Longrightarrow> es = []"
  by (cases es) (simp_all add: node_occurs_def)

lemma node_refines:
  "handed_over s handled got \<Longrightarrow> node_possible U s es \<Longrightarrow>
   possible U (udp s) (node_trace U (Some s) es) \<and>
   map_option udp (node_run U s es) = udp_run U (udp s) (node_trace U (Some s) es) \<and>
   (\<forall>s'. node_run U s es = Some s' \<longrightarrow> handed_over s' (handled @ packets (node_trace U (Some s) es)) (got @ datagrams es))"
proof (induction es arbitrary: s handled got)
  case (Cons e es)
  have e: "node_occurs U (Some s) e" "run_ok (node_step U) (node_occurs U) (node_step U (Some s) e) es" using Cons.prems(2) by simp_all
  note now = handed_over_step [OF Cons.prems(1) e(1)]
  show ?case
  proof (cases "node_step U (Some s) e")
    case None
    then show ?thesis using e(2) node_stuck [of U es] now(1,2) by (auto simp: run_ok_append)
  next
    case (Some s1)
    then have u: "udp_run U (udp s) (dispatched s e) = Some (udp s1)" using now(2) by simp
    from Cons.IH [OF now(3) [OF Some]] e(2) Some u now(1) show ?thesis by (simp add: run_ok_append)
  qed
qed simp

text \<open>As long as no read fails and no packet is dropped, the token is somewhere, and whoever has it can go on.\<close>

definition loses_token :: "node_event \<Rightarrow> bool" where
  "loses_token e \<longleftrightarrow> e \<in> {ReadTemporary, ReadFails, PacketDropped}"

definition token_kept :: "('k, 'r, 's) v5_node \<Rightarrow> bool" where
  "token_kept s \<longleftrightarrow> turns s = 1 \<and> (reader_at s = ReaderDone \<longrightarrow> readNextClosed s)"

lemma token_kept_udp [simp]: "token_kept (s\<lparr>udp := t\<rparr>) = token_kept s"
  by (simp add: token_kept_def)

lemma token_step:
  assumes "token_kept s" "node_enabled s e" "node_local s e = Some s'" "\<not> loses_token e"
  shows "token_kept s'"
proof (cases e)
  case PacketTaken
  then obtain p ps where "packetInCh s = p # ps" using assms(2) by (cases "packetInCh s") auto
  then show ?thesis using assms PacketTaken by (auto simp: token_kept_def turns_def pending_packets_def)
next
  case ReadToken
  then have "turns s \<le> 1" "0 < readNextCh s" using assms by (simp_all add: token_kept_def)
  note w = token_waiting [OF this]
  show ?thesis using ReadToken assms w by (auto simp: token_kept_def turns_def pending_packets_def split: dispatcher.splits)
qed (use assms in \<open>auto simp: token_kept_def turns_def pending_packets_def loses_token_def split: if_splits\<close>)

lemma token_run:
  "token_kept s \<Longrightarrow> node_possible U s es \<Longrightarrow> node_run U s es = Some s' \<Longrightarrow> list_all (\<lambda>e. \<not> loses_token e) es \<Longrightarrow> token_kept s'"
proof (induction es arbitrary: s)
  case (Cons e es)
  then obtain s1 where s1: "node_step U (Some s) e = Some s1"
    by (cases "node_step U (Some s) e") (auto dest: node_stuck)
  then obtain s2 where "node_local s e = Some s2" "s1 = s2\<lparr>udp := udp s1\<rparr>" by (auto simp: node_step_def bind_eq_Some_conv)
  moreover have "node_enabled s e" "\<not> loses_token e" using Cons.prems by (auto simp: node_occurs_def)
  ultimately have "token_kept s1" using token_step [OF Cons.prems(1)] by (metis token_kept_udp)
  then show ?case using Cons.IH [of s1] Cons.prems s1 by simp
qed simp

lemma token_progress:
  assumes "token_kept s" "idle (udp s)" "dispatch_at s \<noteq> LoopDone" "close_at s = Open" "readNextClosed s \<longleftrightarrow> dispatch_at s = LoopDone"
  shows "\<exists>e \<in> {ReadArmed, ReadToken, ReadDatagram datagram from, PacketSent, PacketTaken, PacketHandled idNonce now}. node_enabled s e"
  using assms by (cases "dispatch_at s"; cases "reader_at s") (auto simp: token_kept_def turns_def pending_packets_def length_Suc_conv)

text \<open>Once the token is lost it does not come back.\<close>

lemma no_turns:
  assumes "turns s = 0" "node_enabled s e" "node_local s e = Some s'"
  shows "turns s' = 0 \<and> received_by e = []"
  using assms by (cases e) (auto simp: turns_def pending_packets_def split: dispatcher.splits reader.splits if_splits)

lemma no_turns_run:
  "turns s = 0 \<Longrightarrow> node_possible U s es \<Longrightarrow> datagrams es = []"
proof (induction es arbitrary: s)
  case (Cons e es)
  have e: "node_enabled s e" "run_ok (node_step U) (node_occurs U) (node_step U (Some s) e) es"
    using Cons.prems(2) by (auto simp: node_occurs_def [of U "Some s" e])
  have r: "received_by e = []" using Cons.prems(1) e(1) by (cases e) (auto simp: turns_def)
  show ?case
  proof (cases "node_step U (Some s) e")
    case None
    then show ?thesis using e(2) node_stuck [of U es] r by simp
  next
    case (Some s1)
    then obtain s2 where "node_local s e = Some s2" "s1 = s2\<lparr>udp := udp s1\<rparr>" by (auto simp: node_step_def bind_eq_Some_conv)
    then have "turns s1 = 0" using no_turns [OF Cons.prems(1) e(1), of s2] by (metis turns_udp)
    from Cons.IH [OF this] e(2) Some r show ?thesis by simp
  qed
qed simp

text \<open>A datagram that is too short for a packet, from the read to the end of its handling.\<close>

definition short_datagram :: "node_event list" where
  "short_datagram = [ReadArmed, ReadToken, ReadDatagram [1, 2, 3] ([127, 0, 0, 1], 30303), PacketSent, PacketTaken, PacketHandled [] 0, ReadArmed]"

lemma short_run:
  assumes "idle t"
  shows "node_possible (v5_udp W D relay db h u) (listening t) short_datagram \<and>
    node_trace (v5_udp W D relay db h u) (Some (listening t)) short_datagram = [PacketIn [1, 2, 3] ([127, 0, 0, 1], 30303) [] 0]"
proof -
  have d: "codecDecode (v5_udp W D relay db h u) k [1, 2, 3] a r = Some (k, replicate 32 0, None, Inl errTooShort)" for k a r
    by (simp add: v5_udp_def Decode_def sizeofStaticPacketData_def sizeofMaskingIV_def sizeofStaticHeader_def)
  have r: "ReadFromUDP (replicate maxPacketSize 0) [1, 2, 3] = (3, [1, 2, 3] @ replicate 1277 0)"
    by (simp add: ReadFromUDP_def maxPacketSize_def)
  show ?thesis
    using assms
    by (simp add: short_datagram_def listening_def node_step_def node_occurs_def udp_step_def r content_def handlePacket_def d numeral_3_eq_3)
qed

subsection \<open>Properties\<close>

text \<open>
  C11. The goroutines of a listening v5 transport, in every interleaving: neither the reader, the dispatch loop nor \<open>Close\<close> panics (in
  particular nothing is sent on the closed \<open>readNextCh\<close>), and they refine the dispatch machine, which handles the packets that the socket
  delivered, cut at 1280 bytes, in their order, each once and with the contents with which it was read, although all of them pass
  through one buffer. At any time at most one packet that was read has not been handled. As long as no read has failed and the
  transport is open, a step that brings the next packet to the dispatch loop can be taken whenever the loop is not busy with a call.
\<close>

theorem v5_reads:
  assumes "v5_started W look D relay db h u t0" "node_possible (v5_udp W D relay db h u) (listening t0) es"
  shows "\<exists>s n. node_run (v5_udp W D relay db h u) (listening t0) es = Some s \<and>
     possible (v5_udp W D relay db h u) t0 (node_trace (v5_udp W D relay db h u) (Some (listening t0)) es) \<and>
     udp_run (v5_udp W D relay db h u) t0 (node_trace (v5_udp W D relay db h u) (Some (listening t0)) es) = Some (udp s) \<and>
     packets (node_trace (v5_udp W D relay db h u) (Some (listening t0)) es) = take n (datagrams es) \<and> length (datagrams es) \<le> n + 1 \<and>
     (list_all (\<lambda>e. \<not> loses_token e) es \<and> idle (udp s) \<and> dispatch_at s \<noteq> LoopDone \<and> close_at s = Open \<longrightarrow>
        (\<exists>e \<in> {ReadArmed, ReadToken, ReadDatagram datagram from, PacketSent, PacketTaken, PacketHandled idNonce now}. node_enabled s e))"
proof -
  let ?U = "v5_udp W D relay db h u" and ?tr = "node_trace (v5_udp W D relay db h u) (Some (listening t0)) es"
  have start: "udp (listening t0) = t0" by (simp add: listening_def)
  note R = node_refines [OF handed_over_start assms(2), unfolded start, simplified]
  obtain t where t: "udp_run ?U t0 ?tr = Some t" using run_sound [OF assms(1)] R by blast
  then obtain s where s: "node_run ?U (listening t0) es = Some s" "udp s = t" using R by auto
  then have H: "handed_over s (packets ?tr) (datagrams es)" using R by simp
  moreover have "token_kept (listening t0)" by (simp add: token_kept_def turns_def pending_packets_def listening_def)
  then have "list_all (\<lambda>e. \<not> loses_token e) es \<Longrightarrow> token_kept s" using token_run [OF _ assms(2) s(1)] by simp
  moreover have "packets ?tr = take (length (packets ?tr)) (datagrams es) \<and> length (datagrams es) \<le> length (packets ?tr) + 1"
    using H by (auto simp: handed_over_def turns_def)
  ultimately show ?thesis using R s t token_progress [of s datagram "from" idNonce now]
    by (intro exI [of _ s] exI [of _ "length (packets ?tr)"]) (auto simp: handed_over_def)
qed

theorem v5_reads_witness:
  "\<exists>t0 s. node_run sample_udp (listening t0) short_datagram = Some s \<and>
     udp_run sample_udp t0 [PacketIn [1, 2, 3] ([127, 0, 0, 1], 30303) [] 0] = Some (udp s)"
proof -
  obtain t0 where t0: "v5_started sample_wire map_of sample_disc (\<lambda>a b. None) (\<lambda>i. None) (\<lambda>bs. replicate 16 0) (\<lambda>bs. None) t0"
    using sample_started by blast
  then have "idle t0" using started_sound by blast
  note short = short_run [OF this, of sample_wire sample_disc "\<lambda>a b. None" "\<lambda>i. None" "\<lambda>bs. replicate 16 0" "\<lambda>bs. None"]
  from v5_reads [OF t0 short [THEN conjunct1]] short show ?thesis by auto
qed

text \<open>
  C36. The reader of the v5 transport returns to its wait for a token after a temporary read error, but the token is used up and the dispatch
  loop sends a new one only after it has handled a packet: after one temporary error the transport never receives another packet,
  whatever happens.
\<close>

theorem v5_temporary_error:
  assumes "node_possible U (listening t) (es @ ReadTemporary # fs)"
  shows "datagrams fs = []"
proof -
  have es: "node_possible U (listening t) es"
    "run_ok (node_step U) (node_occurs U) (node_run U (listening t) es) (ReadTemporary # fs)"
    using assms by (simp_all add: run_ok_append)
  then obtain s where s: "node_run U (listening t) es = Some s" "reader_at s = Reading" by (auto simp: node_occurs_def)
  then have "turns s \<le> 1" using node_refines [OF handed_over_start es(1)] by (auto simp: handed_over_def)
  then have "turns (s\<lparr>reader_at := Ranging\<rparr>) = 0" using s(2) by (auto simp: turns_def pending_packets_def split: dispatcher.splits)
  moreover have "node_step U (Some s) ReadTemporary = Some (s\<lparr>reader_at := Ranging\<rparr>)" by (simp add: node_step_def)
  ultimately show ?thesis using no_turns_run [of "s\<lparr>reader_at := Ranging\<rparr>" U fs] es(2) s(1) by simp
qed

theorem v5_temporary_error_witness:
  "\<exists>t. node_possible sample_udp (listening t) ([ReadArmed, ReadToken] @ ReadTemporary # [CloseCancel]) \<and> datagrams [CloseCancel] = []"
proof -
  obtain t where "v5_started sample_wire map_of sample_disc (\<lambda>a b. None) (\<lambda>i. None) (\<lambda>bs. replicate 16 0) (\<lambda>bs. None) t"
    using sample_started by blast
  then have "idle t" using started_sound by blast
  then have p: "node_possible sample_udp (listening t) ([ReadArmed, ReadToken] @ ReadTemporary # [CloseCancel])"
    by (simp add: listening_def node_step_def node_occurs_def udp_step_def)
  then show ?thesis using v5_temporary_error [OF p] by blast
qed

end
