(* ===== verification/V4_Wire.thy ===== *)
theory V4_Wire
  imports Go_Net Bytesutil Node_Table
begin

text \<open>
  The v4 wire format (\<^verbatim>\<open>pkg/discover/v4wire/v4wire.go\<close>) and the key encoding of \<^verbatim>\<open>pkg/discover/node.go\<close>: packets, framing with hash and
  signature, and public keys as bytes. Keccak, secp256k1 and RLP are parameters.
\<close>

subsection \<open>Packets\<close>

definition PingPacket :: byte where "PingPacket = 1"
definition PongPacket :: byte where "PongPacket = 2"
definition FindnodePacket :: byte where "FindnodePacket = 3"
definition NeighborsPacket :: byte where "NeighborsPacket = 4"
definition ENRRequestPacket :: byte where "ENRRequestPacket = 5"
definition ENRResponsePacket :: byte where "ENRResponsePacket = 6"

lemmas v4_kinds = PingPacket_def PongPacket_def FindnodePacket_def NeighborsPacket_def ENRRequestPacket_def ENRResponsePacket_def

definition MaxNeighbors :: nat where "MaxNeighbors = 12"

type_synonym Pubkey = bytes

record v4_Node =
  nodeIP :: IP
  nodeUDP :: u16
  nodeTCP :: u16
  nodePubkey :: Pubkey

record v4_Endpoint =
  epIP :: IP
  epUDP :: u16
  epTCP :: u16

text \<open>The last field of every packet is what follows its known fields.\<close>

datatype v4_packet =
    v4_Ping u64 v4_Endpoint v4_Endpoint u64 u64 "bytes list"
  | v4_Pong v4_Endpoint bytes u64 u64 "bytes list"
  | v4_Findnode Pubkey u64 "bytes list"
  | v4_Neighbors "v4_Node list" u64 "bytes list"
  | v4_ENRRequest u64 "bytes list"
  | v4_ENRResponse bytes bytes "bytes list"

fun v4_Name :: "v4_packet \<Rightarrow> string" where
  "v4_Name (v4_Ping version from to exp seq rest) = ''PING/v4''"
| "v4_Name (v4_Pong to tok exp seq rest) = ''PONG/v4''"
| "v4_Name (v4_Findnode tgt exp rest) = ''FINDNODE/v4''"
| "v4_Name (v4_Neighbors nodes exp rest) = ''NEIGHBORS/v4''"
| "v4_Name (v4_ENRRequest exp rest) = ''ENRREQUEST/v4''"
| "v4_Name (v4_ENRResponse tok r rest) = ''ENRRESPONSE/v4''"

fun v4_Kind :: "v4_packet \<Rightarrow> byte" where
  "v4_Kind (v4_Ping version from to exp seq rest) = PingPacket"
| "v4_Kind (v4_Pong to tok exp seq rest) = PongPacket"
| "v4_Kind (v4_Findnode tgt exp rest) = FindnodePacket"
| "v4_Kind (v4_Neighbors nodes exp rest) = NeighborsPacket"
| "v4_Kind (v4_ENRRequest exp rest) = ENRRequestPacket"
| "v4_Kind (v4_ENRResponse tok r rest) = ENRResponsePacket"

definition To16 :: "IP \<Rightarrow> IP option" where
  "To16 ip = (if length ip = 4 then Some (v4InV6Prefix @ ip) else if length ip = 16 then Some ip else None)"

definition NewEndpoint :: "UDPAddr \<Rightarrow> u16 \<Rightarrow> v4_Endpoint" where
  "NewEndpoint addr tcpPort =
     \<lparr>epIP = (case To4 (fst addr) of Some ip4 \<Rightarrow> ip4 | None \<Rightarrow> (case To16 (fst addr) of Some ip6 \<Rightarrow> ip6 | None \<Rightarrow> [])),
      epUDP = of_int (snd addr), epTCP = tcpPort\<rparr>"

text \<open>
  \<^verbatim>\<open>time.Unix(int64(ts), 0).Before(now)\<close>: \<^verbatim>\<open>Time\<close> keeps its seconds as 64 bits since year one, so a time stamp that does not fit wraps around
  into the past. \<open>now\<close> is in nanoseconds since 1970.
\<close>

definition Expired :: "int \<Rightarrow> u64 \<Rightarrow> bool" where
  "Expired now ts \<longleftrightarrow>
     (let sec = sint (ts + 62135596800); nowSec = now div 1000000000 + 62135596800
      in sec < nowSec \<or> sec = nowSec \<and> 0 < now mod 1000000000)"

subsection \<open>Public keys\<close>

text \<open>A point of the curve is the pair of its coordinates.\<close>

definition ErrPacketTooSmall :: string where "ErrPacketTooSmall = ''too small''"
definition ErrBadHash :: string where "ErrBadHash = ''bad hash''"
definition ErrBadPoint :: string where "ErrBadPoint = ''invalid curve point''"

record 'priv v4_lib =
  Keccak256 :: "bytes \<Rightarrow> bytes"
  v4Sign :: "bytes \<Rightarrow> 'priv \<Rightarrow> string + bytes"
  Ecrecover :: "bytes \<Rightarrow> bytes \<Rightarrow> string + bytes"
  v4PublicKey :: "'priv \<Rightarrow> nat \<times> nat"
  IsOnCurve :: "nat \<Rightarrow> nat \<Rightarrow> bool"
  v4rlpEncode :: "v4_packet \<Rightarrow> string + bytes"
  v4rlpDecode :: "v4_packet \<Rightarrow> bytes \<Rightarrow> string + v4_packet"

definition Pubkey_ID :: "'priv v4_lib \<Rightarrow> Pubkey \<Rightarrow> ID" where
  "Pubkey_ID V e = Keccak256 V e"

definition v4_EncodePubkey :: "nat \<times> nat \<Rightarrow> Pubkey" where
  "v4_EncodePubkey key = nat_bytes 32 (fst key) @ nat_bytes 32 (snd key)"

definition v4_DecodePubkey :: "'priv v4_lib \<Rightarrow> Pubkey \<Rightarrow> string + nat \<times> nat" where
  "v4_DecodePubkey V e =
     (let half = length e div 2; x = bytes_nat (take half e); y = bytes_nat (drop half e)
      in if \<not> IsOnCurve V x y then Inl ErrBadPoint else Inr (x, y))"

definition encodePubkey :: "nat \<times> nat \<Rightarrow> Pubkey" where
  "encodePubkey key = nat_bytes 32 (fst key) @ nat_bytes 32 (snd key)"

definition decodePubkey :: "'priv v4_lib \<Rightarrow> bytes \<Rightarrow> string + nat \<times> nat" where
  "decodePubkey V e =
     (if length e \<noteq> 64 then Inl ''wrong size public key data''
      else let half = length e div 2; x = bytes_nat (take half e); y = bytes_nat (drop half e)
           in if \<not> IsOnCurve V x y then Inl ''invalid curve point'' else Inr (x, y))"

definition encPubkey_id :: "'priv v4_lib \<Rightarrow> Pubkey \<Rightarrow> ID" where
  "encPubkey_id V e = Keccak256 V e"

subsection \<open>Packets on the wire\<close>

definition macSize :: nat where "macSize = 32"
definition sigSize :: nat where "sigSize = 65"
definition headSize :: nat where "headSize = macSize + sigSize"

definition headSpace :: bytes where "headSpace = replicate headSize 0"

lemmas v4_sizes = macSize_def sigSize_def headSize_def

text \<open>\<^verbatim>\<open>copy(dst[off:], src)\<close>.\<close>

definition copy_into :: "bytes \<Rightarrow> nat \<Rightarrow> bytes \<Rightarrow> bytes" where
  "copy_into dst off src = take off dst @ take (length dst - off) src @ drop (off + length src) dst"

definition recoverNodeKey :: "'priv v4_lib \<Rightarrow> bytes \<Rightarrow> bytes \<Rightarrow> (string + Pubkey) go" where
  "recoverNodeKey V hash sig =
     (case Ecrecover V hash sig of
        Inl err \<Rightarrow> Some (Inl err)
      | Inr pubkey \<Rightarrow> if pubkey = [] then None else Some (Inr (copy_array 64 (tl pubkey))))"

text \<open>\<^verbatim>\<open>new(T)\<close> for the packet type of a kind.\<close>

definition v4_new :: "byte \<Rightarrow> v4_packet option" where
  "v4_new ptype =
     (let ep = \<lparr>epIP = [], epUDP = 0, epTCP = 0\<rparr>
      in if ptype = PingPacket then Some (v4_Ping 0 ep ep 0 0 [])
         else if ptype = PongPacket then Some (v4_Pong ep [] 0 0 [])
         else if ptype = FindnodePacket then Some (v4_Findnode (replicate 64 0) 0 [])
         else if ptype = NeighborsPacket then Some (v4_Neighbors [] 0 [])
         else if ptype = ENRRequestPacket then Some (v4_ENRRequest 0 [])
         else if ptype = ENRResponsePacket then Some (v4_ENRResponse [] [] [])
         else None)"

text \<open>The results that \<open>Decode\<close> returns besides an error are not used by its caller.\<close>

definition v4_Decode :: "'priv v4_lib \<Rightarrow> bytes \<Rightarrow> (string + v4_packet \<times> Pubkey \<times> bytes) go" where
  "v4_Decode V input =
     (if length input < headSize + 1 then Some (Inl ErrPacketTooSmall)
      else let hash = take macSize input; sig = drop macSize (take headSize input); sigdata = drop headSize input;
               shouldhash = Keccak256 V (drop macSize input)
           in if hash \<noteq> shouldhash then Some (Inl ErrBadHash)
              else do { r \<leftarrow> recoverNodeKey V (Keccak256 V (drop headSize input)) sig;
                        case r of
                          Inl err \<Rightarrow> Some (Inl err)
                        | Inr fromKey \<Rightarrow>
                            (case v4_new (hd sigdata) of
                               None \<Rightarrow> Some (Inl (''unknown type: '' @ show_nat (unat (hd sigdata))))
                             | Some req \<Rightarrow>
                                 (case v4rlpDecode V req (tl sigdata) of
                                    Inl err \<Rightarrow> Some (Inl err)
                                  | Inr req \<Rightarrow> Some (Inr (req, fromKey, hash)))) })"

definition v4_Encode :: "'priv v4_lib \<Rightarrow> 'priv \<Rightarrow> v4_packet \<Rightarrow> string + bytes \<times> bytes" where
  "v4_Encode V priv req =
     (case v4rlpEncode V req of
        Inl err \<Rightarrow> Inl err
      | Inr body \<Rightarrow>
          let packet = headSpace @ [v4_Kind req] @ body
          in case v4Sign V (Keccak256 V (drop headSize packet)) priv of
               Inl err \<Rightarrow> Inl err
             | Inr sig \<Rightarrow>
                 let packet = copy_into packet macSize sig;
                     hash = Keccak256 V (drop macSize packet)
                 in Inr (copy_into packet 0 hash, hash))"

subsection \<open>Laws of the libraries\<close>

text \<open>
  Keccak-256 has 32 bytes; a signature has 65 bytes and recovers the uncompressed public key of the signer, whose coordinates have at
  most 256 bits; decoding into an empty packet of the right type undoes encoding, and decoding keeps the type.
\<close>

definition v4_ok :: "'priv v4_lib \<Rightarrow> bool" where
  "v4_ok V \<longleftrightarrow> (\<forall>bs. length (Keccak256 V bs) = 32) \<and>
     (\<forall>h k sig. v4Sign V h k = Inr sig \<longrightarrow> length sig = 65 \<and> Ecrecover V h sig = Inr (4 # v4_EncodePubkey (v4PublicKey V k))) \<and>
     (\<forall>h sig pub. Ecrecover V h sig = Inr pub \<longrightarrow> length pub = 65) \<and>
     (\<forall>p bs. v4rlpEncode V p = Inr bs \<longrightarrow> (\<exists>e. v4_new (v4_Kind p) = Some e \<and> v4rlpDecode V e bs = Inr p)) \<and>
     (\<forall>e bs p. v4rlpDecode V e bs = Inr p \<longrightarrow> v4_Kind p = v4_Kind e)"

lemma v4_Decode_total:
  assumes "v4_ok V"
  shows "\<exists>r. v4_Decode V input = Some r"
proof -
  have "\<exists>r. recoverNodeKey V h sig = Some r" for h sig
  proof (cases "Ecrecover V h sig")
    case (Inr pub)
    then have "length pub = 65" using assms unfolding v4_ok_def by blast
    then show ?thesis using Inr by (auto simp: recoverNodeKey_def)
  qed (simp add: recoverNodeKey_def)
  then obtain r where "recoverNodeKey V (Keccak256 V (drop headSize input)) (drop macSize (take headSize input)) = Some r" by blast
  then show ?thesis by (simp add: v4_Decode_def Let_def split: sum.split option.split)
qed

lemma v4_new_kind: "v4_new k = Some e \<Longrightarrow> v4_Kind e = k"
  by (auto simp: v4_new_def Let_def split: if_splits)

lemma length_EncodePubkey [simp]: "length (v4_EncodePubkey k) = 64"
  by (simp add: v4_EncodePubkey_def)

lemma v4_Encode_shape:
  assumes "v4_ok V" "v4_Encode V priv p = Inr (packet, hash)"
  shows "\<exists>body sig. v4rlpEncode V p = Inr body \<and> v4Sign V (Keccak256 V (v4_Kind p # body)) priv = Inr sig \<and> length sig = 65 \<and>
     hash = Keccak256 V (sig @ v4_Kind p # body) \<and> packet = hash @ sig @ v4_Kind p # body \<and> length hash = 32"
proof -
  obtain body sig where b: "v4rlpEncode V p = Inr body"
    "v4Sign V (Keccak256 V (drop headSize (headSpace @ [v4_Kind p] @ body))) priv = Inr sig"
    "hash = Keccak256 V (drop macSize (copy_into (headSpace @ [v4_Kind p] @ body) macSize sig))"
    "packet = copy_into (copy_into (headSpace @ [v4_Kind p] @ body) macSize sig) 0 hash"
    using assms(2) by (auto simp: v4_Encode_def Let_def split: sum.splits)
  have d: "drop headSize (headSpace @ [v4_Kind p] @ body) = v4_Kind p # body" by (simp add: headSpace_def)
  have s: "length sig = 65" using assms(1) b(2) by (simp add: v4_ok_def)
  have c: "copy_into (headSpace @ [v4_Kind p] @ body) macSize sig = replicate 32 0 @ sig @ v4_Kind p # body"
    using s by (simp add: copy_into_def headSpace_def v4_sizes)
  have h: "hash = Keccak256 V (sig @ v4_Kind p # body)" using b(3) unfolding c by (simp add: macSize_def)
  have len: "length hash = 32" using assms(1) h by (simp add: v4_ok_def)
  have "packet = hash @ sig @ v4_Kind p # body" using b(4) len unfolding c by (simp add: copy_into_def)
  then show ?thesis using b(1,2) s h len unfolding d by blast
qed

lemma v4_Encode_Decode:
  assumes "v4_ok V" "v4_Encode V priv p = Inr (packet, hash)"
  shows "v4_Decode V packet = Some (Inr (p, v4_EncodePubkey (v4PublicKey V priv), hash))"
proof -
  from v4_Encode_shape [OF assms] obtain body sig where s: "v4rlpEncode V p = Inr body"
    "v4Sign V (Keccak256 V (v4_Kind p # body)) priv = Inr sig" "length sig = 65"
    "hash = Keccak256 V (sig @ v4_Kind p # body)" "packet = hash @ sig @ v4_Kind p # body" "length hash = 32" by blast
  have slices: "take macSize packet = hash" "drop macSize packet = sig @ v4_Kind p # body" "drop macSize (take headSize packet) = sig"
    "drop headSize packet = v4_Kind p # body" "\<not> length packet < headSize + 1"
    using s(3,6) by (simp_all add: s(5) v4_sizes)
  have key: "recoverNodeKey V (Keccak256 V (v4_Kind p # body)) sig = Some (Inr (v4_EncodePubkey (v4PublicKey V priv)))"
    using assms(1) s(2) by (simp add: recoverNodeKey_def v4_ok_def copy_array_def)
  obtain e where "v4_new (v4_Kind p) = Some e" "v4rlpDecode V e body = Inr p" using assms(1) s(1) unfolding v4_ok_def by blast
  then show ?thesis
    unfolding v4_Decode_def Let_def slices(1-4) using slices(5) key s(4) by simp
qed

text \<open>An instance in which a signature is the signer's key and three packet types can be encoded.\<close>

fun sample_rlpEncode :: "v4_packet \<Rightarrow> string + bytes" where
  "sample_rlpEncode (v4_Findnode tgt exp []) = (if length tgt = 64 then Inr (tgt @ be_bytes 8 exp) else Inl ''rlp'')"
| "sample_rlpEncode (v4_ENRRequest exp []) = Inr (be_bytes 8 exp)"
| "sample_rlpEncode (v4_ENRResponse tok r []) = (if length tok = 32 then Inr (tok @ r) else Inl ''rlp'')"
| "sample_rlpEncode p = Inl ''rlp''"

fun sample_rlpDecode :: "v4_packet \<Rightarrow> bytes \<Rightarrow> string + v4_packet" where
  "sample_rlpDecode (v4_Findnode tgt exp rest) bs = (if length bs = 72 then Inr (v4_Findnode (take 64 bs) (be_word (drop 64 bs)) []) else Inl ''rlp'')"
| "sample_rlpDecode (v4_ENRRequest exp rest) bs = (if length bs = 8 then Inr (v4_ENRRequest (be_word bs) []) else Inl ''rlp'')"
| "sample_rlpDecode (v4_ENRResponse tok r rest) bs = (if 32 \<le> length bs then Inr (v4_ENRResponse (take 32 bs) (drop 32 bs) []) else Inl ''rlp'')"
| "sample_rlpDecode p bs = Inl ''rlp''"

definition sample_v4 :: "nat v4_lib" where
  "sample_v4 =
     \<lparr>Keccak256 = (\<lambda>bs. replicate 32 (foldl (\<lambda>x b. x + b) 0 bs)), v4Sign = (\<lambda>h k. Inr (nat_bytes 65 k)),
      Ecrecover = (\<lambda>h sig. Inr (4 # v4_EncodePubkey (bytes_nat sig, 1))), v4PublicKey = (\<lambda>k. (k mod 256 ^ 65, 1)),
      IsOnCurve = (\<lambda>x y. True), v4rlpEncode = sample_rlpEncode, v4rlpDecode = sample_rlpDecode\<rparr>"

lemma sample_v4_ok: "v4_ok sample_v4"
proof -
  have "\<exists>e. v4_new (v4_Kind p) = Some e \<and> sample_rlpDecode e bs = Inr p" if "sample_rlpEncode p = Inr bs" for p bs
    using that by (cases p rule: sample_rlpEncode.cases)
      (auto simp: v4_new_def v4_kinds be_word_be_bytes split: if_splits)
  moreover have "v4_Kind p = v4_Kind e" if "sample_rlpDecode e bs = Inr p" for e bs p
    using that by (cases e) (auto split: if_splits)
  ultimately show ?thesis by (auto simp: v4_ok_def sample_v4_def bytes_nat_nat_bytes)
qed

subsection \<open>Properties\<close>

text \<open>
  C29. A v4 packet that is encoded under a key is decoded to the same packet, the sender's public key and the hash that its replies
  refer to; and whatever is decoded was framed with the hash of its contents and a signature over its contents that recovers the key reported.
\<close>

theorem v4_wire:
  assumes "v4_ok V"
  shows "(v4_Encode V priv p = Inr (packet, hash) \<longrightarrow>
            v4_Decode V packet = Some (Inr (p, v4_EncodePubkey (v4PublicKey V priv), hash))) \<and>
     (v4_Decode V input = Some (Inr (q, key, mac)) \<longrightarrow>
        97 < length input \<and> mac = Keccak256 V (drop 32 input) \<and> take 32 input = mac \<and> v4_Kind q = input ! 97 \<and>
        Ecrecover V (Keccak256 V (drop 97 input)) (take 65 (drop 32 input)) \<in> range (\<lambda>b. Inr (b # key)))"
proof (intro conjI impI)
  assume "v4_Encode V priv p = Inr (packet, hash)"
  then show "v4_Decode V packet = Some (Inr (p, v4_EncodePubkey (v4PublicKey V priv), hash))" by (rule v4_Encode_Decode [OF assms])
next
  assume "v4_Decode V input = Some (Inr (q, key, mac))"
  then obtain req where d: "\<not> length input < headSize + 1" "mac = take macSize input" "take macSize input = Keccak256 V (drop macSize input)"
    "recoverNodeKey V (Keccak256 V (drop headSize input)) (drop macSize (take headSize input)) = Some (Inr key)"
    "v4_new (hd (drop headSize input)) = Some req" "v4rlpDecode V req (tl (drop headSize input)) = Inr q"
    by (auto simp: v4_Decode_def Let_def split: if_splits bind_splits sum.splits option.splits)
  have len: "97 < length input" using d(1) by (simp add: v4_sizes)
  then show "97 < length input" .
  show "mac = Keccak256 V (drop 32 input)" "take 32 input = mac" using d(2,3) by (simp_all add: macSize_def)
  show "v4_Kind q = input ! 97"
    using assms d(5,6) v4_new_kind [OF d(5)] len by (auto simp: v4_ok_def v4_sizes hd_drop_conv_nth)
  have sig: "drop macSize (take headSize input) = take 65 (drop 32 input)" by (simp add: v4_sizes drop_take)
  obtain pub where pub: "Ecrecover V (Keccak256 V (drop 97 input)) (take 65 (drop 32 input)) = Inr pub" "pub \<noteq> []" "key = copy_array 64 (tl pub)"
    using d(4) unfolding sig by (auto simp: recoverNodeKey_def v4_sizes split: sum.splits if_splits)
  have "length pub = 65" using assms pub(1) unfolding v4_ok_def by blast
  then have "pub = hd pub # key" using pub(2,3) by (cases pub) (simp_all add: copy_array_def)
  then show "Ecrecover V (Keccak256 V (drop 97 input)) (take 65 (drop 32 input)) \<in> range (\<lambda>b. Inr (b # key))"
    using pub(1) by (metis rangeI)
qed

theorem v4_wire_witness:
  "\<exists>packet hash. v4_Encode sample_v4 5 (v4_ENRRequest 9 []) = Inr (packet, hash) \<and>
     v4_Decode sample_v4 packet = Some (Inr (v4_ENRRequest 9 [], v4_EncodePubkey (5, 1), hash))"
proof -
  obtain packet hash where e: "v4_Encode sample_v4 5 (v4_ENRRequest 9 []) = Inr (packet, hash)"
    by (simp add: v4_Encode_def sample_v4_def Let_def)
  from v4_wire [OF sample_v4_ok, of 5 "v4_ENRRequest 9 []" packet hash] e show ?thesis by (simp add: sample_v4_def)
qed

text \<open>Public keys survive their two encodings, and a key of the wrong size is refused.\<close>

lemma pubkey_roundtrip:
  assumes "x < 2 ^ 256" "y < 2 ^ 256" "IsOnCurve V x y"
  shows "v4_DecodePubkey V (v4_EncodePubkey (x, y)) = Inr (x, y) \<and> decodePubkey V (encodePubkey (x, y)) = Inr (x, y)"
proof -
  have "(256 :: nat) ^ 32 = 2 ^ 256" by simp
  then show ?thesis
    using assms by (simp add: v4_DecodePubkey_def v4_EncodePubkey_def decodePubkey_def encodePubkey_def bytes_nat_nat_bytes Let_def)
qed

end
