(* ===== verification/V4_Udp.thy ===== *)
theory V4_Udp
  imports V4_Wire Node_Lookup
begin

text \<open>
  The v4 transport (\<^verbatim>\<open>pkg/discover/v4_udp.go\<close>): requests and the queue of matchers for their replies, the loop that owns the queue and its
  timer, and the packet handlers. A matcher is a pointer, so the state keeps the matchers by address; its callback is a closure, here the
  constructor for the function that made it, with the variables it captures as fields of the matcher. The channel \<open>errc\<close> has room for one
  result: \<open>merrc\<close> is what was sent on it, and a second send, which would block the loop, is \<open>None\<close>. Handing a matcher or a reply to the
  loop and the loop's treatment of it are one step, which reads the clock once. The node database gives back the
  last time that was stored for an identity and an address, and zero before. Times are nanoseconds since 1970; the database, which is not part of
  this repository, keeps whole seconds and the 16-byte form of the address, so that the age of a bond is exact here and rounded there.
\<close>

subsection \<open>State\<close>

definition errExpired :: string where "errExpired = ''expired''"
definition errUnsolicitedReply :: string where "errUnsolicitedReply = ''unsolicited reply''"
definition errUnknownNode :: string where "errUnknownNode = ''unknown node''"
definition errClockWarp :: query_error where "errClockWarp = other_error ''reply deadline too far in the future''"

definition respTimeout :: int where "respTimeout = 500000000"
definition expiration :: int where "expiration = 20000000000"
definition bondExpiration :: int where "bondExpiration = 24 * 3600 * 1000000000"
definition ntpFailureThreshold :: nat where "ntpFailureThreshold = 32"
definition ntpWarningCooldown :: int where "ntpWarningCooldown = 600 * 1000000000"

datatype replyCallback = On_pong bytes "node option" | On_neighbors UDPAddr | On_enr bytes

record replyMatcher =
  mfrom :: ID
  mip :: IP
  mptype :: byte
  mdeadline :: int
  mcallback :: replyCallback
  merrc :: "query_error option list"
  mreply :: "v4_packet option"
  mnodes :: "node list"
  nreceived :: nat

record ('priv, 's) UDPv4 =
  priv4 :: 'priv
  tab4 :: "'s Table"
  plist :: "nat list"
  matchers :: "nat \<Rightarrow> replyMatcher"
  nmatchers :: nat
  nextTimeout :: "nat option"
  timer4 :: "int option"
  contTimeouts :: nat
  ntpWarnTime :: int
  driftChecks :: nat
  lastPingReceived :: "ID \<times> IP \<Rightarrow> int"
  lastPongReceived :: "ID \<times> IP \<Rightarrow> int"
  findFails4 :: "ID \<times> IP \<Rightarrow> int"
  out4 :: "(UDPAddr \<times> bytes) list"
  statements4 :: "(UDPAddr \<times> UDPAddr) list"
  contacts4 :: "UDPAddr list"
  closed4 :: bool

text \<open>
  The libraries: those of the wire format and the table, the relay check and the list of allowed networks of \<^verbatim>\<open>netutil\<close>, and of \<^verbatim>\<open>enode\<close> the
  node made from a key and an endpoint, the key and the record of a node, and the node of a valid record.
\<close>

record ('priv, 's) v4udp_lib =
  v4 :: "'priv v4_lib"
  disc4 :: "'s disc_lib"
  relay4 :: "IP \<Rightarrow> IP \<Rightarrow> string option"
  netrestrict :: "(IP \<Rightarrow> bool) option"
  NewV4 :: "nat \<times> nat \<Rightarrow> IP \<Rightarrow> nat \<Rightarrow> nat \<Rightarrow> enode"
  loadKey :: "enode \<Rightarrow> (nat \<times> nat) option"
  nodeRecord :: "enode \<Rightarrow> bytes"
  enodeNew :: "bytes \<Rightarrow> string + enode"

abbreviation upd_matcher :: "('priv, 's) UDPv4 \<Rightarrow> nat \<Rightarrow> (replyMatcher \<Rightarrow> replyMatcher) \<Rightarrow> ('priv, 's) UDPv4" where
  "upd_matcher t c f \<equiv> t\<lparr>matchers := (matchers t)(c := f (matchers t c))\<rparr>"

definition send_err :: "('priv, 's) UDPv4 \<Rightarrow> nat \<Rightarrow> query_error option \<Rightarrow> ('priv, 's) UDPv4 go" where
  "send_err t c err = (if merrc (matchers t c) \<noteq> [] then None else Some (upd_matcher t c (\<lambda>m. m\<lparr>merrc := [err]\<rparr>)))"

definition ListenV4 ::
  "('priv, 's) v4udp_lib \<Rightarrow> 'priv \<Rightarrow> enode \<Rightarrow> enode list \<Rightarrow> enode list \<Rightarrow> int \<Rightarrow> (string + ('priv, 's) UDPv4) go" where
  "ListenV4 U priv slf bootnodes queried now =
     do { r \<leftarrow> newTable (disc4 U) slf bootnodes queried now;
          case r of
            Inl err \<Rightarrow> Some (Inl err)
          | Inr tab \<Rightarrow>
              Some (Inr \<lparr>priv4 = priv, tab4 = tab, plist = [],
                matchers = (\<lambda>_. \<lparr>mfrom = [], mip = [], mptype = 0, mdeadline = 0, mcallback = On_enr [], merrc = [], mreply = None,
                                mnodes = [], nreceived = 0\<rparr>),
                nmatchers = 0, nextTimeout = None, timer4 = None, contTimeouts = 0, ntpWarnTime = 0, driftChecks = 0,
                lastPingReceived = (\<lambda>_. 0), lastPongReceived = (\<lambda>_. 0), findFails4 = (\<lambda>_. 0), out4 = [], statements4 = [],
                contacts4 = [], closed4 = False\<rparr>) }"

subsection \<open>The loop\<close>

text \<open>
  After \<^verbatim>\<open>plist.Remove(el)\<close> the element is in no list, and \<^verbatim>\<open>el.Next()\<close> is nil: each of the loops over the queue ends with the first
  element it removes. \<open>resetTimeout\<close> therefore looks at the first matcher only, which it keeps or removes.
\<close>

definition resetTimeout :: "('priv, 's) UDPv4 \<Rightarrow> int \<Rightarrow> ('priv, 's) UDPv4 go" where
  "resetTimeout t now =
     (case plist t of
        [] \<Rightarrow> Some t
      | c # cs \<Rightarrow>
          if nextTimeout t = Some c then Some t
          else if mdeadline (matchers t c) - now < 2 * respTimeout
          then Some (t\<lparr>nextTimeout := Some c, timer4 := Some (mdeadline (matchers t c))\<rparr>)
          else do { t \<leftarrow> send_err t c (Some errClockWarp);
                    Some (t\<lparr>plist := cs, nextTimeout := None, timer4 := None\<rparr>) })"

definition pending ::
  "('priv, 's) UDPv4 \<Rightarrow> ID \<Rightarrow> IP \<Rightarrow> byte \<Rightarrow> replyCallback \<Rightarrow> int \<Rightarrow> (nat \<times> ('priv, 's) UDPv4) go" where
  "pending t i ip ptype callback now =
     (let c = nmatchers t;
          m = \<lparr>mfrom = i, mip = ip, mptype = ptype, mdeadline = now + respTimeout, mcallback = callback,
               merrc = (if closed4 t then [Some errClosed] else []), mreply = None, mnodes = [], nreceived = 0\<rparr>;
          t = t\<lparr>matchers := (matchers t)(c := m), nmatchers := Suc c\<rparr>
      in if closed4 t then Some (c, t)
         else do { t \<leftarrow> resetTimeout (t\<lparr>plist := plist t @ [c]\<rparr>) now; Some (c, t) })"

text \<open>The node of a NEIGHBORS packet; the sender's address is that of the request.\<close>

definition nodeFromRPC ::
  "('priv, 's) v4udp_lib \<Rightarrow> ('priv, 's) UDPv4 \<Rightarrow> UDPAddr \<Rightarrow> v4_Node \<Rightarrow> ('priv, 's) UDPv4 \<times> (string + node)" where
  "nodeFromRPC U t sender rn =
     (if nodeUDP rn \<le> 1024 then (t, Inl errLowPort)
      else case relay4 U (fst sender) (nodeIP rn) of
        Some err \<Rightarrow> (t, Inl err)
      | None \<Rightarrow>
          if (case netrestrict U of None \<Rightarrow> False | Some allowed \<Rightarrow> \<not> allowed (nodeIP rn)) then (t, Inl ''not contained in netrestrict list'')
          else case v4_DecodePubkey (v4 U) (nodePubkey rn) of
            Inl err \<Rightarrow> (t, Inl err)
          | Inr key \<Rightarrow>
              (let n = wrapNode (fresh (tab4 t)) (NewV4 U key (nodeIP rn) (unat (nodeTCP rn)) (unat (nodeUDP rn)));
                   t = t\<lparr>tab4 := (tab4 t)\<lparr>fresh := Suc (fresh (tab4 t))\<rparr>\<rparr>
               in case ValidateComplete (disc4 U) (Node n) of
                    Some err \<Rightarrow> (t, Inl err)
                  | None \<Rightarrow> (t, Inr n)))"

fun collect_neighbors ::
  "('priv, 's) v4udp_lib \<Rightarrow> ('priv, 's) UDPv4 \<Rightarrow> nat \<Rightarrow> UDPAddr \<Rightarrow> v4_Node list \<Rightarrow> ('priv, 's) UDPv4" where
  "collect_neighbors U t c sender [] = t"
| "collect_neighbors U t c sender (rn # rns) =
     (let t = upd_matcher t c (\<lambda>m. m\<lparr>nreceived := Suc (nreceived m)\<rparr>)
      in case nodeFromRPC U t sender rn of
           (t, Inl err) \<Rightarrow> collect_neighbors U t c sender rns
         | (t, Inr n) \<Rightarrow> collect_neighbors U (upd_matcher t c (\<lambda>m. m\<lparr>mnodes := mnodes m @ [n]\<rparr>)) c sender rns)"

text \<open>The callbacks of \<open>sendPing\<close>, \<open>findnode\<close> and \<open>RequestENR\<close>: whether the reply matches and whether the request is done.\<close>

definition run_callback ::
  "('priv, 's) v4udp_lib \<Rightarrow> ('priv, 's) UDPv4 \<Rightarrow> nat \<Rightarrow> v4_packet \<Rightarrow> int \<Rightarrow> (('priv, 's) UDPv4 \<times> bool \<times> bool) go" where
  "run_callback U t c p now =
     (case (mcallback (matchers t c), p) of
        (On_pong hash n, v4_Pong to replyTok exp seq rest) \<Rightarrow>
          if replyTok \<noteq> hash then Some (t, False, False)
          else (case n of
                  None \<Rightarrow> Some (t, True, True)
                | Some n \<Rightarrow> do { tab \<leftarrow> addVerifiedNode (disc4 U) (tab4 t) n now; Some (t\<lparr>tab4 := tab\<rparr>, True, True) })
      | (On_neighbors toaddr, v4_Neighbors nodes exp rest) \<Rightarrow>
          (let t = collect_neighbors U t c toaddr nodes in Some (t, True, nreceived (matchers t c) \<ge> bucketSize))
      | (On_enr hash, v4_ENRResponse replyTok r rest) \<Rightarrow> Some (t, replyTok = hash, replyTok = hash)
      | _ \<Rightarrow> None)"

fun reply_loop ::
  "('priv, 's) v4udp_lib \<Rightarrow> ('priv, 's) UDPv4 \<Rightarrow> ID \<Rightarrow> IP \<Rightarrow> v4_packet \<Rightarrow> int \<Rightarrow> nat list \<Rightarrow> bool \<Rightarrow>
   (('priv, 's) UDPv4 \<times> bool) go" where
  "reply_loop U t from ip p now [] matched = Some (t, matched)"
| "reply_loop U t from ip p now (c # cs) matched =
     (if mfrom (matchers t c) = from \<and> mptype (matchers t c) = v4_Kind p \<and> IP_Equal (mip (matchers t c)) ip
      then do { r \<leftarrow> run_callback U t c p now;
                case r of (t, ok, requestDone) \<Rightarrow>
                  (let t = (upd_matcher t c (\<lambda>m. m\<lparr>mreply := Some p\<rparr>))\<lparr>contTimeouts := 0\<rparr>
                   in if requestDone
                      then do { t \<leftarrow> send_err t c None; Some (t\<lparr>plist := remove1 c (plist t)\<rparr>, matched \<or> ok) }
                      else reply_loop U t from ip p now cs (matched \<or> ok)) }
      else reply_loop U t from ip p now cs matched)"

definition handleReply ::
  "('priv, 's) v4udp_lib \<Rightarrow> ('priv, 's) UDPv4 \<Rightarrow> ID \<Rightarrow> IP \<Rightarrow> v4_packet \<Rightarrow> int \<Rightarrow> (('priv, 's) UDPv4 \<times> bool) go" where
  "handleReply U t from ip p now =
     (if closed4 t then Some (t, False)
      else do { r \<leftarrow> reply_loop U t from ip p now (plist t) False;
                t \<leftarrow> resetTimeout (fst r) now;
                Some (t, snd r) })"

fun timeout_loop :: "('priv, 's) UDPv4 \<Rightarrow> int \<Rightarrow> nat list \<Rightarrow> ('priv, 's) UDPv4 go" where
  "timeout_loop t now [] = Some t"
| "timeout_loop t now (c # cs) =
     (if mdeadline (matchers t c) \<le> now
      then do { t \<leftarrow> send_err t c (Some errTimeout);
                Some (t\<lparr>plist := remove1 c (plist t), contTimeouts := Suc (contTimeouts t)\<rparr>) }
      else timeout_loop t now cs)"

definition loop_timeout :: "('priv, 's) UDPv4 \<Rightarrow> int \<Rightarrow> ('priv, 's) UDPv4 go" where
  "loop_timeout t now =
     do { t \<leftarrow> timeout_loop (t\<lparr>nextTimeout := None, timer4 := None\<rparr>) now (plist t);
          resetTimeout
            (if contTimeouts t > ntpFailureThreshold
             then (if now - ntpWarnTime t \<ge> ntpWarningCooldown
                   then t\<lparr>ntpWarnTime := now, driftChecks := Suc (driftChecks t), contTimeouts := 0\<rparr>
                   else t\<lparr>contTimeouts := 0\<rparr>)
             else t) now }"

fun close_loop :: "('priv, 's) UDPv4 \<Rightarrow> nat list \<Rightarrow> ('priv, 's) UDPv4 go" where
  "close_loop t [] = Some t"
| "close_loop t (c # cs) = do { t \<leftarrow> send_err t c (Some errClosed); close_loop t cs }"

text \<open>The queue is a local variable of the loop and ends with it.\<close>

definition loop_close :: "('priv, 's) UDPv4 \<Rightarrow> ('priv, 's) UDPv4 go" where
  "loop_close t =
     (if closed4 t then Some t
      else do { t \<leftarrow> close_loop t (plist t); Some (t\<lparr>plist := [], nextTimeout := None, timer4 := None, closed4 := True\<rparr>) })"

subsection \<open>Requests\<close>

definition v4_write :: "('priv, 's) UDPv4 \<Rightarrow> UDPAddr \<Rightarrow> bytes \<Rightarrow> ('priv, 's) UDPv4" where
  "v4_write t toaddr packet = t\<lparr>out4 := out4 t @ [(toaddr, packet)]\<rparr>"

definition v4_send :: "('priv, 's) v4udp_lib \<Rightarrow> ('priv, 's) UDPv4 \<Rightarrow> UDPAddr \<Rightarrow> v4_packet \<Rightarrow> ('priv, 's) UDPv4" where
  "v4_send U t toaddr req =
     (case v4_Encode (v4 U) (priv4 t) req of
        Inl err \<Rightarrow> t
      | Inr (packet, hash) \<Rightarrow> v4_write t toaddr packet)"

definition expiry :: "int \<Rightarrow> u64" where
  "expiry now = of_int ((now + expiration) div 1000000000)"

definition ourEndpoint :: "('priv, 's) UDPv4 \<Rightarrow> v4_Endpoint" where
  "ourEndpoint t = (let n = self (tab4 t) in NewEndpoint (eIP n, int (eUDP n)) (of_nat (eTCP n)))"

definition makePing :: "('priv, 's) UDPv4 \<Rightarrow> UDPAddr \<Rightarrow> int \<Rightarrow> v4_packet" where
  "makePing t toaddr now = v4_Ping 4 (ourEndpoint t) (NewEndpoint toaddr 0) (expiry now) (eSeq (self (tab4 t))) []"

text \<open>A request that cannot be encoded has a matcher that is not in the queue and holds the error.\<close>

definition failed_matcher :: "('priv, 's) UDPv4 \<Rightarrow> string \<Rightarrow> nat \<times> ('priv, 's) UDPv4" where
  "failed_matcher t err =
     (let c = nmatchers t
      in (c, t\<lparr>matchers := (matchers t)(c := \<lparr>mfrom = [], mip = [], mptype = 0, mdeadline = 0, mcallback = On_enr [],
               merrc = [Some (other_error err)], mreply = None, mnodes = [], nreceived = 0\<rparr>), nmatchers := Suc c\<rparr>))"

definition sendPing ::
  "('priv, 's) v4udp_lib \<Rightarrow> ('priv, 's) UDPv4 \<Rightarrow> ID \<Rightarrow> UDPAddr \<Rightarrow> node option \<Rightarrow> int \<Rightarrow> (nat \<times> ('priv, 's) UDPv4) go" where
  "sendPing U t toid toaddr n now =
     (case v4_Encode (v4 U) (priv4 t) (makePing t toaddr now) of
        Inl err \<Rightarrow> Some (failed_matcher t err)
      | Inr (packet, hash) \<Rightarrow>
          do { r \<leftarrow> pending t toid (fst toaddr) PongPacket (On_pong hash n) now;
               let t = snd r;
               Some (fst r, v4_write (t\<lparr>contacts4 := contacts4 t @ [toaddr]\<rparr>) toaddr packet) })"

definition v4_findnode ::
  "('priv, 's) v4udp_lib \<Rightarrow> ('priv, 's) UDPv4 \<Rightarrow> ID \<Rightarrow> UDPAddr \<Rightarrow> Pubkey \<Rightarrow> int \<Rightarrow> (nat \<times> ('priv, 's) UDPv4) go" where
  "v4_findnode U t toid toaddr tgt now =
     do { r \<leftarrow> pending t toid (fst toaddr) NeighborsPacket (On_neighbors toaddr) now;
          Some (fst r, v4_send U (snd r) toaddr (v4_Findnode tgt (expiry now) [])) }"

definition v4_RequestENR ::
  "('priv, 's) v4udp_lib \<Rightarrow> ('priv, 's) UDPv4 \<Rightarrow> enode \<Rightarrow> int \<Rightarrow> (nat \<times> ('priv, 's) UDPv4) go" where
  "v4_RequestENR U t n now =
     (case v4_Encode (v4 U) (priv4 t) (v4_ENRRequest (expiry now) []) of
        Inl err \<Rightarrow> Some (failed_matcher t err)
      | Inr (packet, hash) \<Rightarrow>
          do { r \<leftarrow> pending t (eID n) (eIP n) ENRResponsePacket (On_enr hash) now;
               Some (fst r, v4_write (snd r) (eIP n, int (eUDP n)) packet) })"

definition checkBond :: "('priv, 's) UDPv4 \<Rightarrow> ID \<Rightarrow> IP \<Rightarrow> int \<Rightarrow> bool" where
  "checkBond t i ip now \<longleftrightarrow> now - lastPongReceived t (i, ip) < bondExpiration"

text \<open>Whether a request is preceded by a ping; the request waits for the ping's matcher first.\<close>

definition ensureBond ::
  "('priv, 's) v4udp_lib \<Rightarrow> ('priv, 's) UDPv4 \<Rightarrow> ID \<Rightarrow> UDPAddr \<Rightarrow> int \<Rightarrow> (nat option \<times> ('priv, 's) UDPv4) go" where
  "ensureBond U t toid toaddr now =
     (let tooOld = now - lastPingReceived t (toid, fst toaddr) > bondExpiration
      in if tooOld \<or> findFails4 t (toid, fst toaddr) > maxFindnodeFailures
         then map_option (apfst Some) (sendPing U t toid toaddr None now)
         else Some (None, t))"

text \<open>What the callers make of the result of their matcher.\<close>

fun v4_ping_result :: "query_error option \<Rightarrow> v4_packet option \<Rightarrow> (u64 \<times> query_error option) go" where
  "v4_ping_result (Some err) r = Some (0, Some err)"
| "v4_ping_result None (Some (v4_Pong to tok exp seq rest)) = Some (seq, None)"
| "v4_ping_result None r = None"

definition findnode_result :: "query_error option \<Rightarrow> v4_packet option \<Rightarrow> node list \<Rightarrow> node list \<times> query_error option" where
  "findnode_result err r nodes = (nodes, if err = Some errTimeout \<and> r \<noteq> None then None else err)"

fun RequestENR_result ::
  "('priv, 's) v4udp_lib \<Rightarrow> enode \<Rightarrow> query_error option \<Rightarrow> v4_packet option \<Rightarrow> (query_error + enode) go" where
  "RequestENR_result U n (Some err) r = Some (Inl err)"
| "RequestENR_result U n None (Some (v4_ENRResponse tok r rest)) =
     Some (case enodeNew U r of
             Inl err \<Rightarrow> Inl (other_error err)
           | Inr respN \<Rightarrow>
               if eID respN \<noteq> eID n then Inl (other_error ''invalid ID in response record'')
               else if eSeq respN < eSeq n then Inr n
               else case relay4 U (eIP n) (eIP respN) of
                      Some err \<Rightarrow> Inl (other_error (''invalid IP in response record: '' @ err))
                    | None \<Rightarrow> Inr respN)"
| "RequestENR_result U n None r = None"

subsection \<open>Packet handlers\<close>

definition nodeToRPC :: "('priv, 's) v4udp_lib \<Rightarrow> node \<Rightarrow> v4_Node" where
  "nodeToRPC U n =
     (let ekey = (case loadKey U (Node n) of Some key \<Rightarrow> v4_EncodePubkey key | None \<Rightarrow> replicate 64 0)
      in \<lparr>nodeIP = nIP n, nodeUDP = of_nat (eUDP (Node n)), nodeTCP = of_nat (eTCP (Node n)), nodePubkey = ekey\<rparr>)"

definition verifyPing :: "('priv, 's) v4udp_lib \<Rightarrow> u64 \<Rightarrow> Pubkey \<Rightarrow> int \<Rightarrow> string + nat \<times> nat" where
  "verifyPing U exp fromKey now =
     (case v4_DecodePubkey (v4 U) fromKey of
        Inl err \<Rightarrow> Inl err
      | Inr senderKey \<Rightarrow> if Expired now exp then Inl errExpired else Inr senderKey)"

definition v4_handlePing ::
  "('priv, 's) v4udp_lib \<Rightarrow> ('priv, 's) UDPv4 \<Rightarrow> v4_Endpoint \<Rightarrow> v4_Endpoint \<Rightarrow> nat \<times> nat \<Rightarrow> UDPAddr \<Rightarrow> ID \<Rightarrow> bytes \<Rightarrow> int \<Rightarrow>
   ('priv, 's) UDPv4 go" where
  "v4_handlePing U t reqFrom reqTo senderKey from fromID mac now =
     (let t = v4_send U t from (v4_Pong (NewEndpoint from (epTCP reqFrom)) mac (expiry now) (eSeq (self (tab4 t))) []);
          n = wrapNode (fresh (tab4 t)) (NewV4 U senderKey (fst from) (unat (epTCP reqFrom)) (nat (snd from)));
          t = t\<lparr>tab4 := (tab4 t)\<lparr>fresh := Suc (fresh (tab4 t))\<rparr>\<rparr>
      in do { t \<leftarrow> (if now - lastPongReceived t (nID n, fst from) > bondExpiration
                   then map_option snd (sendPing U t fromID from (Some n) now)
                   else do { tab \<leftarrow> addVerifiedNode (disc4 U) (tab4 t) n now; Some (t\<lparr>tab4 := tab\<rparr>) });
              Some (t\<lparr>lastPingReceived := (lastPingReceived t)((nID n, fst from) := now),
                      statements4 := statements4 t @ [(from, (epIP reqTo, uint (epUDP reqTo)))]\<rparr>) })"

definition verifyPong ::
  "('priv, 's) v4udp_lib \<Rightarrow> ('priv, 's) UDPv4 \<Rightarrow> v4_packet \<Rightarrow> v4_Endpoint \<Rightarrow> u64 \<Rightarrow> UDPAddr \<Rightarrow> ID \<Rightarrow> int \<Rightarrow>
   (('priv, 's) UDPv4 \<times> string option) go" where
  "verifyPong U t p to exp from fromID now =
     (if Expired now exp then Some (t, Some errExpired)
      else do { r \<leftarrow> handleReply U t fromID (fst from) p now;
                let t = fst r;
                if \<not> snd r then Some (t, Some errUnsolicitedReply)
                else Some (t\<lparr>statements4 := statements4 t @ [(from, (epIP to, uint (epUDP to)))],
                            lastPongReceived := (lastPongReceived t)((fromID, fst from) := now)\<rparr>, None) })"

definition verifyFindnode :: "('priv, 's) UDPv4 \<Rightarrow> u64 \<Rightarrow> UDPAddr \<Rightarrow> ID \<Rightarrow> int \<Rightarrow> string option" where
  "verifyFindnode t exp from fromID now =
     (if Expired now exp then Some errExpired
      else if \<not> checkBond t fromID (fst from) now then Some errUnknownNode else None)"

text \<open>The packets of a FINDNODE reply: \<open>nodes\<close> are those of the packet under construction.\<close>

fun neighbors_loop ::
  "('priv, 's) v4udp_lib \<Rightarrow> IP \<Rightarrow> u64 \<Rightarrow> node list \<Rightarrow> v4_Node list \<Rightarrow> bool \<Rightarrow> v4_packet list" where
  "neighbors_loop U ip exp [] nodes sent = (if nodes \<noteq> [] \<or> \<not> sent then [v4_Neighbors nodes exp []] else [])"
| "neighbors_loop U ip exp (n # ns) nodes sent =
     (let nodes = (if relay4 U ip (nIP n) = None then nodes @ [nodeToRPC U n] else nodes)
      in if length nodes = MaxNeighbors then v4_Neighbors nodes exp [] # neighbors_loop U ip exp ns [] True
         else neighbors_loop U ip exp ns nodes sent)"

definition v4_handleFindnode ::
  "('priv, 's) v4udp_lib \<Rightarrow> ('priv, 's) UDPv4 \<Rightarrow> Pubkey \<Rightarrow> UDPAddr \<Rightarrow> int \<Rightarrow> ('priv, 's) UDPv4" where
  "v4_handleFindnode U t reqTarget from now =
     (let closest = nentries (findnodeByID (disc4 U) (tab4 t) (Keccak256 (v4 U) reqTarget) bucketSize True)
      in foldl (\<lambda>t p. v4_send U t from p) t (neighbors_loop U (fst from) (expiry now) closest [] False))"

definition verifyNeighbors ::
  "('priv, 's) v4udp_lib \<Rightarrow> ('priv, 's) UDPv4 \<Rightarrow> v4_packet \<Rightarrow> u64 \<Rightarrow> UDPAddr \<Rightarrow> ID \<Rightarrow> int \<Rightarrow> (('priv, 's) UDPv4 \<times> string option) go" where
  "verifyNeighbors U t p exp from fromID now =
     (if Expired now exp then Some (t, Some errExpired)
      else do { r \<leftarrow> handleReply U t fromID (fst from) p now;
                Some (fst r, if snd r then None else Some errUnsolicitedReply) })"

definition verifyENRRequest :: "('priv, 's) UDPv4 \<Rightarrow> u64 \<Rightarrow> UDPAddr \<Rightarrow> ID \<Rightarrow> int \<Rightarrow> string option" where
  "verifyENRRequest t exp from fromID now =
     (if Expired now exp then Some errExpired
      else if \<not> checkBond t fromID (fst from) now then Some errUnknownNode else None)"

definition handleENRRequest ::
  "('priv, 's) v4udp_lib \<Rightarrow> ('priv, 's) UDPv4 \<Rightarrow> UDPAddr \<Rightarrow> bytes \<Rightarrow> ('priv, 's) UDPv4" where
  "handleENRRequest U t from mac = v4_send U t from (v4_ENRResponse mac (nodeRecord U (self (tab4 t))) [])"

definition verifyENRResponse ::
  "('priv, 's) v4udp_lib \<Rightarrow> ('priv, 's) UDPv4 \<Rightarrow> v4_packet \<Rightarrow> UDPAddr \<Rightarrow> ID \<Rightarrow> int \<Rightarrow> (('priv, 's) UDPv4 \<times> string option) go" where
  "verifyENRResponse U t p from fromID now =
     do { r \<leftarrow> handleReply U t fromID (fst from) p now;
          Some (fst r, if snd r then None else Some errUnsolicitedReply) }"

text \<open>\<open>handlePacket\<close> with the choice of handlers of \<open>wrapPacket\<close>.\<close>

definition wrapPacket ::
  "('priv, 's) v4udp_lib \<Rightarrow> ('priv, 's) UDPv4 \<Rightarrow> v4_packet \<Rightarrow> UDPAddr \<Rightarrow> ID \<Rightarrow> Pubkey \<Rightarrow> bytes \<Rightarrow> int \<Rightarrow>
   (('priv, 's) UDPv4 \<times> string option) go" where
  "wrapPacket U t p from fromID fromKey hash now =
     (case p of
        v4_Ping version reqFrom reqTo exp seq rest \<Rightarrow>
          (case verifyPing U exp fromKey now of
             Inl err \<Rightarrow> Some (t, Some err)
           | Inr senderKey \<Rightarrow> map_option (\<lambda>t. (t, None)) (v4_handlePing U t reqFrom reqTo senderKey from fromID hash now))
      | v4_Pong to tok exp seq rest \<Rightarrow> verifyPong U t p to exp from fromID now
      | v4_Findnode tgt exp rest \<Rightarrow>
          (case verifyFindnode t exp from fromID now of
             Some err \<Rightarrow> Some (t, Some err)
           | None \<Rightarrow> Some (v4_handleFindnode U t tgt from now, None))
      | v4_Neighbors nodes exp rest \<Rightarrow> verifyNeighbors U t p exp from fromID now
      | v4_ENRRequest exp rest \<Rightarrow>
          (case verifyENRRequest t exp from fromID now of
             Some err \<Rightarrow> Some (t, Some err)
           | None \<Rightarrow> Some (handleENRRequest U t from hash, None))
      | v4_ENRResponse tok r rest \<Rightarrow> verifyENRResponse U t p from fromID now)"

definition v4_handlePacket ::
  "('priv, 's) v4udp_lib \<Rightarrow> ('priv, 's) UDPv4 \<Rightarrow> UDPAddr \<Rightarrow> bytes \<Rightarrow> int \<Rightarrow> (('priv, 's) UDPv4 \<times> string option) go" where
  "v4_handlePacket U t from buf now =
     do { r \<leftarrow> v4_Decode (v4 U) buf;
          case r of
            Inl err \<Rightarrow> Some (t, Some err)
          | Inr (rawpacket, fromKey, hash) \<Rightarrow> wrapPacket U t rawpacket from (Pubkey_ID (v4 U) fromKey) fromKey hash now }"

subsection \<open>Lookups\<close>

text \<open>
  A lookup works on the table of the transport; its random target, and for the lookups that run, the choices of its scheduling, are
  arguments. \<open>LookupPubkey\<close> waits for a refresh of an empty table first: \<open>refreshed\<close> is the table that the refresh leaves.
\<close>

definition v4_newLookup :: "('priv, 's) v4udp_lib \<Rightarrow> ('priv, 's) UDPv4 \<Rightarrow> Pubkey \<Rightarrow> 's lookup" where
  "v4_newLookup U t targetKey = newLookup (tab4 t) (findFails4 t) (Keccak256 (v4 U) targetKey)"

definition v4_newRandomLookup :: "('priv, 's) v4udp_lib \<Rightarrow> ('priv, 's) UDPv4 \<Rightarrow> Pubkey \<Rightarrow> 's lookup" where
  "v4_newRandomLookup U t random = v4_newLookup U t random"

definition v4_lookupRandom :: "('priv, 's) v4udp_lib \<Rightarrow> ('priv, 's) UDPv4 \<Rightarrow> Pubkey \<Rightarrow> choice list \<Rightarrow> enode list go" where
  "v4_lookupRandom U t random cs = run (disc4 U) (v4_newRandomLookup U t random) cs"

definition v4_lookupSelf :: "('priv, 's) v4udp_lib \<Rightarrow> ('priv, 's) UDPv4 \<Rightarrow> choice list \<Rightarrow> enode list go" where
  "v4_lookupSelf U t cs = run (disc4 U) (v4_newLookup U t (encodePubkey (v4PublicKey (v4 U) (priv4 t)))) cs"

definition LookupPubkey :: "('priv, 's) v4udp_lib \<Rightarrow> ('priv, 's) UDPv4 \<Rightarrow> nat \<times> nat \<Rightarrow> 's Table \<Rightarrow> choice list \<Rightarrow> enode list go" where
  "LookupPubkey U t key refreshed cs =
     (let t = (if table_len (tab4 t) = 0 then t\<lparr>tab4 := refreshed\<rparr> else t)
      in run (disc4 U) (v4_newLookup U t (encodePubkey key)) cs)"

definition v4_RandomNodes :: "('priv, 's) UDPv4 \<Rightarrow> 's lookupIterator" where
  "v4_RandomNodes t = newLookupIterator (tab4 t) (findFails4 t) (closed4 t)"

text \<open>
  \<open>Resolve\<close>: \<open>enr k n\<close> is the answer to the record request of number \<open>k\<close>, to the node \<open>n\<close>, and \<open>looked_up\<close> what the lookup of a key finds.
\<close>

fun resolve_loop :: "(nat \<Rightarrow> enode \<Rightarrow> query_error + enode) \<Rightarrow> nat \<Rightarrow> enode \<Rightarrow> enode list \<Rightarrow> enode" where
  "resolve_loop enr k n [] = n"
| "resolve_loop enr k n (rn # rns) =
     (if eID rn = eID n
      then (case enr k rn of Inr rn \<Rightarrow> rn | Inl err \<Rightarrow> resolve_loop enr (Suc k) n rns)
      else resolve_loop enr k n rns)"

definition v4_Resolve ::
  "('priv, 's) v4udp_lib \<Rightarrow> ('priv, 's) UDPv4 \<Rightarrow> (nat \<Rightarrow> enode \<Rightarrow> query_error + enode) \<Rightarrow> (nat \<times> nat \<Rightarrow> enode list) \<Rightarrow> enode \<Rightarrow> enode go" where
  "v4_Resolve U t enr looked_up n =
     (case enr 0 n of
        Inr rn \<Rightarrow> Some rn
      | Inl err \<Rightarrow>
          do { intable \<leftarrow> getNode (disc4 U) (tab4 t) (eID n);
               let search = (\<lambda>n. case loadKey U n of None \<Rightarrow> n | Some key \<Rightarrow> resolve_loop enr 2 n (looked_up key));
               Some (case intable of
                       None \<Rightarrow> search n
                     | Some m \<Rightarrow>
                         if eSeq m > eSeq n then (case enr 1 m of Inr rn \<Rightarrow> rn | Inl err \<Rightarrow> search m)
                         else search n) })"

subsection \<open>Events\<close>

text \<open>
  The timer is stopped when the queue is empty; a firing left in its channel then finds no request and no count of timeouts to report, so
  that a timer event without a timer set changes nothing. Closing the transport and the loop's sending of \<open>errClosed\<close> to every request
  are one step.
\<close>

datatype v4_event =
    V4_packet UDPAddr bytes int
  | V4_timer int
  | V4_ping enode int
  | V4_bond ID UDPAddr int
  | V4_findnode ID UDPAddr Pubkey int
  | V4_enr enode int
  | V4_close

definition v4_step :: "('priv, 's) v4udp_lib \<Rightarrow> ('priv, 's) UDPv4 \<Rightarrow> v4_event \<Rightarrow> ('priv, 's) UDPv4 go" where
  "v4_step U t e =
     (case e of
        V4_packet from buf now \<Rightarrow> map_option fst (v4_handlePacket U t from buf now)
      | V4_timer now \<Rightarrow> if timer4 t \<noteq> None then loop_timeout t now else Some t
      | V4_ping n now \<Rightarrow> map_option snd (sendPing U t (eID n) (eIP n, int (eUDP n)) None now)
      | V4_bond i addr now \<Rightarrow> map_option snd (ensureBond U t i addr now)
      | V4_findnode i addr tgt now \<Rightarrow> map_option snd (v4_findnode U t i addr tgt now)
      | V4_enr n now \<Rightarrow> map_option snd (v4_RequestENR U t n now)
      | V4_close \<Rightarrow> loop_close t)"

end
