(* ===== verification/V4_Loop.thy ===== *)
theory V4_Loop
  imports V4_Udp
begin

text \<open>
  The queue of reply matchers of the v4 transport: what every step keeps of it. A matcher in the queue has no result yet, one that has
  left the queue has exactly one, and a result without an error comes with the reply that its request asked for. As long as the clock does
  not go back, the timer is set for the first matcher of the queue.
\<close>

subsection \<open>Invariants\<close>

fun callback_kind :: "replyCallback \<Rightarrow> byte" where
  "callback_kind (On_pong hash n) = PongPacket"
| "callback_kind (On_neighbors addr) = NeighborsPacket"
| "callback_kind (On_enr hash) = ENRResponsePacket"

fun answers :: "replyCallback \<Rightarrow> nat \<Rightarrow> v4_packet option \<Rightarrow> bool" where
  "answers (On_pong hash n) k (Some (v4_Pong to tok exp seq rest)) \<longleftrightarrow> tok = hash"
| "answers (On_neighbors addr) k (Some (v4_Neighbors nodes exp rest)) \<longleftrightarrow> bucketSize \<le> k"
| "answers (On_enr hash) k (Some (v4_ENRResponse tok r rest)) \<longleftrightarrow> tok = hash"
| "answers cb k p \<longleftrightarrow> False"

text \<open>
  The reply noted in a matcher is of the kind that was asked for, and the nodes collected are among those received; fewer than sixteen
  were received as long as the request is not answered.
\<close>

definition reply_ok :: "replyMatcher \<Rightarrow> bool" where
  "reply_ok m \<longleftrightarrow> (\<forall>p. mreply m = Some p \<longrightarrow> v4_Kind p = callback_kind (mcallback m)) \<and> length (mnodes m) \<le> nreceived m"

definition waiting :: "replyMatcher \<Rightarrow> bool" where
  "waiting m \<longleftrightarrow> merrc m = [] \<and> callback_kind (mcallback m) = mptype m \<and> reply_ok m \<and> nreceived m < bucketSize"

definition settled :: "replyMatcher \<Rightarrow> bool" where
  "settled m \<longleftrightarrow> reply_ok m \<and> (\<exists>r. merrc m = [r] \<and>
     (if r = None then answers (mcallback m) (nreceived m) (mreply m) else nreceived m < bucketSize))"

lemma settled_error: "reply_ok m \<Longrightarrow> nreceived m < bucketSize \<Longrightarrow> merrc m = [Some e] \<Longrightarrow> settled m"
  by (simp add: settled_def)

definition queue_inv :: "('priv, 's) UDPv4 \<Rightarrow> bool" where
  "queue_inv t \<longleftrightarrow> distinct (plist t) \<and> (\<forall>c \<in> set (plist t). c < nmatchers t \<and> waiting (matchers t c)) \<and>
     (\<forall>c < nmatchers t. c \<notin> set (plist t) \<longrightarrow> settled (matchers t c)) \<and> (closed4 t \<longrightarrow> plist t = [])"

definition v4_inv :: "('priv, 's) v4udp_lib \<Rightarrow> ('priv, 's) UDPv4 \<Rightarrow> bool" where
  "v4_inv U t \<longleftrightarrow> queue_inv t \<and> table_ok (disc4 U) (tab4 t)"

definition on_time :: "int \<Rightarrow> ('priv, 's) UDPv4 \<Rightarrow> bool" where
  "on_time now t \<longleftrightarrow> (\<forall>c \<in> set (plist t). mdeadline (matchers t c) \<le> now + respTimeout) \<and>
     (\<forall>c. nextTimeout t = Some c \<longrightarrow> timer4 t = Some (mdeadline (matchers t c)) \<and> c < nmatchers t)"

definition armed :: "int \<Rightarrow> ('priv, 's) UDPv4 \<Rightarrow> bool" where
  "armed now t \<longleftrightarrow> on_time now t \<and> (\<forall>c cs. plist t = c # cs \<longrightarrow> nextTimeout t = Some c)"

text \<open>What a step of the loop keeps.\<close>

definition loop_keeps :: "('priv, 's) v4udp_lib \<Rightarrow> int \<Rightarrow> ('priv, 's) UDPv4 \<Rightarrow> ('priv, 's) UDPv4 \<Rightarrow> bool" where
  "loop_keeps U now t t' \<longleftrightarrow> v4_inv U t' \<and> out4 t' = out4 t \<and> closed4 t' = closed4 t \<and> priv4 t' = priv4 t \<and> self (tab4 t') = self (tab4 t) \<and>
     nmatchers t' = nmatchers t \<and> (\<forall>T \<le> now. on_time T t \<longrightarrow> armed now t')"

lemma on_time_later: "on_time T t \<Longrightarrow> T \<le> now \<Longrightarrow> on_time now t"
  by (fastforce simp: on_time_def)

lemma armed_later: "armed T t \<Longrightarrow> T \<le> now \<Longrightarrow> armed now t"
  using on_time_later [of T t now] by (auto simp: armed_def)

lemma loop_keepsD:
  assumes "loop_keeps U now t t'"
  shows "v4_inv U t'" "out4 t' = out4 t" "closed4 t' = closed4 t" "priv4 t' = priv4 t" "self (tab4 t') = self (tab4 t)"
    "nmatchers t' = nmatchers t" "\<And>T. T \<le> now \<Longrightarrow> on_time T t \<Longrightarrow> armed now t'"
  using assms unfolding loop_keeps_def by auto

text \<open>The queue depends on four fields, the clock on two more; the others may change.\<close>

lemma queue_inv_cong:
  "plist t' = plist t \<Longrightarrow> matchers t' = matchers t \<Longrightarrow> nmatchers t' = nmatchers t \<Longrightarrow> closed4 t' = closed4 t \<Longrightarrow> queue_inv t' = queue_inv t"
  by (simp add: queue_inv_def)

lemma armed_cong:
  "plist t' = plist t \<Longrightarrow> matchers t' = matchers t \<Longrightarrow> nmatchers t' = nmatchers t \<Longrightarrow> nextTimeout t' = nextTimeout t \<Longrightarrow>
   timer4 t' = timer4 t \<Longrightarrow> armed now t' = armed now t"
  by (simp add: armed_def on_time_def)

lemma queue_inv_waiting:
  "queue_inv t \<Longrightarrow> c \<in> set (plist t) \<Longrightarrow> c < nmatchers t \<and> merrc (matchers t c) = [] \<and> callback_kind (mcallback (matchers t c)) = mptype (matchers t c) \<and>
     reply_ok (matchers t c) \<and> nreceived (matchers t c) < bucketSize"
  by (simp add: queue_inv_def waiting_def)

text \<open>A matcher leaves the queue with its result.\<close>

lemma queue_inv_retire:
  assumes "queue_inv t" "c \<in> set (plist t)" "settled m"
  shows "queue_inv (t\<lparr>matchers := (matchers t)(c := m), plist := remove1 c (plist t)\<rparr>)"
  using assms by (auto simp: queue_inv_def)

lemma queue_inv_touch:
  assumes "queue_inv t" "c \<in> set (plist t)" "waiting m"
  shows "queue_inv (t\<lparr>matchers := (matchers t)(c := m)\<rparr>)"
  using assms by (auto simp: queue_inv_def)

lemma send_err_waiting:
  "queue_inv t \<Longrightarrow> c \<in> set (plist t) \<Longrightarrow> send_err t c e = Some (upd_matcher t c (\<lambda>m. m\<lparr>merrc := [e]\<rparr>))"
  by (simp add: send_err_def queue_inv_waiting)

lemma retire_with_error:
  assumes "queue_inv t" "c \<in> set (plist t)"
  shows "queue_inv ((upd_matcher t c (\<lambda>m. m\<lparr>merrc := [Some e]\<rparr>))\<lparr>plist := remove1 c (plist t)\<rparr>)"
  using queue_inv_retire [OF assms, of "(matchers t c)\<lparr>merrc := [Some e]\<rparr>"] queue_inv_waiting [OF assms]
  by (simp add: settled_def reply_ok_def)

subsection \<open>The timer\<close>

lemma resetTimeout_keeps:
  assumes "v4_inv U t"
  shows "\<exists>t'. resetTimeout t now = Some t' \<and> loop_keeps U now t t' \<and> (on_time now t \<longrightarrow> plist t' = plist t \<and> matchers t' = matchers t)"
proof (cases "plist t")
  case Nil
  then show ?thesis
    using assms on_time_later [of _ t now] by (auto simp: resetTimeout_def loop_keeps_def armed_def)
next
  case (Cons c cs)
  consider (same) "nextTimeout t = Some c" | (arm) "nextTimeout t \<noteq> Some c" "mdeadline (matchers t c) - now < 2 * respTimeout"
    | (warp) "nextTimeout t \<noteq> Some c" "\<not> mdeadline (matchers t c) - now < 2 * respTimeout" by blast
  then show ?thesis
  proof cases
    case same
    then show ?thesis
      using Cons assms on_time_later [of _ t now] by (auto simp: resetTimeout_def loop_keeps_def armed_def)
  next
    case arm
    define t' where "t' = t\<lparr>nextTimeout := Some c, timer4 := Some (mdeadline (matchers t c))\<rparr>"
    have q: "queue_inv t" "c < nmatchers t" using assms Cons by (simp_all add: v4_inv_def queue_inv_def)
    have "armed now t'" if "on_time T t" "T \<le> now" for T
      using on_time_later [OF that] q(2) Cons by (simp add: t'_def armed_def on_time_def)
    moreover have "v4_inv U t'" using assms queue_inv_cong [of t' t] by (simp add: v4_inv_def t'_def)
    ultimately show ?thesis
      using Cons arm by (auto simp: resetTimeout_def loop_keeps_def t'_def)
  next
    case warp
    define t' where "t' = (upd_matcher t c (\<lambda>m. m\<lparr>merrc := [Some errClockWarp]\<rparr>))\<lparr>plist := cs, nextTimeout := None, timer4 := None\<rparr>"
    have q: "queue_inv t" "c \<in> set (plist t)" using assms Cons by (simp_all add: v4_inv_def)
    have "queue_inv t'"
      using retire_with_error [OF q, of errClockWarp] Cons by (simp add: t'_def queue_inv_def)
    moreover have "\<not> on_time T t" if "T \<le> now" for T
      using warp(2) that Cons by (auto simp: on_time_def respTimeout_def)
    ultimately show ?thesis
      using assms warp Cons send_err_waiting [OF q]
      by (auto simp: resetTimeout_def loop_keeps_def t'_def v4_inv_def)
  qed
qed

subsection \<open>Adding a matcher\<close>

text \<open>What a request keeps: as \<open>loop_keeps\<close>, except that it adds a matcher and may write packets.\<close>

definition request_keeps :: "('priv, 's) v4udp_lib \<Rightarrow> int \<Rightarrow> ('priv, 's) UDPv4 \<Rightarrow> nat \<Rightarrow> ('priv, 's) UDPv4 \<Rightarrow> bool" where
  "request_keeps U now t c t' \<longleftrightarrow> v4_inv U t' \<and> closed4 t' = closed4 t \<and> priv4 t' = priv4 t \<and> self (tab4 t') = self (tab4 t) \<and>
     c = nmatchers t \<and> nmatchers t' = Suc c \<and> (\<forall>T \<le> now. armed T t \<longrightarrow> armed now t')"

lemma pending_keeps:
  assumes "v4_inv U t" "callback_kind cb = ptype"
  shows "\<exists>c t'. pending t i ip ptype cb now = Some (c, t') \<and> request_keeps U now t c t' \<and> out4 t' = out4 t"
proof -
  define m where "m = \<lparr>mfrom = i, mip = ip, mptype = ptype, mdeadline = now + respTimeout, mcallback = cb,
    merrc = (if closed4 t then [Some errClosed] else []), mreply = None, mnodes = [], nreceived = 0\<rparr>"
  define u where "u = t\<lparr>matchers := (matchers t)(nmatchers t := m), nmatchers := Suc (nmatchers t)\<rparr>"
  have q: "queue_inv t" using assms(1) by (simp add: v4_inv_def)
  have bound: "c < nmatchers t" if "c \<in> set (plist t)" for c using queue_inv_waiting [OF q that] by simp
  have "settled m" if "closed4 t" using that by (simp add: m_def settled_def reply_ok_def bucketSize_def)
  then have u_inv: "queue_inv u" if "closed4 t" using q that by (auto simp: queue_inv_def u_def less_Suc_eq)
  have u_time: "on_time now u" if "on_time now t" using that bound by (fastforce simp: on_time_def u_def)
  show ?thesis
  proof (cases "closed4 t")
    case True
    have "armed now u" if "armed T t" "T \<le> now" for T
      using armed_later [OF that] q True u_time by (auto simp: armed_def queue_inv_def u_def)
    moreover have "pending t i ip ptype cb now = Some (nmatchers t, u)" using True by (simp add: pending_def u_def m_def Let_def)
    ultimately show ?thesis using True u_inv assms(1) by (auto simp: request_keeps_def v4_inv_def u_def)
  next
    case False
    define v where "v = u\<lparr>plist := plist t @ [nmatchers t]\<rparr>"
    have "waiting m" using False assms(2) by (simp add: m_def waiting_def reply_ok_def bucketSize_def)
    then have "queue_inv v" using q bound False by (fastforce simp: queue_inv_def v_def u_def less_Suc_eq)
    then have "v4_inv U v" using assms(1) by (simp add: v4_inv_def v_def u_def)
    from resetTimeout_keeps [OF this, of now] obtain t' where t': "resetTimeout v now = Some t'" "loop_keeps U now v t'" by blast
    have "on_time now v" if "on_time now t"
      using u_time [OF that] that bound by (auto simp: on_time_def v_def u_def m_def)
    then have "armed now t'" if "armed T t" "T \<le> now" for T
      using loop_keepsD(7) [OF t'(2), of now] armed_later [OF that] by (simp add: armed_def)
    moreover have "pending t i ip ptype cb now = Some (nmatchers t, t')"
      using False t'(1) by (simp add: pending_def v_def u_def m_def Let_def)
    ultimately show ?thesis
      using loop_keepsD(1-6) [OF t'(2)] by (auto simp: request_keeps_def v_def u_def)
  qed
qed

subsection \<open>Timeouts\<close>

lemma timeout_loop_one:
  "timeout_loop t now cs =
     (case find (\<lambda>c. mdeadline (matchers t c) \<le> now) cs of
        None \<Rightarrow> Some t
      | Some c \<Rightarrow> do { t \<leftarrow> send_err t c (Some errTimeout);
                     Some (t\<lparr>plist := remove1 c (plist t), contTimeouts := Suc (contTimeouts t)\<rparr>) })"
  by (induction cs) simp_all

lemma timeout_loop_keeps:
  assumes "v4_inv U t"
  shows "\<exists>t'. timeout_loop t now (plist t) = Some t' \<and> v4_inv U t' \<and> tab4 t' = tab4 t \<and> out4 t' = out4 t \<and> closed4 t' = closed4 t \<and>
     priv4 t' = priv4 t \<and> nmatchers t' = nmatchers t \<and> nextTimeout t' = nextTimeout t \<and> timer4 t' = timer4 t \<and> (\<forall>T. on_time T t \<longrightarrow> on_time T t') \<and>
     (case find (\<lambda>c. mdeadline (matchers t c) \<le> now) (plist t) of
        None \<Rightarrow> t' = t
      | Some c \<Rightarrow> plist t' = remove1 c (plist t) \<and> matchers t' = (matchers t)(c := (matchers t c)\<lparr>merrc := [Some errTimeout]\<rparr>))"
proof (cases "find (\<lambda>c. mdeadline (matchers t c) \<le> now) (plist t)")
  case None
  then show ?thesis using assms by (simp add: timeout_loop_one)
next
  case (Some c)
  then have q: "queue_inv t" "c \<in> set (plist t)" using assms by (auto simp: v4_inv_def find_Some_iff)
  define t' where "t' = (upd_matcher t c (\<lambda>m. m\<lparr>merrc := [Some errTimeout]\<rparr>))\<lparr>plist := remove1 c (plist t), contTimeouts := Suc (contTimeouts t)\<rparr>"
  have "queue_inv t'" using retire_with_error [OF q, of errTimeout] by (simp add: t'_def queue_inv_def)
  moreover have "on_time T t'" if "on_time T t" for T
    using that set_remove1_subset [of c "plist t"] by (auto simp: t'_def on_time_def)
  ultimately show ?thesis
    using Some assms send_err_waiting [OF q] by (auto simp: timeout_loop_one t'_def v4_inv_def)
qed

lemma loop_timeout_keeps:
  assumes "v4_inv U t"
  shows "\<exists>t'. loop_timeout t now = Some t' \<and> loop_keeps U now t t' \<and>
     (on_time now t \<longrightarrow> (case find (\<lambda>c. mdeadline (matchers t c) \<le> now) (plist t) of
        None \<Rightarrow> plist t' = plist t \<and> matchers t' = matchers t
      | Some c \<Rightarrow> plist t' = remove1 c (plist t) \<and> matchers t' = (matchers t)(c := (matchers t c)\<lparr>merrc := [Some errTimeout]\<rparr>)))"
proof -
  define t0 where "t0 = t\<lparr>nextTimeout := None, timer4 := None\<rparr>"
  have f: "plist t0 = plist t" "matchers t0 = matchers t" "out4 t0 = out4 t" "closed4 t0 = closed4 t" "priv4 t0 = priv4 t" "tab4 t0 = tab4 t"
    "nmatchers t0 = nmatchers t" by (simp_all add: t0_def)
  have "v4_inv U t0" using assms queue_inv_cong [of t0 t] by (simp add: v4_inv_def t0_def)
  from timeout_loop_keeps [OF this, of now] obtain t1 where t1: "timeout_loop t0 now (plist t) = Some t1" "v4_inv U t1" "tab4 t1 = tab4 t"
    "out4 t1 = out4 t" "closed4 t1 = closed4 t" "priv4 t1 = priv4 t" "nmatchers t1 = nmatchers t" "\<forall>T. on_time T t0 \<longrightarrow> on_time T t1"
    "case find (\<lambda>c. mdeadline (matchers t c) \<le> now) (plist t) of None \<Rightarrow> t1 = t0
     | Some c \<Rightarrow> plist t1 = remove1 c (plist t) \<and> matchers t1 = (matchers t)(c := (matchers t c)\<lparr>merrc := [Some errTimeout]\<rparr>)"
    unfolding f by blast
  define t2 where "t2 = (if contTimeouts t1 > ntpFailureThreshold
    then (if now - ntpWarnTime t1 \<ge> ntpWarningCooldown then t1\<lparr>ntpWarnTime := now, driftChecks := Suc (driftChecks t1), contTimeouts := 0\<rparr>
          else t1\<lparr>contTimeouts := 0\<rparr>) else t1)"
  have g: "plist t2 = plist t1" "matchers t2 = matchers t1" "nmatchers t2 = nmatchers t1" "closed4 t2 = closed4 t1" "tab4 t2 = tab4 t1"
    "out4 t2 = out4 t1" "priv4 t2 = priv4 t1" "nextTimeout t2 = nextTimeout t1" "timer4 t2 = timer4 t1" by (simp_all add: t2_def)
  have "v4_inv U t2" using t1(2) queue_inv_cong [of t2 t1] g by (simp add: v4_inv_def)
  from resetTimeout_keeps [OF this, of now] obtain t3 where t3: "resetTimeout t2 now = Some t3" "loop_keeps U now t2 t3"
    "on_time now t2 \<longrightarrow> plist t3 = plist t2 \<and> matchers t3 = matchers t2" by blast
  have time: "on_time T t2" if "on_time T t" for T
  proof -
    have "on_time T t0" using that by (simp add: on_time_def t0_def)
    then have "on_time T t1" using t1(8) by simp
    then show ?thesis using g by (simp add: on_time_def)
  qed
  have "loop_timeout t now = Some t3" unfolding loop_timeout_def t0_def [symmetric] by (simp add: t1(1) t3(1) [unfolded t2_def])
  moreover have "loop_keeps U now t t3"
    using loop_keepsD [OF t3(2)] time t1 g by (auto simp: loop_keeps_def)
  ultimately show ?thesis using t1(9) t3(3) time g f by (auto split: option.splits)
qed

subsection \<open>Replies\<close>

text \<open>What a callback changes: its own matcher, though not its deadline or its channel, and the table.\<close>

definition callback_keeps :: "('priv, 's) v4udp_lib \<Rightarrow> nat \<Rightarrow> ('priv, 's) UDPv4 \<Rightarrow> ('priv, 's) UDPv4 \<Rightarrow> bool" where
  "callback_keeps U c t t' \<longleftrightarrow> (table_ok (disc4 U) (tab4 t) \<longrightarrow> table_ok (disc4 U) (tab4 t')) \<and> self (tab4 t') = self (tab4 t) \<and>
     (\<exists>k ns. t' = t\<lparr>tab4 := tab4 t', matchers := (matchers t)(c := (matchers t c)\<lparr>nreceived := k, mnodes := ns\<rparr>)\<rparr> \<and>
        length ns + nreceived (matchers t c) \<le> k + length (mnodes (matchers t c)))"

lemma callback_keepsI:
  assumes "t' = t\<lparr>tab4 := tab, matchers := (matchers t)(c := (matchers t c)\<lparr>nreceived := k, mnodes := ns\<rparr>)\<rparr>"
    "table_ok (disc4 U) (tab4 t) \<Longrightarrow> table_ok (disc4 U) tab" "self tab = self (tab4 t)"
    "length ns + nreceived (matchers t c) \<le> k + length (mnodes (matchers t c))"
  shows "callback_keeps U c t t'"
  unfolding callback_keeps_def using assms by auto

lemma callback_keeps_refl: "callback_keeps U c t t"
  by (rule callback_keepsI [where tab = "tab4 t" and k = "nreceived (matchers t c)" and ns = "mnodes (matchers t c)"]) simp_all

lemma callback_keeps_trans:
  assumes "callback_keeps U c t t1" "callback_keeps U c t1 t2"
  shows "callback_keeps U c t t2"
proof -
  obtain k ns where 1: "t1 = t\<lparr>tab4 := tab4 t1, matchers := (matchers t)(c := (matchers t c)\<lparr>nreceived := k, mnodes := ns\<rparr>)\<rparr>"
    "length ns + nreceived (matchers t c) \<le> k + length (mnodes (matchers t c))"
    using assms(1) unfolding callback_keeps_def by blast
  obtain k' ns' where 2: "t2 = t1\<lparr>tab4 := tab4 t2, matchers := (matchers t1)(c := (matchers t1 c)\<lparr>nreceived := k', mnodes := ns'\<rparr>)\<rparr>"
    "length ns' + nreceived (matchers t1 c) \<le> k' + length (mnodes (matchers t1 c))"
    using assms(2) unfolding callback_keeps_def by blast
  have m: "matchers t1 = (matchers t)(c := (matchers t c)\<lparr>nreceived := k, mnodes := ns\<rparr>)" by (subst 1(1)) simp
  have "t2 = t\<lparr>tab4 := tab4 t2, matchers := (matchers t)(c := (matchers t c)\<lparr>nreceived := k', mnodes := ns'\<rparr>)\<rparr>"
    by (subst 2(1), subst (1) 1(1)) (simp add: m)
  moreover have "length ns' + nreceived (matchers t c) \<le> k' + length (mnodes (matchers t c))" using 1(2) 2(2) by (simp add: m)
  ultimately show ?thesis using assms unfolding callback_keeps_def by (intro conjI exI [of _ k'] exI [of _ ns']) auto
qed

lemma nodeFromRPC_tab:
  assumes "nodeFromRPC U t addr rn = (t', r)"
  shows "\<exists>k. t' = t\<lparr>tab4 := (tab4 t)\<lparr>fresh := k\<rparr>\<rparr>"
proof (cases "t' = t")
  case True
  then show ?thesis by (intro exI [of _ "fresh (tab4 t)"]) simp
next
  case False
  then show ?thesis using assms by (auto simp: nodeFromRPC_def Let_def split: if_splits option.splits sum.splits)
qed

lemma fresh_table_ok [simp]: "table_ok L (tab\<lparr>fresh := k\<rparr>) = table_ok L tab"
  by (simp add: table_ok_def shape_def)

lemma callback_keeps_upd:
  "length ns + nreceived (matchers t c) \<le> k + length (mnodes (matchers t c)) \<Longrightarrow> callback_keeps U c t ((upd_matcher t c (\<lambda>m. m\<lparr>nreceived := k, mnodes := ns\<rparr>))\<lparr>tab4 := (tab4 t)\<lparr>fresh := f\<rparr>\<rparr>)"
  by (rule callback_keepsI [where tab = "(tab4 t)\<lparr>fresh := f\<rparr>" and k = k and ns = ns]) simp_all

lemma collect_neighbors_keeps: "callback_keeps U c t (collect_neighbors U t c addr rns)"
proof (induction rns arbitrary: t)
  case Nil
  then show ?case by (simp add: callback_keeps_refl)
next
  case (Cons rn rns)
  define u where "u = upd_matcher t c (\<lambda>m. m\<lparr>nreceived := Suc (nreceived m)\<rparr>)"
  obtain t1 r where r: "nodeFromRPC U u addr rn = (t1, r)" by force
  then obtain k where t1: "t1 = u\<lparr>tab4 := (tab4 u)\<lparr>fresh := k\<rparr>\<rparr>" using nodeFromRPC_tab by blast
  have 1: "callback_keeps U c t t1"
    using callback_keeps_upd [where k = "Suc (nreceived (matchers t c))" and ns = "mnodes (matchers t c)" and f = k and t = t and U = U and c = c] by (simp add: t1 u_def)
  have 2: "callback_keeps U c t (upd_matcher t1 c (\<lambda>m. m\<lparr>mnodes := mnodes m @ [n]\<rparr>))" for n
    by (rule callback_keepsI [where tab = "(tab4 t)\<lparr>fresh := k\<rparr>" and k = "Suc (nreceived (matchers t c))" and ns = "mnodes (matchers t c) @ [n]"])
      (simp_all add: t1 u_def)
  show ?case
    using callback_keeps_trans [OF 1 Cons.IH] callback_keeps_trans [OF 2 Cons.IH] r
    by (auto simp: u_def split: sum.split)
qed

lemma run_callback_keeps:
  assumes "v4_inv U t" "lib_ok (disc4 U)" "c \<in> set (plist t)" "mptype (matchers t c) = v4_Kind p"
  shows "\<exists>t' ok req_done. run_callback U t c p now = Some (t', ok, req_done) \<and> callback_keeps U c t t' \<and>
     (if req_done then answers (mcallback (matchers t c)) (nreceived (matchers t' c)) (Some p) else nreceived (matchers t' c) < bucketSize)"
proof -
  have k: "callback_kind (mcallback (matchers t c)) = v4_Kind p" and tab: "table_ok (disc4 U) (tab4 t)" and few: "nreceived (matchers t c) < bucketSize"
    using queue_inv_waiting [of t c] assms by (simp_all add: v4_inv_def)
  have added: "\<exists>tab. addVerifiedNode (disc4 U) (tab4 t) n now = Some tab \<and> callback_keeps U c t (t\<lparr>tab4 := tab\<rparr>)" for n
  proof -
    obtain tab where t: "addVerifiedNode (disc4 U) (tab4 t) n now = Some tab" "table_ok (disc4 U) tab" "self tab = self (tab4 t)"
      using addVerifiedNode_ok [OF tab] assms(2) unfolding lib_ok_def by metis
    have "callback_keeps U c t (t\<lparr>tab4 := tab\<rparr>)"
      by (rule callback_keepsI [where tab = tab and k = "nreceived (matchers t c)" and ns = "mnodes (matchers t c)"]) (simp_all add: t)
    then show ?thesis using t(1) by blast
  qed
  show ?thesis
  proof (cases "mcallback (matchers t c)")
    case (On_pong hash n)
    then obtain to tok exp seq rest where "p = v4_Pong to tok exp seq rest" using k by (cases p) (simp_all add: v4_kinds)
    moreover obtain u where "(case n of None \<Rightarrow> Some t | Some n \<Rightarrow> do { tab \<leftarrow> addVerifiedNode (disc4 U) (tab4 t) n now; Some (t\<lparr>tab4 := tab\<rparr>) }) = Some u"
      "callback_keeps U c t u"
      using added [of "the n"] callback_keeps_refl [of U c t] by (cases n) auto
    ultimately show ?thesis
      using On_pong few callback_keeps_refl [of U c t]
      by (intro exI [of _ "if tok = hash then u else t"] exI [of _ "tok = hash"]) (auto simp: run_callback_def bind_eq_Some_conv split: option.splits)
  next
    case (On_neighbors addr)
    then obtain nodes exp rest where "p = v4_Neighbors nodes exp rest" using k by (cases p) (simp_all add: v4_kinds)
    then show ?thesis using On_neighbors collect_neighbors_keeps [of U c t addr] by (auto simp: run_callback_def Let_def)
  next
    case (On_enr hash)
    then obtain tok r rest where "p = v4_ENRResponse tok r rest" using k by (cases p) (simp_all add: v4_kinds)
    then show ?thesis using On_enr callback_keeps_refl [of U c t] few by (auto simp: run_callback_def)
  qed
qed

definition reply_keeps :: "('priv, 's) v4udp_lib \<Rightarrow> ('priv, 's) UDPv4 \<Rightarrow> ('priv, 's) UDPv4 \<Rightarrow> bool" where
  "reply_keeps U t t' \<longleftrightarrow> v4_inv U t' \<and> out4 t' = out4 t \<and> closed4 t' = closed4 t \<and> priv4 t' = priv4 t \<and>
     self (tab4 t') = self (tab4 t) \<and> nmatchers t' = nmatchers t \<and> (\<forall>T. on_time T t \<longrightarrow> on_time T t')"

lemma reply_keeps_trans: "reply_keeps U t t1 \<Longrightarrow> reply_keeps U t1 t2 \<Longrightarrow> reply_keeps U t t2"
  by (simp add: reply_keeps_def)

text \<open>One matcher's turn: it stays in the queue with the reply noted, or it is settled and leaves.\<close>

lemma reply_turn:
  fixes p :: v4_packet
  assumes "v4_inv U t" "c \<in> set (plist t)" "callback_keeps U c t t'" "v4_Kind p = mptype (matchers t c)"
  defines "u \<equiv> (upd_matcher t' c (\<lambda>m. m\<lparr>mreply := Some p\<rparr>))\<lparr>contTimeouts := 0\<rparr>"
  shows "plist u = plist t" "\<forall>d. d \<noteq> c \<longrightarrow> matchers u d = matchers t d"
    "nreceived (matchers t' c) < bucketSize \<Longrightarrow> reply_keeps U t u"
    "answers (mcallback (matchers t c)) (nreceived (matchers t' c)) (Some p) \<Longrightarrow>
       \<exists>v. send_err u c None = Some v \<and> reply_keeps U t (v\<lparr>plist := remove1 c (plist v)\<rparr>) \<and> plist v = plist t \<and> (\<forall>d. d \<noteq> c \<longrightarrow> matchers v d = matchers t d)"
proof -
  obtain tab k ns where t': "t' = t\<lparr>tab4 := tab, matchers := (matchers t)(c := (matchers t c)\<lparr>nreceived := k, mnodes := ns\<rparr>)\<rparr>"
    and few: "length ns + nreceived (matchers t c) \<le> k + length (mnodes (matchers t c))"
    using assms(3) unfolding callback_keeps_def by metis
  then have tab: "table_ok (disc4 U) tab" "self tab = self (tab4 t)" using assms(1,3) by (simp_all add: callback_keeps_def v4_inv_def)
  define m where "m = (matchers t c)\<lparr>nreceived := k, mnodes := ns, mreply := Some p\<rparr>"
  have u: "u = t\<lparr>tab4 := tab, matchers := (matchers t)(c := m), contTimeouts := 0\<rparr>" and k: "nreceived (matchers t' c) = k"
    by (simp_all add: u_def m_def t')
  have q: "queue_inv t" using assms(1) by (simp add: v4_inv_def)
  note w = queue_inv_waiting [OF q assms(2)]
  have ok: "reply_ok m" using w few assms(4) by (simp add: m_def reply_ok_def)
  have dl: "mdeadline (matchers u d) = mdeadline (matchers t d)" for d by (simp add: u m_def)
  show p: "plist u = plist t" and "\<forall>d. d \<noteq> c \<longrightarrow> matchers u d = matchers t d" by (simp_all add: u)
  show "reply_keeps U t u" if "nreceived (matchers t' c) < bucketSize"
  proof -
    have "waiting m" using w ok that k by (simp add: m_def waiting_def)
    then have "queue_inv u" using queue_inv_touch [OF q assms(2)] by (simp add: u queue_inv_def)
    then show ?thesis using tab by (auto simp: reply_keeps_def v4_inv_def on_time_def dl) (simp_all add: u)
  qed
  assume a: "answers (mcallback (matchers t c)) (nreceived (matchers t' c)) (Some p)"
  define v where "v = upd_matcher u c (\<lambda>m. m\<lparr>merrc := [None]\<rparr>)"
  have s: "send_err u c None = Some v" using w by (simp add: send_err_def v_def u m_def)
  have "settled (m\<lparr>merrc := [None]\<rparr>)" using a k ok by (simp add: settled_def m_def reply_ok_def)
  then have qv: "queue_inv (v\<lparr>plist := remove1 c (plist v)\<rparr>)"
    using queue_inv_retire [OF q assms(2), of "m\<lparr>merrc := [None]\<rparr>"] by (simp add: v_def u queue_inv_def)
  have "on_time T (v\<lparr>plist := remove1 c (plist v)\<rparr>)" if "on_time T t" for T
    using that set_remove1_subset [of c "plist t"] by (auto simp: on_time_def v_def u m_def)
  then have "reply_keeps U t (v\<lparr>plist := remove1 c (plist v)\<rparr>)"
    using qv tab by (simp add: reply_keeps_def v4_inv_def v_def u)
  then show "\<exists>v. send_err u c None = Some v \<and> reply_keeps U t (v\<lparr>plist := remove1 c (plist v)\<rparr>) \<and> plist v = plist t \<and> (\<forall>d. d \<noteq> c \<longrightarrow> matchers v d = matchers t d)"
    using s p by (auto simp: v_def u)
qed

lemma reply_loop_keeps:
  assumes "v4_inv U t" "lib_ok (disc4 U)" "set cs \<subseteq> set (plist t)"
  shows "\<exists>t' b. reply_loop U t i ip p now cs matched = Some (t', b) \<and> reply_keeps U t t'"
  using assms
proof (induction cs arbitrary: t matched)
  case Nil
  then show ?case by (simp add: reply_keeps_def)
next
  case (Cons c cs)
  have rest: "\<exists>t' b. reply_loop U u i ip p now cs matched' = Some (t', b) \<and> reply_keeps U t t'"
    if "reply_keeps U t u" "plist u = plist t" for u matched'
    using Cons.IH [of u matched'] Cons.prems that reply_keeps_trans [of U t u] by (fastforce simp: reply_keeps_def)
  show ?case
  proof (cases "mfrom (matchers t c) = i \<and> mptype (matchers t c) = v4_Kind p \<and> IP_Equal (mip (matchers t c)) ip")
    case False
    then show ?thesis using rest [of t] Cons.prems by (auto simp: reply_keeps_def)
  next
    case True
    have c: "c \<in> set (plist t)" using Cons.prems(3) by simp
    obtain t' ok req_done where r: "run_callback U t c p now = Some (t', ok, req_done)" "callback_keeps U c t t'"
      "if req_done then answers (mcallback (matchers t c)) (nreceived (matchers t' c)) (Some p) else nreceived (matchers t' c) < bucketSize"
      using run_callback_keeps [OF Cons.prems(1,2) c] True by blast
    show ?thesis
      using True r reply_turn [OF Cons.prems(1) c r(2), of p] rest by (cases req_done) auto
  qed
qed

lemma handleReply_keeps:
  assumes "v4_inv U t" "lib_ok (disc4 U)"
  shows "\<exists>t' b. handleReply U t i ip p now = Some (t', b) \<and> v4_inv U t' \<and> out4 t' = out4 t \<and> closed4 t' = closed4 t \<and> priv4 t' = priv4 t \<and>
     self (tab4 t') = self (tab4 t) \<and> nmatchers t' = nmatchers t \<and> (\<forall>T \<le> now. armed T t \<longrightarrow> armed now t')"
proof (cases "closed4 t")
  case True
  then show ?thesis using assms armed_later by (auto simp: handleReply_def)
next
  case False
  obtain t1 b where r: "reply_loop U t i ip p now (plist t) False = Some (t1, b)" "reply_keeps U t t1"
    using reply_loop_keeps [OF assms, of "plist t"] by blast
  then obtain t' where t': "resetTimeout t1 now = Some t'" "loop_keeps U now t1 t'"
    using resetTimeout_keeps [of U t1 now] by (auto simp: reply_keeps_def)
  then have "handleReply U t i ip p now = Some (t', b)" using False r by (simp add: handleReply_def)
  then show ?thesis using r(2) loop_keepsD [OF t'(2)] by (auto simp: reply_keeps_def armed_def)
qed

end
