(* ===== verification/V4_Transport.thy ===== *)
theory V4_Transport
  imports V4_Loop
begin

text \<open>
  The v4 transport as a whole: what its steps keep over every sequence of events, and what follows for its callers and for the nodes that
  send packets to it.
\<close>

subsection \<open>Closing\<close>

lemma close_loop_result:
  assumes "distinct cs" "\<forall>c \<in> set cs. merrc (matchers t c) = []"
  shows "close_loop t cs = Some (t\<lparr>matchers := (\<lambda>c. if c \<in> set cs then (matchers t c)\<lparr>merrc := [Some errClosed]\<rparr> else matchers t c)\<rparr>)"
  using assms
proof (induction cs arbitrary: t)
  case (Cons c cs)
  define u where "u = upd_matcher t c (\<lambda>m. m\<lparr>merrc := [Some errClosed]\<rparr>)"
  have "close_loop u cs = Some (u\<lparr>matchers := (\<lambda>d. if d \<in> set cs then (matchers u d)\<lparr>merrc := [Some errClosed]\<rparr> else matchers u d)\<rparr>)"
    using Cons.prems by (intro Cons.IH) (auto simp: u_def)
  moreover have "(\<lambda>d. if d \<in> set cs then (matchers u d)\<lparr>merrc := [Some errClosed]\<rparr> else matchers u d) =
    (\<lambda>d. if d \<in> set (c # cs) then (matchers t d)\<lparr>merrc := [Some errClosed]\<rparr> else matchers t d)"
    using Cons.prems(1) by (auto simp: u_def fun_eq_iff)
  ultimately show ?case using Cons.prems(2) by (simp add: send_err_def u_def [symmetric]) (simp add: u_def)
qed simp

lemma loop_close_result:
  assumes "v4_inv U t" "\<not> closed4 t"
  shows "loop_close t = Some (t\<lparr>matchers := (\<lambda>c. if c \<in> set (plist t) then (matchers t c)\<lparr>merrc := [Some errClosed]\<rparr> else matchers t c),
     plist := [], nextTimeout := None, timer4 := None, closed4 := True\<rparr>)"
  using assms close_loop_result [of "plist t" t] by (simp add: loop_close_def v4_inv_def queue_inv_def waiting_def)

lemma loop_close_keeps:
  assumes "v4_inv U t"
  shows "\<exists>t'. loop_close t = Some t' \<and> v4_inv U t' \<and> closed4 t' \<and> (armed T t \<longrightarrow> armed T t')"
proof (cases "closed4 t")
  case True
  then show ?thesis using assms by (simp add: loop_close_def)
next
  case False
  have "settled ((matchers t c)\<lparr>merrc := [Some errClosed]\<rparr>)" if "c \<in> set (plist t)" for c
    using assms queue_inv_waiting [of t c] that by (intro settled_error) (auto simp: v4_inv_def reply_ok_def)
  then show ?thesis
    using assms unfolding loop_close_result [OF assms False]
    by (auto simp: v4_inv_def queue_inv_def armed_def on_time_def)
qed

subsection \<open>Packets that are written\<close>

definition adds_out :: "UDPAddr \<Rightarrow> byte set \<Rightarrow> nat \<Rightarrow> ('priv, 's) UDPv4 \<Rightarrow> ('priv, 's) UDPv4 \<Rightarrow> bool" where
  "adds_out addr kinds n t t' \<longleftrightarrow>
     (\<exists>new. out4 t' = out4 t @ new \<and> length new \<le> n \<and> (\<forall>x \<in> set new. fst x = addr \<and> snd x ! headSize \<in> kinds))"

lemma adds_out_refl: "out4 t' = out4 t \<Longrightarrow> adds_out addr kinds n t t'"
  unfolding adds_out_def by (intro exI [of _ "[]"]) simp

lemma adds_out_cong: "out4 t' = out4 t \<Longrightarrow> adds_out addr kinds n s t' = adds_out addr kinds n s t"
  by (simp add: adds_out_def)

lemma adds_out_trans:
  assumes "adds_out addr kinds n t t1" "adds_out addr kinds m t1 t2"
  shows "adds_out addr kinds (n + m) t t2"
proof -
  obtain a b where "out4 t1 = out4 t @ a" "length a \<le> n" "\<forall>x \<in> set a. fst x = addr \<and> snd x ! headSize \<in> kinds"
    "out4 t2 = out4 t1 @ b" "length b \<le> m" "\<forall>x \<in> set b. fst x = addr \<and> snd x ! headSize \<in> kinds"
    using assms unfolding adds_out_def by blast
  then show ?thesis unfolding adds_out_def by (intro exI [of _ "a @ b"]) auto
qed

lemma adds_out_mono: "adds_out addr kinds n t t' \<Longrightarrow> kinds \<subseteq> kinds' \<Longrightarrow> n \<le> n' \<Longrightarrow> adds_out addr kinds' n' t t'"
  unfolding adds_out_def by fastforce

lemma Encode_kind: "v4_ok V \<Longrightarrow> v4_Encode V priv p = Inr (packet, hash) \<Longrightarrow> packet ! headSize = v4_Kind p"
  using v4_Encode_shape [of V priv p packet hash] by (auto simp: v4_sizes nth_append)

lemma v4_send_out:
  assumes "v4_ok (v4 U)"
  shows "\<exists>new. v4_send U t addr p = t\<lparr>out4 := new\<rparr>" "adds_out addr {v4_Kind p} 1 t (v4_send U t addr p)"
proof -
  show "\<exists>new. v4_send U t addr p = t\<lparr>out4 := new\<rparr>"
    by (rule exI [of _ "out4 (v4_send U t addr p)"]) (simp add: v4_send_def v4_write_def split: sum.split)
  show "adds_out addr {v4_Kind p} 1 t (v4_send U t addr p)"
    using Encode_kind [OF assms, of "priv4 t" p] by (auto simp: v4_send_def v4_write_def adds_out_def split: sum.split)
qed

lemma out4_inv: "v4_inv U (t\<lparr>out4 := new\<rparr>) = v4_inv U t" "armed now (t\<lparr>out4 := new\<rparr>) = armed now t"
  by (simp_all add: v4_inv_def queue_inv_def armed_def on_time_def)

subsection \<open>Requests\<close>

lemma failed_matcher_keeps:
  assumes "v4_inv U t"
  shows "\<exists>c t'. failed_matcher t err = (c, t') \<and> request_keeps U now t c t' \<and> out4 t' = out4 t"
proof -
  define m where "m = \<lparr>mfrom = [], mip = [], mptype = 0, mdeadline = 0, mcallback = On_enr [], merrc = [Some (other_error err)], mreply = None,
    mnodes = [], nreceived = 0\<rparr>"
  define u where "u = t\<lparr>matchers := (matchers t)(nmatchers t := m), nmatchers := Suc (nmatchers t)\<rparr>"
  have q: "queue_inv t" using assms by (simp add: v4_inv_def)
  have bound: "c < nmatchers t" if "c \<in> set (plist t)" for c using queue_inv_waiting [OF q that] by simp
  have "settled m" by (simp add: m_def settled_def reply_ok_def bucketSize_def)
  then have "queue_inv u" using q by (fastforce simp: queue_inv_def u_def less_Suc_eq)
  moreover have "armed now u" if "armed T t" "T \<le> now" for T
    using armed_later [OF that] bound by (fastforce simp: armed_def on_time_def u_def)
  moreover have "failed_matcher t err = (nmatchers t, u)" by (simp add: failed_matcher_def u_def m_def Let_def)
  ultimately show ?thesis using assms by (auto simp: request_keeps_def v4_inv_def u_def)
qed

lemma request_keeps_cong:
  assumes "request_keeps U now t c u" "plist v = plist u" "matchers v = matchers u" "nmatchers v = nmatchers u" "nextTimeout v = nextTimeout u"
    "timer4 v = timer4 u" "closed4 v = closed4 u" "priv4 v = priv4 u" "tab4 v = tab4 u"
  shows "request_keeps U now t c v"
  using assms queue_inv_cong [of v u] armed_cong [of v u] by (simp add: request_keeps_def v4_inv_def)

text \<open>A request adds one matcher and writes at most one packet, to the node it is for.\<close>

definition asks :: "('priv, 's) v4udp_lib \<Rightarrow> int \<Rightarrow> UDPAddr \<Rightarrow> byte \<Rightarrow> ('priv, 's) UDPv4 \<Rightarrow> (nat \<times> ('priv, 's) UDPv4) go \<Rightarrow> bool" where
  "asks U now addr kind t r \<longleftrightarrow> (\<exists>c t'. r = Some (c, t') \<and> request_keeps U now t c t' \<and> adds_out addr {kind} 1 t t')"

lemma sendPing_asks:
  assumes "v4_inv U t" "v4_ok (v4 U)"
  shows "asks U now addr PingPacket t (sendPing U t i addr n now)"
proof (cases "v4_Encode (v4 U) (priv4 t) (makePing t addr now)")
  case (Inl err)
  then show ?thesis
    using failed_matcher_keeps [OF assms(1), of err now] adds_out_refl by (fastforce simp: asks_def sendPing_def)
next
  case (Inr r)
  obtain packet hash where r: "r = (packet, hash)" by force
  obtain c u where p: "pending t i (fst addr) PongPacket (On_pong hash n) now = Some (c, u)" "request_keeps U now t c u" "out4 u = out4 t"
    using pending_keeps [OF assms(1), of "On_pong hash n" PongPacket i "fst addr" now] by auto
  define v where "v = v4_write (u\<lparr>contacts4 := contacts4 u @ [addr]\<rparr>) addr packet"
  have "request_keeps U now t c v" by (rule request_keeps_cong [OF p(2)]) (simp_all add: v_def v4_write_def)
  moreover have "adds_out addr {PingPacket} 1 t v"
    using Encode_kind [OF assms(2) Inr [unfolded r]] p(3) by (simp add: adds_out_def v_def v4_write_def makePing_def)
  ultimately show ?thesis using Inr r p(1) by (simp add: asks_def sendPing_def v_def)
qed

lemma findnode_asks:
  assumes "v4_inv U t" "v4_ok (v4 U)"
  shows "asks U now addr FindnodePacket t (v4_findnode U t i addr tgt now)"
proof -
  obtain c u where p: "pending t i (fst addr) NeighborsPacket (On_neighbors addr) now = Some (c, u)" "request_keeps U now t c u" "out4 u = out4 t"
    using pending_keeps [OF assms(1), of "On_neighbors addr" NeighborsPacket i "fst addr" now] by auto
  define v where "v = v4_send U u addr (v4_Findnode tgt (expiry now) [])"
  obtain new where v: "v = u\<lparr>out4 := new\<rparr>" using v4_send_out(1) [OF assms(2)] unfolding v_def by blast
  have "request_keeps U now t c v" by (rule request_keeps_cong [OF p(2)]) (simp_all add: v)
  moreover have "adds_out addr {FindnodePacket} 1 t v"
    using v4_send_out(2) [OF assms(2), of addr "v4_Findnode tgt (expiry now) []" u] p(3) by (simp add: adds_out_def v_def)
  ultimately show ?thesis using p(1) by (simp add: asks_def v4_findnode_def v_def)
qed

lemma RequestENR_asks:
  assumes "v4_inv U t" "v4_ok (v4 U)"
  shows "asks U now (eIP n, int (eUDP n)) ENRRequestPacket t (v4_RequestENR U t n now)"
proof (cases "v4_Encode (v4 U) (priv4 t) (v4_ENRRequest (expiry now) [])")
  case (Inl err)
  then show ?thesis
    using failed_matcher_keeps [OF assms(1), of err now] adds_out_refl by (fastforce simp: asks_def v4_RequestENR_def)
next
  case (Inr r)
  obtain packet hash where r: "r = (packet, hash)" by force
  obtain c u where p: "pending t (eID n) (eIP n) ENRResponsePacket (On_enr hash) now = Some (c, u)" "request_keeps U now t c u" "out4 u = out4 t"
    using pending_keeps [OF assms(1), of "On_enr hash" ENRResponsePacket "eID n" "eIP n" now] by auto
  define v where "v = v4_write u (eIP n, int (eUDP n)) packet"
  have "request_keeps U now t c v" by (rule request_keeps_cong [OF p(2)]) (simp_all add: v_def v4_write_def)
  moreover have "adds_out (eIP n, int (eUDP n)) {ENRRequestPacket} 1 t v"
    using Encode_kind [OF assms(2) Inr [unfolded r]] p(3) by (simp add: adds_out_def v_def v4_write_def)
  ultimately show ?thesis using Inr r p(1) by (simp add: asks_def v4_RequestENR_def v_def)
qed

subsection \<open>Answers\<close>

lemma length_findnodeByID: "length (nentries (findnodeByID L tab t k live)) \<le> k"
proof -
  have search: "i \<le> j \<Longrightarrow> search_loop f i j \<le> j" for f i j
  proof (induction f i j rule: search_loop.induct)
    case (1 f i j)
    have mid: "i \<le> (i + j) div 2 \<and> (i + j) div 2 \<le> j" using "1.prems" by presburger
    then show ?case
      using "1.IH"(1) [of "(i + j) div 2"] "1.IH"(2) [of "(i + j) div 2"] "1.prems" by (auto simp: search_loop.simps [of f i j] Let_def intro: order_trans)
  qed
  have push: "length (nentries (push L h n k)) \<le> k" if "length (nentries h) \<le> k" for h n
  proof -
    define ix where "ix = go_search (length (nentries h)) (\<lambda>i. DistCmp L (target h) (nID (nentries h ! i)) (nID n) > 0)"
    have "ix \<le> length (nentries h)" by (simp add: ix_def go_search_def search)
    moreover have "nentries (push L h n k) = (let es = if length (nentries h) < k then nentries h @ [n] else nentries h
      in if ix = length es then es else take ix es @ n # butlast (drop ix es))" by (simp add: push_def Let_def ix_def)
    ultimately show ?thesis using that by (auto simp: Let_def)
  qed
  have "length (nentries (foldl (\<lambda>h n. push L h n k) h ns)) \<le> k" if "length (nentries h) \<le> k" for h ns
    using that by (induction ns arbitrary: h) (simp_all add: push)
  then show ?thesis unfolding findnodeByID_def Let_def findnode_fold by simp
qed

fun v4_nodes :: "v4_packet \<Rightarrow> v4_Node list" where
  "v4_nodes (v4_Neighbors nodes exp rest) = nodes"
| "v4_nodes p = []"

definition neighbors_ok :: "('priv, 's) v4udp_lib \<Rightarrow> IP \<Rightarrow> node list \<Rightarrow> v4_Node list \<Rightarrow> bool \<Rightarrow> v4_packet list \<Rightarrow> bool" where
  "neighbors_ok U ip ns nodes sent ps \<longleftrightarrow>
     concat (map v4_nodes ps) = nodes @ map (nodeToRPC U) (filter (\<lambda>n. relay4 U ip (nIP n) = None) ns) \<and>
     (\<forall>p \<in> set ps. v4_Kind p = NeighborsPacket \<and> length (v4_nodes p) \<le> MaxNeighbors) \<and>
     length ps * MaxNeighbors \<le> length nodes + length ns + MaxNeighbors \<and> (sent \<or> ps \<noteq> [])"

lemma neighbors_loop_ok:
  "length nodes < MaxNeighbors \<Longrightarrow> neighbors_ok U ip ns nodes sent (neighbors_loop U ip exp ns nodes sent)"
proof (induction ns arbitrary: nodes sent)
  case Nil
  then show ?case by (auto simp: neighbors_ok_def)
next
  case (Cons n ns)
  define nodes' where "nodes' = (if relay4 U ip (nIP n) = None then nodes @ [nodeToRPC U n] else nodes)"
  have step: "neighbors_loop U ip exp (n # ns) nodes sent =
    (if length nodes' = MaxNeighbors then v4_Neighbors nodes' exp [] # neighbors_loop U ip exp ns [] True else neighbors_loop U ip exp ns nodes' sent)"
    by (simp add: nodes'_def Let_def)
  have rest: "nodes' @ map (nodeToRPC U) (filter (\<lambda>n. relay4 U ip (nIP n) = None) ns) =
    nodes @ map (nodeToRPC U) (filter (\<lambda>n. relay4 U ip (nIP n) = None) (n # ns))" and len: "length nodes' \<le> Suc (length nodes)"
    by (simp_all add: nodes'_def)
  show ?case
  proof (cases "length nodes' = MaxNeighbors")
    case True
    have "neighbors_ok U ip ns [] True (neighbors_loop U ip exp ns [] True)" by (rule Cons.IH) (simp add: MaxNeighbors_def)
    then show ?thesis unfolding step neighbors_ok_def rest [symmetric] using True len by auto
  next
    case False
    have "neighbors_ok U ip ns nodes' sent (neighbors_loop U ip exp ns nodes' sent)" using Cons.prems False len by (intro Cons.IH) simp
    then show ?thesis unfolding step neighbors_ok_def rest [symmetric] using False len by auto
  qed
qed

lemma send_all_out:
  assumes "v4_ok (v4 U)" "\<forall>p \<in> set ps. v4_Kind p = k"
  shows "\<exists>new. foldl (\<lambda>t p. v4_send U t addr p) t ps = t\<lparr>out4 := new\<rparr> \<and> adds_out addr {k} (length ps) t (t\<lparr>out4 := new\<rparr>)"
  using assms(2)
proof (induction ps arbitrary: t)
  case Nil
  show ?case by (intro exI [of _ "out4 t"]) (simp add: adds_out_refl)
next
  case (Cons p ps)
  obtain a where a: "v4_send U t addr p = t\<lparr>out4 := a\<rparr>" using v4_send_out(1) [OF assms(1)] by blast
  then have "adds_out addr {k} 1 t (t\<lparr>out4 := a\<rparr>)" using v4_send_out(2) [OF assms(1), of addr p t] Cons.prems by simp
  moreover obtain b where "foldl (\<lambda>t p. v4_send U t addr p) (t\<lparr>out4 := a\<rparr>) ps = t\<lparr>out4 := b\<rparr>" "adds_out addr {k} (length ps) (t\<lparr>out4 := a\<rparr>) (t\<lparr>out4 := b\<rparr>)"
    using Cons.IH [of "t\<lparr>out4 := a\<rparr>"] Cons.prems by auto
  ultimately show ?case using a adds_out_trans [of addr "{k}" 1 t "t\<lparr>out4 := a\<rparr>" "length ps"] by auto
qed

text \<open>
  How a packet is answered: with at most \<open>n\<close> packets of the given kinds, to its sender.
\<close>

definition serves ::
  "('priv, 's) v4udp_lib \<Rightarrow> int \<Rightarrow> UDPAddr \<Rightarrow> byte set \<Rightarrow> nat \<Rightarrow> ('priv, 's) UDPv4 \<Rightarrow> (('priv, 's) UDPv4 \<times> string option) go \<Rightarrow> bool" where
  "serves U now from kinds n t r \<longleftrightarrow> (\<exists>t' err. r = Some (t', err) \<and> v4_inv U t' \<and> (\<forall>T \<le> now. armed T t \<longrightarrow> armed now t') \<and>
     adds_out from kinds n t t' \<and> (err \<noteq> None \<longrightarrow> out4 t' = out4 t))"

fun answer_kinds :: "v4_packet \<Rightarrow> byte set" where
  "answer_kinds (v4_Ping version f to exp seq rest) = {PongPacket, PingPacket}"
| "answer_kinds (v4_Findnode tgt exp rest) = {NeighborsPacket}"
| "answer_kinds (v4_ENRRequest exp rest) = {ENRResponsePacket}"
| "answer_kinds p = {}"

fun answer_limit :: "bool \<Rightarrow> v4_packet \<Rightarrow> nat" where
  "answer_limit bonded (v4_Ping version f to exp seq rest) = 2"
| "answer_limit bonded (v4_Findnode tgt exp rest) = (if bonded then 2 else 0)"
| "answer_limit bonded (v4_ENRRequest exp rest) = (if bonded then 1 else 0)"
| "answer_limit bonded p = 0"

lemma serves_refused:
  "v4_inv U t \<Longrightarrow> serves U now from kinds n t (Some (t, Some err))"
  using armed_later [of _ t now] by (auto simp: serves_def adds_out_refl)

lemma handlePing_serves:
  assumes "v4_inv U t" "lib_ok (disc4 U)" "v4_ok (v4 U)"
  shows "serves U now from {PongPacket, PingPacket} 2 t
     (map_option (\<lambda>t. (t, None)) (v4_handlePing U t reqFrom reqTo senderKey from fromID mac now))"
proof -
  define p where "p = v4_Pong (NewEndpoint from (epTCP reqFrom)) mac (expiry now) (eSeq (self (tab4 t))) []"
  obtain a where a: "v4_send U t from p = t\<lparr>out4 := a\<rparr>" using v4_send_out(1) [OF assms(3)] by blast
  define n where "n = wrapNode (fresh (tab4 t)) (NewV4 U senderKey (fst from) (unat (epTCP reqFrom)) (nat (snd from)))"
  define u where "u = t\<lparr>out4 := a, tab4 := (tab4 t)\<lparr>fresh := Suc (fresh (tab4 t))\<rparr>\<rparr>"
  have u: "v4_inv U u" "armed T u = armed T t" for T using assms(1) by (simp_all add: u_def v4_inv_def queue_inv_def armed_def on_time_def)
  have p_out: "adds_out from {PongPacket, PingPacket} 1 t u"
  proof -
    have "v4_Kind p = PongPacket" "out4 u = out4 (v4_send U t from p)" by (simp add: p_def) (simp add: a u_def)
    then have "adds_out from {PongPacket} 1 t u" using v4_send_out(2) [OF assms(3), of "from" p t] adds_out_cong [of u] by simp
    then show ?thesis by (rule adds_out_mono) simp_all
  qed
  define mid where "mid = (if now - lastPongReceived u (nID n, fst from) > bondExpiration
    then map_option snd (sendPing U u fromID from (Some n) now)
    else do { tab \<leftarrow> addVerifiedNode (disc4 U) (tab4 u) n now; Some (u\<lparr>tab4 := tab\<rparr>) })"
  have "\<exists>v. mid = Some v \<and> v4_inv U v \<and> (\<forall>T \<le> now. armed T u \<longrightarrow> armed now v) \<and> adds_out from {PongPacket, PingPacket} 1 u v"
  proof (cases "now - lastPongReceived u (nID n, fst from) > bondExpiration")
    case True
    obtain c v where "sendPing U u fromID from (Some n) now = Some (c, v)" "request_keeps U now u c v" "adds_out from {PingPacket} 1 u v"
      using sendPing_asks [OF u(1) assms(3), of now "from" fromID "Some n"] by (auto simp: asks_def)
    then show ?thesis using True adds_out_mono [of "from" "{PingPacket}" 1 u v] by (auto simp: mid_def request_keeps_def)
  next
    case False
    obtain tab where tab: "addVerifiedNode (disc4 U) (tab4 u) n now = Some tab" "table_ok (disc4 U) tab"
      using addVerifiedNode_ok [of "disc4 U" "tab4 u"] u(1) assms(2) unfolding lib_ok_def v4_inv_def by metis
    have "v4_inv U (u\<lparr>tab4 := tab\<rparr>)" "armed T (u\<lparr>tab4 := tab\<rparr>) = armed T u" for T
      using u(1) tab(2) by (simp_all add: v4_inv_def queue_inv_def armed_def on_time_def)
    then show ?thesis using False tab(1) armed_later [of _ u now] by (auto simp: mid_def adds_out_refl)
  qed
  then obtain v where v: "mid = Some v" "v4_inv U v" "\<forall>T \<le> now. armed T u \<longrightarrow> armed now v" "adds_out from {PongPacket, PingPacket} 1 u v" by blast
  define w where "w = v\<lparr>lastPingReceived := (lastPingReceived v)((nID n, fst from) := now),
    statements4 := statements4 v @ [(from, (epIP reqTo, uint (epUDP reqTo)))]\<rparr>"
  have "v4_inv U w" "armed T w = armed T v" for T using v(2) by (simp_all add: w_def v4_inv_def queue_inv_def armed_def on_time_def)
  moreover have "adds_out from {PongPacket, PingPacket} 2 t w"
    using adds_out_trans [OF p_out v(4)] by (simp add: adds_out_def w_def numeral_2_eq_2)
  moreover have "v4_handlePing U t reqFrom reqTo senderKey from fromID mac now =
    Option.bind mid (\<lambda>t. Some (t\<lparr>lastPingReceived := (lastPingReceived t)((nID n, fst from) := now),
      statements4 := statements4 t @ [(from, (epIP reqTo, uint (epUDP reqTo)))]\<rparr>))"
    by (simp add: v4_handlePing_def p_def [symmetric] a Let_def mid_def u_def n_def)
  then have "v4_handlePing U t reqFrom reqTo senderKey from fromID mac now = Some w" by (simp add: v(1) w_def)
  ultimately show ?thesis using v(3) u(2) by (auto simp: serves_def)
qed

definition same_queue :: "('priv, 's) UDPv4 \<Rightarrow> ('priv, 's) UDPv4 \<Rightarrow> bool" where
  "same_queue t u \<longleftrightarrow> plist u = plist t \<and> matchers u = matchers t \<and> nmatchers u = nmatchers t \<and> nextTimeout u = nextTimeout t \<and>
     timer4 u = timer4 t \<and> closed4 u = closed4 t \<and> tab4 u = tab4 t \<and> out4 u = out4 t"

lemma handleReply_serves:
  assumes "v4_inv U t" "lib_ok (disc4 U)"
  shows "\<exists>t' b. handleReply U t i ip p now = Some (t', b) \<and> (\<forall>u err. same_queue t' u \<longrightarrow> serves U now from {} 0 t (Some (u, err)))"
proof -
  obtain t' b where r: "handleReply U t i ip p now = Some (t', b)" "v4_inv U t'" "out4 t' = out4 t" "\<forall>T \<le> now. armed T t \<longrightarrow> armed now t'"
    using handleReply_keeps [OF assms, of i ip p now] by blast
  have "serves U now from {} 0 t (Some (u, err))" if "same_queue t' u" for u err
    using that r(2-4) queue_inv_cong [of u t'] armed_cong [of u t'] by (simp add: serves_def same_queue_def v4_inv_def adds_out_refl)
  then show ?thesis using r(1) by blast
qed

lemma wrapPacket_serves:
  assumes "v4_inv U t" "lib_ok (disc4 U)" "v4_ok (v4 U)"
  shows "serves U now from (answer_kinds p) (answer_limit (checkBond t fromID (fst from) now) p) t (wrapPacket U t p from fromID fromKey hash now)"
proof (cases p)
  case (v4_Ping version reqFrom reqTo exp seq rest)
  then show ?thesis
    using serves_refused [OF assms(1)] handlePing_serves [OF assms] by (simp add: wrapPacket_def split: sum.split)
next
  case (v4_Pong to tok exp seq rest)
  then show ?thesis
    using serves_refused [OF assms(1)] handleReply_serves [OF assms(1,2), of fromID "fst from" p now "from"]
    by (auto simp: wrapPacket_def verifyPong_def Let_def same_queue_def)
next
  case (v4_Findnode tgt exp rest)
  define closest where "closest = nentries (findnodeByID (disc4 U) (tab4 t) (Keccak256 (v4 U) tgt) bucketSize True)"
  define ps where "ps = neighbors_loop U (fst from) (expiry now) closest [] False"
  have "neighbors_ok U (fst from) closest [] False ps" unfolding ps_def by (rule neighbors_loop_ok) (simp add: MaxNeighbors_def)
  moreover have "length closest \<le> bucketSize" by (simp add: closest_def length_findnodeByID)
  ultimately have ps: "\<forall>p \<in> set ps. v4_Kind p = NeighborsPacket" "length ps * MaxNeighbors \<le> bucketSize + MaxNeighbors"
    by (auto simp: neighbors_ok_def)
  have 2: "length ps \<le> 2" using ps(2) by (simp add: MaxNeighbors_def bucketSize_def)
  obtain new where new: "v4_handleFindnode U t tgt from now = t\<lparr>out4 := new\<rparr>" "adds_out from {NeighborsPacket} (length ps) t (t\<lparr>out4 := new\<rparr>)"
    using send_all_out [OF assms(3) ps(1), of "from" t] by (auto simp: v4_handleFindnode_def ps_def closest_def Let_def)
  have "serves U now from {NeighborsPacket} 2 t (Some (t\<lparr>out4 := new\<rparr>, None))"
    using adds_out_mono [OF new(2) order_refl 2] assms(1) armed_later [of _ t now] by (auto simp: serves_def out4_inv)
  then show ?thesis
    using v4_Findnode serves_refused [OF assms(1)] new(1) by (auto simp: wrapPacket_def verifyFindnode_def split: if_splits)
next
  case (v4_Neighbors nodes exp rest)
  then show ?thesis
    using serves_refused [OF assms(1)] handleReply_serves [OF assms(1,2), of fromID "fst from" p now "from"]
    by (auto simp: wrapPacket_def verifyNeighbors_def same_queue_def)
next
  case (v4_ENRRequest exp rest)
  define q where "q = v4_ENRResponse hash (nodeRecord U (self (tab4 t))) []"
  obtain new where new: "v4_send U t from q = t\<lparr>out4 := new\<rparr>" using v4_send_out(1) [OF assms(3)] by blast
  have "serves U now from {ENRResponsePacket} 1 t (Some (t\<lparr>out4 := new\<rparr>, None))"
    using v4_send_out(2) [OF assms(3), of "from" q t] assms(1) armed_later [of _ t now] by (auto simp: serves_def out4_inv new) (simp add: q_def)
  then show ?thesis
    using v4_ENRRequest serves_refused [OF assms(1)] new
    by (auto simp: wrapPacket_def verifyENRRequest_def handleENRRequest_def q_def split: if_splits)
next
  case (v4_ENRResponse tok r rest)
  then show ?thesis
    using handleReply_serves [OF assms(1,2), of fromID "fst from" p now "from"]
    by (auto simp: wrapPacket_def verifyENRResponse_def same_queue_def)
qed

subsection \<open>Resolving\<close>

text \<open>Whatever the network answers, \<open>Resolve\<close> returns a record of the node it was asked about, as every answer is checked to be.\<close>

lemma resolve_loop_ID: "\<forall>k m x. enr k m = Inr x \<longrightarrow> eID x = eID m \<Longrightarrow> eID (resolve_loop enr k n rns) = eID n"
  by (induction enr k n rns rule: resolve_loop.induct) (auto split: sum.splits)

lemma RequestENR_result_ID: "RequestENR_result U n r p = Some (Inr x) \<Longrightarrow> eID x = eID n"
  by (cases "(U, n, r, p)" rule: RequestENR_result.cases) (auto split: sum.splits if_splits option.splits)

lemma v4_Resolve_ID:
  assumes "v4_inv U t" "lib_ok (disc4 U)" "\<forall>k m x. enr k m = Inr x \<longrightarrow> eID x = eID m"
  shows "\<exists>r. v4_Resolve U t enr looked_up n = Some r \<and> eID r = eID n"
proof -
  have "table_ok (disc4 U) (tab4 t)" "logdist_ok (disc4 U)" using assms(1,2) by (auto simp: v4_inv_def lib_ok_def)
  then obtain intable where g: "getNode (disc4 U) (tab4 t) (eID n) = Some intable" using getNode_finds by blast
  have m: "eID m = eID n" if "intable = Some m" for m
    using g that by (auto simp: getNode_def bind_eq_Some_conv unwrapNode_def find_Some_iff)
  define search where "search = (\<lambda>n. case loadKey U n of None \<Rightarrow> n | Some key \<Rightarrow> resolve_loop enr 2 n (looked_up key))"
  have s: "eID (search m) = eID m" for m using resolve_loop_ID [OF assms(3)] by (simp add: search_def split: option.split)
  define r where "r = (case intable of None \<Rightarrow> search n
    | Some m \<Rightarrow> if eSeq m > eSeq n then (case enr 1 m of Inr rn \<Rightarrow> rn | Inl err \<Rightarrow> search m) else search n)"
  have "eID r = eID n"
  proof (cases intable)
    case (Some i)
    show ?thesis
    proof (cases "enr 1 i")
      case (Inr rn)
      then have "eID rn = eID i" using assms(3) by blast
      then show ?thesis using Some Inr m [OF Some] s [of n] by (simp add: r_def)
    qed (use Some m [OF Some] s [of i] s [of n] in \<open>simp add: r_def\<close>)
  qed (simp add: r_def s)
  moreover have "v4_Resolve U t enr looked_up n = (case enr 0 n of Inr rn \<Rightarrow> Some rn | Inl err \<Rightarrow> Some r)"
    unfolding v4_Resolve_def r_def search_def Let_def by (cases "enr 0 n") (simp_all add: g)
  moreover have "\<exists>r. Some x = Some r \<and> eID r = eID n" if "enr 0 n = Inr x" for x using assms(3) that by blast
  ultimately show ?thesis by (cases "enr 0 n") simp_all
qed

end
