(* ===== verification/V4_Props.thy ===== *)
theory V4_Props
  imports V4_Transport
begin

text \<open>
  Properties of the v4 transport over all sequences of events: packets from anyone, the timer, requests and closing, in any order, first with a
  clock that may jump and then with one that does not go back.
\<close>

subsection \<open>Runs\<close>

fun event_clock :: "int \<Rightarrow> v4_event \<Rightarrow> int" where
  "event_clock T (V4_packet from buf now) = now"
| "event_clock T (V4_timer now) = now"
| "event_clock T (V4_ping n now) = now"
| "event_clock T (V4_bond i addr now) = now"
| "event_clock T (V4_findnode i addr tgt now) = now"
| "event_clock T (V4_enr n now) = now"
| "event_clock T V4_close = T"

lemma asksD:
  assumes "asks U now addr k t r"
  shows "\<exists>t'. map_option snd r = Some t' \<and> v4_inv U t' \<and> (\<forall>T \<le> now. armed T t \<longrightarrow> armed now t')"
  using assms unfolding asks_def request_keeps_def by auto

lemma v4_handlePacket_serves:
  assumes "v4_inv U t" "lib_ok (disc4 U)" "v4_ok (v4 U)"
  shows "\<exists>t' err. v4_handlePacket U t from buf now = Some (t', err) \<and> v4_inv U t' \<and> (\<forall>T \<le> now. armed T t \<longrightarrow> armed now t')"
proof -
  obtain r where r: "v4_Decode (v4 U) buf = Some r" using v4_Decode_total [OF assms(3)] by blast
  show ?thesis
  proof (cases r)
    case (Inl err)
    then show ?thesis using r assms(1) armed_later [of _ t now] by (auto simp: v4_handlePacket_def)
  next
    case (Inr x)
    obtain p key hash where x: "x = (p, key, hash)" by (cases x) auto
    have "v4_handlePacket U t from buf now = wrapPacket U t p from (Pubkey_ID (v4 U) key) key hash now"
      using r Inr x by (simp add: v4_handlePacket_def)
    then show ?thesis using wrapPacket_serves [OF assms, of now "from" p "Pubkey_ID (v4 U) key" key hash] by (auto simp: serves_def)
  qed
qed

lemma v4_step_keeps:
  assumes "v4_inv U t" "lib_ok (disc4 U)" "v4_ok (v4 U)"
  shows "\<exists>t'. v4_step U t e = Some t' \<and> v4_inv U t' \<and> (\<forall>T \<le> event_clock T e. armed T t \<longrightarrow> armed (event_clock T e) t')"
proof (cases e)
  case (V4_packet addr buf now)
  then show ?thesis using v4_handlePacket_serves [OF assms, of addr buf now] by (auto simp: v4_step_def)
next
  case (V4_timer now)
  show ?thesis
  proof (cases "timer4 t = None")
    case True
    then show ?thesis using V4_timer assms(1) armed_later [of _ t now] by (auto simp: v4_step_def)
  next
    case False
    obtain t' where "loop_timeout t now = Some t'" "loop_keeps U now t t'" using loop_timeout_keeps [OF assms(1), of now] by blast
    then show ?thesis using V4_timer False loop_keepsD(1,7) [of U now t t'] by (auto simp: v4_step_def armed_def)
  qed
next
  case (V4_ping n now)
  then show ?thesis
    using asksD [OF sendPing_asks [OF assms(1,3), of now "(eIP n, int (eUDP n))" "eID n" None]] by (simp add: v4_step_def)
next
  case (V4_bond i addr now)
  show ?thesis
    using V4_bond asksD [OF sendPing_asks [OF assms(1,3), of now addr i None]] assms(1) armed_later [of _ t now]
    by (auto simp: v4_step_def ensureBond_def Let_def)
next
  case (V4_findnode i addr tgt now)
  then show ?thesis using asksD [OF findnode_asks [OF assms(1,3), of now addr i tgt]] by (simp add: v4_step_def)
next
  case (V4_enr n now)
  then show ?thesis using asksD [OF RequestENR_asks [OF assms(1,3), of now n]] by (simp add: v4_step_def)
next
  case V4_close
  have "\<exists>t'. loop_close t = Some t' \<and> v4_inv U t' \<and> (\<forall>T. armed T t \<longrightarrow> armed T t')"
    using loop_close_keeps [OF assms(1)] by (metis option.inject)
  then show ?thesis using V4_close by (simp add: v4_step_def)
qed

definition v4_run_step :: "('priv, 's) v4udp_lib \<Rightarrow> ('priv, 's) UDPv4 go \<Rightarrow> v4_event \<Rightarrow> ('priv, 's) UDPv4 go" where
  "v4_run_step U s e = Option.bind s (\<lambda>t. v4_step U t e)"

definition v4_libs_ok :: "('priv, 's) v4udp_lib \<Rightarrow> bool" where
  "v4_libs_ok U \<longleftrightarrow> lib_ok (disc4 U) \<and> v4_ok (v4 U)"

interpretation v4_runs: event_machine "v4_run_step U" "\<lambda>s e. v4_libs_ok U" "\<lambda>s. \<exists>t. s = Some t \<and> v4_inv U t"
  for U :: "('priv, 's) v4udp_lib"
proof
  fix s :: "('priv, 's) UDPv4 go" and e
  assume "\<exists>t. s = Some t \<and> v4_inv U t" "v4_libs_ok U"
  then show "\<exists>t. v4_run_step U s e = Some t \<and> v4_inv U t"
    using v4_step_keeps [of U _ e] by (fastforce simp: v4_run_step_def v4_libs_ok_def)
qed

text \<open>The same runs with the time of the last event.\<close>

definition timed_step :: "('priv, 's) v4udp_lib \<Rightarrow> int \<times> ('priv, 's) UDPv4 go \<Rightarrow> v4_event \<Rightarrow> int \<times> ('priv, 's) UDPv4 go" where
  "timed_step U s e = (event_clock (fst s) e, v4_run_step U (snd s) e)"

definition no_jump :: "int \<times> ('priv, 's) UDPv4 go \<Rightarrow> v4_event \<Rightarrow> bool" where
  "no_jump s e \<longleftrightarrow> fst s \<le> event_clock (fst s) e"

interpretation v4_timed: event_machine "timed_step U" "\<lambda>s e. v4_libs_ok U \<and> no_jump s e"
    "\<lambda>s. \<exists>t. snd s = Some t \<and> v4_inv U t \<and> armed (fst s) t"
  for U :: "('priv, 's) v4udp_lib"
proof
  fix s :: "int \<times> ('priv, 's) UDPv4 go" and e
  assume "\<exists>t. snd s = Some t \<and> v4_inv U t \<and> armed (fst s) t" "v4_libs_ok U \<and> no_jump s e"
  then show "\<exists>t. snd (timed_step U s e) = Some t \<and> v4_inv U t \<and> armed (fst (timed_step U s e)) t"
    using v4_step_keeps [of U _ e] by (fastforce simp: timed_step_def v4_run_step_def v4_libs_ok_def no_jump_def)
qed

lemma ListenV4_inv:
  assumes "lib_ok (disc4 U)" "ListenV4 U priv slf bootnodes queried now = Some (Inr t)"
  shows "v4_inv U t \<and> armed T t"
proof -
  obtain tab where tab: "newTable (disc4 U) slf bootnodes queried now = Some (Inr tab)" "tab4 t = tab" "plist t = []" "nmatchers t = 0" "nextTimeout t = None"
    using assms(2) unfolding ListenV4_def by (cases "newTable (disc4 U) slf bootnodes queried now") (auto split: sum.splits)
  then have "table_ok (disc4 U) tab" using newTable_ok [of "disc4 U" slf bootnodes queried now] assms(1) by (auto simp: lib_ok_def)
  then show ?thesis using tab by (simp add: v4_inv_def queue_inv_def armed_def on_time_def)
qed

lemma v4_run_inv:
  assumes "v4_libs_ok U" "ListenV4 U priv slf bootnodes queried now = Some (Inr t0)"
  shows "\<exists>t. foldl (v4_run_step U) (Some t0) es = Some t \<and> v4_inv U t"
  using v4_runs.inv_run [where U = U and s = "Some t0" and es = es] ListenV4_inv [of U priv slf bootnodes queried now t0] assms
  by (simp add: run_ok_const v4_libs_ok_def)

subsection \<open>An instance\<close>

definition sample_U :: "(nat, (IP \<Rightarrow> nat) \<times> nat) v4udp_lib" where
  "sample_U = \<lparr>v4 = sample_v4, disc4 = sample_disc, relay4 = (\<lambda>a b. None), netrestrict = None,
     NewV4 = (\<lambda>key ip tcp udp. \<lparr>eID = replicate 32 (of_nat (fst key)), eIP = ip, eUDP = udp, eTCP = tcp, eSeq = 0\<rparr>),
     loadKey = (\<lambda>n. Some (unat (hd (eID n)), 1)), nodeRecord = eIP, enodeNew = (\<lambda>r. Inl ''invalid record'')\<rparr>"

lemma sample_libs: "v4_libs_ok sample_U" "v4 sample_U = sample_v4" "disc4 sample_U = sample_disc"
  using sample_lib_ok sample_v4_ok by (simp_all add: v4_libs_ok_def sample_U_def)

lemma sample_Listen: "\<exists>t. ListenV4 sample_U 5 (sample_enode 0) [] [] 0 = Some (Inr t)"
  using sample_newTable [of "sample_enode 0" 0] by (auto simp: ListenV4_def sample_libs)

subsection \<open>Properties\<close>

text \<open>
  C4. Whatever packets arrive and whatever requests are made, in any order and with any clock, the v4 transport does not panic and its loop
  never blocks on a result channel: every request's matcher is either in the queue, once and without a result, or it has left it with exactly
  one result. The table stays well formed.
\<close>

theorem v4_queue:
  assumes "v4_libs_ok U" "ListenV4 U priv slf bootnodes queried now = Some (Inr t0)"
  shows "\<exists>t. foldl (v4_run_step U) (Some t0) es = Some t \<and> table_ok (disc4 U) (tab4 t) \<and> distinct (plist t) \<and> (\<forall>c \<in> set (plist t). c < nmatchers t) \<and>
     (\<forall>c < nmatchers t. length (merrc (matchers t c)) = (if c \<in> set (plist t) then 0 else 1))"
proof -
  obtain t where t: "foldl (v4_run_step U) (Some t0) es = Some t" "v4_inv U t" using v4_run_inv [OF assms] by blast
  have "length (merrc (matchers t c)) = (if c \<in> set (plist t) then 0 else 1)" if "c < nmatchers t" for c
    using t(2) that by (auto simp: v4_inv_def queue_inv_def waiting_def settled_def)
  then show ?thesis using t by (auto simp: v4_inv_def queue_inv_def)
qed

theorem v4_queue_witness:
  "\<exists>t0 t. ListenV4 sample_U 5 (sample_enode 0) [] [] 0 = Some (Inr t0) \<and>
     foldl (v4_run_step sample_U) (Some t0) [V4_enr (sample_enode 1) 7, V4_timer 9, V4_packet ([], 0) [1, 2] 10, V4_close] = Some t \<and> distinct (plist t)"
proof -
  obtain t0 where t0: "ListenV4 sample_U 5 (sample_enode 0) [] [] 0 = Some (Inr t0)" using sample_Listen by blast
  from v4_queue [OF sample_libs(1) t0, of "[V4_enr (sample_enode 1) 7, V4_timer 9, V4_packet ([], 0) [1, 2] 10, V4_close]"] t0
  show ?thesis by blast
qed

text \<open>
  C30. A request that succeeds was answered. \<open>ping\<close> returns a sequence number only if a pong with the hash of the ping brought it, and \<open>RequestENR\<close> a
  record only if a response with its hash brought one, of the node that was asked; the type assertions with which they read the reply never
  fail. \<open>findnode\<close> returns no error exactly when at least one neighbors packet came and either sixteen nodes or more were received in all, or
  fewer and the request timed out waiting for the rest; it returns the nodes it accepted of those received.
\<close>

theorem v4_replies:
  assumes "v4_libs_ok U" "ListenV4 U priv slf bootnodes queried now = Some (Inr t0)" "foldl (v4_run_step U) (Some t0) es = Some t"
    and "c < nmatchers t" "merrc (matchers t c) = [r]"
  defines "m \<equiv> matchers t c"
  shows "case mcallback m of
       On_pong hash n \<Rightarrow> v4_ping_result r (mreply m) \<noteq> None \<and>
         (\<forall>seq. v4_ping_result r (mreply m) = Some (seq, None) \<longrightarrow> (\<exists>to exp rest. mreply m = Some (v4_Pong to hash exp seq rest)))
     | On_neighbors addr \<Rightarrow>
         (snd (findnode_result r (mreply m) (mnodes m)) = None \<longleftrightarrow>
            (\<exists>nodes exp rest. mreply m = Some (v4_Neighbors nodes exp rest)) \<and>
            (r = None \<and> 16 \<le> nreceived m \<or> r = Some errTimeout \<and> nreceived m < 16)) \<and>
         fst (findnode_result r (mreply m) (mnodes m)) = mnodes m \<and> length (mnodes m) \<le> nreceived m
     | On_enr hash \<Rightarrow> RequestENR_result U n r (mreply m) \<noteq> None \<and>
         (\<forall>x. RequestENR_result U n r (mreply m) = Some (Inr x) \<longrightarrow>
            eID x = eID n \<and> (\<exists>record rest. mreply m = Some (v4_ENRResponse hash record rest)))"
proof -
  have inv: "v4_inv U t" using v4_run_inv [OF assms(1,2), of es] assms(3) by simp
  then have "c \<notin> set (plist t)" using assms(5) queue_inv_waiting [of t c] by (auto simp: v4_inv_def)
  then have "settled m" using inv assms(4) by (simp add: v4_inv_def queue_inv_def m_def)
  then have ok: "reply_ok m" "r = None \<Longrightarrow> answers (mcallback m) (nreceived m) (mreply m)" "r \<noteq> None \<Longrightarrow> nreceived m < bucketSize"
    using assms(5) by (auto simp: settled_def m_def)
  show ?thesis
  proof (cases "mcallback m")
    case (On_pong hash n')
    then show ?thesis
      using ok(2) by (cases r; cases "(mcallback m, nreceived m, mreply m)" rule: answers.cases) auto
  next
    case (On_neighbors addr)
    have "\<exists>nodes exp rest. p = v4_Neighbors nodes exp rest" if "mreply m = Some p" for p
      using ok(1) that On_neighbors by (cases p) (auto simp: reply_ok_def v4_kinds)
    moreover have "mreply m \<noteq> None \<and> 16 \<le> nreceived m" if "r = None"
      using ok(2) [OF that] On_neighbors by (cases "(mcallback m, nreceived m, mreply m)" rule: answers.cases) (auto simp: bucketSize_def)
    ultimately show ?thesis
      using On_neighbors ok(1,3) by (cases r) (auto simp: findnode_result_def reply_ok_def bucketSize_def)
  next
    case (On_enr hash)
    have "\<exists>record rest. mreply m = Some (v4_ENRResponse hash record rest)" if "r = None"
      using ok(2) [OF that] On_enr by (cases "(mcallback m, nreceived m, mreply m)" rule: answers.cases) auto
    then have "RequestENR_result U n r (mreply m) \<noteq> None" "r = None \<or> (\<exists>e. RequestENR_result U n r (mreply m) = Some (Inl e))"
      by (cases r; fastforce)+
    then show ?thesis
      using \<open>r = None \<Longrightarrow> \<exists>record rest. mreply m = Some (v4_ENRResponse hash record rest)\<close> On_enr
      by (simp only: replyCallback.case) (metis RequestENR_result_ID Inl_Inr_False option.inject)
  qed
qed

text \<open>The sample instance: a node is asked for its record and answers.\<close>

definition sample_responder :: enode where
  "sample_responder = \<lparr>eID = Keccak256 sample_v4 (v4_EncodePubkey (v4PublicKey sample_v4 9)), eIP = [192, 0, 2, 1], eUDP = 30303, eTCP = 0, eSeq = 0\<rparr>"

lemma sample_exchange:
  assumes "ListenV4 sample_U 5 (sample_enode 0) [] [] 0 = Some (Inr t0)" "v4_Encode sample_v4 5 (v4_ENRRequest (expiry 7) []) = Inr (request, hash)"
    and "v4_Encode sample_v4 9 (v4_ENRResponse hash [] []) = Inr (response, h)"
  shows "\<exists>t. foldl (v4_run_step sample_U) (Some t0) [V4_enr sample_responder 7, V4_packet ([192, 0, 2, 1], 30303) response 8] = Some t \<and>
     nmatchers t = 1 \<and> merrc (matchers t 0) = [None] \<and> mcallback (matchers t 0) = On_enr hash \<and> mreply (matchers t 0) = Some (v4_ENRResponse hash [] [])"
proof -
  have t0: "plist t0 = []" "closed4 t0 = False" "nmatchers t0 = 0" "nextTimeout t0 = None" "priv4 t0 = 5"
    using assms(1) unfolding ListenV4_def by (cases "newTable (disc4 sample_U) (sample_enode 0) [] [] 0"; auto split: sum.splits)+
  define m where "m = \<lparr>mfrom = eID sample_responder, mip = [192, 0, 2, 1], mptype = ENRResponsePacket, mdeadline = 7 + respTimeout, mcallback = On_enr hash,
    merrc = [], mreply = None, mnodes = [], nreceived = 0\<rparr>"
  define t1 where "t1 = t0\<lparr>matchers := (matchers t0)(0 := m), nmatchers := 1, plist := [0], nextTimeout := Some 0, timer4 := Some (7 + respTimeout),
    out4 := out4 t0 @ [(([192, 0, 2, 1], 30303), request)]\<rparr>"
  have 1: "v4_step sample_U t0 (V4_enr sample_responder 7) = Some t1"
    using assms(2) t0 by (simp add: v4_step_def v4_RequestENR_def sample_libs(2) pending_def Let_def resetTimeout_def v4_write_def respTimeout_def t1_def m_def
      sample_responder_def)
  have d: "v4_Decode sample_v4 response = Some (Inr (v4_ENRResponse hash [] [], v4_EncodePubkey (v4PublicKey sample_v4 9), h))"
    using v4_Encode_Decode [OF sample_v4_ok assms(3)] .
  define t2 where "t2 = t1\<lparr>matchers := (matchers t1)(0 := m\<lparr>mreply := Some (v4_ENRResponse hash [] []), merrc := [None]\<rparr>), contTimeouts := 0, plist := []\<rparr>"
  have 2: "v4_step sample_U t1 (V4_packet ([192, 0, 2, 1], 30303) response 8) = Some t2"
    using t0(2) by (simp add: v4_step_def v4_handlePacket_def sample_libs(2) d wrapPacket_def verifyENRResponse_def handleReply_def t1_def m_def
      sample_responder_def Pubkey_ID_def IP_Equal_def run_callback_def send_err_def resetTimeout_def t2_def)
  show ?thesis using 1 2 by (simp add: v4_run_step_def) (simp add: t2_def t1_def m_def)
qed

theorem v4_replies_witness:
  "\<exists>t0 es t hash. ListenV4 sample_U 5 (sample_enode 0) [] [] 0 = Some (Inr t0) \<and> foldl (v4_run_step sample_U) (Some t0) es = Some t \<and>
     merrc (matchers t 0) = [None] \<and> RequestENR_result sample_U (sample_enode 1) None (mreply (matchers t 0)) \<noteq> None \<and>
     mreply (matchers t 0) = Some (v4_ENRResponse hash [] [])"
proof -
  obtain t0 where t0: "ListenV4 sample_U 5 (sample_enode 0) [] [] 0 = Some (Inr t0)" using sample_Listen by blast
  obtain request hash where e: "v4_Encode sample_v4 5 (v4_ENRRequest (expiry 7) []) = Inr (request, hash)"
    by (simp add: v4_Encode_def sample_v4_def Let_def)
  then have "length hash = 32" using v4_Encode_shape [OF sample_v4_ok] by blast
  then obtain response h where r: "v4_Encode sample_v4 9 (v4_ENRResponse hash [] []) = Inr (response, h)"
    by (simp add: v4_Encode_def sample_v4_def Let_def)
  obtain t where t: "foldl (v4_run_step sample_U) (Some t0) [V4_enr sample_responder 7, V4_packet ([192, 0, 2, 1], 30303) response 8] = Some t"
    "nmatchers t = 1" "merrc (matchers t 0) = [None]" "mcallback (matchers t 0) = On_enr hash" "mreply (matchers t 0) = Some (v4_ENRResponse hash [] [])"
    using sample_exchange [OF t0 e r] by blast
  from v4_replies [OF sample_libs(1) t0 t(1), of 0 None "sample_enode 1"] t(2-5) have "RequestENR_result sample_U (sample_enode 1) None (mreply (matchers t 0)) \<noteq> None"
    by simp
  then show ?thesis using t0 t by blast
qed

text \<open>
  C5. No amplification: everything the transport writes because of a packet goes to the packet's sender, and without an endpoint proof of the
  sender, the record of a recent pong, it writes nothing but at most two packets, a pong and a ping, in answer to a ping. With the proof, a
  findnode request is answered by at most two neighbors packets and a record request by one packet. Replies are not answered.
\<close>

theorem v4_no_amplification:
  assumes "v4_libs_ok U" "ListenV4 U priv slf bootnodes queried now0 = Some (Inr t0)" "foldl (v4_run_step U) (Some t0) es = Some t"
    and "v4_Decode (v4 U) buf = Some (Inr (p, key, hash))"
  shows "\<exists>t' err new. v4_handlePacket U t from buf now = Some (t', err) \<and> out4 t' = out4 t @ new \<and> (err \<noteq> None \<longrightarrow> new = []) \<and>
     (\<forall>(addr, packet) \<in> set new. addr = from \<and> packet ! 97 \<in> answer_kinds p) \<and>
     length new \<le> answer_limit (checkBond t (Pubkey_ID (v4 U) key) (fst from) now) p"
proof -
  have inv: "v4_inv U t" using v4_run_inv [OF assms(1,2), of es] assms(3) by simp
  have "v4_handlePacket U t from buf now = wrapPacket U t p from (Pubkey_ID (v4 U) key) key hash now"
    using assms(4) by (simp add: v4_handlePacket_def)
  then show ?thesis
    using wrapPacket_serves [OF inv, of now "from" p "Pubkey_ID (v4 U) key" key hash] assms(1)
    by (fastforce simp: serves_def adds_out_def v4_libs_ok_def v4_sizes)
qed

text \<open>The sample instance: a record request by a node without an endpoint proof, a day after 1970.\<close>

theorem v4_no_amplification_witness:
  "\<exists>t0 packet hash t' err. ListenV4 sample_U 5 (sample_enode 0) [] [] 0 = Some (Inr t0) \<and> v4_Encode sample_v4 9 (v4_ENRRequest 90000 []) = Inr (packet, hash) \<and>
     v4_handlePacket sample_U t0 ([192, 0, 2, 1], 30303) packet (86400 * 1000000000) = Some (t', err) \<and> out4 t' = out4 t0"
proof -
  obtain t0 where t0: "ListenV4 sample_U 5 (sample_enode 0) [] [] 0 = Some (Inr t0)" using sample_Listen by blast
  then have l: "lastPongReceived t0 x = 0" for x
    unfolding ListenV4_def by (cases "newTable (disc4 sample_U) (sample_enode 0) [] [] 0"; auto split: sum.splits)
  obtain packet hash where e: "v4_Encode sample_v4 9 (v4_ENRRequest 90000 []) = Inr (packet, hash)"
    by (simp add: v4_Encode_def sample_v4_def Let_def)
  then have d: "v4_Decode (v4 sample_U) packet = Some (Inr (v4_ENRRequest 90000 [], v4_EncodePubkey (v4PublicKey sample_v4 9), hash))"
    using v4_Encode_Decode [OF sample_v4_ok] sample_libs(2) by simp
  have "foldl (v4_run_step sample_U) (Some t0) [] = Some t0" by simp
  from v4_no_amplification [OF sample_libs(1) t0 this d, of "([192, 0, 2, 1], 30303)" "86400 * 1000000000"] t0 e show ?thesis
    by (auto simp: checkBond_def l bondExpiration_def)
qed

text \<open>
  The reply to a findnode request: neighbors packets of at most twelve nodes each that together list the sixteen or fewer closest nodes of the
  table whose address may be relayed to the sender, in that order; if there are none, one empty packet.
\<close>

theorem v4_neighbors:
  "\<exists>closest ps. closest = nentries (findnodeByID (disc4 U) (tab4 t) (Keccak256 (v4 U) tgt) bucketSize True) \<and> length closest \<le> 16 \<and>
     v4_handleFindnode U t tgt from now = foldl (\<lambda>t p. v4_send U t from p) t ps \<and> ps \<noteq> [] \<and> length ps \<le> 2 \<and>
     list_all (\<lambda>p. v4_Kind p = NeighborsPacket \<and> length (v4_nodes p) \<le> 12) ps \<and>
     concat (map v4_nodes ps) = map (nodeToRPC U) (filter (\<lambda>n. relay4 U (fst from) (nIP n) = None) closest)"
proof -
  define closest where "closest = nentries (findnodeByID (disc4 U) (tab4 t) (Keccak256 (v4 U) tgt) bucketSize True)"
  define ps where "ps = neighbors_loop U (fst from) (expiry now) closest [] False"
  have ok: "neighbors_ok U (fst from) closest [] False ps" unfolding ps_def by (rule neighbors_loop_ok) (simp add: MaxNeighbors_def)
  have len: "length closest \<le> 16" using length_findnodeByID [of "disc4 U" "tab4 t" "Keccak256 (v4 U) tgt" bucketSize True]
    by (simp add: closest_def bucketSize_def)
  have "length ps \<le> 2" using ok len by (simp add: neighbors_ok_def MaxNeighbors_def)
  moreover have "v4_handleFindnode U t tgt from now = foldl (\<lambda>t p. v4_send U t from p) t ps"
    by (simp add: v4_handleFindnode_def ps_def closest_def)
  ultimately show ?thesis
    using ok len unfolding closest_def [symmetric] by (intro exI [of _ closest] exI [of _ ps]) (simp add: neighbors_ok_def MaxNeighbors_def list_all_iff)
qed

subsection \<open>Progress\<close>

text \<open>Each firing of the timer after all deadlines takes the first matcher off the queue.\<close>

lemma timer_drains:
  assumes "v4_libs_ok U" "v4_inv U t" "armed now t" "\<forall>c \<in> set (plist t). mdeadline (matchers t c) \<le> now"
  shows "\<exists>t'. foldl (v4_run_step U) (Some t) (replicate (length (plist t)) (V4_timer now)) = Some t' \<and> plist t' = [] \<and>
     matchers t' = (\<lambda>c. if c \<in> set (plist t) then (matchers t c)\<lparr>merrc := [Some errTimeout]\<rparr> else matchers t c)"
  using assms
proof (induction "plist t" arbitrary: t)
  case Nil
  then show ?case by auto
next
  case (Cons c cs)
  have time: "on_time now t" "timer4 t \<noteq> None" using Cons.prems(3) Cons.hyps(2) [symmetric] by (auto simp: armed_def on_time_def)
  have first: "find (\<lambda>c. mdeadline (matchers t c) \<le> now) (plist t) = Some c" using Cons.prems(4) Cons.hyps(2) [symmetric] by simp
  obtain u where u: "loop_timeout t now = Some u" "loop_keeps U now t u" "plist u = cs"
    "matchers u = (matchers t)(c := (matchers t c)\<lparr>merrc := [Some errTimeout]\<rparr>)"
    using loop_timeout_keeps [OF Cons.prems(2), of now] time(1) first Cons.hyps(2) [symmetric] by auto
  have "distinct (plist t)" using Cons.prems(2) by (simp add: v4_inv_def queue_inv_def)
  then have c: "c \<notin> set cs" using Cons.hyps(2) [symmetric] by simp
  have "armed now u" using loop_keepsD(7) [OF u(2) order_refl time(1)] .
  moreover have "\<forall>d \<in> set (plist u). mdeadline (matchers u d) \<le> now" using Cons.prems(4) Cons.hyps(2) [symmetric] u(3,4) c by auto
  ultimately obtain t' where t': "foldl (v4_run_step U) (Some u) (replicate (length (plist u)) (V4_timer now)) = Some t'" "plist t' = []"
    "matchers t' = (\<lambda>d. if d \<in> set (plist u) then (matchers u d)\<lparr>merrc := [Some errTimeout]\<rparr> else matchers u d)"
    using Cons.hyps(1) [of u] u(3) loop_keepsD(1) [OF u(2)] Cons.prems(1) by blast
  have "v4_run_step U (Some t) (V4_timer now) = Some u" using u(1) time(2) by (simp add: v4_run_step_def v4_step_def)
  then have "foldl (v4_run_step U) (Some t) (replicate (length (plist t)) (V4_timer now)) = Some t'"
    using t'(1) u(3) Cons.hyps(2) [symmetric] by simp
  moreover have "matchers t' = (\<lambda>d. if d \<in> set (plist t) then (matchers t d)\<lparr>merrc := [Some errTimeout]\<rparr> else matchers t d)"
    using t'(3) u(3,4) c Cons.hyps(2) [symmetric] by (auto simp: fun_eq_iff)
  ultimately show ?case using t'(2) by blast
qed

text \<open>
  C16. No request waits forever when the clock does not go back: as long as a matcher is in the queue the timer is set, to the deadline of the first
  one, and half a second after the last event at the latest all deadlines have passed. Firing the timer once per matcher then ends every request
  with a timeout.
\<close>

theorem v4_progress:
  assumes "v4_libs_ok U" "ListenV4 U priv slf bootnodes queried now0 = Some (Inr t0)"
    and "run_ok (timed_step U) no_jump (now0, Some t0) es" "foldl (timed_step U) (now0, Some t0) es = (T, Some t)" "T + respTimeout \<le> now"
  shows "(plist t \<noteq> [] \<longrightarrow> timer4 t = Some (mdeadline (matchers t (hd (plist t))))) \<and>
     (\<exists>t'. foldl (v4_run_step U) (Some t) (replicate (length (plist t)) (V4_timer now)) = Some t' \<and> plist t' = [] \<and>
        (\<forall>c. merrc (matchers t' c) = (if c \<in> set (plist t) then [Some errTimeout] else merrc (matchers t c))))"
proof -
  have "run_ok (timed_step U) (\<lambda>s e. v4_libs_ok U \<and> no_jump s e) (now0, Some t0) es"
    using assms(1,3) by simp
  then have inv: "v4_inv U t" "armed T t"
    using v4_timed.inv_run [where U = U and s = "(now0, Some t0)" and es = es] ListenV4_inv [of U priv slf bootnodes queried now0 t0 now0] assms
    by (auto simp: v4_libs_ok_def)
  have T: "T \<le> now" using assms(5) by (simp add: respTimeout_def)
  have dl: "\<forall>c \<in> set (plist t). mdeadline (matchers t c) \<le> now" using inv(2) assms(5) by (fastforce simp: armed_def on_time_def)
  have "timer4 t = Some (mdeadline (matchers t (hd (plist t))))" if "plist t \<noteq> []"
    using inv(2) that by (cases "plist t") (auto simp: armed_def on_time_def)
  then show ?thesis using timer_drains [OF assms(1) inv(1) armed_later [OF inv(2) T] dl] by fastforce
qed

theorem v4_progress_witness:
  "\<exists>t0 t t'. ListenV4 sample_U 5 (sample_enode 0) [] [] 0 = Some (Inr t0) \<and>
     foldl (v4_run_step sample_U) (Some t0) [V4_enr (sample_enode 1) 7, V4_enr (sample_enode 1) 7] = Some t \<and>
     foldl (v4_run_step sample_U) (Some t) (replicate (length (plist t)) (V4_timer 500000008)) = Some t' \<and> plist t' = []"
proof -
  obtain t0 where t0: "ListenV4 sample_U 5 (sample_enode 0) [] [] 0 = Some (Inr t0)" using sample_Listen by blast
  let ?es = "[V4_enr (sample_enode 1) 7, V4_enr (sample_enode 1) 7]"
  obtain t where t: "foldl (v4_run_step sample_U) (Some t0) ?es = Some t" using v4_run_inv [OF sample_libs(1) t0] by blast
  then have f: "foldl (timed_step sample_U) (0, Some t0) ?es = (7, Some t)" by (simp add: timed_step_def)
  have "run_ok (timed_step sample_U) no_jump (0, Some t0) ?es" by (simp add: timed_step_def no_jump_def)
  from v4_progress [OF sample_libs(1) t0 this f, of 500000008] t0 t show ?thesis by (auto simp: respTimeout_def)
qed

subsection \<open>Which matchers see a reply\<close>

definition reply_matches :: "('priv, 's) UDPv4 \<Rightarrow> ID \<Rightarrow> IP \<Rightarrow> v4_packet \<Rightarrow> nat \<Rightarrow> bool" where
  "reply_matches t from ip p c \<longleftrightarrow> mfrom (matchers t c) = from \<and> mptype (matchers t c) = v4_Kind p \<and> IP_Equal (mip (matchers t c)) ip"

lemma reply_loop_skip:
  "\<forall>d \<in> set pre. \<not> reply_matches t from ip p d \<Longrightarrow> reply_loop U t from ip p now (pre @ cs) matched = reply_loop U t from ip p now cs matched"
  by (induction pre) (auto simp: reply_matches_def)

text \<open>
  A reply that completes a request is not shown to the matchers behind it in the queue, even if it matches them: the loop of \<open>loop\<close> calls
  \<open>Next\<close> on the list element it has just removed, which is nil. The documentation of \<open>replyMatcher\<close> says that packets are dispatched to all
  callbacks for the node.
\<close>

theorem v4_first_match:
  assumes "v4_inv U t" "lib_ok (disc4 U)" "plist t = pre @ c # post" "\<forall>d \<in> set pre. \<not> reply_matches t from ip p d"
    and "reply_matches t from ip p c" "run_callback U t c p now = Some (u, ok, True)"
  shows "\<exists>t'. reply_loop U t from ip p now (plist t) False = Some (t', ok) \<and> merrc (matchers t' c) = [None] \<and> plist t' = pre @ post \<and>
     (\<forall>d \<in> set post. matchers t' d = matchers t d)"
proof -
  have c: "c \<in> set (plist t)" and dist: "c \<notin> set pre" "c \<notin> set post" using assms(1,3) by (auto simp: v4_inv_def queue_inv_def)
  have u: "callback_keeps U c t u" "answers (mcallback (matchers t c)) (nreceived (matchers u c)) (Some p)"
    using run_callback_keeps [OF assms(1,2) c, of p now] assms(5,6) by (auto simp: reply_matches_def)
  obtain v where v: "send_err ((upd_matcher u c (\<lambda>m. m\<lparr>mreply := Some p\<rparr>))\<lparr>contTimeouts := 0\<rparr>) c None = Some v" "plist v = plist t"
    "\<forall>d. d \<noteq> c \<longrightarrow> matchers v d = matchers t d"
    using reply_turn(4) [OF assms(1) c u(1) _ u(2)] assms(5) by (auto simp: reply_matches_def)
  have "merrc (matchers v c) = [None]" using v(1) by (auto simp: send_err_def split: if_splits)
  moreover have "reply_loop U t from ip p now (plist t) False = Some (v\<lparr>plist := pre @ post\<rparr>, ok)"
    unfolding assms(3) reply_loop_skip [OF assms(4)] using assms(3,5,6) v(1,2) dist by (simp add: reply_matches_def remove1_append)
  ultimately show ?thesis using v(3) dist by auto
qed

lemma collect_low_ports:
  "\<forall>rn \<in> set rns. nodeUDP rn \<le> 1024 \<Longrightarrow>
   collect_neighbors U t c addr rns = upd_matcher t c (\<lambda>m. m\<lparr>nreceived := nreceived m + length rns\<rparr>)"
  by (induction rns arbitrary: t) (simp_all add: nodeFromRPC_def)

definition sample_neighbors :: v4_packet where
  "sample_neighbors = v4_Neighbors (replicate 16 \<lparr>nodeIP = [], nodeUDP = 0, nodeTCP = 0, nodePubkey = []\<rparr>) 0 []"

definition two_requests :: "(nat, (IP \<Rightarrow> nat) \<times> nat) UDPv4 \<Rightarrow> (nat, (IP \<Rightarrow> nat) \<times> nat) UDPv4" where
  "two_requests t = t\<lparr>plist := [0, 1], nmatchers := 2, matchers := (\<lambda>c. \<lparr>mfrom = [1], mip = [192, 0, 2, 1], mptype = NeighborsPacket, mdeadline = 0,
     mcallback = On_neighbors ([192, 0, 2, 1], 30303), merrc = [], mreply = None, mnodes = [], nreceived = 0\<rparr>)\<rparr>"

theorem v4_first_match_witness:
  "\<exists>t0 t'. ListenV4 sample_U 5 (sample_enode 0) [] [] 0 = Some (Inr t0) \<and>
     reply_loop sample_U (two_requests t0) [1] [192, 0, 2, 1] sample_neighbors 0 [0, 1] False = Some (t', True) \<and>
     merrc (matchers t' 0) = [None] \<and> plist t' = [1] \<and> mreply (matchers t' 1) = None"
proof -
  obtain t0 where t0: "ListenV4 sample_U 5 (sample_enode 0) [] [] 0 = Some (Inr t0)" using sample_Listen by blast
  then have "v4_inv sample_U t0" using ListenV4_inv [OF _ t0] sample_lib_ok sample_libs(3) by auto
  moreover have "closed4 t0 = False"
    using t0 unfolding ListenV4_def by (cases "newTable (disc4 sample_U) (sample_enode 0) [] [] 0"; auto split: sum.splits)
  ultimately have inv: "v4_inv sample_U (two_requests t0)"
    by (simp add: v4_inv_def queue_inv_def two_requests_def waiting_def reply_ok_def bucketSize_def less_2_cases_iff)
  have p: "plist (two_requests t0) = [] @ 0 # [1]" by (simp add: two_requests_def)
  have m: "reply_matches (two_requests t0) [1] [192, 0, 2, 1] sample_neighbors 0"
    by (simp add: reply_matches_def two_requests_def sample_neighbors_def IP_Equal_def)
  have low: "\<forall>rn \<in> set (replicate 16 \<lparr>nodeIP = [], nodeUDP = 0, nodeTCP = 0, nodePubkey = []\<rparr>). nodeUDP rn \<le> 1024" by auto
  obtain u where u: "run_callback sample_U (two_requests t0) 0 sample_neighbors 0 = Some (u, True, True)"
    by (simp add: run_callback_def two_requests_def sample_neighbors_def bucketSize_def collect_low_ports [OF low] Let_def)
  have "lib_ok (disc4 sample_U)" using sample_lib_ok sample_libs(3) by simp
  from v4_first_match [OF inv this p _ m u] obtain t' where t':
    "reply_loop sample_U (two_requests t0) [1] [192, 0, 2, 1] sample_neighbors 0 (plist (two_requests t0)) False = Some (t', True)"
    "merrc (matchers t' 0) = [None]" "plist t' = [1]" "matchers t' 1 = matchers (two_requests t0) 1" by auto
  have "plist (two_requests t0) = [0, 1]" "mreply (matchers (two_requests t0) 1) = None" by (simp_all add: two_requests_def)
  then show ?thesis using t0 t' by metis
qed

end
