(* ===== verification/V4_Read.thy ===== *)
theory V4_Read
  imports V4_Props Udp_Socket
begin

text \<open>
  The read loop of the v4 transport (\<^verbatim>\<open>readLoop\<close> of \<^verbatim>\<open>pkg/discover/v4_udp.go\<close>) beside the rest of it. The loop handles a packet itself
  before it reads the next one, and offers what it could not handle on the channel \<open>unhandled\<close> of the configuration, if there is one, as
  a slice of its buffer. \<open>room\<close> is how many packets the channel takes, a receiver that waits for one included; \<open>None\<close> is a nil channel.
\<close>

subsection \<open>The loop\<close>

record ('priv, 's) v4_node =
  udp4 :: "('priv, 's) UDPv4"
  rbuf4 :: bytes
  reading4 :: bool
  room :: "nat option"
  unhandled :: "ReadPacket list"
  unhandledClosed :: bool

definition start_reading :: "('priv, 's) UDPv4 \<Rightarrow> nat option \<Rightarrow> ('priv, 's) v4_node" where
  "start_reading t r = \<lparr>udp4 = t, rbuf4 = replicate maxPacketSize 0, reading4 = True, room = r, unhandled = [], unhandledClosed = False\<rparr>"

text \<open>The select with a default branch: without room for the packet it is dropped.\<close>

definition offer :: "('priv, 's) v4_node \<Rightarrow> ReadPacket \<Rightarrow> ('priv, 's) v4_node" where
  "offer s p =
     (case room s of
        None \<Rightarrow> s
      | Some n \<Rightarrow> if length (unhandled s) < n then s\<lparr>unhandled := unhandled s @ [p]\<rparr> else s)"

definition read_packet :: "('priv, 's) v4udp_lib \<Rightarrow> ('priv, 's) v4_node \<Rightarrow> bytes \<Rightarrow> UDPAddr \<Rightarrow> int \<Rightarrow> ('priv, 's) v4_node go" where
  "read_packet U s datagram from now =
     (let (nbytes, buf) = ReadFromUDP (rbuf4 s) datagram; p = \<lparr>Data = nbytes, Addr = from\<rparr>; s = s\<lparr>rbuf4 := buf\<rparr>
      in do { r \<leftarrow> v4_handlePacket U (udp4 s) from (fst (content buf p)) now;
              let s = s\<lparr>udp4 := fst r\<rparr>;
              Some (if snd r \<noteq> None then offer s p else s) })"

text \<open>The events: those of the transport other than packets, what the reads return, and the receptions of the channel's reader.\<close>

datatype v4_node_event =
    V4_inner v4_event
  | V4_datagram bytes UDPAddr int
  | V4_temporary
  | V4_read_error
  | V4_take

fun v4_node_step :: "('priv, 's) v4udp_lib \<Rightarrow> ('priv, 's) v4_node \<Rightarrow> v4_node_event \<Rightarrow> ('priv, 's) v4_node go" where
  "v4_node_step U s (V4_inner e) = map_option (\<lambda>t. s\<lparr>udp4 := t\<rparr>) (v4_step U (udp4 s) e)"
| "v4_node_step U s (V4_datagram datagram from now) = read_packet U s datagram from now"
| "v4_node_step U s V4_temporary = Some s"
| "v4_node_step U s V4_read_error = Some (s\<lparr>reading4 := False, unhandledClosed := (room s \<noteq> None)\<rparr>)"
| "v4_node_step U s V4_take = Some (s\<lparr>unhandled := tl (unhandled s)\<rparr>)"

fun v4_node_enabled :: "('priv, 's) v4_node \<Rightarrow> v4_node_event \<Rightarrow> bool" where
  "v4_node_enabled s (V4_inner e) \<longleftrightarrow> (\<forall>from buf now. e \<noteq> V4_packet from buf now)"
| "v4_node_enabled s V4_take \<longleftrightarrow> unhandled s \<noteq> []"
| "v4_node_enabled s e \<longleftrightarrow> reading4 s"

definition v4_node_run_step :: "('priv, 's) v4udp_lib \<Rightarrow> ('priv, 's) v4_node option \<Rightarrow> v4_node_event \<Rightarrow> ('priv, 's) v4_node option" where
  "v4_node_run_step U x e = Option.bind x (\<lambda>s. v4_node_step U s e)"

definition v4_node_occurs :: "('priv, 's) v4_node option \<Rightarrow> v4_node_event \<Rightarrow> bool" where
  "v4_node_occurs x e \<longleftrightarrow> (\<exists>s. x = Some s \<and> v4_node_enabled s e)"

text \<open>What the transport sees of an event.\<close>

fun v4_seen :: "v4_node_event \<Rightarrow> v4_event list" where
  "v4_seen (V4_inner e) = [e]"
| "v4_seen (V4_datagram datagram from now) = [V4_packet from (take maxPacketSize datagram) now]"
| "v4_seen e = []"

text \<open>The local node, and what \<open>Ping\<close> returns of the result of its request.\<close>

definition v4_Self :: "('priv, 's) UDPv4 \<Rightarrow> enode" where "v4_Self t = self (tab4 t)"

definition v4_Ping :: "query_error option \<Rightarrow> v4_packet option \<Rightarrow> query_error option go" where
  "v4_Ping err r = map_option snd (v4_ping_result err r)"

subsection \<open>What the loop keeps\<close>

definition v4_node_ok :: "nat option \<Rightarrow> ('priv, 's) v4_node \<Rightarrow> bool" where
  "v4_node_ok r s \<longleftrightarrow> room s = r \<and> length (rbuf4 s) = maxPacketSize \<and> (\<forall>p \<in> set (unhandled s). Data p \<le> maxPacketSize) \<and>
     (\<forall>n. room s = Some n \<longrightarrow> length (unhandled s) \<le> n) \<and> (room s = None \<longrightarrow> unhandled s = []) \<and>
     (unhandledClosed s \<longleftrightarrow> \<not> reading4 s \<and> room s \<noteq> None)"

lemma start_reading_ok: "v4_node_ok r (start_reading t r)"
  by (simp add: v4_node_ok_def start_reading_def)

lemma offer_fields [simp]:
  "udp4 (offer s p) = udp4 s" "rbuf4 (offer s p) = rbuf4 s" "reading4 (offer s p) = reading4 s" "room (offer s p) = room s"
  "unhandledClosed (offer s p) = unhandledClosed s"
  "unhandled (offer s p) = unhandled s @ (if \<exists>n. room s = Some n \<and> length (unhandled s) < n then [p] else [])"
  by (auto simp: offer_def split: option.split)

text \<open>The node after a datagram whose handling had the result \<open>r\<close>.\<close>

definition latest :: "bytes \<Rightarrow> UDPAddr \<Rightarrow> ReadPacket" where
  "latest datagram addr = \<lparr>Data = min (length datagram) maxPacketSize, Addr = addr\<rparr>"

definition after_read :: "('priv, 's) v4_node \<Rightarrow> bytes \<Rightarrow> UDPAddr \<Rightarrow> ('priv, 's) UDPv4 \<times> string option \<Rightarrow> ('priv, 's) v4_node" where
  "after_read s datagram addr r =
     (if snd r \<noteq> None then offer (s\<lparr>rbuf4 := snd (ReadFromUDP (rbuf4 s) datagram), udp4 := fst r\<rparr>) (latest datagram addr)
      else s\<lparr>rbuf4 := snd (ReadFromUDP (rbuf4 s) datagram), udp4 := fst r\<rparr>)"

lemma after_read_fields [simp]:
  "udp4 (after_read s datagram addr r) = fst r" "rbuf4 (after_read s datagram addr r) = snd (ReadFromUDP (rbuf4 s) datagram)"
  "reading4 (after_read s datagram addr r) = reading4 s" "room (after_read s datagram addr r) = room s"
  "unhandledClosed (after_read s datagram addr r) = unhandledClosed s"
  "unhandled (after_read s datagram addr r) =
     unhandled s @ (if snd r \<noteq> None \<and> (\<exists>n. room s = Some n \<and> length (unhandled s) < n) then [latest datagram addr] else [])"
  by (auto simp: after_read_def)

lemma read_packet_eq:
  assumes "v4_node_ok k s"
  shows "read_packet U s datagram addr now = map_option (after_read s datagram addr) (v4_handlePacket U (udp4 s) addr (take maxPacketSize datagram) now)"
    and "content (snd (ReadFromUDP (rbuf4 s) datagram)) (latest datagram addr) = (take maxPacketSize datagram, addr)"
proof -
  have l: "length (rbuf4 s) = maxPacketSize" using assms by (simp add: v4_node_ok_def)
  have f: "fst (ReadFromUDP (rbuf4 s) datagram) = min (length datagram) maxPacketSize" using ReadFromUDP_fst l by simp
  show c: "content (snd (ReadFromUDP (rbuf4 s) datagram)) (latest datagram addr) = (take maxPacketSize datagram, addr)"
    using ReadFromUDP_content [of "rbuf4 s" datagram addr] f l by (simp add: latest_def)
  show "read_packet U s datagram addr now = map_option (after_read s datagram addr) (v4_handlePacket U (udp4 s) addr (take maxPacketSize datagram) now)"
    using c f by (cases "v4_handlePacket U (udp4 s) addr (take maxPacketSize datagram) now")
      (simp_all add: read_packet_def after_read_def latest_def case_prod_beta Let_def)
qed

lemma v4_node_step_refines:
  assumes "v4_node_ok r s" "v4_node_enabled s e"
  shows "map_option udp4 (v4_node_step U s e) = foldl (v4_run_step U) (Some (udp4 s)) (v4_seen e)"
    and "v4_node_step U s e = Some s' \<Longrightarrow> v4_node_ok r s'"
proof -
  show "map_option udp4 (v4_node_step U s e) = foldl (v4_run_step U) (Some (udp4 s)) (v4_seen e)"
  proof (cases e)
    case (V4_datagram datagram "from" now)
    then show ?thesis by (simp add: read_packet_eq(1) [OF assms(1)] v4_run_step_def v4_step_def option.map_comp comp_def)
  qed (simp_all add: v4_run_step_def option.map_comp comp_def option.map_ident)
  show "v4_node_ok r s'" if "v4_node_step U s e = Some s'"
  proof (cases e)
    case (V4_datagram datagram "from" now)
    with that obtain t err where "s' = after_read s datagram from (t, err)" by (auto simp: read_packet_eq(1) [OF assms(1)])
    then show ?thesis using assms(1) by (cases err) (auto simp: v4_node_ok_def latest_def)
  next
    case V4_take
    then show ?thesis using that assms by (cases "unhandled s") (auto simp: v4_node_ok_def)
  qed (use that assms in \<open>auto simp: v4_node_ok_def\<close>)
qed

lemma v4_node_run_Some [simp]: "v4_node_run_step U (Some s) e = v4_node_step U s e"
  by (simp add: v4_node_run_step_def)

lemma v4_node_stuck: "run_ok (v4_node_run_step U) v4_node_occurs None es \<Longrightarrow> es = []"
  by (cases es) (simp_all add: v4_node_occurs_def)

lemma v4_node_refines:
  "v4_node_ok r s \<Longrightarrow> run_ok (v4_node_run_step U) v4_node_occurs (Some s) es \<Longrightarrow>
   map_option udp4 (foldl (v4_node_run_step U) (Some s) es) = foldl (v4_run_step U) (Some (udp4 s)) (concat (map v4_seen es)) \<and>
   (\<forall>s'. foldl (v4_node_run_step U) (Some s) es = Some s' \<longrightarrow> v4_node_ok r s')"
proof (induction es arbitrary: s)
  case (Cons e es)
  have e: "v4_node_enabled s e" "run_ok (v4_node_run_step U) v4_node_occurs (v4_node_step U s e) es"
    using Cons.prems(2) by (simp_all add: v4_node_occurs_def [of "Some s"])
  note now = v4_node_step_refines [OF Cons.prems(1) e(1), of U]
  show ?case
  proof (cases "v4_node_step U s e")
    case None
    then show ?thesis using e(2) v4_node_stuck [of U es] now(1) by simp
  next
    case (Some s1)
    then have "foldl (v4_run_step U) (Some (udp4 s)) (v4_seen e) = Some (udp4 s1)" using now(1) by simp
    with Cons.IH [OF now(2) [OF Some]] e(2) Some show ?thesis by simp
  qed
qed simp

text \<open>A datagram that is too small for a packet is not handled.\<close>

lemma small_datagram: "length bs < 98 \<Longrightarrow> v4_handlePacket U t from bs now = Some (t, Some ErrPacketTooSmall)"
  by (simp add: v4_handlePacket_def v4_Decode_def headSize_def macSize_def sigSize_def)

lemma small_run:
  assumes "v4_node_ok (Some n) s" "length (unhandled s) < n" "length datagram < 98"
  shows "v4_node_step U s (V4_datagram datagram from now) = Some (after_read s datagram from (udp4 s, Some ErrPacketTooSmall))"
  using assms by (simp add: read_packet_eq(1) [OF assms(1)] small_datagram maxPacketSize_def)

subsection \<open>Properties\<close>

text \<open>
  C31. The read loop of the v4 transport beside everything else that happens: it does not panic, the transport sees every datagram, cut at 1280
  bytes, once and in order, and the channel of unhandled packets never holds more than it has room for, and is closed once the loop
  returns. A datagram that is not handled is offered to the channel's reader with its contents if there is room, but a packet
  that is still in the channel then no longer shows what its sender sent: its bytes are those of the latest datagram, as far as that reaches.
\<close>

theorem v4_reads:
  assumes "v4_libs_ok U" "ListenV4 U priv slf bootnodes queried now0 = Some (Inr t0)"
    and "run_ok (v4_node_run_step U) v4_node_occurs (Some (start_reading t0 r)) (es @ [V4_datagram datagram from now])"
  shows "\<exists>s s' t' err. foldl (v4_node_run_step U) (Some (start_reading t0 r)) es = Some s \<and> v4_node_step U s (V4_datagram datagram from now) = Some s' \<and>
     foldl (v4_run_step U) (Some t0) (concat (map v4_seen es)) = Some (udp4 s) \<and>
     v4_handlePacket U (udp4 s) from (take maxPacketSize datagram) now = Some (t', err) \<and> udp4 s' = t' \<and>
     (\<forall>n. r = Some n \<longrightarrow> length (unhandled s) \<le> n) \<and> (unhandledClosed s \<longleftrightarrow> \<not> reading4 s \<and> room s \<noteq> None) \<and>
     map (content (rbuf4 s')) (unhandled s') =
       map (\<lambda>p. (take (Data p) datagram @ take (Data p - length datagram) (drop (length datagram) (rbuf4 s)), Addr p)) (unhandled s) @
       (if err \<noteq> None \<and> (\<exists>n. room s = Some n \<and> length (unhandled s) < n) then [(take maxPacketSize datagram, from)] else [])"
proof -
  let ?run = "foldl (v4_node_run_step U) (Some (start_reading t0 r)) es"
  have es: "run_ok (v4_node_run_step U) v4_node_occurs (Some (start_reading t0 r)) es"
    and last: "v4_node_occurs ?run (V4_datagram datagram from now)"
    using assms(3) by (simp_all add: run_ok_append)
  obtain s where s: "?run = Some s" using last by (auto simp: v4_node_occurs_def)
  have start: "udp4 (start_reading t0 r) = t0" by (simp add: start_reading_def)
  note R = v4_node_refines [OF start_reading_ok es, unfolded start s, simplified]
  then have ok: "v4_node_ok r s" by simp
  have "v4_inv U (udp4 s)" using v4_run_inv [OF assms(1,2), of "concat (map v4_seen es)"] R by (auto dest: sym)
  then obtain t' err where h: "v4_handlePacket U (udp4 s) from (take maxPacketSize datagram) now = Some (t', err)"
    using v4_handlePacket_serves [of U "udp4 s" "from" "take maxPacketSize datagram" now] assms(1) by (auto simp: v4_libs_ok_def)
  have old: "map (content (snd (ReadFromUDP (rbuf4 s) datagram))) (unhandled s) =
      map (\<lambda>p. (take (Data p) datagram @ take (Data p - length datagram) (drop (length datagram) (rbuf4 s)), Addr p)) (unhandled s)"
    using ok ReadFromUDP_overwrites [of _ "rbuf4 s" datagram] by (auto simp: v4_node_ok_def)
  show ?thesis
    using s h R old ok read_packet_eq [OF ok]
    by (intro exI [of _ s] exI [of _ "after_read s datagram from (t', err)"] exI [of _ t'] exI [of _ err]) (simp add: v4_node_ok_def)
qed

theorem v4_reads_witness:
  "\<exists>t0 s s'. ListenV4 sample_U 5 (sample_enode 0) [] [] 0 = Some (Inr t0) \<and>
     foldl (v4_node_run_step sample_U) (Some (start_reading t0 (Some 5))) [V4_datagram [1, 2] ([127, 0, 0, 1], 1) 0] = Some s \<and>
     map (content (rbuf4 s)) (unhandled s) = [([1, 2], [127, 0, 0, 1], 1)] \<and>
     v4_node_step sample_U s (V4_datagram [3, 4] ([127, 0, 0, 2], 2) 0) = Some s' \<and>
     map (content (rbuf4 s')) (unhandled s') = [([3, 4], [127, 0, 0, 1], 1), ([3, 4], [127, 0, 0, 2], 2)]"
proof -
  obtain t0 where t0: "ListenV4 sample_U 5 (sample_enode 0) [] [] 0 = Some (Inr t0)" using sample_Listen by blast
  define s where "s = after_read (start_reading t0 (Some 5)) [1, 2] ([127, 0, 0, 1], 1) (t0, Some ErrPacketTooSmall)"
  have first: "v4_node_step sample_U (start_reading t0 (Some 5)) (V4_datagram [1, 2] ([127, 0, 0, 1], 1) 0) = Some s"
    using small_run [OF start_reading_ok, of t0 5 "[1, 2]" sample_U "([127, 0, 0, 1], 1)" 0] by (simp add: s_def start_reading_def)
  have r: "reading4 s" "room s = Some 5" "unhandled s = [latest [1, 2] ([127, 0, 0, 1], 1)]" "reading4 (start_reading t0 (Some 5))" "udp4 s = t0"
    by (simp_all add: s_def start_reading_def)
  have c: "content (rbuf4 s) (latest [1, 2] ([127, 0, 0, 1], 1)) = ([1, 2], [127, 0, 0, 1], 1)"
    using read_packet_eq(2) [OF start_reading_ok, of t0 "Some 5" "[1, 2]" "([127, 0, 0, 1], 1)"] by (simp add: s_def maxPacketSize_def)
  have run: "run_ok (v4_node_run_step sample_U) v4_node_occurs (Some (start_reading t0 (Some 5)))
      ([V4_datagram [1, 2] ([127, 0, 0, 1], 1) 0] @ [V4_datagram [3, 4] ([127, 0, 0, 2], 2) 0])"
    using first r by (simp add: v4_node_occurs_def del: v4_node_step.simps)
  have "v4_handlePacket sample_U t0 ([127, 0, 0, 2], 2) (take maxPacketSize [3, 4]) 0 = Some (t0, Some ErrPacketTooSmall)"
    by (simp add: small_datagram maxPacketSize_def)
  with v4_reads [OF sample_libs(1) t0 run] first r c t0 show ?thesis
    by (auto simp: latest_def maxPacketSize_def simp del: v4_node_step.simps)
qed

end
