(* ===== verification/Ntp.thy ===== *)
theory Ntp
  imports Go_Prelude
begin

text \<open>
  The clock drift check (\<^verbatim>\<open>pkg/discover/ntp.go\<close>): the time in an NTP reply, the drift of one measurement and the average without the two
  extremes. A measurement is what the network gave: an error, or the time when the request was sent, the time that elapsed, in nanoseconds since
  1900 and nanoseconds, and the 48 bytes of the reply. \<^verbatim>\<open>time.Duration\<close> is a signed 64-bit number of nanoseconds.
\<close>

definition ntpChecks :: nat where "ntpChecks = 3"
definition driftThreshold :: int where "driftThreshold = 10 * 1000000000"

definition ntp_field :: "bytes \<Rightarrow> nat \<Rightarrow> u64" where
  "ntp_field reply i =
     ucast (reply ! (i + 3)) OR push_bit 8 (ucast (reply ! (i + 2))) OR push_bit 16 (ucast (reply ! (i + 1))) OR push_bit 24 (ucast (reply ! i))"

definition ntp_nanosec :: "bytes \<Rightarrow> u64" where
  "ntp_nanosec reply =
     (let sec = ntp_field reply 40; frac = ntp_field reply 44
      in sec * 1000000000 + drop_bit 32 (frac * 1000000000))"

definition wrap64 :: "int \<Rightarrow> int" where
  "wrap64 x = sint (of_int x :: u64)"

text \<open>\<^verbatim>\<open>Time.Sub\<close> returns the largest or smallest duration when the difference does not fit.\<close>

definition time_sub :: "int \<Rightarrow> int \<Rightarrow> int" where
  "time_sub a b = max (- (2 ^ 63)) (min (2 ^ 63 - 1) (a - b))"

type_synonym measurement = "string + int \<times> int \<times> bytes"

definition ntp_drift :: "int \<Rightarrow> int \<Rightarrow> bytes \<Rightarrow> int" where
  "ntp_drift sent elapsed reply = wrap64 (time_sub sent (sint (ntp_nanosec reply)) + elapsed sdiv 2)"

fun measure_loop :: "measurement list \<Rightarrow> int list \<Rightarrow> string + int list" where
  "measure_loop [] drifts = Inr drifts"
| "measure_loop (Inl err # ms) drifts = Inl err"
| "measure_loop (Inr (sent, elapsed, reply) # ms) drifts = measure_loop ms (drifts @ [ntp_drift sent elapsed reply])"

text \<open>The network makes \<open>measurements + 2\<close> measurements.\<close>

definition sntpDrift :: "nat \<Rightarrow> measurement list \<Rightarrow> string + int" where
  "sntpDrift measurements ms =
     (case measure_loop (take (measurements + 2) ms) [] of
        Inl err \<Rightarrow> Inl err
      | Inr drifts \<Rightarrow>
          let drifts = sort drifts; drift = foldl (\<lambda>a d. wrap64 (a + d)) 0 (butlast (tl drifts))
          in Inr (drift sdiv int measurements))"

text \<open>Whether the user is warned.\<close>

definition checkClockDrift :: "measurement list \<Rightarrow> bool" where
  "checkClockDrift ms =
     (case sntpDrift ntpChecks ms of
        Inl err \<Rightarrow> False
      | Inr drift \<Rightarrow> drift < - driftThreshold \<or> drift > driftThreshold)"

subsection \<open>Properties\<close>

lemma wrap64_id: "- (2 ^ 63) \<le> x \<Longrightarrow> x < 2 ^ 63 \<Longrightarrow> wrap64 x = x"
  by (simp add: wrap64_def signed_of_int signed_take_bit_int_eq_self)

text \<open>The middle of a sorted list ignores one outlier on either side.\<close>

lemma middle_bounded:
  assumes "length (filter (\<lambda>d. d < lo) ds) \<le> 1" "length (filter (\<lambda>d. hi < d) ds) \<le> 1" "d \<in> set (butlast (tl (sort ds)))"
  shows "lo \<le> d \<and> d \<le> (hi :: int)"
proof -
  define xs where "xs = sort ds"
  obtain i where i: "i < length (butlast (tl xs))" "butlast (tl xs) ! i = d" using assms(3) unfolding xs_def in_set_conv_nth by blast
  then have n: "Suc (Suc i) < length xs" by simp
  then have d: "d = xs ! Suc i" using i by (simp add: nth_butlast nth_tl)
  have sorted: "sorted xs" by (simp add: xs_def)
  have f: "length (filter P xs) = length (filter P ds)" for P by (simp add: xs_def filter_sort)
  have "lo \<le> d"
  proof (rule ccontr)
    assume "\<not> lo \<le> d"
    then have "xs ! 0 < lo" "xs ! 1 < lo" using sorted_nth_mono [OF sorted, of 0 "Suc i"] sorted_nth_mono [OF sorted, of 1 "Suc i"] n d by simp_all
    then have "filter (\<lambda>d. d < lo) (take 2 xs) = take 2 xs" using n by (cases xs; cases "tl xs") auto
    moreover have "length (take 2 xs) = 2" using n by simp
    ultimately have "2 \<le> length (filter (\<lambda>d. d < lo) (take 2 xs))" by simp
    also have "\<dots> \<le> length (filter (\<lambda>d. d < lo) xs)" by (metis append_take_drop_id filter_append length_append le_add1)
    finally show False using assms(1) f by simp
  qed
  moreover have "d \<le> hi"
  proof (rule ccontr)
    assume "\<not> d \<le> hi"
    have "hi < x" if x: "x \<in> set (drop (Suc i) xs)" for x
    proof -
      obtain j where j: "j < length (drop (Suc i) xs)" "drop (Suc i) xs ! j = x" using x unfolding in_set_conv_nth by blast
      then have "xs ! (Suc i + j) = x" "Suc i + j < length xs" using n by simp_all
      then have "d \<le> x" using sorted_nth_mono [OF sorted, of "Suc i" "Suc i + j"] unfolding d by linarith
      then show ?thesis using \<open>\<not> d \<le> hi\<close> by simp
    qed
    then have "filter (\<lambda>d. hi < d) (drop (Suc i) xs) = drop (Suc i) xs" by (simp add: filter_id_conv)
    then have "2 \<le> length (filter (\<lambda>d. hi < d) (drop (Suc i) xs))" using n by simp
    also have "\<dots> \<le> length (filter (\<lambda>d. hi < d) xs)" by (metis append_take_drop_id filter_append length_append le_add2)
    finally show False using assms(2) f by simp
  qed
  ultimately show ?thesis by blast
qed

lemma sum_middle:
  assumes "\<forall>d \<in> set ds. lo \<le> d \<and> d \<le> hi" "int (length ds) * lo + a \<ge> - (2 ^ 63)" "int (length ds) * hi + a < 2 ^ 63" "lo \<le> 0" "0 \<le> hi"
  shows "foldl (\<lambda>a d. wrap64 (a + d)) a ds = a + sum_list ds \<and> int (length ds) * lo \<le> sum_list ds \<and> sum_list ds \<le> int (length ds) * hi"
  using assms
proof (induction ds arbitrary: a)
  case (Cons d ds)
  have d: "lo \<le> d" "d \<le> hi" using Cons.prems(1) by auto
  have neg: "int (length ds) * lo \<le> 0" "0 \<le> int (length ds) * hi" using Cons.prems(4,5) by (simp_all add: mult_nonneg_nonpos)
  have w: "wrap64 (a + d) = a + d" using Cons.prems(2,3) d neg by (intro wrap64_id) (simp_all add: algebra_simps)
  have "foldl (\<lambda>a d. wrap64 (a + d)) (a + d) ds = a + d + sum_list ds \<and> int (length ds) * lo \<le> sum_list ds \<and> sum_list ds \<le> int (length ds) * hi"
    using Cons.prems d by (intro Cons.IH) (auto simp: algebra_simps)
  then show ?case using w d by (auto simp: algebra_simps)
qed simp

lemma sdiv_between:
  assumes "0 < m" "m * lo \<le> x" "x \<le> m * hi" "lo \<le> 0" "0 \<le> hi"
  shows "lo \<le> x sdiv m \<and> x sdiv m \<le> (hi :: int)"
proof (cases "0 \<le> x")
  case True
  then have "x sdiv m = x div m" using assms(1) by simp
  moreover have "x div m \<le> hi" using zdiv_mono1 [OF assms(3,1)] assms(1) by simp
  moreover have "0 \<le> x div m" using True assms(1) by (simp add: pos_imp_zdiv_nonneg_iff)
  ultimately show ?thesis using assms(4) by linarith
next
  case False
  then have "x sdiv m = - (- x div m)" using assms(1) by (simp add: signed_divide_int_def)
  moreover have "- x div m \<le> - lo"
  proof -
    have "- x \<le> m * (- lo)" using assms(2) by simp
    then have "- x div m \<le> m * (- lo) div m" using assms(1) by (rule zdiv_mono1)
    moreover have "m * (- lo) div m = - lo" using assms(1) by (intro nonzero_mult_div_cancel_left) simp
    ultimately show ?thesis by simp
  qed
  moreover have "0 \<le> - x div m" using False assms(1) by (simp add: pos_imp_zdiv_nonneg_iff)
  ultimately show ?thesis using assms(5) by linarith
qed

lemma measure_loop_Inr:
  "measure_loop ms ds = Inr ds' \<Longrightarrow> \<exists>new. ds' = ds @ new \<and> length new = length ms"
  by (induction ms ds rule: measure_loop.induct) auto

text \<open>
  The measured drift is not moved by one false measurement on either side: if all others lie between \<open>lo\<close> and \<open>hi\<close>, so does the result. The
  bounds on them exclude that the sum of the durations overflows.
\<close>

theorem sntpDrift_robust:
  assumes "measure_loop (take (m + 2) ms) [] = Inr ds" "0 < m" "m + 2 \<le> length ms" "lo \<le> 0" "0 \<le> hi"
    and "length (filter (\<lambda>d. d < lo) ds) \<le> 1" "length (filter (\<lambda>d. hi < d) ds) \<le> 1"
    and "- (2 ^ 63) \<le> int m * lo" "int m * hi < 2 ^ 63"
  shows "\<exists>drift. sntpDrift m ms = Inr drift \<and> lo \<le> drift \<and> drift \<le> hi"
proof -
  have len: "length ds = m + 2" using measure_loop_Inr [OF assms(1)] assms(3) by auto
  define mid where "mid = butlast (tl (sort ds))"
  have mid: "length mid = m" "\<forall>d \<in> set mid. lo \<le> d \<and> d \<le> hi"
    using len middle_bounded [OF assms(6,7)] by (simp_all add: mid_def)
  have "foldl (\<lambda>a d. wrap64 (a + d)) 0 mid = sum_list mid \<and> int m * lo \<le> sum_list mid \<and> sum_list mid \<le> int m * hi"
    using sum_middle [OF mid(2), of 0] mid(1) assms by simp
  moreover have "sntpDrift m ms = Inr (foldl (\<lambda>a d. wrap64 (a + d)) 0 mid sdiv int m)"
    using assms(1) by (simp add: sntpDrift_def mid_def Let_def)
  ultimately show ?thesis using sdiv_between [of "int m" lo "sum_list mid" hi] assms(2,4,5) by simp
qed

text \<open>The nanoseconds in a reply do not overflow: they are the seconds and the fraction of the reply, both of 32 bits, rounded down.\<close>

lemma ntp_field_be: "i + 3 < length reply \<Longrightarrow> ntp_field reply i = be_word (take 4 (drop i reply))"
proof -
  assume "i + 3 < length reply"
  then have "take 4 (drop i reply) = [reply ! i, reply ! (i + 1), reply ! (i + 2), reply ! (i + 3)]"
    by (intro nth_equalityI) (auto simp: less_Suc_eq numeral_eq_Suc)
  then show ?thesis by (simp add: ntp_field_def be_word_def push_bit_or ac_simps)
qed

lemma ntp_field_bound:
  assumes "i + 3 < length reply"
  shows "unat (ntp_field reply i) < 2 ^ 32"
proof -
  have "take_bit 32 (ntp_field reply i) = ntp_field reply i"
    unfolding ntp_field_be [OF assms] be_word_def by (rule bit_eqI) (auto simp: bit_take_bit_iff bit_le_word)
  then have "take_bit 32 (unat (ntp_field reply i)) = unat (ntp_field reply i)" by (metis unsigned_take_bit_eq)
  then show ?thesis by (metis take_bit_nat_less_exp)
qed

lemma ntp_nanosec_exact:
  assumes "length reply = 48"
  shows "unat (ntp_nanosec reply) = unat (ntp_field reply 40) * 10 ^ 9 + unat (ntp_field reply 44) * 10 ^ 9 div 2 ^ 32"
    and "sint (ntp_nanosec reply) = int (unat (ntp_nanosec reply))"
proof -
  have sec: "unat (ntp_field reply 40) < 2 ^ 32" and frac: "unat (ntp_field reply 44) < 2 ^ 32" using ntp_field_bound [of 40 reply] ntp_field_bound [of 44 reply] assms by simp_all
  have small: "unat (w * 1000000000 :: u64) = unat w * 1000000000" if "unat w < 2 ^ 32" for w
    using that by (simp add: unat_word_ariths unsigned_of_nat)
  have d: "unat (drop_bit 32 (ntp_field reply 44 * 1000000000)) = unat (ntp_field reply 44) * 10 ^ 9 div 2 ^ 32"
    unfolding unat_drop_bit_eq drop_bit_eq_div [where 'a = nat] small [OF frac] by simp
  have "unat (ntp_field reply 44) * 10 ^ 9 div 2 ^ 32 < 10 ^ 9" using frac by simp
  then have sum: "unat (ntp_field reply 40) * 10 ^ 9 + unat (ntp_field reply 44) * 10 ^ 9 div 2 ^ 32 < 2 ^ 63" using sec by simp
  show e: "unat (ntp_nanosec reply) = unat (ntp_field reply 40) * 10 ^ 9 + unat (ntp_field reply 44) * 10 ^ 9 div 2 ^ 32"
    using small [OF sec] d sum by (simp add: ntp_nanosec_def Let_def unat_word_ariths)
  then have "unat (ntp_nanosec reply) < 2 ^ 63" using sum by (simp only:)
  then have "int (unat (ntp_nanosec reply)) < int (2 ^ 63)" by (simp only: of_nat_less_iff)
  then have "int (unat (ntp_nanosec reply)) < 2 ^ 63" by simp
  then have "uint (ntp_nanosec reply) < 2 ^ 63" by (simp only: uint_nat)
  moreover have "- (2 ^ 63) \<le> uint (ntp_nanosec reply)" by (rule order_trans [OF _ uint_ge_0]) simp
  ultimately have "signed_take_bit 63 (uint (ntp_nanosec reply)) = uint (ntp_nanosec reply)" by (intro signed_take_bit_int_eq_self)
  then show "sint (ntp_nanosec reply) = int (unat (ntp_nanosec reply))" by (simp add: sint_uint)
qed

text \<open>A sample: four replies of one second after 1900 that arrive at once, and one that is far off.\<close>

theorem sntpDrift_robust_witness:
  "\<exists>drift. sntpDrift 3 (replicate 4 (Inr (1000000005, 0, replicate 43 0 @ [1, 0, 0, 0, 0])) @ [Inr (1000000005, 0, replicate 43 0 @ [9, 0, 0, 0, 0])]) = Inr drift \<and>
     0 \<le> drift \<and> drift \<le> 5"
proof -
  define good where "good = replicate 43 0 @ [1, 0, 0, 0, 0 :: byte]"
  define bad where "bad = replicate 43 0 @ [9, 0, 0, 0, 0 :: byte]"
  define ms :: "measurement list" where "ms = replicate 4 (Inr (1000000005, 0, good)) @ [Inr (1000000005, 0, bad)]"
  have f: "ntp_field good 40 = 1" "ntp_field good 44 = 0" "ntp_field bad 40 = 9" "ntp_field bad 44 = 0"
    by (simp_all add: ntp_field_def good_def bad_def nth_append)
  have "ntp_drift 1000000005 0 good = 5" "ntp_drift 1000000005 0 bad = -7999999995"
    by (simp_all add: ntp_drift_def ntp_nanosec_def f time_sub_def wrap64_def)
  then have m: "measure_loop (take (3 + 2) ms) [] = Inr [5, 5, 5, 5, -7999999995]"
    by (simp add: ms_def numeral_eq_Suc)
  from sntpDrift_robust [OF m, of 0 5] show ?thesis by (simp add: ms_def good_def bad_def)
qed

end
