(* ===== verification/Portal_Node.thy ===== *)
theory Portal_Node
  imports V5_Transport_Props
begin

text \<open>
  The portal network node (\<^verbatim>\<open>pkg/portalnet/discovery2.go\<close> and \<^verbatim>\<open>talk-ext.go\<close>): starting a v5 transport on the local host from fixed
  identities, the talk handlers it registers, its round of requests, and requests over an SCTP association. Also the packet connection of the
  SCTP demo, which answers the last sender. Keys, records, files, sockets and the SCTP library are parameters; every \<^verbatim>\<open>log.Fatal\<close> is the end of
  the process, \<open>None\<close>.
\<close>

subsection \<open>Starting a node\<close>

definition or_fatal :: "string + 'a \<Rightarrow> 'a go" where
  "or_fatal r = (case r of Inl err \<Rightarrow> None | Inr a \<Rightarrow> Some a)"

lemma or_fatal_Some: "or_fatal r = Some a \<longleftrightarrow> r = Inr a"
  by (auto simp: or_fatal_def split: sum.splits)

record NodeEnv =
  env_name :: string
  env_enr :: string
  keypath :: string
  dbpath :: string
  env_port :: int

definition node1Env :: NodeEnv where
  "node1Env = \<lparr>env_name = ''node1'',
     env_enr = ''enr:-Iq4QBMYaIDDNPd-DlPx2Odcu3ihilFx30EfH8U2e3eo1xJqDoYHDJDPJ6pvDz5b74ck-9HqixoxtrejzE_ngtjnkIaGAX6ZrfyGgmlkgnY0gmlwhH8AAAGJc2VjcDI1NmsxoQMqc-jmk1aq9OQJv2tquwGiLjZHLijJrAxqF6irWV8eoYN1ZHCC5c8'',
     keypath = ''/Users/jin/code/repos/go-light-eth/pkg/portalnet/tmp/nodedb/node1/privatekey'',
     dbpath = ''/Users/jin/code/repos/go-light-eth/pkg/portalnet/tmp/nodedb/node1/db'', env_port = 58831\<rparr>"

definition node2Env :: NodeEnv where
  "node2Env = \<lparr>env_name = ''node2'',
     env_enr = ''enr:-Iq4QO_eT32DiimQzMaS0Qvm3RNfQO8G5bGK66yNsqq52XiJTjjOXC37-oLD0tLCJ_uM-jeqjaou0IS1_TIF03TCHvSGAX6ZoxUggmlkgnY0gmlwhH8AAAGJc2VjcDI1NmsxoQK_UhfbboKeTzmxJ-eOLP6N21cbpDFUZZZhpHbmAveB-IN1ZHCC5dA'',
     keypath = ''/Users/jin/code/repos/go-light-eth/pkg/portalnet/tmp/nodedb/node2/privatekey'',
     dbpath = ''/Users/jin/code/repos/go-light-eth/pkg/portalnet/tmp/nodedb/node2/db'', env_port = 58832\<rparr>"

definition NodeName3 :: string where "NodeName3 = ''node3''"

text \<open>
  \<open>makeCodec\<close> is the codec of a local node and its key, \<open>localRecord\<close> the record of a local node with the address of its socket.
\<close>

record ('key, 'db, 'k) portal_env =
  GenerateKey :: "string + 'key"
  ToECDSA :: "bytes \<Rightarrow> string + 'key"
  ReadFile :: "string \<Rightarrow> string + bytes"
  OpenDB :: "string \<Rightarrow> string + 'db"
  ParseEnr :: "string \<Rightarrow> string + enode"
  ListenUDP :: "UDPAddr \<Rightarrow> string + UDPAddr"
  localRecord :: "'db \<Rightarrow> 'key \<Rightarrow> UDPAddr \<Rightarrow> enode"
  makeCodec :: "enode \<Rightarrow> 'key \<Rightarrow> 'k"

definition newkey :: "('key, 'db, 'k) portal_env \<Rightarrow> 'key go" where
  "newkey X = or_fatal (GenerateKey X)"

definition fromEnr :: "('key, 'db, 'k) portal_env \<Rightarrow> string \<Rightarrow> enode go" where
  "fromEnr X a = or_fatal (ParseEnr X a)"

text \<open>
  The key, the address and the database of a fixed node. The error of reading the key file is overwritten by that of parsing its
  contents, which are empty then.
\<close>

definition fixed_node :: "('key, 'db, 'k) portal_env \<Rightarrow> string \<Rightarrow> ('key \<times> UDPAddr \<times> 'db) go" where
  "fixed_node X nodename =
     (let e = (if nodename = ''node2'' then node2Env else node1Env);
          fileData = (case ReadFile X (keypath e) of Inl err \<Rightarrow> [] | Inr bs \<Rightarrow> bs)
      in do { fileKey \<leftarrow> or_fatal (ToECDSA X fileData);
              db \<leftarrow> or_fatal (OpenDB X (dbpath e));
              Some (fileKey, ([127, 0, 0, 1], env_port e), db) })"

definition bbb_handler :: "string \<Rightarrow> ID \<Rightarrow> UDPAddr \<Rightarrow> bytes \<Rightarrow> bytes" where
  "bbb_handler nodename n a input = input @ string_bytes (nodename @ ''responded'')"

definition startLocalhostV5 ::
  "('key, 'db, 'k) portal_env \<Rightarrow> ('priv, 'pub, 'c, 'k, 'r, 's) udp_lib \<Rightarrow> (nat \<Rightarrow> 'r) \<Rightarrow> enode list \<Rightarrow> int \<Rightarrow> string \<Rightarrow> ('k, 'r, 's) UDPv5 go" where
  "startLocalhostV5 X U ns queried now nodename =
     do { boot1 \<leftarrow> fromEnr X (env_enr node1Env);
          boot2 \<leftarrow> fromEnr X (env_enr node2Env);
          key \<leftarrow> newkey X;
          db \<leftarrow> or_fatal (OpenDB X []);
          (key, a, db) \<leftarrow> (if nodename = ''node1'' \<or> nodename = ''node2'' then fixed_node X nodename else Some (key, ([127, 0, 0, 1], 0), db));
          realaddr \<leftarrow> or_fatal (ListenUDP X a);
          let ln = localRecord X db key realaddr;
          r \<leftarrow> newUDPv5 U (makeCodec X ln key) ns ln [boot1, boot2] queried now;
          t \<leftarrow> or_fatal r;
          Some (RegisterTalkHandler t ''bbb'' (bbb_handler nodename)) }"

subsection \<open>Talk requests\<close>

definition portal_TalkExtProtocol :: string where "portal_TalkExtProtocol = ''talk-sctp''"

definition setupTalkExt :: "('k, 'r, 's) UDPv5 \<Rightarrow> ('k, 'r, 's) UDPv5" where
  "setupTalkExt t = RegisterTalkHandler t portal_TalkExtProtocol (\<lambda>n a input. input)"

text \<open>
  A request over SCTP. The error of opening the stream is overwritten by that of the write, which dereferences the nil stream; a read fills
  at most the buffer of ten thousand bytes, all of which is returned.
\<close>

record ('cl, 'st) sctp_lib =
  sctpClient :: "enode \<Rightarrow> string + 'cl"
  OpenStream :: "'cl \<Rightarrow> string + 'st"
  StreamWrite :: "'st \<Rightarrow> bytes \<Rightarrow> string + 'st"
  StreamRead :: "'st \<Rightarrow> nat \<Rightarrow> string + bytes"

definition portal_TalkRequestExt :: "('cl, 'st) sctp_lib \<Rightarrow> enode \<Rightarrow> bytes \<Rightarrow> bytes go" where
  "portal_TalkRequestExt S n request =
     do { client \<leftarrow> or_fatal (sctpClient S n);
          stream \<leftarrow> (case OpenStream S client of Inl err \<Rightarrow> None | Inr st \<Rightarrow> Some st);
          stream \<leftarrow> or_fatal (StreamWrite S stream request);
          bs \<leftarrow> or_fatal (StreamRead S stream 10000);
          Some (take 10000 bs @ replicate (10000 - length bs) 0) }"

text \<open>One round of the node's endless loop: a request to every node of the table, made by the third node only; \<open>body n\<close> is random.\<close>

fun request_all :: "('cl, 'st) sctp_lib \<Rightarrow> string \<Rightarrow> (nat \<Rightarrow> bytes) \<Rightarrow> enode list \<Rightarrow> (enode \<times> bytes) list go" where
  "request_all S nodename body [] = Some []"
| "request_all S nodename body (n # nodes) =
     (if nodename = NodeName3
      then do { resp \<leftarrow> portal_TalkRequestExt S n (body (length nodes));
                rest \<leftarrow> request_all S nodename body nodes;
                Some ((n, resp) # rest) }
      else request_all S nodename body nodes)"

definition portal_round :: "('cl, 'st) sctp_lib \<Rightarrow> string \<Rightarrow> (nat \<Rightarrow> bytes) \<Rightarrow> ('k, 'r, 's) UDPv5 \<Rightarrow> (enode \<times> bytes) list go" where
  "portal_round S nodename body t = request_all S nodename body (AllNodes (utab t))"

definition portal_Start ::
  "('key, 'db, 'k) portal_env \<Rightarrow> ('priv, 'pub, 'c, 'k, 'r, 's) udp_lib \<Rightarrow> (nat \<Rightarrow> 'r) \<Rightarrow> enode list \<Rightarrow> int \<Rightarrow> string \<Rightarrow> ('k, 'r, 's) UDPv5 go" where
  "portal_Start X U ns queried now nodename = map_option setupTalkExt (startLocalhostV5 X U ns queried now nodename)"

subsection \<open>The packet connection of the SCTP demo\<close>

record disconnectedPacketConn =
  rAddr :: "UDPAddr option"
  written_to :: "(UDPAddr option \<times> bytes) list"

definition dpc_Read :: "disconnectedPacketConn \<Rightarrow> string + nat \<times> UDPAddr \<Rightarrow> (nat \<times> string option) \<times> disconnectedPacketConn" where
  "dpc_Read c readFrom =
     (case readFrom of
        Inl err \<Rightarrow> ((0, Some err), c)
      | Inr (i, a) \<Rightarrow> ((i, None), c\<lparr>rAddr := Some a\<rparr>))"

definition dpc_RemoteAddr :: "disconnectedPacketConn \<Rightarrow> UDPAddr option" where
  "dpc_RemoteAddr c = rAddr c"

definition dpc_Write :: "disconnectedPacketConn \<Rightarrow> bytes \<Rightarrow> disconnectedPacketConn" where
  "dpc_Write c p = c\<lparr>written_to := written_to c @ [(dpc_RemoteAddr c, p)]\<rparr>"

subsection \<open>What the node answers\<close>

lemma not_extended:
  assumes "length protocol < 10 + 1"
    and "\<And>bs. length (h bs) = 16"
  shows "\<not> isTalkExtProtocol h protocol"
proof
  assume "isTalkExtProtocol h protocol"
  then have "length (toTalkExtProtocol h (takeWhile (\<lambda>c. c \<noteq> CHR ''-'') protocol)) = length protocol"
    by (simp add: isTalkExtProtocol_def)
  moreover have "length (hex_EncodeToString bs) = 2 * length bs" for bs
    by (induction bs) (simp_all add: hex_EncodeToString_def)
  ultimately show False using assms by (simp add: toTalkExtProtocol_def)
qed

lemma started_handlers:
  assumes "portal_Start X U ns queried now nodename = Some t"
  shows "trhandlers t = [''bbb'' \<mapsto> bbb_handler nodename, ''talk-sctp'' \<mapsto> (\<lambda>n a input. input)] \<and> idle t \<and> \<not> closed t"
proof -
  obtain k ln boots t1 where t1: "newUDPv5 U k ns ln boots queried now = Some (Inr t1)" "t = setupTalkExt (RegisterTalkHandler t1 ''bbb'' (bbb_handler nodename))"
    using assms by (auto simp: portal_Start_def startLocalhostV5_def bind_eq_Some_conv or_fatal_Some Let_def split: if_splits)
  have "trhandlers t1 = Map.empty \<and> idle t1 \<and> \<not> closed t1"
    using t1(1) by (cases "newTable (disc U) ln boots queried now") (auto simp: newUDPv5_def split: sum.splits)
  then show ?thesis using t1(2) by (simp add: setupTalkExt_def RegisterTalkHandler_def portal_TalkExtProtocol_def)
qed

lemma handle_talk:
  assumes "trhandlers t protocol = Some handler" "length protocol < 11" "\<And>bs. length (md5 U bs) = 16"
  shows "handle U t (TalkRequest reqID protocol message) idNonce fromID fromAddr =
     sendResponse U t fromID fromAddr (TalkResponse reqID (handler fromID fromAddr message))"
  using assms(1) not_extended [of protocol "md5 U"] assms(2,3) by (simp add: handle_def handleTalkExt_def handleTalkRequest_def)

text \<open>
  A started node echoes talk requests of the SCTP protocol and appends its name to those of the test protocol, whoever asks.
\<close>

lemma portal_echo:
  assumes "portal_Start X U ns queried now nodename = Some t" "\<And>bs. length (md5 U bs) = 16"
  shows "handle U t (TalkRequest reqID ''talk-sctp'' message) idNonce fromID fromAddr =
      sendResponse U t fromID fromAddr (TalkResponse reqID message)"
    and "handle U t (TalkRequest reqID ''bbb'' message) idNonce fromID fromAddr =
      sendResponse U t fromID fromAddr (TalkResponse reqID (message @ string_bytes (nodename @ ''responded'')))"
  using started_handlers [OF assms(1)] assms(2) by (simp_all add: handle_talk bbb_handler_def)

text \<open>Whatever the peer answers, the caller gets ten thousand bytes.\<close>

lemma portal_response_padded: "portal_TalkRequestExt S n request = Some resp \<Longrightarrow> length resp = 10000"
  by (auto simp: portal_TalkRequestExt_def bind_eq_Some_conv min_def)

text \<open>The demo's connection writes to the sender of the last packet that it has read.\<close>

lemma dpc_replies:
  assumes "dpc_Read c (Inr (i, a)) = (r, c')"
  shows "written_to (dpc_Write c' p) = written_to c @ [(Some a, p)]"
    and "dpc_Read c' (Inl err) = (r', c'') \<Longrightarrow> written_to (dpc_Write c'' p) = written_to c @ [(Some a, p)]"
  using assms by (auto simp: dpc_Read_def dpc_Write_def dpc_RemoteAddr_def)

end
