(* ===== verification/Light_Node.thy ===== *)
theory Light_Node
  imports Sync_Service Go_Net
begin

text \<open>
  The light node (\<^verbatim>\<open>internal/consensus/node\<close> and \<^verbatim>\<open>internal/consensus/rpc\<close>): the sync service and the RPC service that serves its store, built
  from the command line flags, started together, and stopped by a signal. The services run in their own goroutines, so that the steps of
  starting up, the slots, the requests and the steps of closing interleave. A slot changes each header of the store at most once, by one
  assignment of a pointer, so that a request during a slot sees the header from before or after it. The service registry of prysm, the network
  and the full node are parameters. A panic of any goroutine ends the process.
\<close>

subsection \<open>Flags and construction\<close>

record cli_context =
  fNetworkingMode :: string
  fFullNodeServerEndpoint :: string
  fSyncModeStr :: string
  fDataDir :: string
  fGrpcPort :: int
  fGrpcGatewayPort :: int
  fGrpcMaxCallRecvMsgSize :: int
  fGrpcRetryDelay :: int
  fGrpcRetries :: int
  fTrustedCurrentCommitteeRoot :: string

definition AppFlags :: cli_context where
  "AppFlags = \<lparr>fNetworkingMode = ''grpc'', fFullNodeServerEndpoint = ''localhost:4000'', fSyncModeStr = ''latest'',
     fDataDir = ''../prysm-data/lightnode/'', fGrpcPort = 4001, fGrpcGatewayPort = 3500, fGrpcMaxCallRecvMsgSize = 2 ^ 22,
     fGrpcRetryDelay = 1, fGrpcRetries = 3, fTrustedCurrentCommitteeRoot = ''3c7Wey0TrcWk0FmdSsZPdoQJE1Vho5Ytm71gySCVWfg=''\<rparr>"

text \<open>A duration is a 64-bit number of nanoseconds.\<close>

definition seconds :: "int \<Rightarrow> int" where
  "seconds n = sint (of_int (1000000000 * n) :: 64 word)"

definition sync_config :: "cli_context \<Rightarrow> Config" where
  "sync_config f =
     (let syncModeStr = fSyncModeStr f;
          syncMode = (if syncModeStr = SyncMode_String ModeFinality then ModeFinality else ModeLatest)
      in \<lparr>TrustedCurrentCommitteeRoot = fTrustedCurrentCommitteeRoot f, cfgSyncMode = syncMode, DataDir = fDataDir f,
          FullNodeServerEndpoint = fFullNodeServerEndpoint f, GrpcMaxCallRecvMsgSize = fGrpcMaxCallRecvMsgSize f,
          GrpcRetryDelay = seconds (fGrpcRetryDelay f), GrpcRetries = fGrpcRetries f\<rparr>)"

text \<open>The references to the two services; the RPC service holds one to the sync service.\<close>

datatype service_ref = Sync_ref | Rpc_ref

record rpc_config =
  rpcGrpcPort :: int
  rpcGrpcGatewayPort :: int
  rpcSyncService :: service_ref

record rpc_service =
  rcfg :: rpc_config
  rcancelled :: bool
  listener :: "string option"
  grpcServing :: bool

definition rpc_NewService :: "rpc_config \<Rightarrow> rpc_service" where
  "rpc_NewService c = \<lparr>rcfg = c, rcancelled = False, listener = None, grpcServing = False\<rparr>"

definition rpc_Stop :: "rpc_service \<Rightarrow> rpc_service" where
  "rpc_Stop r = r\<lparr>rcancelled := True\<rparr>"

definition rpc_Start :: "(string \<Rightarrow> string option) \<Rightarrow> rpc_service \<Rightarrow> rpc_service go" where
  "rpc_Start listenError r =
     (let address = ''127.0.0.1'' @ '':'' @ show_int (rpcGrpcPort (rcfg r))
      in if listenError address \<noteq> None then None else Some (r\<lparr>listener := Some address, grpcServing := True\<rparr>))"

text \<open>The handlers; the store is a pointer that is nil until the sync service has initialised it.\<close>

definition Head :: "Service \<Rightarrow> BeaconBlockHeader option go" where
  "Head s = do { store \<leftarrow> Store s; Some (stOptimisticHeader store) }"

definition FinalizedHead :: "Service \<Rightarrow> BeaconBlockHeader option go" where
  "FinalizedHead s = do { store \<leftarrow> Store s; Some (stFinalizedHeader store) }"

text \<open>
  The registry: \<open>Registered\<close> is what it holds; services are started in some order, each in its own goroutine, and stopped one after the
  other.
\<close>

record 'reg registry_lib =
  NewServiceRegistry :: 'reg
  Registered :: "'reg \<Rightarrow> service_ref set"
  RegisterService :: "'reg \<Rightarrow> service_ref \<Rightarrow> string + 'reg"
  FetchSyncService :: "'reg \<Rightarrow> string + service_ref"
  StartAll :: "'reg \<Rightarrow> service_ref list"
  StopAll :: "'reg \<Rightarrow> service_ref list"

definition registry_ok :: "'reg registry_lib \<Rightarrow> bool" where
  "registry_ok R \<longleftrightarrow> Registered R (NewServiceRegistry R) = {} \<and>
     (\<forall>r k. k \<notin> Registered R r \<longrightarrow> (\<exists>r'. RegisterService R r k = Inr r' \<and> Registered R r' = insert k (Registered R r))) \<and>
     (\<forall>r. Sync_ref \<in> Registered R r \<longrightarrow> FetchSyncService R r = Inr Sync_ref) \<and>
     (\<forall>r. set (StartAll R r) = Registered R r) \<and>
     (\<forall>r. set (StopAll R r) = Registered R r \<and> distinct (StopAll R r))"

text \<open>
  Where the sync service's goroutines are: not started, connected, with a store, in the loop of skip sync with the expected and the
  stored committee root, in the slot loop, or returned; and where \<open>Close\<close> is: the services that are still to be stopped, the
  cancellation, the channel that ends \<open>Start\<close>.
\<close>

datatype sync_phase = Sync_new | Sync_connected | Sync_stored | Sync_skipping bytes bytes | Sync_slots | Sync_returned

datatype close_phase = Running | Stopping "service_ref list" | Closing_stop

record 'reg LightNode =
  services :: 'reg
  started :: "service_ref list"
  ctxDone :: bool
  stopClosed :: bool
  interrupts :: nat
  close_at :: close_phase
  sync_at :: sync_phase
  syncSvc :: Service
  remoteCalls :: nat
  disk :: files
  rpcSvc :: rpc_service
  heads :: "BeaconBlockHeader option list"
  finalized_heads :: "BeaconBlockHeader option list"

text \<open>
  The two registrations of \<^verbatim>\<open>New\<close>, each with the service it makes. The error of the registration is returned, that of fetching the sync
  service is a panic.
\<close>

definition registerSyncService :: "'reg registry_lib \<Rightarrow> cli_context \<Rightarrow> 'reg \<Rightarrow> string + 'reg \<times> Service" where
  "registerSyncService R f reg =
     (let svc = NewService (sync_config f)
      in case RegisterService R reg Sync_ref of Inl err \<Rightarrow> Inl err | Inr reg \<Rightarrow> Inr (reg, svc))"

definition registerRpcService :: "'reg registry_lib \<Rightarrow> cli_context \<Rightarrow> 'reg \<Rightarrow> (string + 'reg \<times> rpc_service) go" where
  "registerRpcService R f reg =
     do { lightsyncService \<leftarrow> PanicErr (FetchSyncService R reg);
          let svc = rpc_NewService \<lparr>rpcGrpcPort = fGrpcPort f, rpcGrpcGatewayPort = fGrpcGatewayPort f, rpcSyncService = lightsyncService\<rparr>;
          Some (case RegisterService R reg Rpc_ref of Inl err \<Rightarrow> Inl err | Inr reg \<Rightarrow> Inr (reg, svc)) }"

definition LightNode_New :: "'reg registry_lib \<Rightarrow> cli_context \<Rightarrow> files \<Rightarrow> (string + 'reg LightNode) go" where
  "LightNode_New R f fs =
     (case registerSyncService R f (NewServiceRegistry R) of
        Inl err \<Rightarrow> Some (Inl err)
      | Inr (reg, s) \<Rightarrow>
          do { r \<leftarrow> registerRpcService R f reg;
               Some (case r of
                       Inl err \<Rightarrow> Inl err
                     | Inr (reg, rpc) \<Rightarrow>
                         Inr \<lparr>services = reg, started = [], ctxDone = False, stopClosed = False, interrupts = 0, close_at = Running,
                              sync_at = Sync_new, syncSvc = s, remoteCalls = 0, disk = fs, rpcSvc = rpc, heads = [], finalized_heads = []\<rparr>) })"

definition LightNode_Start :: "'reg registry_lib \<Rightarrow> 'reg LightNode \<Rightarrow> 'reg LightNode" where
  "LightNode_Start R x = x\<lparr>started := StartAll R (services x)\<rparr>"

text \<open>\<^verbatim>\<open>start\<close> of the command: the error of \<^verbatim>\<open>New\<close> is a panic.\<close>

definition main_start :: "'reg registry_lib \<Rightarrow> cli_context \<Rightarrow> files \<Rightarrow> 'reg LightNode go" where
  "main_start R f fs =
     do { r \<leftarrow> LightNode_New R f fs; x \<leftarrow> PanicErr r; Some (LightNode_Start R x) }"

subsection \<open>Steps\<close>

text \<open>
  The sync service connects, initialises its store, enters skip sync, makes one turn of its loop, handles a slot, or returns because its
  context is done; the RPC service listens and answers requests; a signal is received; \<open>Close\<close> stops the next service, cancels the context, and
  closes the channel for which \<open>Start\<close> waits, after which the process ends.
\<close>

datatype ln_event =
    SyncDial
  | SyncInit
  | SyncSkip
  | SyncTurn
  | SyncSlot u64
  | SyncExit
  | RpcListen
  | HeadRequest
  | FinalizedHeadRequest
  | Interrupt
  | StopNext
  | CancelCtx
  | CloseStop

fun ln_enabled :: "'reg LightNode \<Rightarrow> ln_event \<Rightarrow> bool" where
  "ln_enabled x SyncDial \<longleftrightarrow> \<not> stopClosed x \<and> Sync_ref \<in> set (started x) \<and> sync_at x = Sync_new"
| "ln_enabled x SyncInit \<longleftrightarrow> \<not> stopClosed x \<and> sync_at x = Sync_connected"
| "ln_enabled x SyncSkip \<longleftrightarrow> \<not> stopClosed x \<and> sync_at x = Sync_stored"
| "ln_enabled x SyncTurn \<longleftrightarrow> \<not> stopClosed x \<and> (\<exists>expected stored. sync_at x = Sync_skipping expected stored)"
| "ln_enabled x (SyncSlot slot) \<longleftrightarrow> \<not> stopClosed x \<and> sync_at x = Sync_slots"
| "ln_enabled x SyncExit \<longleftrightarrow> \<not> stopClosed x \<and> sync_at x = Sync_slots \<and> (cancelled (syncSvc x) \<or> ctxDone x)"
| "ln_enabled x RpcListen \<longleftrightarrow> \<not> stopClosed x \<and> Rpc_ref \<in> set (started x) \<and> \<not> grpcServing (rpcSvc x)"
| "ln_enabled x HeadRequest \<longleftrightarrow> \<not> stopClosed x \<and> grpcServing (rpcSvc x)"
| "ln_enabled x FinalizedHeadRequest \<longleftrightarrow> \<not> stopClosed x \<and> grpcServing (rpcSvc x)"
| "ln_enabled x Interrupt \<longleftrightarrow> \<not> stopClosed x \<and> started x \<noteq> []"
| "ln_enabled x StopNext \<longleftrightarrow> \<not> stopClosed x \<and> (\<exists>k ks. close_at x = Stopping (k # ks))"
| "ln_enabled x CancelCtx \<longleftrightarrow> \<not> stopClosed x \<and> close_at x = Stopping []"
| "ln_enabled x CloseStop \<longleftrightarrow> close_at x = Closing_stop"

definition stop_service :: "service_ref \<Rightarrow> 'reg LightNode \<Rightarrow> 'reg LightNode" where
  "stop_service k x =
     (case k of
        Sync_ref \<Rightarrow> x\<lparr>syncSvc := Stop (syncSvc x)\<rparr>
      | Rpc_ref \<Rightarrow> x\<lparr>rpcSvc := rpc_Stop (rpcSvc x)\<rparr>)"

definition skip_turn :: "('k, 'g) prysm_lib \<Rightarrow> sync_env \<Rightarrow> 'reg LightNode \<Rightarrow> bytes \<Rightarrow> bytes \<Rightarrow> 'reg LightNode go" where
  "skip_turn P E x expected stored =
     (if stored = expected
      then do { st \<leftarrow> Store (syncSvc x); _ \<leftarrow> StoreToString P E st; Some (x\<lparr>sync_at := Sync_slots\<rparr>) }
      else do { (s, stored, n) \<leftarrow> skipSync_round P E (syncSvc x) stored (remoteCalls x);
                Some (x\<lparr>syncSvc := s, remoteCalls := n, sync_at := Sync_skipping expected stored\<rparr>) })"

fun ln_step ::
  "'reg registry_lib \<Rightarrow> ('k, 'g) prysm_lib \<Rightarrow> sync_env \<Rightarrow> (string \<Rightarrow> string option) \<Rightarrow> bytes \<Rightarrow> 'reg LightNode \<Rightarrow> ln_event \<Rightarrow> 'reg LightNode go" where
  "ln_step R P E L gvr x SyncDial =
     (if dialError E \<noteq> None then None else Some (x\<lparr>syncSvc := (syncSvc x)\<lparr>connected := True\<rparr>, sync_at := Sync_connected\<rparr>))"
| "ln_step R P E L gvr x SyncInit =
     do { (s, n) \<leftarrow> initStore P E (syncSvc x) (remoteCalls x); Some (x\<lparr>syncSvc := s, remoteCalls := n, sync_at := Sync_stored\<rparr>) }"
| "ln_step R P E L gvr x SyncSkip =
     do { (expected, stored) \<leftarrow> skipSync_begin P E (syncSvc x) (remoteCalls x);
          Some (x\<lparr>remoteCalls := Suc (remoteCalls x), sync_at := Sync_skipping expected stored\<rparr>) }"
| "ln_step R P E L gvr x SyncTurn =
     (case sync_at x of Sync_skipping expected stored \<Rightarrow> skip_turn P E x expected stored | _ \<Rightarrow> Some x)"
| "ln_step R P E L gvr x (SyncSlot slot) =
     do { (s, fs, n) \<leftarrow> sync_tick P E gvr (syncSvc x, disk x, remoteCalls x) slot; Some (x\<lparr>syncSvc := s, disk := fs, remoteCalls := n\<rparr>) }"
| "ln_step R P E L gvr x SyncExit = Some (x\<lparr>sync_at := Sync_returned\<rparr>)"
| "ln_step R P E L gvr x RpcListen = do { r \<leftarrow> rpc_Start L (rpcSvc x); Some (x\<lparr>rpcSvc := r\<rparr>) }"
| "ln_step R P E L gvr x HeadRequest = do { h \<leftarrow> Head (syncSvc x); Some (x\<lparr>heads := heads x @ [h]\<rparr>) }"
| "ln_step R P E L gvr x FinalizedHeadRequest =
     do { h \<leftarrow> FinalizedHead (syncSvc x); Some (x\<lparr>finalized_heads := finalized_heads x @ [h]\<rparr>) }"
| "ln_step R P E L gvr x Interrupt =
     (if interrupts x = 0 then Some (x\<lparr>interrupts := 1, close_at := Stopping (StopAll R (services x))\<rparr>)
      else if interrupts x < 10 then Some (x\<lparr>interrupts := interrupts x + 1\<rparr>)
      else None)"
| "ln_step R P E L gvr x StopNext =
     Some (case close_at x of Stopping (k # ks) \<Rightarrow> (stop_service k x)\<lparr>close_at := Stopping ks\<rparr> | _ \<Rightarrow> x)"
| "ln_step R P E L gvr x CancelCtx = Some (x\<lparr>ctxDone := True, close_at := Closing_stop\<rparr>)"
| "ln_step R P E L gvr x CloseStop = (if stopClosed x then None else Some (x\<lparr>stopClosed := True, close_at := Running\<rparr>))"

definition ln_run_step ::
  "'reg registry_lib \<Rightarrow> ('k, 'g) prysm_lib \<Rightarrow> sync_env \<Rightarrow> (string \<Rightarrow> string option) \<Rightarrow> bytes \<Rightarrow> 'reg LightNode option \<Rightarrow> ln_event \<Rightarrow> 'reg LightNode option" where
  "ln_run_step R P E L gvr y e = Option.bind y (\<lambda>x. ln_step R P E L gvr x e)"

definition ln_occurs :: "'reg LightNode option \<Rightarrow> ln_event \<Rightarrow> bool" where
  "ln_occurs y e \<longleftrightarrow> (\<exists>x. y = Some x \<and> ln_enabled x e)"

abbreviation ln_run ::
  "'reg registry_lib \<Rightarrow> ('k, 'g) prysm_lib \<Rightarrow> sync_env \<Rightarrow> (string \<Rightarrow> string option) \<Rightarrow> bytes \<Rightarrow> 'reg LightNode \<Rightarrow> ln_event list \<Rightarrow> 'reg LightNode option" where
  "ln_run R P E L gvr x es \<equiv> foldl (ln_run_step R P E L gvr) (Some x) es"

abbreviation ln_possible ::
  "'reg registry_lib \<Rightarrow> ('k, 'g) prysm_lib \<Rightarrow> sync_env \<Rightarrow> (string \<Rightarrow> string option) \<Rightarrow> bytes \<Rightarrow> 'reg LightNode \<Rightarrow> ln_event list \<Rightarrow> bool" where
  "ln_possible R P E L gvr x es \<equiv> run_ok (ln_run_step R P E L gvr) ln_occurs (Some x) es"

lemma ln_run_Some [simp]: "ln_run_step R P E L gvr (Some x) e = ln_step R P E L gvr x e"
  by (simp add: ln_run_step_def)

subsection \<open>The store that is served\<close>

definition slot_of :: "BeaconBlockHeader option \<Rightarrow> u64" where
  "slot_of h = (case h of None \<Rightarrow> 0 | Some h \<Rightarrow> Slot h)"

text \<open>What a step of the sync service does to the service: it sets the store, never to one with an older optimistic header.\<close>

definition store_forward :: "Service \<Rightarrow> Service \<Rightarrow> bool" where
  "store_forward s s' \<longleftrightarrow> (\<exists>st'. s' = s\<lparr>Store := Some st'\<rparr> \<and>
     (\<forall>st. Store s = Some st \<longrightarrow> slot_of (stOptimisticHeader st) \<le> slot_of (stOptimisticHeader st')))"

lemma store_forward_refl: "Store s = Some st \<Longrightarrow> store_forward s s"
  by (cases s) (simp add: store_forward_def)

lemma initStore_forward: "initStore P E s n = Some (s', n') \<Longrightarrow> Store s = None \<Longrightarrow> store_forward s s'"
  by (auto simp: initStore_def store_forward_def bind_eq_Some_conv)

lemma skipSync_begin_store: "skipSync_begin P E s n = Some r \<Longrightarrow> Store s \<noteq> None"
  by (auto simp: skipSync_begin_def bind_eq_Some_conv)

lemma skipSync_round_forward:
  assumes "skipSync_round P E s stored n = Some (s', stored', n')"
  shows "store_forward s s'"
proof -
  obtain st reply where st: "Store s = Some st" "lookupSkipSync E n (the (committee_root P (stNextSyncCommittee st))) = Some reply"
    using assms by (auto simp: skipSync_round_def bind_eq_Some_conv)
  show ?thesis
  proof (cases reply)
    case (Inl err)
    then have "s' = s" using assms st by (auto simp: skipSync_round_def bind_eq_Some_conv split: if_splits)
    then show ?thesis using st(1) store_forward_refl by simp
  next
    case (Inr u)
    then have "simpleProcessSkipSyncUpdate s u = Some s'" using assms st by (auto simp: skipSync_round_def bind_eq_Some_conv)
    then show ?thesis by (auto simp: simpleProcessSkipSyncUpdate_def store_forward_def bind_eq_Some_conv)
  qed
qed

lemma process_forward:
  "processLightClientUpdate P st u slot gvr = Some st' \<Longrightarrow> slot_of (stOptimisticHeader st) \<le> slot_of (stOptimisticHeader st')"
  by (auto dest!: process_optimistic simp: slot_of_def)

lemma sync_tick_forward:
  assumes "sync_tick P E gvr (s, fs, n) slot = Some (s', fs', n')"
  shows "store_forward s s'"
proof -
  obtain st st1 u st2 where st: "Store s = Some st" "processSlotForLightClientStore P st slot = Some st1"
    "processLightClientUpdate P st1 u slot gvr = Some st2" "s' = s\<lparr>Store := Some st2\<rparr>"
    using assms by (auto simp: sync_tick_def bind_eq_Some_conv Let_def split: if_splits)
  have "stOptimisticHeader st1 = stOptimisticHeader st" using st(2) by (auto simp: processSlotForLightClientStore_def split: if_splits)
  then show ?thesis using process_forward [OF st(3)] st by (auto simp: store_forward_def)
qed

definition early :: "'reg LightNode \<Rightarrow> bool" where
  "early x \<longleftrightarrow> sync_at x \<in> {Sync_new, Sync_connected}"

definition heads_ok :: "'reg LightNode \<Rightarrow> bool" where
  "heads_ok x \<longleftrightarrow> sorted (map slot_of (heads x)) \<and>
     (if early x then Store (syncSvc x) = None \<and> heads x = []
      else \<exists>st. Store (syncSvc x) = Some st \<and> (\<forall>h \<in> set (heads x). slot_of h \<le> slot_of (stOptimisticHeader st)))"

text \<open>How a step changes the sync service and what was answered.\<close>

lemma ln_step_sync:
  assumes "ln_step R P E L gvr x e = Some x'" "ln_enabled x e" "early x \<longrightarrow> Store (syncSvc x) = None"
  shows "syncSvc x' = syncSvc x \<or> syncSvc x' = Stop (syncSvc x) \<or> syncSvc x' = (syncSvc x)\<lparr>connected := True\<rparr> \<or>
      store_forward (syncSvc x) (syncSvc x')" (is ?sync)
    and "early x' \<longleftrightarrow> early x \<and> e \<noteq> SyncInit"
    and "heads x' = heads x \<or> (\<exists>st. Store (syncSvc x) = Some st \<and> heads x' = heads x @ [stOptimisticHeader st])"
proof -
  show ?sync
    using assms initStore_forward [of P E "syncSvc x"] skipSync_round_forward [of P E "syncSvc x"] sync_tick_forward [of P E gvr "syncSvc x"]
    by (cases e) (auto simp: bind_eq_Some_conv skip_turn_def stop_service_def early_def split: if_splits service_ref.splits)
  show "early x' \<longleftrightarrow> early x \<and> e \<noteq> SyncInit"
    using assms by (cases e) (auto simp: bind_eq_Some_conv skip_turn_def stop_service_def early_def split: if_splits service_ref.splits)
  show "heads x' = heads x \<or> (\<exists>st. Store (syncSvc x) = Some st \<and> heads x' = heads x @ [stOptimisticHeader st])"
    using assms by (cases e) (auto simp: bind_eq_Some_conv skip_turn_def stop_service_def Head_def split: if_splits service_ref.splits)
qed

lemma ln_step_heads:
  assumes "ln_step R P E L gvr x e = Some x'" "ln_enabled x e" "heads_ok x"
  shows "heads_ok x'"
proof -
  have none: "early x \<longrightarrow> Store (syncSvc x) = None" using assms(3) by (simp add: heads_ok_def)
  note step = ln_step_sync [OF assms(1,2) none]
  show ?thesis
  proof (cases "early x")
    case True
    then have x: "Store (syncSvc x) = None" "heads x = []" using assms(3) by (simp_all add: heads_ok_def)
    then have "heads x' = []" using step(3) by auto
    moreover have "e = SyncInit \<Longrightarrow> \<exists>st. Store (syncSvc x') = Some st"
      using assms(1) x(1) by (auto simp: bind_eq_Some_conv dest!: initStore_forward simp: store_forward_def)
    moreover have "e \<noteq> SyncInit \<Longrightarrow> Store (syncSvc x') = None"
      using assms(1,2) True x(1)
      by (cases e) (auto simp: early_def bind_eq_Some_conv stop_service_def Stop_def Head_def FinalizedHead_def split: if_splits service_ref.splits)
    ultimately show ?thesis using step(2) True by (auto simp: heads_ok_def)
  next
    case False
    then obtain st where st: "Store (syncSvc x) = Some st" "\<forall>h \<in> set (heads x). slot_of h \<le> slot_of (stOptimisticHeader st)"
      using assms(3) by (auto simp: heads_ok_def)
    obtain st' where st': "Store (syncSvc x') = Some st'" "slot_of (stOptimisticHeader st) \<le> slot_of (stOptimisticHeader st')"
      using step(1) st(1) by (auto simp: Stop_def store_forward_def)
    then have "\<forall>h \<in> set (heads x). slot_of h \<le> slot_of (stOptimisticHeader st')" using st(2) by (meson order_trans)
    moreover have "heads x' = heads x \<or> heads x' = heads x @ [stOptimisticHeader st]" using step(3) st(1) by auto
    ultimately show ?thesis
      using False step(2) st(2) st' assms(3) by (auto simp: heads_ok_def sorted_append)
  qed
qed

interpretation serving: event_machine "ln_run_step R P E L gvr" ln_occurs "\<lambda>y. \<forall>x. y = Some x \<longrightarrow> heads_ok x"
  for R :: "'reg registry_lib" and P :: "('k, 'g) prysm_lib" and E L gvr
  by unfold_locales (auto simp: ln_occurs_def dest: ln_step_heads)

lemma ln_stuck: "run_ok (ln_run_step R P E L gvr) ln_occurs None es \<Longrightarrow> es = []"
  by (cases es) (simp_all add: ln_occurs_def)

lemma early_run:
  "heads_ok x \<Longrightarrow> ln_possible R P E L gvr x es \<Longrightarrow> ln_run R P E L gvr x es = Some x' \<Longrightarrow> early x' \<longleftrightarrow> early x \<and> SyncInit \<notin> set es"
proof (induction es arbitrary: x)
  case (Cons e es)
  then obtain x1 where x1: "ln_step R P E L gvr x e = Some x1" by (cases "ln_step R P E L gvr x e") (auto dest: ln_stuck)
  have e: "ln_enabled x e" using Cons.prems(2) by (simp add: ln_occurs_def)
  have "early x1 \<longleftrightarrow> early x \<and> e \<noteq> SyncInit" using ln_step_sync(2) [OF x1 e] Cons.prems(1) by (auto simp: heads_ok_def)
  then show ?case using Cons.IH [of x1] ln_step_heads [OF x1 e Cons.prems(1)] Cons.prems(2,3) x1 by auto
qed simp

subsection \<open>Shutting down\<close>

definition stopped :: "'reg LightNode \<Rightarrow> service_ref \<Rightarrow> bool" where
  "stopped x k \<longleftrightarrow> (case k of Sync_ref \<Rightarrow> cancelled (syncSvc x) | Rpc_ref \<Rightarrow> rcancelled (rpcSvc x))"

definition close_ok :: "'reg registry_lib \<Rightarrow> 'reg LightNode \<Rightarrow> bool" where
  "close_ok R x \<longleftrightarrow> registry_ok R \<and> Registered R (services x) = {Sync_ref, Rpc_ref} \<and> interrupts x \<le> 10 \<and>
     (case close_at x of
        Running \<Rightarrow> if stopClosed x then (\<forall>k. stopped x k) \<and> ctxDone x else interrupts x = 0
      | Stopping ks \<Rightarrow> \<not> stopClosed x \<and> 0 < interrupts x \<and> length ks \<le> 2 \<and> (\<forall>k. k \<notin> set ks \<longrightarrow> stopped x k)
      | Closing_stop \<Rightarrow> \<not> stopClosed x \<and> 0 < interrupts x \<and> ctxDone x \<and> (\<forall>k. stopped x k))"

lemma service_ref_all: "(\<forall>k. Q k) \<longleftrightarrow> Q Sync_ref \<and> Q Rpc_ref"
  by (metis service_ref.exhaust)

lemma store_forward_cancelled: "store_forward s s' \<Longrightarrow> cancelled s' = cancelled s"
  by (auto simp: store_forward_def)

lemmas step_cancelled = store_forward_cancelled [OF skipSync_round_forward] store_forward_cancelled [OF sync_tick_forward]

lemma initStore_cancelled: "initStore P E s n = Some (s', n') \<Longrightarrow> cancelled s' = cancelled s"
  by (auto simp: initStore_def bind_eq_Some_conv)

lemma rpc_Start_cancelled: "rpc_Start L r = Some r' \<Longrightarrow> rcancelled r' = rcancelled r"
  by (auto simp: rpc_Start_def Let_def split: if_splits)

definition closing_event :: "ln_event \<Rightarrow> bool" where
  "closing_event e \<longleftrightarrow> e \<in> {Interrupt, StopNext, CancelCtx, CloseStop}"

lemma other_events_close:
  assumes "ln_step R P E L gvr x e = Some x'" "ln_enabled x e" "\<not> closing_event e"
  shows "services x' = services x \<and> interrupts x' = interrupts x \<and> close_at x' = close_at x \<and> stopClosed x' = stopClosed x \<and>
    ctxDone x' = ctxDone x \<and> cancelled (syncSvc x') = cancelled (syncSvc x) \<and> rcancelled (rpcSvc x') = rcancelled (rpcSvc x)"
proof (cases e)
  case SyncInit
  then show ?thesis using assms(1) by (auto simp: bind_eq_Some_conv initStore_cancelled)
next
  case SyncTurn
  then show ?thesis using assms(1,2) by (auto simp: bind_eq_Some_conv skip_turn_def step_cancelled(1) split: if_splits)
next
  case (SyncSlot slot)
  then show ?thesis using assms(1) by (auto simp: bind_eq_Some_conv step_cancelled(2))
next
  case RpcListen
  then show ?thesis using assms(1) by (auto simp: bind_eq_Some_conv rpc_Start_cancelled)
qed (use assms in \<open>auto simp: closing_event_def bind_eq_Some_conv split: if_splits\<close>)

lemma StopAll_length: "registry_ok R \<Longrightarrow> Registered R r = {Sync_ref, Rpc_ref} \<Longrightarrow> length (StopAll R r) = 2 \<and> set (StopAll R r) = {Sync_ref, Rpc_ref}"
proof -
  assume R: "registry_ok R" "Registered R r = {Sync_ref, Rpc_ref}"
  then have "set (StopAll R r) = {Sync_ref, Rpc_ref}" "distinct (StopAll R r)" by (simp_all add: registry_ok_def)
  then show ?thesis using distinct_card [of "StopAll R r"] by simp
qed

lemma ln_step_close:
  assumes "ln_step R P E L gvr x e = Some x'" "ln_enabled x e" "close_ok R x"
  shows "close_ok R x'"
proof (cases "closing_event e")
  case False
  then show ?thesis using other_events_close [OF assms(1,2)] assms(3) by (auto simp: close_ok_def service_ref_all stopped_def split: close_phase.splits)
next
  case True
  have all: "length (StopAll R (services x)) = 2" "set (StopAll R (services x)) = {Sync_ref, Rpc_ref}"
    using StopAll_length [of R "services x"] assms(3) by (simp_all add: close_ok_def)
  consider "e = Interrupt" | "e = StopNext" | "e = CancelCtx" | "e = CloseStop" using True by (auto simp: closing_event_def)
  then show ?thesis
  proof cases
    case 1
    show ?thesis
    proof (cases "interrupts x = 0")
      case True
      then have "x' = x\<lparr>interrupts := 1, close_at := Stopping (StopAll R (services x))\<rparr>" "\<not> stopClosed x" using 1 assms(1,2) by simp_all
      then show ?thesis using assms(3) all by (simp add: close_ok_def service_ref_all)
    next
      case False
      then have "x' = x\<lparr>interrupts := interrupts x + 1\<rparr>" "interrupts x < 10" "\<not> stopClosed x" using 1 assms(1,2) by (simp_all split: if_splits)
      then show ?thesis using assms(3) False by (simp add: close_ok_def service_ref_all stopped_def split: close_phase.splits)
    qed
  next
    case 2
    then obtain k ks where c: "close_at x = Stopping (k # ks)" using assms(2) by auto
    then have "x' = (stop_service k x)\<lparr>close_at := Stopping ks\<rparr>" using 2 assms(1) by simp
    then show ?thesis using c assms(3)
      by (cases k) (simp_all add: close_ok_def service_ref_all stopped_def stop_service_def Stop_def rpc_Stop_def)
  next
    case 3
    then have "x' = x\<lparr>ctxDone := True, close_at := Closing_stop\<rparr>" "close_at x = Stopping []" using assms(1,2) by simp_all
    then show ?thesis using assms(3) by (simp add: close_ok_def service_ref_all stopped_def)
  next
    case 4
    then have "x' = x\<lparr>stopClosed := True, close_at := Running\<rparr>" "close_at x = Closing_stop" using assms(1,2) by (simp_all split: if_splits)
    then show ?thesis using assms(3) by (simp add: close_ok_def service_ref_all stopped_def)
  qed
qed

interpretation shutdown: event_machine "ln_run_step R P E L gvr" ln_occurs "\<lambda>y. \<forall>x. y = Some x \<longrightarrow> close_ok R x"
  for R :: "'reg registry_lib" and P :: "('k, 'g) prysm_lib" and E L gvr
  by unfold_locales (auto simp: ln_occurs_def dest: ln_step_close)

lemma interrupts_run:
  "ln_possible R P E L gvr x es \<Longrightarrow> ln_run R P E L gvr x es = Some x' \<Longrightarrow> interrupts x' = interrupts x + count_list es Interrupt"
proof (induction es arbitrary: x)
  case (Cons e es)
  then obtain x1 where x1: "ln_step R P E L gvr x e = Some x1" by (cases "ln_step R P E L gvr x e") (auto dest: ln_stuck)
  have e: "ln_enabled x e" using Cons.prems(1) by (simp add: ln_occurs_def)
  have "interrupts x1 = interrupts x + of_bool (e = Interrupt)"
  proof (cases "closing_event e")
    case False
    then show ?thesis using other_events_close [OF x1 e] by (auto simp: closing_event_def)
  next
    case True
    then show ?thesis using x1 e by (auto simp: closing_event_def stop_service_def split: if_splits service_ref.splits)
  qed
  then show ?case using Cons.IH [of x1] Cons.prems x1 by auto
qed simp

text \<open>What is left for \<open>Close\<close> to do.\<close>

fun close_steps :: "close_phase \<Rightarrow> ln_event list" where
  "close_steps Running = []"
| "close_steps (Stopping ks) = replicate (length ks) StopNext @ [CancelCtx, CloseStop]"
| "close_steps Closing_stop = [CloseStop]"

lemma stop_service_close [simp]:
  "stopClosed (stop_service k x) = stopClosed x" "close_at (stop_service k x) = close_at x"
  by (cases k; simp add: stop_service_def)+

lemma stopping_run:
  "close_at x = Stopping ks \<Longrightarrow> \<not> stopClosed x \<Longrightarrow>
   ln_possible R P E L gvr x (close_steps (Stopping ks)) \<and> (\<exists>x'. ln_run R P E L gvr x (close_steps (Stopping ks)) = Some x' \<and> stopClosed x')"
proof (induction ks arbitrary: x)
  case Nil
  then show ?case by (simp add: ln_occurs_def)
next
  case (Cons k ks)
  then have "ln_step R P E L gvr x StopNext = Some ((stop_service k x)\<lparr>close_at := Stopping ks\<rparr>)" by simp
  with Cons.IH [of "(stop_service k x)\<lparr>close_at := Stopping ks\<rparr>"] Cons.prems show ?case by (simp add: ln_occurs_def)
qed

lemma close_run:
  assumes "close_ok R x" "0 < interrupts x" "\<not> stopClosed x"
  shows "length (close_steps (close_at x)) \<le> 4 \<and> ln_possible R P E L gvr x (close_steps (close_at x)) \<and>
    (\<exists>x'. ln_run R P E L gvr x (close_steps (close_at x)) = Some x' \<and> stopClosed x')"
proof (cases "close_at x")
  case (Stopping ks)
  then have "length ks \<le> 2" using assms(1) by (simp add: close_ok_def)
  then show ?thesis using stopping_run [OF Stopping assms(3)] Stopping by simp
qed (use assms in \<open>simp_all add: close_ok_def ln_occurs_def\<close>)

subsection \<open>A new node\<close>

lemma main_start_shape:
  assumes "registry_ok R"
  shows "\<exists>x. main_start R f fs = Some x \<and> heads_ok x \<and> close_ok R x \<and> early x \<and> interrupts x = 0 \<and> set (started x) = {Sync_ref, Rpc_ref} \<and>
     cfg (syncSvc x) = sync_config f \<and> rpcSyncService (rcfg (rpcSvc x)) = Sync_ref"
proof -
  have R: "Registered R (NewServiceRegistry R) = {}" "\<And>r. set (StartAll R r) = Registered R r"
    "\<And>r k. k \<notin> Registered R r \<Longrightarrow> \<exists>r'. RegisterService R r k = Inr r' \<and> Registered R r' = insert k (Registered R r)"
    "\<And>r. Sync_ref \<in> Registered R r \<Longrightarrow> FetchSyncService R r = Inr Sync_ref"
    using assms by (simp_all add: registry_ok_def)
  obtain r1 where r1: "RegisterService R (NewServiceRegistry R) Sync_ref = Inr r1" "Registered R r1 = {Sync_ref}"
    using R(3) [of Sync_ref "NewServiceRegistry R"] R(1) by auto
  obtain r2 where r2: "RegisterService R r1 Rpc_ref = Inr r2" "Registered R r2 = {Sync_ref, Rpc_ref}"
    using R(3) [of Rpc_ref r1] r1(2) by auto
  have "FetchSyncService R r1 = Inr Sync_ref" using R(4) r1(2) by simp
  then show ?thesis
    using r1(1) r2 assms R(2) [of r2]
    by (simp add: main_start_def LightNode_New_def registerSyncService_def registerRpcService_def LightNode_Start_def PanicErr_def
        rpc_NewService_def NewService_def heads_ok_def early_def close_ok_def)
qed

text \<open>
  The steps of the sync service compose to what \<open>Start\<close> and the slot loop of \<^verbatim>\<open>service.go\<close> do when nothing happens in between: one step for
  the connection, one for the store, and one for every turn of skip sync; and one for every slot.
\<close>

lemma turns_run_loop:
  "skipSync_loop fuel P E expected (syncSvc x) stored (remoteCalls x) = Some (Some (s', n')) \<Longrightarrow> sync_at x = Sync_skipping expected stored \<Longrightarrow>
   \<exists>k \<le> fuel. ln_run R P E L gvr x (replicate k SyncTurn) = Some (x\<lparr>syncSvc := s', remoteCalls := n', sync_at := Sync_slots\<rparr>)"
proof (induction fuel arbitrary: x stored)
  case (Suc fuel)
  show ?case
  proof (cases "stored = expected")
    case True
    then have "ln_run R P E L gvr x (replicate 1 SyncTurn) = Some (x\<lparr>syncSvc := s', remoteCalls := n', sync_at := Sync_slots\<rparr>)"
      using Suc.prems by (auto simp: skip_turn_def bind_eq_Some_conv)
    then show ?thesis by (intro exI [of _ 1]) simp
  next
    case False
    then obtain s1 stored1 n1 where r: "skipSync_round P E (syncSvc x) stored (remoteCalls x) = Some (s1, stored1, n1)"
      "skipSync_loop fuel P E expected s1 stored1 n1 = Some (Some (s', n'))"
      using Suc.prems(1) by (auto split: option.splits)
    let ?x = "x\<lparr>syncSvc := s1, remoteCalls := n1, sync_at := Sync_skipping expected stored1\<rparr>"
    obtain k where k: "k \<le> fuel" "ln_run R P E L gvr ?x (replicate k SyncTurn) = Some (?x\<lparr>syncSvc := s', remoteCalls := n', sync_at := Sync_slots\<rparr>)"
      using Suc.IH [of ?x stored1] r(2) by auto
    then have "ln_run R P E L gvr x (replicate (Suc k) SyncTurn) = Some (x\<lparr>syncSvc := s', remoteCalls := n', sync_at := Sync_slots\<rparr>)"
      using False r(1) Suc.prems(2) by (simp add: skip_turn_def)
    then show ?thesis using k(1) by (intro exI [of _ "Suc k"]) simp
  qed
qed simp

lemma start_steps:
  assumes "Start fuel P E (syncSvc x) = Some (Some (s', n'))" "remoteCalls x = 0"
  shows "\<exists>k \<le> fuel. ln_run R P E L gvr x ([SyncDial, SyncInit, SyncSkip] @ replicate k SyncTurn) =
    Some (x\<lparr>syncSvc := s', remoteCalls := n', sync_at := Sync_slots\<rparr>)"
proof -
  obtain s1 n1 where s1: "dialError E = None" "initStore P E ((syncSvc x)\<lparr>connected := True\<rparr>) 0 = Some (s1, n1)"
    "skipSync fuel P E s1 n1 = Some (Some (s', n'))"
    using assms(1) by (auto simp: Start_def split: if_splits option.splits)
  obtain expected stored where b: "skipSync_begin P E s1 n1 = Some (expected, stored)"
    "skipSync_loop fuel P E expected s1 stored (Suc n1) = Some (Some (s', n'))"
    using s1(3) by (auto simp: skipSync_def split: option.splits)
  let ?x = "x\<lparr>syncSvc := s1, remoteCalls := Suc n1, sync_at := Sync_skipping expected stored\<rparr>"
  have "ln_run R P E L gvr x [SyncDial, SyncInit, SyncSkip] = Some ?x" using s1(1,2) b(1) assms(2) by simp
  moreover obtain k where "k \<le> fuel" "ln_run R P E L gvr ?x (replicate k SyncTurn) = Some (?x\<lparr>syncSvc := s', remoteCalls := n', sync_at := Sync_slots\<rparr>)"
    using turns_run_loop [of fuel P E expected ?x stored s' n' R L gvr] b(2) by auto
  ultimately show ?thesis by (auto simp: foldl_append)
qed

lemma slot_steps:
  "sync P E gvr (Some (syncSvc x, disk x, remoteCalls x)) slots = Some (s', fs', n') \<Longrightarrow>
   ln_run R P E L gvr x (map SyncSlot slots) = Some (x\<lparr>syncSvc := s', disk := fs', remoteCalls := n'\<rparr>)"
proof (induction slots arbitrary: x)
  case (Cons slot slots)
  have none: "foldl (tick P E gvr) None slots = None" by (induction slots) (simp_all add: tick_def)
  obtain s1 fs1 n1 where t: "sync_tick P E gvr (syncSvc x, disk x, remoteCalls x) slot = Some (s1, fs1, n1)"
    using Cons.prems none by (cases "sync_tick P E gvr (syncSvc x, disk x, remoteCalls x) slot") (auto simp: sync_foldl tick_def)
  then show ?case using Cons.prems Cons.IH [of "x\<lparr>syncSvc := s1, disk := fs1, remoteCalls := n1\<rparr>"] by (simp add: sync_foldl tick_def)
qed (simp add: sync_foldl)

text \<open>An instance: the registry as the list of its services, and a full node that answers every request.\<close>

definition list_registry :: "service_ref list registry_lib" where
  "list_registry = \<lparr>NewServiceRegistry = [], Registered = set,
     RegisterService = (\<lambda>ks k. if k \<in> set ks then Inl ''service already exists'' else Inr (ks @ [k])),
     FetchSyncService = (\<lambda>ks. if Sync_ref \<in> set ks then Inr Sync_ref else Inl ''unknown service''),
     StartAll = (\<lambda>ks. ks), StopAll = (\<lambda>ks. rev (remdups ks))\<rparr>"

lemma list_registry_ok: "registry_ok list_registry"
  by (simp add: registry_ok_def list_registry_def)

abbreviation serving_env :: sync_env where
  "serving_env \<equiv> sample_env\<lparr>GetSkipSyncUpdate := \<lambda>n key. Inr sample_skip\<rparr>"

abbreviation sample_flags :: cli_context where
  "sample_flags \<equiv> AppFlags\<lparr>fTrustedCurrentCommitteeRoot := EncodeToString [1, 2]\<rparr>"

lemma sample_init:
  assumes "cfg s = sync_config sample_flags"
  shows "initStore sample_prysm serving_env s n = Some (s\<lparr>Store := Some (initial_store sample_prysm sample_skip)\<rparr>, Suc n)"
  using assms sample_skip_valid DecodeString_EncodeToString [of "[1, 2]"]
  by (simp add: initStore_def lookupSkipSync_def PanicErr_def sync_config_def)

lemma sample_start:
  "\<exists>x. main_start list_registry sample_flags (\<lambda>f. None) = Some x \<and> cfg (syncSvc x) = sync_config sample_flags \<and> set (started x) = {Sync_ref, Rpc_ref} \<and>
     \<not> stopClosed x \<and> sync_at x = Sync_new \<and> \<not> grpcServing (rpcSvc x) \<and> heads x = [] \<and> interrupts x = 0"
  by (simp add: main_start_def LightNode_New_def registerSyncService_def registerRpcService_def LightNode_Start_def PanicErr_def list_registry_def
      rpc_NewService_def NewService_def insert_commute)

subsection \<open>Properties\<close>

text \<open>
  C25. The heads that the light node serves, in every interleaving of its two services, requests and signals: a request for the head panics, and
  with it the process, exactly when the sync service has not yet initialised its store, although the RPC service is started at
  the same time; after that it is answered with the optimistic header of the store, and the slots of successive answers never decrease.
\<close>

theorem rpc_heads:
  assumes "registry_ok R" "main_start R f fs = Some x0" "ln_possible R P E L gvr x0 es" "ln_run R P E L gvr x0 es = Some x" "ln_enabled x HeadRequest"
  shows "sorted (map slot_of (heads x)) \<and> (ln_step R P E L gvr x HeadRequest = None \<longleftrightarrow> SyncInit \<notin> set es) \<and>
     (\<forall>x'. ln_step R P E L gvr x HeadRequest = Some x' \<longrightarrow>
        (\<exists>st. Store (syncSvc x) = Some st \<and> heads x' = heads x @ [stOptimisticHeader st] \<and>
           (\<forall>h \<in> set (heads x). slot_of h \<le> slot_of (stOptimisticHeader st))))"
proof -
  have x0: "heads_ok x0" "early x0" using main_start_shape [OF assms(1), of f fs] assms(2) by auto
  have "heads_ok x" using serving.inv_run [OF _ assms(3)] x0(1) assms(4) by simp
  moreover have "early x \<longleftrightarrow> SyncInit \<notin> set es" using early_run [OF x0(1) assms(3,4)] x0(2) by simp
  ultimately show ?thesis by (auto simp: heads_ok_def Head_def split: if_splits)
qed

theorem rpc_heads_witness:
  "\<exists>x0 x x'. main_start list_registry sample_flags (\<lambda>f. None) = Some x0 \<and>
     ln_run list_registry sample_prysm serving_env (\<lambda>a. None) [] x0 [RpcListen] = Some x \<and>
     ln_step list_registry sample_prysm serving_env (\<lambda>a. None) [] x HeadRequest = None \<and>
     ln_run list_registry sample_prysm serving_env (\<lambda>a. None) [] x [SyncDial, SyncInit, HeadRequest] = Some x' \<and>
     heads x' = [AttestedHeader sample_skip]"
proof -
  obtain x0 where x0: "main_start list_registry sample_flags (\<lambda>f. None) = Some x0" "cfg (syncSvc x0) = sync_config sample_flags"
    "set (started x0) = {Sync_ref, Rpc_ref}" "\<not> stopClosed x0" "sync_at x0 = Sync_new" "\<not> grpcServing (rpcSvc x0)" "heads x0 = []" "interrupts x0 = 0"
    using sample_start by auto
  obtain x where x: "ln_run list_registry sample_prysm serving_env (\<lambda>a. None) [] x0 [RpcListen] = Some x"
    "x = x0\<lparr>rpcSvc := rpcSvc x\<rparr>" "grpcServing (rpcSvc x)"
    by (auto simp: rpc_Start_def)
  have p: "ln_possible list_registry sample_prysm serving_env (\<lambda>a. None) [] x0 [RpcListen]" using x0 by (simp add: ln_occurs_def)
  have "ln_enabled x HeadRequest" using x(2,3) x0(4) by (metis LightNode.select_convs(4) LightNode.surjective LightNode.update_convs(11) ln_enabled.simps(8))
  from rpc_heads [OF list_registry_ok x0(1) p x(1) this]
  have "ln_step list_registry sample_prysm serving_env (\<lambda>a. None) [] x HeadRequest = None" by simp
  moreover have "sync_at x = Sync_new" "cfg (syncSvc x) = sync_config sample_flags" "heads x = []"
    using x(2) x0(2,5,7) by (metis LightNode.ext_inject LightNode.surjective LightNode.update_convs(11))+
  ultimately show ?thesis
    using x0(1) x(1) sample_init [of "(syncSvc x)\<lparr>connected := True\<rparr>"]
    by (simp add: sample_env_def Head_def initial_store_def)
qed

text \<open>
  C26. Shutting the light node down, in every interleaving: when \<open>Start\<close> returns, both services have been stopped and the context is
  cancelled, and the channel it waits for is closed only once; after the first signal \<open>Close\<close> needs at most four steps, none of which depends
  on the services; and a signal panics exactly when it is the eleventh.
\<close>

theorem node_shutdown:
  assumes "registry_ok R" "main_start R f fs = Some x0" "ln_possible R P E L gvr x0 es" "ln_run R P E L gvr x0 es = Some x"
  shows "(stopClosed x \<longrightarrow> cancelled (syncSvc x) \<and> rcancelled (rpcSvc x) \<and> ctxDone x) \<and>
     (ln_enabled x CloseStop \<longrightarrow> ln_step R P E L gvr x CloseStop \<noteq> None) \<and>
     (Interrupt \<in> set es \<and> \<not> stopClosed x \<longrightarrow>
        (\<exists>x'. length (close_steps (close_at x)) \<le> 4 \<and> ln_possible R P E L gvr x (close_steps (close_at x)) \<and>
           ln_run R P E L gvr x (close_steps (close_at x)) = Some x' \<and> stopClosed x')) \<and>
     (ln_step R P E L gvr x Interrupt = None \<longleftrightarrow> count_list es Interrupt = 10) \<and> count_list es Interrupt \<le> 10"
proof -
  have x0: "close_ok R x0" "interrupts x0 = 0" using main_start_shape [OF assms(1), of f fs] assms(2) by auto
  have ok: "close_ok R x" using shutdown.inv_run [OF _ assms(3)] x0(1) assms(4) by simp
  have n: "interrupts x = count_list es Interrupt" using interrupts_run [OF assms(3,4)] x0(2) by simp
  have "stopped x Sync_ref \<and> stopped x Rpc_ref \<and> ctxDone x" if "stopClosed x"
    using ok that by (simp add: close_ok_def split: close_phase.splits)
  then have "stopClosed x \<longrightarrow> cancelled (syncSvc x) \<and> rcancelled (rpcSvc x) \<and> ctxDone x" by (simp add: stopped_def)
  moreover have "ln_enabled x CloseStop \<longrightarrow> ln_step R P E L gvr x CloseStop \<noteq> None" using ok by (simp add: close_ok_def split: close_phase.splits)
  moreover have "Interrupt \<in> set es \<Longrightarrow> 0 < interrupts x" using n by (metis count_list_0_iff gr0I)
  moreover have "interrupts x \<le> 10" using ok by (simp add: close_ok_def)
  ultimately show ?thesis using close_run [OF ok, of P E L gvr] n by auto
qed

theorem node_shutdown_witness:
  "\<exists>x0 x x'. main_start list_registry sample_flags (\<lambda>f. None) = Some x0 \<and>
     ln_run list_registry sample_prysm serving_env (\<lambda>a. None) [] x0 [Interrupt] = Some x \<and>
     ln_run list_registry sample_prysm serving_env (\<lambda>a. None) [] x (close_steps (close_at x)) = Some x' \<and> stopClosed x'"
proof -
  obtain x0 where x0: "main_start list_registry sample_flags (\<lambda>f. None) = Some x0" "set (started x0) = {Sync_ref, Rpc_ref}"
    "\<not> stopClosed x0" "interrupts x0 = 0"
    using sample_start by auto
  have p: "ln_possible list_registry sample_prysm serving_env (\<lambda>a. None) [] x0 [Interrupt]" using x0 by (auto simp: ln_occurs_def)
  obtain x where x: "ln_run list_registry sample_prysm serving_env (\<lambda>a. None) [] x0 [Interrupt] = Some x" "\<not> stopClosed x"
    using x0 by simp
  from node_shutdown [OF list_registry_ok x0(1) p x(1)] x x0(1) show ?thesis by auto
qed

end
