(* ===== verification/Spec2Isabelle.thy ===== *)
theory Spec2Isabelle
  imports Go_Prelude Go_Net Bytesutil Gindex Ssz_State Tree_State Light_Client Base64 Sync_Service Node_Table
    Table_Accounting Table_Queries Node_Lookup Table_Loop V5_Msg V5_Session V5_Codec V5_Codec_Total V5_Nodes Talk_Ext
    V5_Dispatch V5_Dispatch_Inv V5_Transport V5_Transport_Props Udp_Socket V5_Read
    V4_Wire V4_Udp V4_Loop V4_Transport V4_Props V4_Read Ntp Portal_Node Light_Node
begin

text \<open>
  \<^bold>\<open>A verification of go-light-eth, an Ethereum light client in Go.\<close>

  \<^bold>\<open>The program.\<close> It has two halves. The consensus half (\<^verbatim>\<open>internal/consensus\<close>, \<^verbatim>\<open>pkg/encoding\<close>) follows the beacon
  chain as a light client: it fetches updates from a full node, checks their Merkle branches and committee
  signatures, keeps a store of headers and sync committees, and serves its headers over RPC. The networking half (\<^verbatim>\<open>pkg/discover\<close>,
  \<^verbatim>\<open>pkg/portalnet\<close>) is a node discovery protocol with a Kademlia table, iterative lookups, two transports for them (v4 with signed
  packets and v5 with encrypted sessions) and a talk extension for messages that do not fit one packet.

  \<^bold>\<open>How the model reads.\<close> A function of the source is a definition of the same name. The type \<open>'a go\<close> is \<open>'a option\<close>, where
  \<open>None\<close> is a panic or the end of the process; an error value is the left side of a sum. Structs are records, machine
  integers are words, Go's \<open>int\<close> is \<open>int\<close> or \<open>nat\<close>. A pointer whose identity matters (a table node, a session, a call, a reply matcher) is a number
  that indexes a field of the state. Third-party code (the SSZ tree library, hashes, BLS, secp256k1, AES-GCM, RLP,
  the LRU cache, \<^verbatim>\<open>netutil\<close>, \<^verbatim>\<open>enode\<close>, JSON decoding) enters as fields of a library record that the definitions take as an
  argument, with the laws the code relies on as named predicates; each has an instance that satisfies its laws. Random
  bytes, clocks and the network are arguments. Concurrency is a sequence of events or choices over which the theorems quantify.

  \<^bold>\<open>Theories and parts.\<close>

  \<^item> \<open>Go_Prelude\<close>: the panic monad, slices, byte orders with their codec interface, runs of event machines (the locale
    \<open>event_machine\<close>), binary search. \<open>Go_Net\<close>: addresses, their printed form and big-endian numbers.
  \<^item> \<open>Bytesutil\<close> (\<^verbatim>\<open>bytesutil/bytes.go\<close>) and \<open>Gindex\<close> (\<^verbatim>\<open>ztype/gindex.go\<close>): conversions, bit lists and generalized indices on
    wrapping words. Shown: round trips, bit-exact effects, agreement of the optimised searches with bit by bit ones, the
    aliasing of \<open>FromBytes4\<close>, and the path semantics of concatenated indices.
  \<^item> \<open>Ssz_State\<close> (\<^verbatim>\<open>ztype/types.go\<close>) and \<open>Tree_State\<close> (\<^verbatim>\<open>tree/state.go\<close>): the Altair state, its generalized indices, leaves and branches. Shown:
    a state's branches verify against its root, two accepted branches for different leaves exhibit a collision of the hash, and
    the indices of the specification.
  \<^item> \<open>Light_Client\<close> (\<^verbatim>\<open>verify.go\<close>, \<^verbatim>\<open>update.go\<close>, \<^verbatim>\<open>unsorted.go\<close>), \<open>Base64\<close> and \<open>Sync_Service\<close> (\<^verbatim>\<open>service.go\<close>): validation of updates, the store,
    skip sync, the slot loop and snapshots. Shown: validation is exactly the conjunction of its checks, with the indices of the Merkle proofs spelled out; processing moves
    the optimistic header only forward; the slot loop keeps the store complete and panics exactly on updates with fields of the wrong size; skip sync
    ends, snapshots are recovered; and, as defects, that one such update ends the client, that processing ignores validation, that finality
    is only reached by timeout, that committees are never renewed and that the trusted root is only a lookup key, so that a server can
    make the client start from any committees.
  \<^item> \<open>Light_Node\<close> (\<^verbatim>\<open>node/node.go\<close>, \<^verbatim>\<open>rpc\<close>, \<^verbatim>\<open>cmd/consensus\<close>): the sync service and the RPC service in one process, from the flags to the signal that ends it, as
    steps of their goroutines that interleave. Shown: the heads served never go back, the node shuts down in a bounded number of steps with both
    services stopped; and, as a defect, that a request before the store is initialised ends the process.
  \<^item> \<open>Node_Table\<close>, \<open>Table_Accounting\<close>, \<open>Table_Queries\<close> (\<^verbatim>\<open>table.go\<close>, \<^verbatim>\<open>node.go\<close>): the buckets, replacements and per-network counters. Shown: the
    invariant over every sequence of operations, the address limits as long as \<open>delete\<close> is called for entries only and no failed
    revalidation finds its node under a new address, that queries return the closest nodes, and that the insertion by binary search is
    insertion into a sorted list; and, as defects, that without either condition the counters fall short and a limit is exceeded.
  \<^item> \<open>Node_Lookup\<close> (\<^verbatim>\<open>lookup.go\<close>): the iterative search with its goroutines and reply channel as a sequence of scheduler choices. Shown: the
    bound on parallel queries, that nobody is asked twice, the result, and termination with a bound on the choices. The
    iterator's loop takes fuel, one unit per lookup it starts.
  \<^item> \<open>Table_Loop\<close> (\<^verbatim>\<open>loop\<close>, \<^verbatim>\<open>refresh\<close>, \<^verbatim>\<open>doRefresh\<close> of \<^verbatim>\<open>table.go\<close>): the scheduling of refreshes and revalidations. Shown: no channel is closed twice, at
    most one goroutine of each kind runs, and every caller that waits for a refresh is released, also when the table closes.
  \<^item> \<open>V5_Msg\<close>, \<open>V5_Session\<close>, \<open>V5_Codec\<close>, \<open>V5_Codec_Total\<close> (\<^verbatim>\<open>v5wire\<close>): packets, key derivation, the session cache and the byte format. Shown: the
    handshake establishes matching keys, messages survive an established session, handshakes are accepted only as answers to
    outstanding challenges, signed over the ephemeral key in the datagram, and neither direction ever panics.
  \<^item> \<open>V5_Nodes\<close>, \<open>V5_Dispatch\<close>, \<open>V5_Dispatch_Inv\<close>, \<open>V5_Transport\<close>, \<open>V5_Transport_Props\<close> (\<^verbatim>\<open>v5_udp.go\<close>): the FINDNODE exchange; the calls, timers,
    channels and handlers of the dispatch goroutine. The codec enters the transport through the locale \<open>transport\<close>, as it does through the interface
    \<open>codecV5\<close> of the source, and is interpreted by the modelled codec. Shown: absence of panics under every interleaving with
    the clients, a refinement of one queue of calls per node, the absence of deadlocks with a bounded way to the front for every waiting call, the
    types of responses; and, as defects, a malformed talk message that ends the process and a closing loop that can block.
  \<^item> \<open>Udp_Socket\<close>, \<open>V5_Read\<close> (\<^verbatim>\<open>readLoop\<close>, \<^verbatim>\<open>dispatch\<close> and \<^verbatim>\<open>Close\<close> of \<^verbatim>\<open>v5_udp.go\<close>) and \<open>V4_Read\<close> (\<^verbatim>\<open>readLoop\<close> of \<^verbatim>\<open>v4_udp.go\<close>): the goroutines that read the socket
    into one buffer, beside the transports. A packet on its way is a slice of that buffer. Shown: the v5 goroutines refine the dispatch
    machine, which sees the packets of the socket in order and unchanged, and the v4 loop shows every datagram to its transport once; and, as
    defects, that a temporary read error stops the v5 reader for ever and that unhandled v4 packets are overwritten in their channel.
  \<^item> \<open>V4_Wire\<close> (\<^verbatim>\<open>v4wire/v4wire.go\<close>, the keys of \<^verbatim>\<open>node.go\<close>), \<open>V4_Udp\<close>, \<open>V4_Loop\<close>, \<open>V4_Transport\<close>, \<open>V4_Props\<close> (\<^verbatim>\<open>v4_udp.go\<close>): signed packets; the
    queue of reply matchers with its timer, the requests, the handlers and bonding. A matcher's callback is the constructor for the closure
    that the source passes, and a run is any sequence of packets, timer events, requests and closing. Shown: packets survive the wire and
    carry the key of their signer; no panic and no blocked loop, with exactly one result for every request that has left the queue; when
    each kind of request succeeds, and with which reply; nothing is sent to an unproven endpoint but a pong and a ping; and, if the
    clock does not go back, every request ends. The transport imports the package \<^verbatim>\<open>v4wire\<close> of go-ethereum, of which the repository has a copy:
    it is modelled by that copy. As a defect: the loops over the queue stop at the element they remove.
  \<^item> \<open>Ntp\<close> (\<^verbatim>\<open>ntp.go\<close>): the clock check that the v4 loop starts after many timeouts; its network exchanges are arguments. Shown: the time in a reply is
    computed without overflow, and one false measurement on either side does not move the result.
  \<^item> \<open>Talk_Ext\<close> (\<^verbatim>\<open>talk_ext.go\<close>, \<^verbatim>\<open>portalnet/queue.go\<close>, \<^verbatim>\<open>portalnet/talk-ext.go\<close>): splitting and reassembly of long messages, the queue of the fake
    connection. Shown: reassembly from packets in any order; and, as defects, the wait for the wrong number of packets, the
    unrecognised protocol names and the queue that keeps its last element.
  \<^item> \<open>Portal_Node\<close> (\<^verbatim>\<open>portalnet/discovery2.go\<close>, the rest of \<^verbatim>\<open>portalnet/talk-ext.go\<close>, \<^verbatim>\<open>sctp-ping-pong/pong/conn.go\<close>): starting a v5 node with fixed identities, its talk
    handlers and its requests. Shown: what the handlers answer through the transport, and to whom the demo's connection replies; as a defect, that
    every response has ten thousand bytes.

  \<^bold>\<open>Bounds and fuel.\<close> Loops over data are structural or have a termination proof. Fuel appears in three places: the iterator's \<open>Next\<close>,
  which may start lookups for ever; \<open>lookupDistances\<close>, for which three rounds are shown to be enough; and the rounds of skip sync,
  which are those the server's replies give. A schedule that is too short yields a waiting state, never a result.

  \<^bold>\<open>Not modelled.\<close> The two programs of the SCTP demo, the debug commands and the logging helpers, which only print; functions that
  nothing calls (\<^verbatim>\<open>saveKey\<close>, \<^verbatim>\<open>kept.go\<close>); the bodies of third-party code. Errors of writes to the UDP socket are dropped by the source and not
  represented. The endpoint prediction of the local node is recorded, not computed. Sleeping and timers have no duration, except where a
  deadline decides what happens.
\<close>

end
